(* ===== verification/Prelude.thy ===== *)
theory Prelude
  imports Main "HOL-Library.Word" "HOL-Library.List_Lexorder" "HOL-Library.Char_ord" "HOL-Library.Sublist"
begin

text \<open>
  Shared base of the development: the machine integer types, the errors that \<^verbatim>\<open>THROW\<close> raises
  (\<^verbatim>\<open>src/src/common/error\<close>), the result type of code that can throw, and the generic lemmas on
  lists, words and results that the component theories use.

  Conventions.  A C function that can throw returns \<open>error + 'a\<close>; \<open>bindR\<close> sequences two such
  calls the way \<^verbatim>\<open>longjmp\<close> out of the first would.  \<^verbatim>\<open>ASSERT\<close> compiles to nothing in production
  builds, so it is never a branch of a definition: what it asserts is a hypothesis of the lemmas that
  need it.  \<^verbatim>\<open>CHECK\<close> and \<^verbatim>\<open>THROW\<close> survive in production and are branches.  Memory contexts, logging
  and \<^verbatim>\<open>FUNCTION_*\<close> macros have no counterpart.  Strings are \<open>char list\<close>s without the terminating
  zero; the order on them is the byte order that \<^verbatim>\<open>strcmp\<close> uses.
\<close>

unbundle bit_operations_syntax

type_synonym byte = "8 word"
type_synonym u32 = "32 word"
type_synonym u64 = "64 word"

named_theorems wal_simps \<open>rewrite rules on WAL segment names\<close>
named_theorems res_simps \<open>rewrite rules on results that may be errors\<close>
named_theorems varint_simps \<open>rewrite rules on variable-length integers\<close>

section \<open>Errors and results\<close>

text \<open>
  The error types of \<^verbatim>\<open>error.auto.h\<close> that modelled code throws.  \<open>ErrorCode\<close> is \<^verbatim>\<open>THROW_CODE\<close>;
  \<open>UndefinedBehavior\<close> marks an execution that C leaves undefined (a read outside an array, a free of
  a pointer that was never allocated).
\<close>

datatype error =
    AssertError | FormatError | OptionInvalidError | OptionInvalidValueError | OptionRequiredError
  | FileReadError | FileMissingError | FileOpenError | ArchiveDuplicateError | ArchiveTimeoutError | DbMismatchError
  | ArchiveMismatchError | RepoInvalidError | ParamRequiredError | ParamInvalidError
  | PathMissingError | StopError | BackupSetInvalidError | CommandError | FileInvalidError | ErrorCode int | UndefinedBehavior

type_synonym 'a res = "error + 'a"

definition bindR :: "'a res \<Rightarrow> ('a \<Rightarrow> 'b res) \<Rightarrow> 'b res" where
  "bindR m f = (case m of Inl e \<Rightarrow> Inl e | Inr x \<Rightarrow> f x)"

lemma bindR_simps [simp, res_simps]:
  "bindR (Inl e) f = Inl e"
  "bindR (Inr x) f = f x"
  by (simp_all add: bindR_def)

lemma bindR_Inr_iff [res_simps]: "bindR m f = Inr y \<longleftrightarrow> (\<exists>x. m = Inr x \<and> f x = Inr y)"
  by (cases m) auto

lemma bindR_Inl_iff [res_simps]:
  "bindR m f = Inl e \<longleftrightarrow> m = Inl e \<or> (\<exists>x. m = Inr x \<and> f x = Inl e)"
  by (cases m) auto

lemma bindR_cong [fundef_cong]:
  "m = m' \<Longrightarrow> (\<And>x. m' = Inr x \<Longrightarrow> f x = g x) \<Longrightarrow> bindR m f = bindR m' g"
  by (cases m') auto

section \<open>Bytes of a character\<close>

definition byte_of_char :: "char \<Rightarrow> byte" where
  "byte_of_char c = word_of_nat (of_char c)"

lemma of_char_less_256 [simp]: "(of_char c :: nat) < 256"
  by (metis of_char_mod_256 mod_less_divisor zero_less_numeral)

lemma unat_byte_of_char [simp]: "unat (byte_of_char c) = of_char c"
  by (simp add: byte_of_char_def unat_of_nat)

lemma of_char_nat_inject [simp]: "(of_char c :: nat) = of_char d \<longleftrightarrow> c = d"
  by (rule of_char_eq_iff)

section \<open>Lists\<close>

lemma nth_append_exact [simp]: "n = length xs \<Longrightarrow> (xs @ y # ys) ! n = y"
  by simp

lemma list_update_append_exact: "n = length xs \<Longrightarrow> (xs @ y # ys)[n := z] = xs @ z # ys"
  by simp

end
