(* ===== verification/CLib.thy ===== *)
theory CLib
  imports Prelude
begin

text \<open>
  The parts of the C library that the modelled code calls: \<^verbatim>\<open>strtoull\<close>, \<^verbatim>\<open>isspace\<close>, the \<^verbatim>\<open>printf\<close>
  conversions \<^verbatim>\<open>%u\<close>, \<^verbatim>\<open>%x\<close>, \<^verbatim>\<open>%X\<close> and \<^verbatim>\<open>%08X\<close>, and \<^verbatim>\<open>strstr\<close>-style splitting.  Their behaviour is
  that of the C standard, the base of the development.
\<close>

section \<open>Numerals\<close>

definition isspace :: "char \<Rightarrow> bool" where
  "isspace c \<longleftrightarrow> c = CHR '' '' \<or> (9 \<le> (of_char c :: nat) \<and> (of_char c :: nat) \<le> 13)"

text \<open>The value of a character as a digit, in any base up to 36.\<close>

definition digit_of_char :: "char \<Rightarrow> nat option" where
  "digit_of_char c =
     (let n = of_char c in
      if 48 \<le> n \<and> n \<le> 57 then Some (n - 48)
      else if 97 \<le> n \<and> n \<le> 122 then Some (n - 87)
      else if 65 \<le> n \<and> n \<le> 90 then Some (n - 55)
      else None)"

definition is_digit_in :: "nat \<Rightarrow> char \<Rightarrow> bool" where
  "is_digit_in base c = (case digit_of_char c of None \<Rightarrow> False | Some d \<Rightarrow> d < base)"

definition digits_val :: "nat \<Rightarrow> string \<Rightarrow> nat" where
  "digits_val base = foldl (\<lambda>n c. n * base + the (digit_of_char c)) 0"

definition strip_hex_prefix :: "nat \<Rightarrow> string \<Rightarrow> string" where
  "strip_hex_prefix base s =
     (case s of
        z # x # d # r \<Rightarrow>
          if base = 16 \<and> z = CHR ''0'' \<and> (x = CHR ''x'' \<or> x = CHR ''X'') \<and> is_digit_in 16 d then d # r else s
      | _ \<Rightarrow> s)"

text \<open>\<open>strtoull s base\<close> is the value, the unread rest (\<^verbatim>\<open>endptr\<close>) and whether \<^verbatim>\<open>errno\<close> was set.\<close>

definition strtoull :: "string \<Rightarrow> nat \<Rightarrow> u64 \<times> string \<times> bool" where
  "strtoull s base =
     (let s1 = dropWhile isspace s;
          neg = (s1 \<noteq> [] \<and> hd s1 = CHR ''-'');
          s2 = (if s1 \<noteq> [] \<and> (hd s1 = CHR ''-'' \<or> hd s1 = CHR ''+'') then tl s1 else s1);
          s3 = strip_hex_prefix base s2;
          ds = takeWhile (is_digit_in base) s3;
          n = digits_val base ds
      in if ds = [] then (0, s, False)
         else if n \<ge> 2 ^ 64 then (- 1, drop (length ds) s3, True)
         else (if neg then - of_nat n else of_nat n, drop (length ds) s3, False))"

text \<open>\<open>strtol\<close> where the unread rest and \<^verbatim>\<open>errno\<close> are ignored, with a 64-bit \<^verbatim>\<open>long\<close>.\<close>

definition strtol :: "string \<Rightarrow> nat \<Rightarrow> int" where
  "strtol s base =
     (let s1 = dropWhile isspace s;
          neg = (s1 \<noteq> [] \<and> hd s1 = CHR ''-'');
          s2 = (if s1 \<noteq> [] \<and> (hd s1 = CHR ''-'' \<or> hd s1 = CHR ''+'') then tl s1 else s1);
          n = int (digits_val base (takeWhile (is_digit_in base) (strip_hex_prefix base s2)))
      in if neg then max (- (2 ^ 63)) (- n) else min (2 ^ 63 - 1) n)"

text \<open>\<open>strtoll\<close> with the unread rest and whether \<^verbatim>\<open>errno\<close> was set.\<close>

definition strtoll :: "string \<Rightarrow> nat \<Rightarrow> int \<times> string \<times> bool" where
  "strtoll s base =
     (let s1 = dropWhile isspace s;
          neg = (s1 \<noteq> [] \<and> hd s1 = CHR ''-'');
          s2 = (if s1 \<noteq> [] \<and> (hd s1 = CHR ''-'' \<or> hd s1 = CHR ''+'') then tl s1 else s1);
          s3 = strip_hex_prefix base s2;
          ds = takeWhile (is_digit_in base) s3;
          n = (if neg then - int (digits_val base ds) else int (digits_val base ds))
      in if ds = [] then (0, s, False)
         else if n < - (2 ^ 63) then (- (2 ^ 63), drop (length ds) s3, True)
         else if n \<ge> 2 ^ 63 then (2 ^ 63 - 1, drop (length ds) s3, True)
         else (n, drop (length ds) s3, False))"

section \<open>Printing numerals\<close>

function digits_of :: "nat \<Rightarrow> nat \<Rightarrow> nat list" where
  "digits_of base n = (if n < base \<or> base < 2 then [n] else digits_of base (n div base) @ [n mod base])"
  by pat_completeness auto
termination by (relation "measure snd") auto

declare digits_of.simps [simp del]

definition digit_lower :: "nat \<Rightarrow> char" where
  "digit_lower d = char_of (if d < 10 then 48 + d else 87 + d)"

definition digit_upper :: "nat \<Rightarrow> char" where
  "digit_upper d = char_of (if d < 10 then 48 + d else 55 + d)"

definition fmt_u :: "nat \<Rightarrow> string" where
  "fmt_u n = map digit_lower (digits_of 10 n)"

text \<open>\<^verbatim>\<open>%d\<close>\<close>

definition fmt_d :: "int \<Rightarrow> string" where
  "fmt_d i = (if i < 0 then CHR ''-'' # fmt_u (nat (- i)) else fmt_u (nat i))"

definition fmt_x :: "nat \<Rightarrow> string" where
  "fmt_x n = map digit_lower (digits_of 16 n)"

definition fmt_X :: "nat \<Rightarrow> string" where
  "fmt_X n = map digit_upper (digits_of 16 n)"

definition fmt_08X :: "nat \<Rightarrow> string" where
  "fmt_08X n = replicate (8 - length (fmt_X n)) (CHR ''0'') @ fmt_X n"

section \<open>Parsing what was printed\<close>

lemma digit_of_char_lower [simp]: "d < 36 \<Longrightarrow> digit_of_char (digit_lower d) = Some d"
  by (auto simp: digit_of_char_def digit_lower_def Let_def of_char_of)

lemma digit_of_char_upper [simp]: "d < 36 \<Longrightarrow> digit_of_char (digit_upper d) = Some d"
  by (auto simp: digit_of_char_def digit_upper_def Let_def of_char_of)

lemma digits_of_less: "2 \<le> base \<Longrightarrow> d \<in> set (digits_of base n) \<Longrightarrow> d < base"
  by (induction base n rule: digits_of.induct) (subst (asm) (2) digits_of.simps, auto split: if_splits)

lemma digits_of_not_Nil [simp]: "digits_of base n \<noteq> []"
  by (subst digits_of.simps) simp

lemma digits_val_append_one:
  "digits_val base (s @ [c]) = digits_val base s * base + the (digit_of_char c)"
  by (simp add: digits_val_def)

lemma digits_val_print:
  assumes "2 \<le> base" "\<And>d. d < base \<Longrightarrow> digit_of_char (f d) = Some d"
  shows "digits_val base (map f (digits_of base n)) = n"
proof (induction n rule: less_induct)
  case (less n)
  show ?case
  proof (cases "n < base")
    case True
    then show ?thesis using assms by (simp add: digits_of.simps digits_val_def)
  next
    case False
    then have "n div base < n" using assms(1) by (intro div_less_dividend) auto
    then have "digits_val base (map f (digits_of base (n div base))) = n div base" by (rule less.IH)
    then show ?thesis using False assms
      by (subst digits_of.simps) (simp add: digits_val_append_one)
  qed
qed

lemma is_digit_in_print:
  assumes "2 \<le> base" "\<And>d. d < base \<Longrightarrow> digit_of_char (f d) = Some d" "c \<in> set (map f (digits_of base n))"
  shows "is_digit_in base c"
  using assms digits_of_less [OF assms(1)] by (auto simp: is_digit_in_def)

lemma is_digit_in_not_space: "is_digit_in base c \<Longrightarrow> \<not> isspace c"
  by (auto simp: is_digit_in_def isspace_def digit_of_char_def Let_def split: option.splits if_splits)

lemma is_digit_in_not_sign: "is_digit_in base c \<Longrightarrow> c \<noteq> CHR ''-'' \<and> c \<noteq> CHR ''+''"
  by (auto simp: is_digit_in_def digit_of_char_def Let_def)

lemma strip_hex_prefix_digits: "base \<le> 16 \<Longrightarrow> \<forall>c\<in>set s. is_digit_in base c \<Longrightarrow> strip_hex_prefix base s = s"
  by (auto simp: strip_hex_prefix_def is_digit_in_def digit_of_char_def Let_def split: list.splits)

lemma strtoull_digits:
  assumes "s \<noteq> []" "\<forall>c\<in>set s. is_digit_in base c" "base \<le> 16" "digits_val base s < 2 ^ 64"
  shows "strtoull s base = (of_nat (digits_val base s), [], False)"
proof -
  obtain c r where s: "s = c # r" using assms(1) by (cases s) auto
  have c: "\<not> isspace c" "c \<noteq> CHR ''-''" "c \<noteq> CHR ''+''"
    using assms(2) s is_digit_in_not_space is_digit_in_not_sign by auto
  have sp: "dropWhile isspace s = s" using s c by simp
  have tw: "takeWhile (is_digit_in base) s = s" using assms(2) by (simp add: takeWhile_eq_all_conv)
  have hd: "hd s = c" using s by simp
  show ?thesis using assms c
    by (simp add: strtoull_def sp tw hd strip_hex_prefix_digits Let_def)
qed

lemma strtol_digits:
  assumes "s \<noteq> []" "\<forall>c\<in>set s. is_digit_in base c" "base \<le> 16" "digits_val base s < 2 ^ 63"
  shows "strtol s base = int (digits_val base s)"
proof -
  obtain c r where s: "s = c # r" using assms(1) by (cases s) auto
  have c: "\<not> isspace c" "c \<noteq> CHR ''-''" "c \<noteq> CHR ''+''"
    using assms(2) s is_digit_in_not_space is_digit_in_not_sign by auto
  have sp: "dropWhile isspace s = s" using s c by simp
  have tw: "takeWhile (is_digit_in base) s = s" using assms(2) by (simp add: takeWhile_eq_all_conv)
  have hd: "hd s = c" using s by simp
  show ?thesis using assms c
    by (simp add: strtol_def sp tw hd strip_hex_prefix_digits Let_def)
qed

lemma fmt_u_digits: "c \<in> set (fmt_u n) \<Longrightarrow> is_digit_in 10 c"
  unfolding fmt_u_def using is_digit_in_print [of 10 digit_lower c n] by simp

lemma fmt_u_not_Nil [simp]: "fmt_u n \<noteq> []"
  by (simp add: fmt_u_def)

lemma digits_val_fmt_u [simp]: "digits_val 10 (fmt_u n) = n"
  by (simp add: fmt_u_def digits_val_print)

lemma hd_fmt_u: "\<not> isspace (hd (fmt_u n))" "hd (fmt_u n) \<noteq> CHR ''-''" "hd (fmt_u n) \<noteq> CHR ''+''"
proof -
  have "is_digit_in 10 (hd (fmt_u n))"
    by (rule fmt_u_digits [of _ n]) simp
  then show "\<not> isspace (hd (fmt_u n))" "hd (fmt_u n) \<noteq> CHR ''-''" "hd (fmt_u n) \<noteq> CHR ''+''"
    using is_digit_in_not_space is_digit_in_not_sign by blast+
qed

lemma strtoll_fmt_d:
  assumes "- (2 ^ 63) \<le> i" "i < 2 ^ 63"
  shows "strtoll (fmt_d i) 10 = (i, [], False)"
proof -
  have tw: "takeWhile (is_digit_in 10) (fmt_u n) = fmt_u n" for n
    by (simp add: takeWhile_eq_all_conv fmt_u_digits)
  have sp: "dropWhile isspace (fmt_u n) = fmt_u n" for n
    using hd_fmt_u(1) [of n] by (cases "fmt_u n") simp_all
  have sh: "strip_hex_prefix 10 (fmt_u n) = fmt_u n" for n
    by (rule strip_hex_prefix_digits) (simp_all add: fmt_u_digits)
  have ns: "\<not> isspace CHR ''-''" by (simp add: isspace_def)
  show ?thesis
  proof (cases "i < 0")
    case True
    then show ?thesis using assms
      by (simp add: strtoll_def fmt_d_def ns tw sh Let_def)
  next
    case False
    then show ?thesis using assms hd_fmt_u [of "nat i"]
      by (simp add: strtoll_def fmt_d_def sp tw sh Let_def)
  qed
qed

lemma digits_of_length: "n < base ^ Suc k \<Longrightarrow> 2 \<le> base \<Longrightarrow> length (digits_of base n) \<le> Suc k"
proof (induction k arbitrary: n)
  case 0
  then show ?case by (simp add: digits_of.simps)
next
  case (Suc k)
  have "n div base < base ^ Suc k" using Suc.prems by (simp add: less_mult_imp_div_less mult.commute)
  then have "length (digits_of base (n div base)) \<le> Suc k" using Suc.IH Suc.prems(2) by blast
  then show ?case by (subst digits_of.simps) simp
qed

lemma digits_val_zeros: "digits_val base (replicate k (CHR ''0'') @ s) = digits_val base s"
proof -
  have "foldl (\<lambda>n c. n * base + the (digit_of_char c)) 0 (replicate k (CHR ''0'')) = 0"
    by (induction k) (simp_all add: digit_of_char_def)
  then show ?thesis by (simp add: digits_val_def)
qed

lemma length_fmt_08X: "n < 2 ^ 32 \<Longrightarrow> length (fmt_08X n) = 8"
  using digits_of_length [of n 16 7] by (simp add: fmt_08X_def fmt_X_def)

lemma digits_val_fmt_08X [simp]: "digits_val 16 (fmt_08X n) = n"
  by (simp add: fmt_08X_def fmt_X_def digits_val_zeros digits_val_print)

lemma is_digit_in_fmt_08X: "c \<in> set (fmt_08X n) \<Longrightarrow> is_digit_in 16 c"
proof -
  assume "c \<in> set (fmt_08X n)"
  then have "c = CHR ''0'' \<or> c \<in> set (map digit_upper (digits_of 16 n))"
    by (auto simp: fmt_08X_def fmt_X_def split: if_splits)
  moreover have "is_digit_in 16 (CHR ''0'')" by (simp add: is_digit_in_def digit_of_char_def)
  ultimately show ?thesis using is_digit_in_print [of 16 digit_upper c n] by auto
qed

lemma fmt_08X_inject: "fmt_08X m = fmt_08X n \<Longrightarrow> m = n"
  by (metis digits_val_fmt_08X)

section \<open>Order of fixed-width numerals\<close>

fun hexw :: "nat \<Rightarrow> nat \<Rightarrow> string" where
  "hexw 0 n = []"
| "hexw (Suc k) n = hexw k (n div 16) @ [digit_upper (n mod 16)]"

lemma length_hexw [simp]: "length (hexw k n) = k"
  by (induction k arbitrary: n) auto

lemma digit_upper_zero [simp]: "digit_upper 0 = CHR ''0''"
  by code_simp

lemma hexw_zero [simp]: "hexw k 0 = replicate k (CHR ''0'')"
  by (induction k) (simp_all add: replicate_append_same)

lemma hexw_eq_digits:
  "n < 16 ^ Suc k \<Longrightarrow>
   hexw (Suc k) n = replicate (Suc k - length (digits_of 16 n)) (CHR ''0'') @ map digit_upper (digits_of 16 n)"
proof (induction k arbitrary: n)
  case 0
  then show ?case by (simp add: digits_of.simps)
next
  case (Suc k)
  show ?case
  proof (cases "n < 16")
    case True
    then show ?thesis by (simp add: digits_of.simps [of 16 n] replicate_append_same [symmetric] del: replicate.simps)
  next
    case False
    have "n div 16 < 16 ^ Suc k" using Suc.prems by (simp add: less_mult_imp_div_less)
    then have "hexw (Suc k) (n div 16) =
      replicate (Suc k - length (digits_of 16 (n div 16))) (CHR ''0'') @ map digit_upper (digits_of 16 (n div 16))"
      by (rule Suc.IH)
    moreover have "digits_of 16 n = digits_of 16 (n div 16) @ [n mod 16]"
      using False by (subst digits_of.simps) simp
    ultimately show ?thesis by (simp only: hexw.simps(2) [of "Suc k"] append_assoc) simp
  qed
qed

lemma fmt_08X_hexw: "n < 2 ^ 32 \<Longrightarrow> fmt_08X n = hexw 8 n"
  using hexw_eq_digits [of n 7] by (simp add: fmt_08X_def fmt_X_def del: hexw.simps)

lemma append_one_less_iff:
  fixes xs ys :: "'a::linorder list"
  shows "length xs = length ys \<Longrightarrow> xs @ [a] < ys @ [b] \<longleftrightarrow> xs < ys \<or> xs = ys \<and> a < b"
  by (induction xs ys rule: list_induct2) auto

lemma append_less_iff:
  fixes xs ys :: "'a::linorder list"
  shows "length xs = length ys \<Longrightarrow> xs @ us < ys @ vs \<longleftrightarrow> xs < ys \<or> xs = ys \<and> us < vs"
  by (induction xs ys rule: list_induct2) auto

lemma digit_upper_less_iff: "d < 16 \<Longrightarrow> e < 16 \<Longrightarrow> digit_upper d < digit_upper e \<longleftrightarrow> d < e"
  by (auto simp: digit_upper_def less_char_def of_char_of)

lemma less_iff_div_mod:
  fixes m n b :: nat
  assumes "0 < b"
  shows "m < n \<longleftrightarrow> m div b < n div b \<or> m div b = n div b \<and> m mod b < n mod b"
proof (cases "m div b" "n div b" rule: linorder_cases)
  case equal
  then show ?thesis
    using div_mult_mod_eq [of m b] div_mult_mod_eq [of n b] by (metis nat_add_left_cancel_less less_irrefl)
next
  case less
  then have "m < n" by (metis div_le_mono not_le)
  with less show ?thesis by simp
next
  case greater
  then have "n < m" by (metis div_le_mono not_le)
  with greater show ?thesis by simp
qed

lemma hexw_less_iff: "m < 16 ^ k \<Longrightarrow> n < 16 ^ k \<Longrightarrow> hexw k m < hexw k n \<longleftrightarrow> m < n"
proof (induction k arbitrary: m n)
  case (Suc k)
  have lt: "m div 16 < 16 ^ k" "n div 16 < 16 ^ k"
    using Suc.prems by (simp_all add: less_mult_imp_div_less)
  have less: "hexw k (m div 16) < hexw k (n div 16) \<longleftrightarrow> m div 16 < n div 16"
    and gt: "hexw k (n div 16) < hexw k (m div 16) \<longleftrightarrow> n div 16 < m div 16"
    by (rule Suc.IH; rule lt)+
  have eq: "hexw k (m div 16) = hexw k (n div 16) \<longleftrightarrow> m div 16 = n div 16"
    using less gt by (metis less_irrefl linorder_neqE_nat)
  have "m < n \<longleftrightarrow> m div 16 < n div 16 \<or> m div 16 = n div 16 \<and> m mod 16 < n mod 16"
    by (rule less_iff_div_mod) simp
  then show ?case by (simp add: append_one_less_iff less eq digit_upper_less_iff)
qed simp

lemma fmt_08X_less_iff: "m < 2 ^ 32 \<Longrightarrow> n < 2 ^ 32 \<Longrightarrow> fmt_08X m < fmt_08X n \<longleftrightarrow> m < n"
  by (simp add: fmt_08X_hexw hexw_less_iff)

section \<open>Splitting\<close>

text \<open>Split at every occurrence of a one-character delimiter; \<open>n\<close> delimiters give \<open>n + 1\<close> parts.\<close>

fun split_char :: "char \<Rightarrow> string \<Rightarrow> string list" where
  "split_char d [] = [[]]"
| "split_char d (c # s) =
     (if c = d then [] # split_char d s
      else (case split_char d s of [] \<Rightarrow> [[c]] | p # ps \<Rightarrow> (c # p) # ps))"

lemma split_char_no_delim: "d \<notin> set s \<Longrightarrow> split_char d s = [s]"
  by (induction s) auto

lemma split_char_append: "d \<notin> set s \<Longrightarrow> split_char d (s @ d # t) = s # split_char d t"
  by (induction s) auto

end
