(* ===== verification/Convert.thy ===== *)
theory Convert
  imports CLib
begin

text \<open>
  \<^verbatim>\<open>src/src/common/type/convert.c\<close> and \<^verbatim>\<open>convert.h\<close>: base-128 variable-length integers, zigzag
  encoding of signed integers, and the strict string to integer parsers built on \<^verbatim>\<open>strtoull\<close>.
  The stream versions of the varint routines (\<^verbatim>\<open>io/read.c\<close>, \<^verbatim>\<open>io/write.c\<close>) read from and append to
  a byte list, the bytes that are still to be read and the bytes written so far.
\<close>

section \<open>Base-128 variable-length integers\<close>

abbreviation CVT_VARINT128_BUFFER_SIZE :: nat where
  "CVT_VARINT128_BUFFER_SIZE \<equiv> 10"

text \<open>
  The writer stores into \<open>buffer\<close> from \<open>bufferPos\<close> on; \<open>bufferSize\<close> is the size the caller passes
  for it.  It throws once the position reaches the size with more bytes to write.
\<close>

function cvtUInt64ToVarInt128 :: "u64 \<Rightarrow> byte list \<Rightarrow> nat \<Rightarrow> nat \<Rightarrow> (byte list \<times> nat) res" where
  "cvtUInt64ToVarInt128 value buffer bufferPos bufferSize =
     (if value \<ge> 0x80 then
        (let buffer' = buffer[bufferPos := ucast value OR 0x80];
             bufferPos' = bufferPos + 1
         in if bufferPos' \<ge> bufferSize then Inl AssertError
            else cvtUInt64ToVarInt128 (drop_bit 7 value) buffer' bufferPos' bufferSize)
      else Inr (buffer[bufferPos := ucast value], bufferPos + 1))"
  by pat_completeness auto
termination
  by (relation "measure (\<lambda>(value, buffer, bufferPos, bufferSize). bufferSize - bufferPos)") auto

declare cvtUInt64ToVarInt128.simps [simp del]

text \<open>The reader's \<^verbatim>\<open>for\<close> loop from iteration \<open>bufferIdx\<close> on, with the bits collected so far.\<close>

function cvtUInt64FromVarInt128_loop :: "byte list \<Rightarrow> nat \<Rightarrow> nat \<Rightarrow> nat \<Rightarrow> u64 \<Rightarrow> (u64 \<times> nat) res" where
  "cvtUInt64FromVarInt128_loop buffer bufferSize bufferIdx bufferPos result =
     (if bufferIdx < CVT_VARINT128_BUFFER_SIZE then
        if bufferPos \<ge> bufferSize then Inl FormatError
        else
          (let byte = buffer ! bufferPos;
               result' = result OR push_bit (7 * bufferIdx) (ucast (byte AND 0x7f))
           in if byte < 0x80 then Inr (result', bufferPos + 1)
              else cvtUInt64FromVarInt128_loop buffer bufferSize (bufferIdx + 1) (bufferPos + 1) result')
      else Inl FormatError)"
  by pat_completeness auto
termination
  by (relation "measure (\<lambda>(buffer, bufferSize, bufferIdx, bufferPos, result). 10 - bufferIdx)") auto

declare cvtUInt64FromVarInt128_loop.simps [simp del]

definition cvtUInt64FromVarInt128 :: "byte list \<Rightarrow> nat \<Rightarrow> nat \<Rightarrow> (u64 \<times> nat) res" where
  "cvtUInt64FromVarInt128 buffer bufferPos bufferSize =
     cvtUInt64FromVarInt128_loop buffer bufferSize 0 bufferPos 0"

text \<open>
  \<^verbatim>\<open>ioWriteVarIntU64\<close> encodes into a ten-byte array on the stack and writes the bytes used;
  \<^verbatim>\<open>ioReadVarIntU64\<close> takes bytes off the stream and throws at its end.
\<close>

definition ioWriteVarIntU64 :: "byte list \<Rightarrow> u64 \<Rightarrow> (byte list) res" where
  "ioWriteVarIntU64 output value =
     bindR (cvtUInt64ToVarInt128 value (replicate 10 0) 0 CVT_VARINT128_BUFFER_SIZE)
       (\<lambda>(buffer, bufferPos). Inr (output @ take bufferPos buffer))"

function ioReadVarIntU64_loop :: "byte list \<Rightarrow> nat \<Rightarrow> u64 \<Rightarrow> (u64 \<times> byte list) res" where
  "ioReadVarIntU64_loop input bufferIdx result =
     (if bufferIdx < CVT_VARINT128_BUFFER_SIZE then
        (case input of
           [] \<Rightarrow> Inl FileReadError
         | byte # input' \<Rightarrow>
             (let result' = result OR push_bit (7 * bufferIdx) (ucast (byte AND 0x7f))
              in if byte < 0x80 then Inr (result', input')
                 else ioReadVarIntU64_loop input' (bufferIdx + 1) result'))
      else Inl FormatError)"
  by pat_completeness auto
termination
  by (relation "measure (\<lambda>(input, bufferIdx, result). 10 - bufferIdx)") auto

declare ioReadVarIntU64_loop.simps [simp del]

definition ioReadVarIntU64 :: "byte list \<Rightarrow> (u64 \<times> byte list) res" where
  "ioReadVarIntU64 input = ioReadVarIntU64_loop input 0 0"

section \<open>Zigzag\<close>

text \<open>
  A signed 64-bit value is its two's complement word; \<open>signed_drop_bit\<close> is the arithmetic right
  shift that the code relies on.
\<close>

definition cvtInt32ToZigZag :: "u32 \<Rightarrow> u32" where
  "cvtInt32ToZigZag value = push_bit 1 value XOR signed_drop_bit 31 value"

definition cvtInt32FromZigZag :: "u32 \<Rightarrow> u32" where
  "cvtInt32FromZigZag value = drop_bit 1 value XOR (NOT (value AND 1) + 1)"

definition cvtInt64ToZigZag :: "u64 \<Rightarrow> u64" where
  "cvtInt64ToZigZag value = push_bit 1 value XOR signed_drop_bit 63 value"

definition cvtInt64FromZigZag :: "u64 \<Rightarrow> u64" where
  "cvtInt64FromZigZag value = drop_bit 1 value XOR (NOT (value AND 1) + 1)"

section \<open>Strict integer parsing\<close>

text \<open>
  \<^verbatim>\<open>cvtZToUInt64Internal\<close> with the checks of \<^verbatim>\<open>cvtZToIntValid\<close>: no \<^verbatim>\<open>errno\<close>, not empty, no leading
  space, nothing left over.  The callers reject the leading minus that \<^verbatim>\<open>strtoull\<close> accepts.
\<close>

definition cvtZToUInt64Internal :: "string \<Rightarrow> nat \<Rightarrow> u64 res" where
  "cvtZToUInt64Internal s base =
     (let (result, endPtr, errNo) = strtoull s base
      in if errNo \<or> s = [] \<or> isspace (hd s) \<or> endPtr \<noteq> [] then Inl FormatError else Inr result)"

definition cvtZToUInt64Base :: "string \<Rightarrow> nat \<Rightarrow> u64 res" where
  "cvtZToUInt64Base s base =
     bindR (cvtZToUInt64Internal s base)
       (\<lambda>result. if hd s = CHR ''-'' then Inl FormatError else Inr result)"

definition cvtZToUIntBase :: "string \<Rightarrow> nat \<Rightarrow> u32 res" where
  "cvtZToUIntBase s base =
     bindR (cvtZToUInt64Internal s base)
       (\<lambda>result. if hd s = CHR ''-'' \<or> result > 0xFFFFFFFF then Inl FormatError else Inr (ucast result))"

definition cvtZToUInt :: "string \<Rightarrow> u32 res" where
  "cvtZToUInt s = cvtZToUIntBase s 10"

definition cvtZSubNToUIntBase :: "string \<Rightarrow> nat \<Rightarrow> nat \<Rightarrow> nat \<Rightarrow> u32 res" where
  "cvtZSubNToUIntBase s offset sz base = cvtZToUIntBase (take sz (drop offset s)) base"

text \<open>The signed parsers; an \<^verbatim>\<open>int\<close> has 32 bits.\<close>

definition cvtZToInt64Internal :: "string \<Rightarrow> nat \<Rightarrow> int res" where
  "cvtZToInt64Internal s base =
     (let (result, endPtr, errNo) = strtoll s base
      in if errNo \<or> s = [] \<or> isspace (hd s) \<or> endPtr \<noteq> [] then Inl FormatError else Inr result)"

definition cvtZToIntBase :: "string \<Rightarrow> nat \<Rightarrow> int res" where
  "cvtZToIntBase s base =
     bindR (cvtZToInt64Internal s base)
       (\<lambda>result. if result > 2 ^ 31 - 1 \<or> result < - (2 ^ 31) then Inl FormatError else Inr result)"

definition cvtZToInt :: "string \<Rightarrow> int res" where
  "cvtZToInt s = cvtZToIntBase s 10"

lemma cvtZToInt_fmt_d:
  assumes "- (2 ^ 31) \<le> i" "i < 2 ^ 31"
  shows "cvtZToInt (fmt_d i) = Inr i"
proof -
  have "strtoll (fmt_d i) 10 = (i, [], False)"
    using assms by (intro strtoll_fmt_d) simp_all
  moreover have "fmt_d i \<noteq> []" by (simp add: fmt_d_def)
  moreover have "\<not> isspace (hd (fmt_d i))"
    by (simp add: fmt_d_def isspace_def [of "CHR ''-''"] hd_fmt_u)
  ultimately show ?thesis
    using assms by (simp add: cvtZToInt_def cvtZToIntBase_def cvtZToInt64Internal_def)
qed

lemma cvtZToUInt64Base_digits:
  assumes "s \<noteq> []" "\<forall>c\<in>set s. is_digit_in base c" "base \<le> 16" "digits_val base s < 2 ^ 64"
  shows "cvtZToUInt64Base s base = Inr (of_nat (digits_val base s))"
proof -
  have "hd s \<in> set s" using assms(1) by simp
  then have h: "is_digit_in base (hd s)" using assms(2) by blast
  show ?thesis
    using assms(1) is_digit_in_not_space [OF h] is_digit_in_not_sign [OF h]
    by (simp add: cvtZToUInt64Base_def cvtZToUInt64Internal_def strtoull_digits [OF assms])
qed

lemma cvtZToUIntBase_digits:
  assumes "s \<noteq> []" "\<forall>c\<in>set s. is_digit_in base c" "base \<le> 16" "digits_val base s < 2 ^ 32"
  shows "cvtZToUIntBase s base = Inr (of_nat (digits_val base s))"
proof -
  have "hd s \<in> set s" using assms(1) by simp
  then have h: "is_digit_in base (hd s)" using assms(2) by blast
  have lt: "digits_val base s < 2 ^ 64" using assms(4) by simp
  have "\<not> (of_nat (digits_val base s) :: u64) > 0xFFFFFFFF"
    using assms(4) by (simp add: word_less_nat_alt unat_of_nat)
  moreover have "(ucast (of_nat (digits_val base s) :: u64) :: u32) = of_nat (digits_val base s)"
    using lt by (simp add: unsigned_of_nat take_bit_nat_eq_self)
  ultimately show ?thesis
    using assms(1) is_digit_in_not_space [OF h] is_digit_in_not_sign [OF h]
    by (simp add: cvtZToUIntBase_def cvtZToUInt64Internal_def strtoull_digits [OF assms(1-3) lt])
qed

section \<open>What the varint routines compute\<close>

text \<open>The byte sequence of a value, seven bits at a time, low bits first.\<close>

function varint_bytes :: "u64 \<Rightarrow> byte list" where
  "varint_bytes v =
     (if v \<ge> 0x80 then (ucast v OR 0x80) # varint_bytes (drop_bit 7 v) else [ucast v])"
  by pat_completeness auto
termination
proof (relation "measure unat")
  fix v :: u64
  assume "0x80 \<le> v"
  then have "0 < unat v" by (simp add: word_le_nat_alt)
  then show "(drop_bit 7 v, v) \<in> measure unat"
    by (simp add: unat_drop_bit_eq drop_bit_nat_def)
qed simp

declare varint_bytes.simps [simp del]

lemma varint_bytes_small [varint_simps]: "v < 0x80 \<Longrightarrow> varint_bytes v = [ucast v]"
  by (simp add: varint_bytes.simps)

lemma varint_bytes_not_Nil [simp]: "varint_bytes v \<noteq> []"
  by (subst varint_bytes.simps) simp

lemma varint_bytes_length_bound:
  "unat v < 2 ^ (7 * Suc k) \<Longrightarrow> length (varint_bytes v) \<le> Suc k"
proof (induction k arbitrary: v)
  case 0
  then show ?case by (simp add: varint_bytes.simps word_le_nat_alt)
next
  case (Suc k)
  have "unat (drop_bit 7 v) < 2 ^ (7 * Suc k)"
    using Suc.prems by (simp add: unat_drop_bit_eq drop_bit_nat_def less_mult_imp_div_less power_add)
  then have "length (varint_bytes (drop_bit 7 v)) \<le> Suc k" by (rule Suc.IH)
  then show ?case by (subst varint_bytes.simps) simp
qed

lemma varint_bytes_length: "length (varint_bytes v) \<le> 10"
proof -
  have "unat v < 2 ^ 64" using unsigned_less [of v] by simp
  also have "(2 :: nat) ^ 64 \<le> 2 ^ (7 * Suc 9)" by (rule power_increasing) auto
  finally show ?thesis using varint_bytes_length_bound [of v 9] by simp
qed

lemma cvtUInt64ToVarInt128_bytes:
  assumes "length buffer = bufferSize" "bufferPos < bufferSize"
  shows "cvtUInt64ToVarInt128 v buffer bufferPos bufferSize =
    (if bufferPos + length (varint_bytes v) \<le> bufferSize
     then Inr (take bufferPos buffer @ varint_bytes v @ drop (bufferPos + length (varint_bytes v)) buffer,
               bufferPos + length (varint_bytes v))
     else Inl AssertError)"
  using assms
proof (induction v buffer bufferPos bufferSize rule: cvtUInt64ToVarInt128.induct)
  case (1 v buffer bufferPos bufferSize)
  show ?case
  proof (cases "v \<ge> 0x80")
    case True
    let ?b = "ucast v OR 0x80 :: byte"
    have upd: "buffer[bufferPos := x] = take bufferPos buffer @ x # drop (Suc bufferPos) buffer" for x
      using 1(3) 1(2) by (simp add: upd_conv_take_nth_drop)
    have len: "length (varint_bytes v) = Suc (length (varint_bytes (drop_bit 7 v)))"
      using True by (subst varint_bytes.simps) simp
    show ?thesis
    proof (cases "bufferPos + 1 \<ge> bufferSize")
      case True': True
      then show ?thesis using True len
        by (cases "varint_bytes (drop_bit 7 v)")
           (auto simp: cvtUInt64ToVarInt128.simps [of v] Let_def)
    next
      case False
      have IH: "cvtUInt64ToVarInt128 (drop_bit 7 v) (buffer[bufferPos := ?b]) (bufferPos + 1) bufferSize =
        (if bufferPos + 1 + length (varint_bytes (drop_bit 7 v)) \<le> bufferSize
         then Inr (take (bufferPos + 1) (buffer[bufferPos := ?b]) @ varint_bytes (drop_bit 7 v) @
               drop (bufferPos + 1 + length (varint_bytes (drop_bit 7 v))) (buffer[bufferPos := ?b]),
               bufferPos + 1 + length (varint_bytes (drop_bit 7 v)))
         else Inl AssertError)"
        by (rule 1(1) [OF True refl refl]) (use False 1(2) in auto)
      have vb: "varint_bytes v = ?b # varint_bytes (drop_bit 7 v)"
        using True by (subst varint_bytes.simps) simp
      show ?thesis
        unfolding cvtUInt64ToVarInt128.simps [of v] Let_def
        using True False IH 1(2,3) by (simp add: vb upd add.commute)
    qed
  next
    case False
    then show ?thesis using 1(2,3)
      by (simp add: cvtUInt64ToVarInt128.simps [of v] varint_bytes.simps [of v] upd_conv_take_nth_drop)
  qed
qed

lemma low_seven_bits_ucast: "(ucast (ucast v AND 0x7f :: byte) :: u64) = v AND 0x7f"
proof (rule bit_word_eqI)
  fix n assume "n < LENGTH(64)"
  have m: "(0x7f :: byte) = mask 7" "(0x7f :: u64) = mask 7" by (simp_all add: mask_eq_exp_minus_1)
  show "bit (ucast (ucast v AND 0x7f :: byte) :: u64) n = bit (v AND 0x7f) n"
    unfolding m by (auto simp: bit_simps)
qed

lemma low_seven_bits: "(ucast ((ucast v OR 0x80) AND 0x7f :: byte) :: u64) = v AND 0x7f"
proof -
  have "(ucast v OR 0x80) AND 0x7f = (ucast v AND 0x7f :: byte)"
    by (simp add: bit.conj_disj_distrib2)
  then show ?thesis by (simp only: low_seven_bits_ucast)
qed

lemma low_seven_bits_small: "v < 0x80 \<Longrightarrow> v AND 0x7f = (v :: u64)"
proof -
  assume "v < 0x80"
  then have "take_bit 7 v = v" by (simp add: word_unat_eq_iff unsigned_take_bit_eq take_bit_nat_eq_self_iff word_less_nat_alt)
  then show ?thesis by (simp add: take_bit_eq_mask mask_eq_exp_minus_1)
qed

lemma continuation_byte: "\<not> (ucast v OR 0x80 :: byte) < 0x80"
proof -
  have "(0x80 :: byte) \<le> ucast v OR 0x80" by (rule le_word_or1)
  then show ?thesis by simp
qed

lemma final_byte: "v < 0x80 \<Longrightarrow> (ucast (v :: u64) :: byte) < 0x80"
  by (simp add: word_less_nat_alt unsigned_ucast_eq take_bit_nat_def)

lemma split_seven_bits: "(v AND 0x7f) OR push_bit 7 (drop_bit 7 v) = (v :: u64)"
proof -
  have "(v AND 0x7f) OR push_bit 7 (drop_bit 7 v) = take_bit 7 v OR push_bit 7 (drop_bit 7 v)"
    by (simp add: take_bit_eq_mask mask_eq_exp_minus_1)
  also have "\<dots> = v"
  proof (rule bit_word_eqI)
    fix n assume "n < LENGTH(64)"
    then show "bit (take_bit 7 v OR push_bit 7 (drop_bit 7 v)) n = bit v n"
      by (cases "n < 7") (auto simp: bit_simps)
  qed
  finally show ?thesis .
qed

lemma ioReadVarIntU64_loop_bytes:
  assumes "bufferIdx + length (varint_bytes v) \<le> 10"
  shows "ioReadVarIntU64_loop (varint_bytes v @ rest) bufferIdx r =
    Inr (r OR push_bit (7 * bufferIdx) v, rest)"
  using assms
proof (induction v arbitrary: bufferIdx r rule: varint_bytes.induct)
  case (1 v)
  show ?case
  proof (cases "v \<ge> 0x80")
    case True
    have vb: "varint_bytes v = (ucast v OR 0x80) # varint_bytes (drop_bit 7 v)"
      using True by (subst varint_bytes.simps) simp
    have lt: "bufferIdx < 10" using 1(2) by (simp add: vb)
    have "ioReadVarIntU64_loop (varint_bytes v @ rest) bufferIdx r =
      ioReadVarIntU64_loop (varint_bytes (drop_bit 7 v) @ rest) (bufferIdx + 1)
        (r OR push_bit (7 * bufferIdx) (v AND 0x7f))"
      by (subst ioReadVarIntU64_loop.simps) (simp add: vb lt low_seven_bits continuation_byte Let_def)
    also have "\<dots> = Inr ((r OR push_bit (7 * bufferIdx) (v AND 0x7f)) OR
        push_bit (7 * (bufferIdx + 1)) (drop_bit 7 v), rest)"
      by (rule 1(1) [OF True]) (use 1(2) vb in simp)
    also have "push_bit (7 * (bufferIdx + 1)) (drop_bit 7 v) = push_bit (7 * bufferIdx) (push_bit 7 (drop_bit 7 v))"
      by (simp add: push_bit_push_bit ac_simps)
    finally show ?thesis
      by (simp only: or.assoc push_bit_or [symmetric] split_seven_bits)
  next
    case False
    then have "v < 0x80" by simp
    then show ?thesis using 1(2)
      by (subst ioReadVarIntU64_loop.simps)
         (simp add: varint_simps low_seven_bits_ucast low_seven_bits_small final_byte)
  qed
qed

lemma cvtUInt64FromVarInt128_loop_stream:
  assumes "bufferPos \<le> length buffer"
  shows "cvtUInt64FromVarInt128_loop buffer (length buffer) bufferIdx bufferPos r =
    (case ioReadVarIntU64_loop (drop bufferPos buffer) bufferIdx r of
       Inl e \<Rightarrow> Inl FormatError
     | Inr (v, rest) \<Rightarrow> Inr (v, length buffer - length rest))"
  using assms
proof (induction "10 - bufferIdx" arbitrary: bufferIdx bufferPos r)
  case 0
  then show ?case
    by (subst cvtUInt64FromVarInt128_loop.simps, subst ioReadVarIntU64_loop.simps) simp
next
  case (Suc k)
  show ?case
  proof (cases "bufferPos < length buffer")
    case False
    then have "drop bufferPos buffer = []" by simp
    then show ?thesis using False Suc.hyps(2)
      by (subst cvtUInt64FromVarInt128_loop.simps, subst ioReadVarIntU64_loop.simps) simp
  next
    case True
    let ?b = "buffer ! bufferPos"
    let ?r = "r OR push_bit (7 * bufferIdx) (ucast (?b AND 0x7f))"
    have d: "drop bufferPos buffer = ?b # drop (Suc bufferPos) buffer"
      using True by (simp add: Cons_nth_drop_Suc)
    have IH: "cvtUInt64FromVarInt128_loop buffer (length buffer) (Suc bufferIdx) (Suc bufferPos) ?r =
      (case ioReadVarIntU64_loop (drop (Suc bufferPos) buffer) (Suc bufferIdx) ?r of
         Inl e \<Rightarrow> Inl FormatError | Inr (v, rest) \<Rightarrow> Inr (v, length buffer - length rest))"
      by (rule Suc.hyps(1)) (use Suc.hyps(2) True in auto)
    show ?thesis using True Suc.hyps(2) IH
      by (subst cvtUInt64FromVarInt128_loop.simps, subst ioReadVarIntU64_loop.simps) (simp add: d Let_def)
  qed
qed

lemma ioReadVarIntU64_bytes [varint_simps]: "ioReadVarIntU64 (varint_bytes v @ rest) = Inr (v, rest)"
  using ioReadVarIntU64_loop_bytes [of 0 v rest 0] varint_bytes_length [of v]
  by (simp add: ioReadVarIntU64_def)

lemma ioWriteVarIntU64_bytes [varint_simps]: "ioWriteVarIntU64 output v = Inr (output @ varint_bytes v)"
  using varint_bytes_length [of v]
  by (simp add: ioWriteVarIntU64_def cvtUInt64ToVarInt128_bytes)

lemma cvtUInt64FromVarInt128_bytes:
  assumes "drop bufferPos buffer = varint_bytes v @ rest" "bufferPos \<le> length buffer"
  shows "cvtUInt64FromVarInt128 buffer bufferPos (length buffer) =
    Inr (v, bufferPos + length (varint_bytes v))"
proof -
  have "length (drop bufferPos buffer) = length (varint_bytes v @ rest)"
    using assms(1) by (rule arg_cong)
  then have "length buffer - length rest = bufferPos + length (varint_bytes v)"
    using assms(2) by simp
  then show ?thesis
    using cvtUInt64FromVarInt128_loop_stream [OF assms(2), of 0 0] varint_bytes_length [of v] assms(1)
    by (simp add: cvtUInt64FromVarInt128_def ioReadVarIntU64_loop_bytes)
qed

text \<open>A stream reader takes at least one byte, and only from the front.\<close>

lemma ioReadVarIntU64_loop_suffix:
  "ioReadVarIntU64_loop input i r = Inr (v, rest) \<Longrightarrow> \<exists>used. used \<noteq> [] \<and> input = used @ rest"
proof (induction input i r rule: ioReadVarIntU64_loop.induct)
  case (1 input i r)
  from 1(2) obtain b input' where inp: "input = b # input'" and i: "i < 10"
    by (subst (asm) ioReadVarIntU64_loop.simps) (auto split: if_splits list.splits)
  show ?case
  proof (cases "b < 0x80")
    case True
    then show ?thesis using 1(2) inp i
      by (subst (asm) ioReadVarIntU64_loop.simps) (auto simp: Let_def)
  next
    case False
    then have "ioReadVarIntU64_loop input' (i + 1) (r OR push_bit (7 * i) (ucast (b AND 0x7f))) = Inr (v, rest)"
      using 1(2) inp i by (subst (asm) ioReadVarIntU64_loop.simps) (auto simp: Let_def)
    then obtain used where "input' = used @ rest"
      using 1(1) [OF i inp refl False] by blast
    then show ?thesis using inp by (intro exI [of _ "b # used"]) simp
  qed
qed

section \<open>Zigzag round trip\<close>

lemma bit_cvtInt64ToZigZag:
  assumes "n < 64"
  shows "bit (cvtInt64ToZigZag v) n \<longleftrightarrow> (if n = 0 then bit v 63 else bit v (n - 1) \<noteq> bit v 63)"
proof -
  have s: "bit (signed_drop_bit 63 v) n = bit v 63"
    using assms by (cases n) (simp_all add: bit_signed_drop_bit_iff)
  have "bit (push_bit 1 v) n = (n \<noteq> 0 \<and> bit v (n - 1))"
    by (subst bit_push_bit_iff) (use assms in auto)
  then show ?thesis by (simp add: cvtInt64ToZigZag_def bit_xor_iff s)
qed

lemma cvtInt64FromZigZag_ToZigZag [simp]: "cvtInt64FromZigZag (cvtInt64ToZigZag v) = v"
proof -
  define z where "z = cvtInt64ToZigZag v"
  have neg: "NOT (x AND 1) + 1 = - (x AND 1 :: u64)" for x by (rule minus_eq_not_plus_1 [symmetric])
  have z0: "bit z 0 = bit v 63" by (simp add: z_def bit_cvtInt64ToZigZag)
  have sign: "- (z AND 1) = (if bit v 63 then -1 else 0)"
    using z0 by (auto simp: and_one_eq mod2_eq_if bit_0)
  have "drop_bit 1 z XOR (if bit v 63 then -1 else 0) = v"
  proof (rule bit_word_eqI)
    fix n assume n: "n < LENGTH(64)"
    show "bit (drop_bit 1 z XOR (if bit v 63 then -1 else 0)) n = bit v n"
    proof (cases "n = 63")
      case True
      have "\<not> bit z 64" using bit_imp_le_length [of z 64] by auto
      then show ?thesis using True by (simp add: bit_xor_iff bit_drop_bit_eq)
    next
      case False
      then have "bit z (Suc n) = (bit v n \<noteq> bit v 63)"
        using n by (simp add: z_def bit_cvtInt64ToZigZag)
      then show ?thesis using n by (simp add: bit_xor_iff bit_drop_bit_eq)
    qed
  qed
  then show ?thesis unfolding cvtInt64FromZigZag_def z_def [symmetric] neg sign .
qed

lemma bit_cvtInt32ToZigZag:
  assumes "n < 32"
  shows "bit (cvtInt32ToZigZag v) n \<longleftrightarrow> (if n = 0 then bit v 31 else bit v (n - 1) \<noteq> bit v 31)"
proof -
  have s: "bit (signed_drop_bit 31 v) n = bit v 31"
    using assms by (cases n) (simp_all add: bit_signed_drop_bit_iff)
  have "bit (push_bit 1 v) n = (n \<noteq> 0 \<and> bit v (n - 1))"
    by (subst bit_push_bit_iff) (use assms in auto)
  then show ?thesis by (simp add: cvtInt32ToZigZag_def bit_xor_iff s)
qed

lemma cvtInt32FromZigZag_ToZigZag [simp]: "cvtInt32FromZigZag (cvtInt32ToZigZag v) = v"
proof -
  define z where "z = cvtInt32ToZigZag v"
  have neg: "NOT (x AND 1) + 1 = - (x AND 1 :: u32)" for x by (rule minus_eq_not_plus_1 [symmetric])
  have z0: "bit z 0 = bit v 31" by (simp add: z_def bit_cvtInt32ToZigZag)
  have sign: "- (z AND 1) = (if bit v 31 then -1 else 0)"
    using z0 by (auto simp: and_one_eq mod2_eq_if bit_0)
  have "drop_bit 1 z XOR (if bit v 31 then -1 else 0) = v"
  proof (rule bit_word_eqI)
    fix n assume n: "n < LENGTH(32)"
    show "bit (drop_bit 1 z XOR (if bit v 31 then -1 else 0)) n = bit v n"
    proof (cases "n = 31")
      case True
      have "\<not> bit z 32" using bit_imp_le_length [of z 32] by auto
      then show ?thesis using True by (simp add: bit_xor_iff bit_drop_bit_eq)
    next
      case False
      then have "bit z (Suc n) = (bit v n \<noteq> bit v 31)"
        using n by (simp add: z_def bit_cvtInt32ToZigZag)
      then show ?thesis using n by (simp add: bit_xor_iff bit_drop_bit_eq)
    qed
  qed
  then show ?thesis unfolding cvtInt32FromZigZag_def z_def [symmetric] neg sign .
qed

lemma sint_neg_iff_bit: "sint (v :: u64) < 0 \<longleftrightarrow> bit v 63"
  using bit_last_iff [of v] by simp

lemma signed_drop_bit_63: "signed_drop_bit 63 (v :: u64) = (if bit v 63 then - 1 else 0)"
proof (rule bit_word_eqI)
  fix n assume "n < LENGTH(64)"
  then show "bit (signed_drop_bit 63 v) n = bit (if bit v 63 then - 1 else 0 :: u64) n"
    by (cases n) (auto simp: bit_signed_drop_bit_iff)
qed

lemma cvtInt64ToZigZag_word_of_int:
  "cvtInt64ToZigZag v = word_of_int (if sint v < 0 then - 2 * sint v - 1 else 2 * sint v)"
  by (simp add: cvtInt64ToZigZag_def signed_drop_bit_63 sint_neg_iff_bit not_eq_complement mult.commute)

lemma unat_cvtInt64ToZigZag:
  "unat (cvtInt64ToZigZag v) = (if sint v < 0 then nat (- 2 * sint v - 1) else nat (2 * sint v))"
proof -
  let ?k = "if sint v < 0 then - 2 * sint v - 1 else 2 * sint v"
  have "- (2 ^ 63) \<le> sint v" "sint v < 2 ^ 63"
    using sint_greater_eq [of v] sint_less [of v] by simp_all
  then have "0 \<le> ?k" "?k < 2 ^ 64" by auto
  then have "uint (word_of_int ?k :: u64) = ?k" by (simp add: unsigned_of_int take_bit_int_eq_self)
  then have "unat (word_of_int ?k :: u64) = nat ?k" by (simp add: unat_eq_nat_uint)
  then show ?thesis by (simp add: cvtInt64ToZigZag_word_of_int)
qed

section \<open>Properties\<close>

text \<open>
  With at least ten bytes free, \<^verbatim>\<open>cvtUInt64ToVarInt128\<close> never throws, leaves every byte outside
  the ones it used as it was, uses between one and ten, and \<^verbatim>\<open>cvtUInt64FromVarInt128\<close> at the old
  position reads the value back and ends at the new position.
\<close>

theorem cvtVarInt128_roundtrip:
  assumes "bufferPos + CVT_VARINT128_BUFFER_SIZE \<le> length buffer"
  shows "\<exists>buffer' bufferPos'.
    cvtUInt64ToVarInt128 v buffer bufferPos (length buffer) = Inr (buffer', bufferPos') \<and>
    cvtUInt64FromVarInt128 buffer' bufferPos (length buffer) = Inr (v, bufferPos') \<and>
    bufferPos < bufferPos' \<and> bufferPos' \<le> bufferPos + CVT_VARINT128_BUFFER_SIZE \<and>
    take bufferPos buffer' = take bufferPos buffer \<and> drop bufferPos' buffer' = drop bufferPos' buffer"
proof -
  let ?n = "length (varint_bytes v)"
  let ?b = "take bufferPos buffer @ varint_bytes v @ drop (bufferPos + ?n) buffer"
  have n: "0 < ?n" "?n \<le> 10" using varint_bytes_length [of v] by simp_all
  have len: "length ?b = length buffer" using assms n by simp
  have w: "cvtUInt64ToVarInt128 v buffer bufferPos (length buffer) = Inr (?b, bufferPos + ?n)"
    using assms n by (simp add: cvtUInt64ToVarInt128_bytes)
  have r: "cvtUInt64FromVarInt128 ?b bufferPos (length ?b) = Inr (v, bufferPos + ?n)"
    by (rule cvtUInt64FromVarInt128_bytes [where rest = "drop (bufferPos + ?n) buffer"]) (use assms n in auto)
  show ?thesis using w r n assms
    by (intro exI [of _ ?b] exI [of _ "bufferPos + ?n"]) (simp add: len)
qed

theorem cvtVarInt128_roundtrip_witness:
  "\<exists>buffer' bufferPos'.
    cvtUInt64ToVarInt128 300 (replicate 12 7) 1 (length (replicate 12 (7 :: byte))) = Inr (buffer', bufferPos') \<and>
    cvtUInt64FromVarInt128 buffer' 1 (length (replicate 12 (7 :: byte))) = Inr (300, bufferPos') \<and>
    1 < bufferPos' \<and> bufferPos' \<le> 1 + CVT_VARINT128_BUFFER_SIZE \<and>
    take 1 buffer' = take 1 (replicate 12 7) \<and> drop bufferPos' buffer' = drop bufferPos' (replicate 12 7)"
  by (rule cvtVarInt128_roundtrip) simp

text \<open>
  Zigzag decoding inverts zigzag encoding on all 64-bit values, and the encoding moves the sign
  to the lowest bit: a value and its code have the same magnitude up to one bit.
\<close>

theorem cvtInt64ZigZag_roundtrip:
  "cvtInt64FromZigZag (cvtInt64ToZigZag v) = v \<and>
   (bit (cvtInt64ToZigZag v) 0 \<longleftrightarrow> sint v < 0) \<and>
   unat (cvtInt64ToZigZag v) = (if sint v < 0 then nat (- 2 * sint v - 1) else nat (2 * sint v))"
  by (simp only: cvtInt64FromZigZag_ToZigZag unat_cvtInt64ToZigZag sint_neg_iff_bit bit_cvtInt64ToZigZag) simp

end
