(* ===== verification/Wal.thy ===== *)
theory Wal
  imports Convert
begin

text \<open>
  WAL segment names and log sequence numbers: \<^verbatim>\<open>src/src/postgres/interface.c\<close> (the \<^verbatim>\<open>pgLsn*\<close> and
  \<^verbatim>\<open>pgTimeline*\<close> functions) and \<^verbatim>\<open>src/src/command/archive/common.c\<close> (the \<^verbatim>\<open>wal*\<close> functions).  A WAL
  segment name is 24 hexadecimal digits: timeline, upper half of the LSN, segment number within it.
\<close>

section \<open>Definitions\<close>

subsection \<open>Log sequence numbers\<close>

definition pgLsnFromStr :: "string \<Rightarrow> u64 res" where
  "pgLsnFromStr lsn =
     (let lsnPart = split_char (CHR ''/'') lsn
      in if length lsnPart \<noteq> 2 then Inl FormatError
         else bindR (cvtZToUInt64Base (lsnPart ! 0) 16)
                (\<lambda>hi. bindR (cvtZToUInt64Base (lsnPart ! 1) 16) (\<lambda>lo. Inr (push_bit 32 hi + lo))))"

definition pgLsnToStr :: "u64 \<Rightarrow> string" where
  "pgLsnToStr lsn = fmt_x (unat (drop_bit 32 lsn)) @ ''/'' @ fmt_x (unat (lsn AND 0xFFFFFFFF))"

definition walSegmentFmt :: "u32 \<Rightarrow> u32 \<Rightarrow> u32 \<Rightarrow> string" where
  "walSegmentFmt timeline major minor = fmt_08X (unat timeline) @ fmt_08X (unat major) @ fmt_08X (unat minor)"

definition pgLsnToWalSegment :: "u32 \<Rightarrow> u64 \<Rightarrow> u32 \<Rightarrow> string" where
  "pgLsnToWalSegment timeline lsn walSegmentSize =
     walSegmentFmt timeline (ucast (drop_bit 32 lsn)) (ucast (lsn AND 0xFFFFFFFF) div walSegmentSize)"

definition pgTimelineFromWalSegment :: "string \<Rightarrow> u32 res" where
  "pgTimelineFromWalSegment walSegment = cvtZSubNToUIntBase walSegment 0 8 16"

text \<open>The \<^verbatim>\<open>while\<close> loop, with the segments added so far; it need not end for every segment size.\<close>

partial_function (option) pgLsnRange_loop ::
  "u32 \<Rightarrow> u32 \<Rightarrow> u32 \<Rightarrow> u32 \<Rightarrow> u32 \<Rightarrow> u32 \<Rightarrow> string list \<Rightarrow> string list option" where
  "pgLsnRange_loop timeline minorPerMajor stopMajor stopMinor startMajor startMinor result =
     (if startMajor = stopMajor \<and> startMinor = stopMinor then Some result
      else
        (let minor1 = startMinor + 1;
             over = minor1 > minorPerMajor;
             major' = (if over then startMajor + 1 else startMajor);
             minor' = (if over then 0 else minor1)
         in pgLsnRange_loop timeline minorPerMajor stopMajor stopMinor major' minor'
              (result @ [walSegmentFmt timeline major' minor'])))"

definition pgLsnRangeToWalSegmentList :: "u32 \<Rightarrow> u64 \<Rightarrow> u64 \<Rightarrow> u32 \<Rightarrow> string list option" where
  "pgLsnRangeToWalSegmentList timeline lsnStart lsnStop walSegmentSize =
     (let startMajor = ucast (drop_bit 32 lsnStart);
          startMinor = ucast (lsnStart AND 0xFFFFFFFF) div walSegmentSize;
          stopMajor = ucast (drop_bit 32 lsnStop);
          stopMinor = ucast (lsnStop AND 0xFFFFFFFF) div walSegmentSize;
          minorPerMajor = 0xFFFFFFFF div walSegmentSize
      in pgLsnRange_loop timeline minorPerMajor stopMajor stopMinor startMajor startMinor
           [walSegmentFmt timeline startMajor startMinor])"

subsection \<open>WAL segment names\<close>

text \<open>
  The regular expressions of \<^verbatim>\<open>archive/common.h\<close> use the bracket range \<^verbatim>\<open>[0-F]\<close>, which in the C
  locale is every character from \<^verbatim>\<open>0\<close> to \<^verbatim>\<open>F\<close> in code order.
\<close>

definition in_range_0_F :: "char \<Rightarrow> bool" where
  "in_range_0_F c \<longleftrightarrow> CHR ''0'' \<le> c \<and> c \<le> CHR ''F''"

definition WAL_SEGMENT_PARTIAL_EXT :: string where
  "WAL_SEGMENT_PARTIAL_EXT = ''.partial''"

definition walIsSegment :: "string \<Rightarrow> bool" where
  "walIsSegment walSegment \<longleftrightarrow>
     24 \<le> length walSegment \<and> list_all in_range_0_F (take 24 walSegment) \<and>
     (drop 24 walSegment = [] \<or> drop 24 walSegment = WAL_SEGMENT_PARTIAL_EXT)"

definition walIsPartial :: "string \<Rightarrow> bool" where
  "walIsPartial walSegment \<longleftrightarrow> suffix WAL_SEGMENT_PARTIAL_EXT walSegment"

definition walSegmentNext :: "string \<Rightarrow> nat \<Rightarrow> string res" where
  "walSegmentNext walSegment walSegmentSize =
     bindR (pgTimelineFromWalSegment walSegment)
       (\<lambda>timeline.
         let major = word_of_int (strtol (take 8 (drop 8 walSegment)) 16) :: u32;
             minor = word_of_int (strtol (take 8 (drop 16 walSegment)) 16) + 1 :: u32
         in if unat minor > (2 ^ 32 - 1) div walSegmentSize
            then Inr (walSegmentFmt timeline (major + 1) 0)
            else Inr (walSegmentFmt timeline major minor))"

fun walSegmentRange_loop :: "string list \<Rightarrow> string \<Rightarrow> nat \<Rightarrow> nat \<Rightarrow> (string list) res" where
  "walSegmentRange_loop result current walSegmentSize 0 = Inr result"
| "walSegmentRange_loop result current walSegmentSize (Suc n) =
     bindR (walSegmentNext current walSegmentSize)
       (\<lambda>nxt. walSegmentRange_loop (result @ [nxt]) nxt walSegmentSize n)"

definition walSegmentRange :: "string \<Rightarrow> nat \<Rightarrow> nat \<Rightarrow> (string list) res" where
  "walSegmentRange walSegmentBegin walSegmentSize rng =
     (if rng > 1 then walSegmentRange_loop [walSegmentBegin] walSegmentBegin walSegmentSize (rng - 1)
      else Inr [walSegmentBegin])"

text \<open>
  \<^verbatim>\<open>walPath\<close> asks the system for the working directory and changes it.  \<open>getcwd\<close> is what the
  system answers in a directory (\<open>None\<close> for an error), \<open>chdir\<close> the directory entered by a path
  (\<open>None\<close> for an error).  The result has the directory the process ends in.
\<close>

definition walPath ::
  "('d \<Rightarrow> string option) \<Rightarrow> (string \<Rightarrow> 'd \<Rightarrow> 'd option) \<Rightarrow> 'd \<Rightarrow> string \<Rightarrow> string option \<Rightarrow> string res \<times> 'd" where
  "walPath getcwd chdir dir walFile pgPath =
     (if \<not> prefix ''/'' walFile then
        (case pgPath of
           None \<Rightarrow> (Inl OptionRequiredError, dir)
         | Some pg \<Rightarrow>
             (case getcwd dir of
                None \<Rightarrow> (Inl FormatError, dir)
              | Some currentWorkDir \<Rightarrow>
                  if pg \<noteq> currentWorkDir then
                    (case chdir pg dir of
                       None \<Rightarrow> (Inl PathMissingError, dir)
                     | Some dir' \<Rightarrow>
                         (case getcwd dir' of
                            None \<Rightarrow> (Inl FormatError, dir')
                          | Some newWorkDir \<Rightarrow>
                              if currentWorkDir \<noteq> newWorkDir then (Inl OptionInvalidValueError, dir')
                              else (Inr (pg @ ''/'' @ walFile), dir')))
                  else (Inr (pg @ ''/'' @ walFile), dir)))
      else (Inr walFile, dir))"

section \<open>Segment numbers\<close>

text \<open>
  What \<^verbatim>\<open>walSegmentNext\<close> asserts of the segment size, and that it is not one.  The segment with
  number \<open>n\<close> of a timeline starts at byte \<open>n * walSegmentSize\<close>.
\<close>

definition walSegmentSizeOk :: "nat \<Rightarrow> bool" where
  "walSegmentSizeOk sz \<longleftrightarrow> 1 < sz \<and> (2 ^ 32 - 1) mod sz = sz - 1"

definition segPer :: "nat \<Rightarrow> nat" where
  "segPer sz = 2 ^ 32 div sz"

definition segName :: "u32 \<Rightarrow> nat \<Rightarrow> nat \<Rightarrow> string" where
  "segName timeline sz n = walSegmentFmt timeline (of_nat (n div segPer sz)) (of_nat (n mod segPer sz))"

lemma unat_u32_less [simp]: "unat (w :: u32) < 4294967296"
  using unsigned_less [of w] by simp

lemma unat_u64_less [simp]: "unat (w :: u64) < 18446744073709551616"
  using unsigned_less [of w] by simp

lemma unat_of_nat_u32: "k < 4294967296 \<Longrightarrow> unat (of_nat k :: u32) = k"
  by (simp add: unat_of_nat take_bit_nat_eq_self)

lemma walSegmentSizeOk_mult: "walSegmentSizeOk sz \<Longrightarrow> sz * segPer sz = 4294967296"
proof -
  assume ok: "walSegmentSizeOk sz"
  then have "(Suc (2 ^ 32 - 1)) mod sz = 0"
    using mod_Suc [of "2 ^ 32 - 1" sz] by (simp add: walSegmentSizeOk_def)
  then have "sz dvd 2 ^ 32" by (simp add: dvd_eq_mod_eq_0)
  then show ?thesis by (simp add: segPer_def)
qed

lemma segPer_bounds:
  assumes "walSegmentSizeOk sz"
  shows "0 < segPer sz" "segPer sz \<le> 2147483648" "4294967295 div sz = segPer sz - 1"
proof -
  have m: "sz * segPer sz = 4294967296" and sz: "2 \<le> sz"
    using assms walSegmentSizeOk_mult by (auto simp: walSegmentSizeOk_def)
  then show pos: "0 < segPer sz" by (cases "segPer sz") auto
  show "segPer sz \<le> 2147483648"
    using div_le_mono2 [of 2 sz "2 ^ 32"] sz by (simp add: segPer_def)
  obtain k where k: "segPer sz = Suc k" using pos by (cases "segPer sz") auto
  have "4294967295 = k * sz + (sz - 1)" using m k sz by (simp add: mult.commute)
  then have "4294967295 div sz = (k * sz + (sz - 1)) div sz" by (rule arg_cong)
  also have "\<dots> = k" using sz by (subst div_mult_self3) auto
  finally show "4294967295 div sz = segPer sz - 1" using k by simp
qed

lemma length_fmt_08X_u32 [simp]: "length (fmt_08X (unat (w :: u32))) = 8"
  using length_fmt_08X [of "unat w"] by simp

lemma walSegmentFmt_parts [wal_simps]:
  "length (walSegmentFmt t a b) = 24"
  "take 8 (walSegmentFmt t a b) = fmt_08X (unat t)"
  "take 8 (drop 8 (walSegmentFmt t a b)) = fmt_08X (unat a)"
  "take 8 (drop 16 (walSegmentFmt t a b)) = fmt_08X (unat b)"
  by (simp_all add: walSegmentFmt_def)

lemma fmt_08X_not_Nil [simp]: "fmt_08X n \<noteq> []"
  by (simp add: fmt_08X_def fmt_X_def)

lemma pgTimelineFromWalSegment_fmt [wal_simps]: "pgTimelineFromWalSegment (walSegmentFmt t a b) = Inr t"
proof -
  have "cvtZToUIntBase (fmt_08X (unat t)) 16 = Inr (of_nat (unat t))"
    using cvtZToUIntBase_digits [of "fmt_08X (unat t)" 16] by (simp add: is_digit_in_fmt_08X)
  then show ?thesis
    by (simp add: pgTimelineFromWalSegment_def cvtZSubNToUIntBase_def wal_simps)
qed

lemma strtol_fmt_08X [wal_simps]: "word_of_int (strtol (fmt_08X (unat w)) 16) = (w :: u32)"
proof -
  have "unat w < 2 ^ 63" by (rule less_trans [OF unat_u32_less]) simp
  then have "strtol (fmt_08X (unat w)) 16 = int (unat w)"
    using strtol_digits [of "fmt_08X (unat w)" 16] by (simp add: is_digit_in_fmt_08X)
  then show ?thesis by simp
qed

lemma walSegmentNext_fmt:
  "walSegmentNext (walSegmentFmt t a b) sz =
     Inr (if unat (b + 1) > 4294967295 div sz then walSegmentFmt t (a + 1) 0 else walSegmentFmt t a (b + 1))"
  by (simp add: walSegmentNext_def wal_simps Let_def)

lemma Suc_div_mod:
  fixes n p :: nat
  assumes "0 < p"
  shows "Suc (n mod p) = p \<Longrightarrow> Suc n mod p = 0 \<and> Suc n div p = Suc (n div p)"
    and "Suc (n mod p) \<noteq> p \<Longrightarrow> Suc n mod p = Suc (n mod p) \<and> Suc n div p = n div p"
  using assms by (simp_all add: mod_Suc div_Suc)

lemma walSegmentNext_segName:
  assumes "walSegmentSizeOk sz"
  shows "walSegmentNext (segName t sz n) sz = Inr (segName t sz (Suc n))"
proof -
  let ?p = "segPer sz"
  note per = segPer_bounds [OF assms]
  have lt: "n mod ?p < ?p" using per(1) by simp
  have "Suc (n mod ?p) < 4294967296" using lt per(2) by simp
  then have minor: "unat (1 + of_nat (n mod ?p) :: u32) = Suc (n mod ?p)"
    using unat_of_nat_u32 [of "Suc (n mod ?p)"] by simp
  show ?thesis
  proof (cases "Suc (n mod ?p) = ?p")
    case True
    then show ?thesis using Suc_div_mod(1) [OF per(1) True] per
      by (simp add: segName_def walSegmentNext_fmt minor add.commute)
  next
    case False
    moreover have "\<not> Suc (n mod ?p) > ?p - 1" using False lt by simp
    ultimately show ?thesis using Suc_div_mod(2) [OF per(1) False] per
      by (simp add: segName_def walSegmentNext_fmt minor add.commute)
  qed
qed

lemma walSegmentRange_loop_segName:
  assumes "walSegmentSizeOk sz"
  shows "walSegmentRange_loop result (segName t sz n) sz k = Inr (result @ map (segName t sz) [Suc n..<Suc n + k])"
proof (induction k arbitrary: result n)
  case (Suc k)
  show ?case
    using Suc.IH [of "result @ [segName t sz (Suc n)]" "Suc n"] upt_conv_Cons [of "Suc n" "Suc (Suc (n + k))"]
    by (simp add: walSegmentNext_segName [OF assms])
qed simp

lemma walSegmentRange_segName:
  assumes "walSegmentSizeOk sz" "0 < rng"
  shows "walSegmentRange (segName t sz n) sz rng = Inr (map (segName t sz) [n..<n + rng])"
  using assms walSegmentRange_loop_segName [OF assms(1), of "[segName t sz n]" t n "rng - 1"]
  by (cases rng) (auto simp: walSegmentRange_def upt_conv_Cons)

subsection \<open>From LSN to segment number\<close>

lemma unat_lsn_parts:
  "unat (ucast (drop_bit 32 (lsn :: u64)) :: u32) = unat lsn div 4294967296"
  "unat (ucast (lsn AND 0xFFFFFFFF) :: u32) = unat lsn mod 4294967296"
proof -
  have "unat lsn div 4294967296 < 4294967296"
    using unat_u64_less [of lsn] by (simp add: less_mult_imp_div_less del: unat_u64_less)
  then show "unat (ucast (drop_bit 32 lsn) :: u32) = unat lsn div 4294967296"
    by (simp add: unsigned_ucast_eq unsigned_drop_bit_eq take_bit_nat_eq_self drop_bit_nat_def)
  have "lsn AND 0xFFFFFFFF = take_bit 32 lsn" by (simp add: take_bit_eq_mask mask_eq_exp_minus_1)
  then show "unat (ucast (lsn AND 0xFFFFFFFF) :: u32) = unat lsn mod 4294967296"
    by (simp only: unsigned_ucast_eq unsigned_take_bit_eq) (simp add: take_bit_nat_def)
qed

lemma segment_split:
  assumes "walSegmentSizeOk sz"
  shows "(l mod 4294967296) div sz = (l div sz) mod segPer sz" "l div 4294967296 = (l div sz) div segPer sz"
proof -
  have m: "sz * segPer sz = 4294967296" by (rule walSegmentSizeOk_mult [OF assms])
  show "l div 4294967296 = (l div sz) div segPer sz"
    using m by (metis div_mult2_eq)
  have "l mod (sz * segPer sz) = sz * (l div sz mod segPer sz) + l mod sz"
    by (rule mod_mult2_eq)
  then have "l mod 4294967296 = sz * (l div sz mod segPer sz) + l mod sz" using m by simp
  moreover have "0 < sz" using assms by (simp add: walSegmentSizeOk_def)
  ultimately show "(l mod 4294967296) div sz = (l div sz) mod segPer sz" by simp
qed

lemma lsn_minor:
  assumes "walSegmentSizeOk (unat sz)"
  shows "ucast ((lsn :: u64) AND 0xFFFFFFFF) div sz = (of_nat (unat lsn div unat sz mod segPer (unat sz)) :: u32)"
proof -
  have "unat (ucast (lsn AND 0xFFFFFFFF) div sz :: u32) = unat lsn mod 4294967296 div unat sz"
    using unat_lsn_parts(2) [of lsn] by (simp add: unat_div)
  also have "\<dots> = unat lsn div unat sz mod segPer (unat sz)" by (rule segment_split(1) [OF assms])
  finally have "(of_nat (unat (ucast (lsn AND 0xFFFFFFFF) div sz :: u32)) :: u32) =
    of_nat (unat lsn div unat sz mod segPer (unat sz))" by (rule arg_cong)
  then show ?thesis by simp
qed

lemma lsn_major:
  assumes "walSegmentSizeOk (unat sz)"
  shows "ucast (drop_bit 32 (lsn :: u64)) = (of_nat (unat lsn div unat sz div segPer (unat sz)) :: u32)"
proof -
  have "unat (ucast (drop_bit 32 lsn) :: u32) = unat lsn div unat sz div segPer (unat sz)"
    using unat_lsn_parts(1) [of lsn] segment_split(2) [OF assms, of "unat lsn"] by simp
  then have "(of_nat (unat (ucast (drop_bit 32 lsn) :: u32)) :: u32) =
    of_nat (unat lsn div unat sz div segPer (unat sz))" by (rule arg_cong)
  then show ?thesis by simp
qed

lemma pgLsnToWalSegment_segName:
  "walSegmentSizeOk (unat sz) \<Longrightarrow> pgLsnToWalSegment t lsn sz = segName t (unat sz) (unat lsn div unat sz)"
  by (simp add: pgLsnToWalSegment_def segName_def lsn_major lsn_minor)

subsection \<open>Order\<close>

lemma walSegmentFmt_less_iff:
  "walSegmentFmt t a b < walSegmentFmt t' a' b' \<longleftrightarrow> t < t' \<or> t = t' \<and> (a < a' \<or> a = a' \<and> b < b')"
proof -
  have lt: "fmt_08X (unat x) < fmt_08X (unat y) \<longleftrightarrow> x < y" for x y :: u32
    using fmt_08X_less_iff [of "unat x" "unat y"] by (simp add: word_less_nat_alt)
  have eq: "fmt_08X (unat x) = fmt_08X (unat y) \<longleftrightarrow> x = y" for x y :: u32
    using fmt_08X_inject [of "unat x" "unat y"] by (auto simp: word_unat_eq_iff)
  show ?thesis by (simp add: walSegmentFmt_def append_less_iff lt eq)
qed

lemma segName_less:
  assumes ok: "walSegmentSizeOk sz" and "m < n" and n: "n div segPer sz < 4294967296"
  shows "segName t sz m < segName t sz n"
proof -
  let ?p = "segPer sz"
  note per = segPer_bounds [OF ok]
  have "k mod ?p < ?p" for k using per(1) by simp
  then have small: "k mod ?p < 4294967296" for k
    by (rule less_le_trans) (use per(2) in simp)
  have md: "m div ?p < 4294967296" using n \<open>m < n\<close> by (meson div_le_mono le_less_trans less_imp_le)
  have "m div ?p < n div ?p \<or> m div ?p = n div ?p \<and> m mod ?p < n mod ?p"
    using \<open>m < n\<close> less_iff_div_mod [OF per(1)] by blast
  then show ?thesis
    by (auto simp: segName_def walSegmentFmt_less_iff word_less_nat_alt unat_of_nat_u32 small md n)
qed


subsection \<open>The range loop\<close>

lemma pgLsnRange_loop_segName:
  assumes ok: "walSegmentSizeOk (unat sz)" and b: "(n + k) div segPer (unat sz) < 4294967296"
  defines "p \<equiv> segPer (unat sz)"
  shows "pgLsnRange_loop t (0xFFFFFFFF div sz) (of_nat ((n + k) div p)) (of_nat ((n + k) mod p))
           (of_nat (n div p)) (of_nat (n mod p)) result =
         Some (result @ map (segName t (unat sz)) [Suc n..<Suc (n + k)])"
  using b
proof (induction k arbitrary: n result)
  case 0
  show ?case by (subst pgLsnRange_loop.simps) simp
next
  case (Suc k)
  note per = segPer_bounds [OF ok, folded p_def]
  have lt: "m mod p < p" for m using per(1) by simp
  have le: "n div p \<le> (n + Suc k) div p" by (rule div_le_mono) simp
  have small: "m mod p < 4294967296" for m by (rule less_le_trans [OF lt]) (use per(2) in simp)
  have u: "unat (of_nat (m mod p) :: u32) = m mod p" for m by (rule unat_of_nat_u32 [OF small])
  have du: "unat (of_nat (n div p) :: u32) = n div p" "unat (of_nat ((n + Suc k) div p) :: u32) = (n + Suc k) div p"
    using Suc.prems le by (simp_all add: unat_of_nat_u32 p_def)
  have neq: "\<not> ((of_nat (n div p) :: u32) = of_nat ((n + Suc k) div p) \<and>
      (of_nat (n mod p) :: u32) = of_nat ((n + Suc k) mod p))"
  proof
    assume eq: "(of_nat (n div p) :: u32) = of_nat ((n + Suc k) div p) \<and>
      (of_nat (n mod p) :: u32) = of_nat ((n + Suc k) mod p)"
    then have "n div p = (n + Suc k) div p" "n mod p = (n + Suc k) mod p"
      using du u by metis+
    then have "n = n + Suc k" by (metis div_mult_mod_eq)
    then show False by simp
  qed
  have minor: "unat (of_nat (n mod p) + 1 :: u32) = Suc (n mod p)"
    using unat_of_nat_u32 [of "Suc (n mod p)"] lt [of n] per(2) by (simp add: add.commute)
  have per': "unat (0xFFFFFFFF div sz) = p - 1" using per(3) by (simp add: unat_div)
  have over: "(of_nat (n mod p) + 1 :: u32) > 0xFFFFFFFF div sz \<longleftrightarrow> Suc (n mod p) = p"
  proof -
    have "(of_nat (n mod p) + 1 :: u32) > 0xFFFFFFFF div sz \<longleftrightarrow> p - 1 < Suc (n mod p)"
      by (simp only: word_less_nat_alt minor per')
    also have "\<dots> \<longleftrightarrow> Suc (n mod p) = p" using lt [of n] by linarith
    finally show ?thesis .
  qed
  have step: "(if Suc (n mod p) = p then of_nat (n div p) + 1 else of_nat (n div p)) = (of_nat (Suc n div p) :: u32)"
    "(if Suc (n mod p) = p then 0 else of_nat (n mod p) + 1) = (of_nat (Suc n mod p) :: u32)"
    using Suc_div_mod [OF per(1), of n] by (simp_all add: add.commute)
  have IH: "pgLsnRange_loop t (0xFFFFFFFF div sz) (of_nat ((n + Suc k) div p)) (of_nat ((n + Suc k) mod p))
      (of_nat (Suc n div p)) (of_nat (Suc n mod p)) (result @ [segName t (unat sz) (Suc n)]) =
    Some ((result @ [segName t (unat sz) (Suc n)]) @ map (segName t (unat sz)) [Suc (Suc n)..<Suc (n + Suc k)])"
    using Suc.IH [of "Suc n"] Suc.prems by simp
  show ?case
    apply (subst pgLsnRange_loop.simps)
    apply (simp only: neq if_False Let_def over step)
    using IH upt_conv_Cons [of "Suc n" "Suc (n + Suc k)"]
    by (simp add: segName_def p_def)
qed

lemma pgLsnRangeToWalSegmentList_segName:
  assumes ok: "walSegmentSizeOk (unat sz)" and le: "lsnStart \<le> lsnStop"
  shows "pgLsnRangeToWalSegmentList t lsnStart lsnStop sz =
    Some (map (segName t (unat sz)) [unat lsnStart div unat sz..<Suc (unat lsnStop div unat sz)])"
proof -
  let ?n = "unat lsnStart div unat sz" and ?m = "unat lsnStop div unat sz"
  have nm: "?n \<le> ?m" using le by (simp add: word_le_nat_alt div_le_mono)
  have "?m div segPer (unat sz) = unat lsnStop div 4294967296" by (rule segment_split(2) [OF ok, symmetric])
  also have "\<dots> < 4294967296" using unat_u64_less [of lsnStop] by (simp add: less_mult_imp_div_less del: unat_u64_less)
  finally have b: "(?n + (?m - ?n)) div segPer (unat sz) < 4294967296" using nm by simp
  have cons: "map (segName t (unat sz)) [?n..<Suc ?m] =
      [segName t (unat sz) ?n] @ map (segName t (unat sz)) [Suc ?n..<Suc ?m]"
    using nm by (simp add: upt_conv_Cons del: upt_Suc)
  show ?thesis
    using pgLsnRange_loop_segName [OF ok b, of t "[segName t (unat sz) ?n]"] nm
    by (simp add: pgLsnRangeToWalSegmentList_def Let_def lsn_major [OF ok] lsn_minor [OF ok] cons
        flip: segName_def del: upt_Suc)
qed

text \<open>Every segment number between those of two LSNs is the number of an LSN between them.\<close>

lemma segment_number_has_lsn:
  fixes a b :: u64
  assumes pos: "0 < sz" and le: "a \<le> b" and k: "unat a div sz \<le> k" "k \<le> unat b div sz"
  shows "\<exists>lsn. a \<le> lsn \<and> lsn \<le> b \<and> k = unat lsn div sz"
proof -
  define l where "l = max (unat a) (k * sz)"
  have "k * sz \<le> unat b" using k(2) pos by (metis less_eq_div_iff_mult_less_eq)
  then have l: "unat a \<le> l" "l \<le> unat b" using le by (auto simp: l_def word_le_nat_alt)
  have "l div sz = k"
    using k(1) pos by (auto simp: l_def max_def div_le_mono) (metis div_le_mono div_mult_self1_is_m le_antisym mult.commute nat_le_linear)
  moreover have "unat (of_nat l :: u64) = l"
    using le_less_trans [OF l(2) unat_u64_less] by (simp add: unat_of_nat take_bit_nat_eq_self)
  ultimately show ?thesis
    using l by (intro exI [of _ "of_nat l"]) (auto simp: word_le_nat_alt)
qed

lemma strictly_sorted_map_upt:
  fixes f :: "nat \<Rightarrow> 'a::linorder"
  assumes "\<And>i j. i < j \<Longrightarrow> j < n \<Longrightarrow> f i < f j"
  shows "sorted_wrt (<) (map f [m..<n])"
  by (rule sorted_wrt_map_mono [where R = "(<)"]) (use assms in \<open>auto simp: sorted_wrt_upt\<close>)

subsection \<open>LSN text\<close>

lemma cvtZToUInt64Base_fmt_x: "n < 2 ^ 64 \<Longrightarrow> cvtZToUInt64Base (fmt_x n) 16 = Inr (of_nat n)"
proof -
  assume n: "n < 2 ^ 64"
  have v: "digits_val 16 (fmt_x n) = n" by (simp add: fmt_x_def digits_val_print)
  have "\<forall>c\<in>set (fmt_x n). is_digit_in 16 c"
    using is_digit_in_print [of 16 digit_lower _ n] by (auto simp: fmt_x_def)
  then show ?thesis using cvtZToUInt64Base_digits [of "fmt_x n" 16] n v by (simp add: fmt_x_def)
qed

lemma fmt_x_no_slash: "CHR ''/'' \<notin> set (fmt_x n)"
proof
  assume "CHR ''/'' \<in> set (fmt_x n)"
  then have "is_digit_in 16 (CHR ''/'')"
    using is_digit_in_print [of 16 digit_lower _ n] by (simp add: fmt_x_def)
  then show False by (simp add: is_digit_in_def digit_of_char_def)
qed

section \<open>Properties\<close>

text \<open>
  An LSN printed by \<^verbatim>\<open>pgLsnToStr\<close> is read back by \<^verbatim>\<open>pgLsnFromStr\<close> as the same LSN.
\<close>

theorem pgLsn_roundtrip: "pgLsnFromStr (pgLsnToStr lsn) = Inr lsn"
proof -
  have split: "split_char (CHR ''/'') (pgLsnToStr lsn) =
      [fmt_x (unat (drop_bit 32 lsn)), fmt_x (unat (lsn AND 0xFFFFFFFF))]"
    by (simp add: pgLsnToStr_def split_char_append split_char_no_delim fmt_x_no_slash)
  have "push_bit 32 (drop_bit 32 lsn) + (lsn AND 0xFFFFFFFF) = lsn"
  proof -
    have "lsn AND 0xFFFFFFFF = take_bit 32 lsn" by (simp add: take_bit_eq_mask mask_eq_exp_minus_1)
    then show ?thesis by (simp only: bits_ident)
  qed
  moreover have "unat w < 2 ^ 64" for w :: u64 by simp
  ultimately show ?thesis
    by (simp only: pgLsnFromStr_def Let_def split) (simp add: cvtZToUInt64Base_fmt_x)
qed

text \<open>
  C13: the segment after the one that holds an LSN is the one that holds the LSN one segment size
  later, so \<^verbatim>\<open>walSegmentNext\<close> (archive names) and \<^verbatim>\<open>pgLsnToWalSegment\<close> (LSN arithmetic) agree, across
  the roll-over from the last segment of one 4GiB block to the first of the next.
\<close>

theorem walSegmentNext_pgLsnToWalSegment:
  assumes "walSegmentSizeOk (unat sz)" "unat lsn + unat sz < 2 ^ 64"
  shows "walSegmentNext (pgLsnToWalSegment t lsn sz) (unat sz) = Inr (pgLsnToWalSegment t (lsn + ucast sz) sz)"
proof -
  have "unat (lsn + ucast sz) = unat lsn + unat sz"
    using assms(2) by (subst unat_add_lem [THEN iffD1]) (simp_all add: unsigned_ucast_eq take_bit_nat_eq_self)
  then have "unat (lsn + ucast sz) div unat sz = Suc (unat lsn div unat sz)"
    using assms(1) by (auto simp: walSegmentSizeOk_def div_add_self2)
  then show ?thesis
    by (simp add: pgLsnToWalSegment_segName [OF assms(1)] walSegmentNext_segName [OF assms(1)])
qed

theorem walSegmentNext_pgLsnToWalSegment_witness:
  "walSegmentNext (pgLsnToWalSegment 1 0x1FFFFFFFF 0x1000000) 0x1000000 =
     Inr (pgLsnToWalSegment 1 (0x1FFFFFFFF + 0x1000000) 0x1000000)"
  using walSegmentNext_pgLsnToWalSegment [of "0x1000000" "0x1FFFFFFFF" 1]
  by (simp add: walSegmentSizeOk_def)

text \<open>
  C14: \<^verbatim>\<open>pgLsnRangeToWalSegmentList\<close> always returns for a valid segment size and an ordered range, and
  the list holds exactly the segments of the LSNs in the range, in strictly increasing name order.
\<close>

theorem pgLsnRangeToWalSegmentList_covers:
  assumes "walSegmentSizeOk (unat sz)" "lsnStart \<le> lsnStop"
  shows "\<exists>segs. pgLsnRangeToWalSegmentList t lsnStart lsnStop sz = Some segs \<and> sorted_wrt (<) segs \<and>
    set segs = {pgLsnToWalSegment t lsn sz | lsn. lsnStart \<le> lsn \<and> lsn \<le> lsnStop}"
proof -
  let ?sz = "unat sz"
  let ?segs = "map (segName t ?sz) [unat lsnStart div ?sz..<Suc (unat lsnStop div ?sz)]"
  have "unat lsnStop div ?sz div segPer ?sz = unat lsnStop div 4294967296"
    by (rule segment_split(2) [OF assms(1), symmetric])
  also have "\<dots> < 4294967296"
    using unat_u64_less [of lsnStop] by (simp add: less_mult_imp_div_less del: unat_u64_less)
  finally have bound: "k div segPer ?sz < 4294967296" if "k < Suc (unat lsnStop div ?sz)" for k
    using that by (meson div_le_mono le_less_trans less_Suc_eq_le)
  have sorted: "sorted_wrt (<) ?segs"
    by (rule strictly_sorted_map_upt) (rule segName_less [OF assms(1)], auto intro: bound)
  have pos: "0 < ?sz" using assms(1) by (simp add: walSegmentSizeOk_def)
  have "\<exists>lsn. lsnStart \<le> lsn \<and> lsn \<le> lsnStop \<and> k = unat lsn div ?sz"
    if "unat lsnStart div ?sz \<le> k" "k \<le> unat lsnStop div ?sz" for k
    using segment_number_has_lsn [OF pos assms(2) that] by blast
  then have "set ?segs = {pgLsnToWalSegment t lsn sz | lsn. lsnStart \<le> lsn \<and> lsn \<le> lsnStop}"
    by (auto simp: pgLsnToWalSegment_segName [OF assms(1)] word_le_nat_alt div_le_mono less_Suc_eq_le simp del: upt_Suc
        intro!: imageI) (metis imageI)
  then show ?thesis using pgLsnRangeToWalSegmentList_segName [OF assms] sorted by blast
qed

theorem pgLsnRangeToWalSegmentList_covers_witness:
  "\<exists>segs. pgLsnRangeToWalSegmentList 3 0x0FF000000 0x102000000 0x1000000 = Some segs \<and> sorted_wrt (<) segs \<and>
    set segs = {pgLsnToWalSegment 3 lsn 0x1000000 | lsn. 0x0FF000000 \<le> lsn \<and> lsn \<le> 0x102000000}"
  by (rule pgLsnRangeToWalSegmentList_covers) (simp_all add: walSegmentSizeOk_def)

text \<open>
  Walking names with \<^verbatim>\<open>walSegmentRange\<close> from the segment of an LSN gives the same list as
  computing the segments of the LSN range with \<^verbatim>\<open>pgLsnRangeToWalSegmentList\<close>.
\<close>

theorem walSegmentRange_eq_pgLsnRange:
  assumes "walSegmentSizeOk (unat sz)" "lsnStart \<le> lsnStop"
  shows "map_option Inr (pgLsnRangeToWalSegmentList t lsnStart lsnStop sz) =
    Some (walSegmentRange (pgLsnToWalSegment t lsnStart sz) (unat sz)
           (Suc (unat lsnStop div unat sz) - unat lsnStart div unat sz))"
proof -
  have "unat lsnStart div unat sz \<le> unat lsnStop div unat sz"
    using assms(2) by (simp add: word_le_nat_alt div_le_mono)
  then show ?thesis
    by (simp add: pgLsnRangeToWalSegmentList_segName [OF assms] pgLsnToWalSegment_segName [OF assms(1)]
        walSegmentRange_segName [OF assms(1)] del: upt_Suc)
qed

theorem walSegmentRange_eq_pgLsnRange_witness:
  "map_option Inr (pgLsnRangeToWalSegmentList 3 0x0FF000000 0x102000000 0x1000000) =
    Some (walSegmentRange (pgLsnToWalSegment 3 0x0FF000000 0x1000000) 0x1000000 4)"
  using walSegmentRange_eq_pgLsnRange [of "0x1000000" "0x0FF000000" "0x102000000" 3]
  by (simp add: walSegmentSizeOk_def)

end
