(* ===== verification/BackupCommon.thy ===== *)
theory BackupCommon
  imports CLib
begin

text \<open>
  Backup labels: \<^verbatim>\<open>src/src/command/backup/common.c\<close> (the label format and the anchored expressions that
  every command filters backup directories with) and the part of POSIX extended regular expressions that
  these and the other expressions of the modelled code use (\<^verbatim>\<open>src/src/common/regExp.c\<close>).

  An expression is kept as the tree that \<^verbatim>\<open>regcomp\<close> builds from its text.  Every expression of the
  modelled code starts with \<^verbatim>\<open>^\<close>, so matching starts at the first character; \<open>REnd\<close> is \<^verbatim>\<open>$\<close>.
\<close>

section \<open>Regular expressions\<close>

datatype rx =
    RChr char                     \<comment> \<open>a literal character\<close>
  | RRng char char                \<comment> \<open>\<^verbatim>\<open>[a-b]\<close> in the byte order of the C locale\<close>
  | RAny                          \<comment> \<open>\<^verbatim>\<open>.\<close>\<close>
  | RSeq rx rx
  | RAlt rx rx
  | RTimes nat rx                 \<comment> \<open>\<^verbatim>\<open>r{n}\<close>\<close>
  | ROpt rx                       \<comment> \<open>\<^verbatim>\<open>r{0,1}\<close>\<close>
  | RStar rx
  | REnd

text \<open>Repetition: every rest that some number of iterations, at most \<open>k\<close>, leaves.\<close>

fun rx_star :: "(string \<Rightarrow> string list) \<Rightarrow> nat \<Rightarrow> string list \<Rightarrow> string list" where
  "rx_star f 0 ss = ss"
| "rx_star f (Suc k) ss = ss @ rx_star f k (concat (map f ss))"

fun rx_times :: "(string \<Rightarrow> string list) \<Rightarrow> nat \<Rightarrow> string \<Rightarrow> string list" where
  "rx_times f 0 s = [s]"
| "rx_times f (Suc k) s = concat (map (rx_times f k) (f s))"

text \<open>All rests of a string after a prefix that the expression matches.\<close>

primrec rx_rests :: "rx \<Rightarrow> string \<Rightarrow> string list" where
  "rx_rests (RChr c) s = (case s of [] \<Rightarrow> [] | d # ds \<Rightarrow> if d = c then [ds] else [])"
| "rx_rests (RRng a b) s = (case s of [] \<Rightarrow> [] | d # ds \<Rightarrow> if a \<le> d \<and> d \<le> b then [ds] else [])"
| "rx_rests RAny s = (case s of [] \<Rightarrow> [] | d # ds \<Rightarrow> [ds])"
| "rx_rests (RSeq r q) s = concat (map (rx_rests q) (rx_rests r s))"
| "rx_rests (RAlt r q) s = rx_rests r s @ rx_rests q s"
| "rx_rests (RTimes n r) s = rx_times (rx_rests r) n s"
| "rx_rests (ROpt r) s = s # rx_rests r s"
| "rx_rests (RStar r) s = rx_star (rx_rests r) (length s) [s]"
| "rx_rests REnd s = (if s = [] then [s] else [])"

definition regExpMatch :: "rx \<Rightarrow> string \<Rightarrow> bool" where
  "regExpMatch r s = (rx_rests r s \<noteq> [])"

definition rx_str :: "string \<Rightarrow> rx \<Rightarrow> rx" where
  "rx_str s r = foldr (\<lambda>c q. RSeq (RChr c) q) s r"

section \<open>Backup types and labels\<close>

datatype BackupType = backupTypeFull | backupTypeDiff | backupTypeIncr

definition DATE_TIME_LEN :: nat where
  "DATE_TIME_LEN = 8 + 1 + 6"

definition DATE_TIME_REGEX :: rx where
  "DATE_TIME_REGEX = RSeq (RTimes 8 (RRng CHR ''0'' CHR ''9'')) (RSeq (RChr CHR ''-'') (RTimes 6 (RRng CHR ''0'' CHR ''9'')))"

record BackupRegExpParam =
  full :: bool
  differential :: bool
  incremental :: bool
  noAnchorEnd :: bool

text \<open>The expression is the text the code concatenates, as a tree: \<open>r\<close> up to the full backup indicator,
  then the diff/incr part, then the end anchor.\<close>

definition backupRegExp :: "BackupRegExpParam \<Rightarrow> rx" where
  "backupRegExp param =
    (let result = RSeq DATE_TIME_REGEX (RChr CHR ''F'');
         result =
           (if differential param \<or> incremental param then
              let dependent = RSeq (RChr CHR ''_'') (RSeq DATE_TIME_REGEX
                    (if differential param \<and> incremental param then RAlt (RChr CHR ''D'') (RChr CHR ''I'')
                     else if differential param then RChr CHR ''D''
                     else RChr CHR ''I''))
              in RSeq result (if full param then ROpt dependent else dependent)
            else result)
     in if noAnchorEnd param then result else RSeq result REnd)"

text \<open>
  \<open>timeFmt\<close> stands for \<^verbatim>\<open>cvtTimeToZP("%Y%m%d-%H%M%S", ...)\<close>, the C library's \<^verbatim>\<open>localtime_r\<close> and
  \<^verbatim>\<open>strftime\<close> with the time zone of the process.  What the code relies on is the shape of the result.
\<close>

definition backupLabelFormat :: "('t \<Rightarrow> string) \<Rightarrow> BackupType \<Rightarrow> string option \<Rightarrow> 't \<Rightarrow> string" where
  "backupLabelFormat timeFmt type backupLabelPrior timestamp =
    (let buffer = timeFmt timestamp
     in if type = backupTypeFull then buffer @ ''F''
        else take (DATE_TIME_LEN + 1) (the backupLabelPrior) @ ''_'' @ buffer
               @ (if type = backupTypeDiff then ''D'' else ''I''))"

record BackupFileRepoPathParam =
  manifestName :: string
  bundleId :: u64
  compressExt :: string
  blockIncr :: bool

definition BACKUP_BLOCK_INCR_EXT :: string where
  "BACKUP_BLOCK_INCR_EXT = ''.pgbi''"

definition backupFileRepoPath :: "string \<Rightarrow> BackupFileRepoPathParam \<Rightarrow> string" where
  "backupFileRepoPath backupLabel param =
    (let result = ''<REPO:BACKUP>/'' @ backupLabel @ ''/''
     in if bundleId param \<noteq> 0 then result @ ''bundle/'' @ fmt_u (unat (bundleId param))
        else result @ manifestName param
               @ (if blockIncr param then BACKUP_BLOCK_INCR_EXT else compressExt param))"

section \<open>What the expressions match\<close>

definition date_time_ok :: "string \<Rightarrow> bool" where
  "date_time_ok s \<longleftrightarrow> length s = DATE_TIME_LEN \<and>
     (\<forall>c\<in>set (take 8 s) \<union> set (drop 9 s). CHR ''0'' \<le> c \<and> c \<le> CHR ''9'') \<and> s ! 8 = CHR ''-''"

text \<open>A label of each type: the timestamp of the full backup, and for the others a second timestamp.\<close>

definition label_of :: "BackupType \<Rightarrow> string \<Rightarrow> bool" where
  "label_of type l \<longleftrightarrow>
    (case type of
       backupTypeFull \<Rightarrow> (\<exists>f. date_time_ok f \<and> l = f @ ''F'')
     | backupTypeDiff \<Rightarrow> (\<exists>f d. date_time_ok f \<and> date_time_ok d \<and> l = f @ ''F_'' @ d @ ''D'')
     | backupTypeIncr \<Rightarrow> (\<exists>f d. date_time_ok f \<and> date_time_ok d \<and> l = f @ ''F_'' @ d @ ''I''))"

lemma rx_times_rng [simp]:
  "rx_times (rx_rests (RRng a b)) n s =
    (if n \<le> length s \<and> (\<forall>c\<in>set (take n s). a \<le> c \<and> c \<le> b) then [drop n s] else [])"
proof (induction n arbitrary: s)
  case (Suc n)
  have "rx_rests (RRng a b) s = (case s of [] \<Rightarrow> [] | d # ds \<Rightarrow> if a \<le> d \<and> d \<le> b then [ds] else [])"
    by simp
  then show ?case
    by (cases s) (auto simp: Suc.IH simp del: rx_rests.simps)
qed simp

lemma rx_rests_date_time:
  "rx_rests DATE_TIME_REGEX s =
    (if 15 \<le> length s \<and> date_time_ok (take 15 s) then [drop 15 s] else [])"
proof (cases "8 < length s")
  case True
  then have split: "s = take 8 s @ s ! 8 # drop 9 s"
    by (metis append_take_drop_id Cons_nth_drop_Suc eval_nat_numeral(3) arith_simps(3) semiring_norm(28))
  have tk: "take 15 s = take 8 s @ s ! 8 # take 6 (drop 9 s)"
    by (subst split) (simp add: min_def)
  show ?thesis
    using True
    by (auto simp: DATE_TIME_REGEX_def date_time_ok_def DATE_TIME_LEN_def Cons_nth_drop_Suc [symmetric] tk
        nth_append min_def)
next
  case False
  then show ?thesis
    by (auto simp: DATE_TIME_REGEX_def)
qed

lemma date_time_take:
  "15 \<le> length s \<and> date_time_ok (take 15 s) \<longleftrightarrow> (\<exists>f r. date_time_ok f \<and> s = f @ r)"
proof
  assume "15 \<le> length s \<and> date_time_ok (take 15 s)"
  then show "\<exists>f r. date_time_ok f \<and> s = f @ r"
    by (metis append_take_drop_id)
qed (auto simp: date_time_ok_def DATE_TIME_LEN_def nth_append)

lemma date_time_rests:
  "r \<in> set (rx_rests DATE_TIME_REGEX s) \<longleftrightarrow> (\<exists>f. date_time_ok f \<and> s = f @ r)"
proof
  assume "r \<in> set (rx_rests DATE_TIME_REGEX s)"
  then have "date_time_ok (take 15 s) \<and> r = drop 15 s"
    by (simp add: rx_rests_date_time split: if_splits)
  then show "\<exists>f. date_time_ok f \<and> s = f @ r"
    by (metis append_take_drop_id)
next
  assume "\<exists>f. date_time_ok f \<and> s = f @ r"
  then obtain f where "date_time_ok f" "s = f @ r" by blast
  then show "r \<in> set (rx_rests DATE_TIME_REGEX s)"
    by (simp add: rx_rests_date_time) (simp add: date_time_ok_def DATE_TIME_LEN_def)
qed

lemma date_time_length [simp]: "date_time_ok f \<Longrightarrow> length f = 15"
  by (simp add: date_time_ok_def DATE_TIME_LEN_def)

lemma chr_rests [simp]: "r \<in> set (rx_rests (RChr c) s) \<longleftrightarrow> s = c # r"
  by (auto split: list.splits)

lemma end_rests [simp]: "r \<in> set (rx_rests REnd s) \<longleftrightarrow> s = [] \<and> r = []"
  by auto

lemma seq_rests [simp]:
  "r \<in> set (rx_rests (RSeq p q) s) \<longleftrightarrow> (\<exists>m. m \<in> set (rx_rests p s) \<and> r \<in> set (rx_rests q m))"
  by auto

lemma alt_rests [simp]:
  "r \<in> set (rx_rests (RAlt p q) s) \<longleftrightarrow> r \<in> set (rx_rests p s) \<or> r \<in> set (rx_rests q s)"
  by auto

lemma opt_rests [simp]: "r \<in> set (rx_rests (ROpt p) s) \<longleftrightarrow> r = s \<or> r \<in> set (rx_rests p s)"
  by auto

lemma regExpMatch_rests: "regExpMatch r s \<longleftrightarrow> (\<exists>t. t \<in> set (rx_rests r s))"
  unfolding regExpMatch_def by (cases "rx_rests r s") auto

lemma backupRegExp_match:
  assumes "full param \<or> differential param \<or> incremental param" and "\<not> noAnchorEnd param"
  shows "regExpMatch (backupRegExp param) l \<longleftrightarrow>
    full param \<and> label_of backupTypeFull l \<or>
    differential param \<and> label_of backupTypeDiff l \<or>
    incremental param \<and> label_of backupTypeIncr l"
proof -
  have *: "(\<exists>f. date_time_ok f \<and> s = f @ CHR ''_'' # m) \<longleftrightarrow> (\<exists>f. date_time_ok f \<and> s = f @ ''_'' @ m)" for s m
    by simp
  show ?thesis
    using assms
    by (cases "full param"; cases "differential param"; cases "incremental param")
       (auto simp: regExpMatch_rests backupRegExp_def Let_def label_of_def date_time_rests
         simp del: rx_rests.simps)
qed

section \<open>Labels and their full backup\<close>

definition is_label :: "string \<Rightarrow> bool" where
  "is_label l \<longleftrightarrow> label_of backupTypeFull l \<or> label_of backupTypeDiff l \<or> label_of backupTypeIncr l"

lemmas label_of_simps = label_of_def BackupType.case

lemma is_labelE:
  assumes "is_label l"
  obtains f r where "date_time_ok f" and "l = f @ ''F'' @ r"
  using assms by (auto simp: is_label_def label_of_simps)

lemma is_label_full: "is_label l \<Longrightarrow> label_of backupTypeFull (take 16 l)"
  by (elim is_labelE) (auto simp: label_of_simps)

lemma full_label_length: "label_of backupTypeFull l \<Longrightarrow> length l = 16"
  by (auto simp: label_of_simps)

lemma label_of_length:
  "label_of type l \<Longrightarrow> length l = (if type = backupTypeFull then 16 else 33)"
  by (cases type) (auto simp: label_of_simps)

lemma label_of_last: "label_of backupTypeDiff l \<Longrightarrow> label_of backupTypeIncr l \<Longrightarrow> False"
  by (auto simp: label_of_simps)

lemma label_of_unique: "label_of t l \<Longrightarrow> label_of t' l \<Longrightarrow> t = t'"
  using label_of_length[of t l] label_of_length[of t' l] label_of_last[of l]
  by (cases t; cases t') auto

text \<open>A label sorts at or after its full backup, and before every later full backup.\<close>

lemma prefix_le: "xs \<le> xs @ (ys :: 'a::linorder list)"
  by (induction xs) auto

lemma label_after_full: "take 16 l \<le> (l :: string)"
  using prefix_le[of "take 16 l" "drop 16 l"] by simp

lemma label_before_later_full:
  assumes "is_label l" and "label_of backupTypeFull g" and "take 16 l < g"
  shows "l < g"
proof -
  have "length (take 16 l) = length g"
    using assms is_label_full full_label_length by metis
  with assms(3) have "take 16 l @ drop 16 l < g @ []"
    by (subst append_less_iff) auto
  then show ?thesis by simp
qed

lemma backupLabelFormat_label_of:
  assumes "\<And>t. date_time_ok (timeFmt t)" and "type \<noteq> backupTypeFull \<Longrightarrow> is_label (the prior)"
  shows "label_of type (backupLabelFormat timeFmt type prior ts)"
proof (cases "type = backupTypeFull")
  case True
  with assms(1) show ?thesis by (auto simp: backupLabelFormat_def label_of_simps)
next
  case False
  then obtain f r where "date_time_ok f" "the prior = f @ ''F'' @ r"
    using assms(2) is_labelE by metis
  with False assms(1)[of ts] show ?thesis
    by (cases type) (force simp: backupLabelFormat_def label_of_simps DATE_TIME_LEN_def)+
qed

lemma backupLabelFormat_facts:
  assumes "\<And>t. date_time_ok (timeFmt t)"
    and "type \<noteq> backupTypeFull \<Longrightarrow> is_label (the prior)"
    and "full param \<or> differential param \<or> incremental param" and "\<not> noAnchorEnd param"
    and "l = backupLabelFormat timeFmt type prior ts"
  shows "regExpMatch (backupRegExp param) l \<longleftrightarrow>
      (case type of backupTypeFull \<Rightarrow> full param | backupTypeDiff \<Rightarrow> differential param
        | backupTypeIncr \<Rightarrow> incremental param)"
    and "type \<noteq> backupTypeFull \<Longrightarrow> take 16 l = take 16 (the prior) \<and> take 16 (the prior) < l"
    and "label_of backupTypeFull g \<Longrightarrow> take 16 l < g \<Longrightarrow> l < g"
proof -
  have lab: "label_of type l"
    using assms backupLabelFormat_label_of by metis
  have lab_iff: "label_of t l \<longleftrightarrow> t = type" for t
    using lab label_of_unique by blast
  show "regExpMatch (backupRegExp param) l \<longleftrightarrow>
      (case type of backupTypeFull \<Rightarrow> full param | backupTypeDiff \<Rightarrow> differential param
        | backupTypeIncr \<Rightarrow> incremental param)"
    unfolding backupRegExp_match[OF assms(3,4)] lab_iff by (cases type) auto
  show "label_of backupTypeFull g \<Longrightarrow> take 16 l < g \<Longrightarrow> l < g"
    using lab label_before_later_full by (cases type) (auto simp: is_label_def)
  assume dep: "type \<noteq> backupTypeFull"
  then have "length (take 16 (the prior)) = 16"
    using assms(2) is_label_full full_label_length by metis
  with dep have tk: "take 16 l = take 16 (the prior)"
    by (simp add: assms(5) backupLabelFormat_def DATE_TIME_LEN_def Let_def)
  moreover have "length l = 33"
    using lab dep label_of_length by auto
  then have "take 16 l \<noteq> l"
    by auto
  ultimately show "take 16 l = take 16 (the prior) \<and> take 16 (the prior) < l"
    using label_after_full[of l] by auto
qed

section \<open>Properties\<close>

text \<open>
  A label that \<open>backupLabelFormat\<close> makes is accepted by the expression that \<open>backupRegExp\<close> builds exactly
  when the label's own type is one of the requested types.  A label of a dependent backup starts with the
  label of the full backup of its prior, so it sorts after that full backup and before every later full
  backup: this is the order that all retention decisions use.  The shape of the formatted time is the
  hypothesis on the C library.
\<close>

theorem backupLabelFormat_classified:
  assumes "\<And>t. date_time_ok (timeFmt t)"
    and "type \<noteq> backupTypeFull \<Longrightarrow> is_label (the prior)"
    and "full param \<or> differential param \<or> incremental param" and "\<not> noAnchorEnd param"
    and "l = backupLabelFormat timeFmt type prior ts"
  shows "(regExpMatch (backupRegExp param) l \<longleftrightarrow>
      (case type of backupTypeFull \<Rightarrow> full param | backupTypeDiff \<Rightarrow> differential param
        | backupTypeIncr \<Rightarrow> incremental param)) \<and>
    (type \<noteq> backupTypeFull \<longrightarrow> take 16 l = take 16 (the prior) \<and> take 16 (the prior) < l) \<and>
    (\<forall>g. label_of backupTypeFull g \<longrightarrow> take 16 l < g \<longrightarrow> l < g)"
  using backupLabelFormat_facts[OF assms] by blast

theorem backupLabelFormat_classified_witness:
  "regExpMatch (backupRegExp \<lparr>full = False, differential = True, incremental = False, noAnchorEnd = False\<rparr>)
     (backupLabelFormat (\<lambda>_. ''20220901-193409'') backupTypeDiff (Some ''20220829-101500F_20220830-101500I'') (0::int))"
proof -
  have dt: "date_time_ok ''20220901-193409''" "date_time_ok ''20220829-101500''" "date_time_ok ''20220830-101500''"
    by (simp_all add: date_time_ok_def DATE_TIME_LEN_def less_eq_char_def)
  have prior: "is_label ''20220829-101500F_20220830-101500I''"
    unfolding is_label_def label_of_simps
    by (intro disjI2 exI[of _ "''20220829-101500''"] exI[of _ "''20220830-101500''"]) (simp add: dt)
  show ?thesis
    using backupLabelFormat_classified[where type = backupTypeDiff and timeFmt = "\<lambda>_::int. ''20220901-193409''"
        and prior = "Some ''20220829-101500F_20220830-101500I''" and ts = 0 and l = "backupLabelFormat (\<lambda>_. ''20220901-193409'') backupTypeDiff (Some ''20220829-101500F_20220830-101500I'') (0::int)"
        and param = "\<lparr>full = False, differential = True, incremental = False, noAnchorEnd = False\<rparr>"]
      dt prior by simp
qed

end
