(* ===== verification/Storage.thy ===== *)
theory Storage
  imports BackupCommon
begin

text \<open>
  The storage interface (\<^verbatim>\<open>src/src/storage/storage.c\<close>) as the repository commands use it: existence of
  files, listing by expression, put, removal of files and recursive removal of paths.  Drivers, remotes,
  encryption and I/O errors are not modelled.

  A storage is the list of its files, each a path (the list of its components below the repository root)
  with a content.  A path exists when it is the proper prefix of a file, so there are no empty paths (as on
  an object store).
\<close>

type_synonym path = "string list"
type_synonym 'c storage = "(path \<times> 'c) list"

definition storageContent :: "'c storage \<Rightarrow> path \<Rightarrow> 'c option" where
  "storageContent fs p = map_of fs p"

definition storageExists :: "'c storage \<Rightarrow> path \<Rightarrow> bool" where
  "storageExists fs p = (p \<in> set (map fst fs))"

definition storageRemove :: "'c storage \<Rightarrow> path \<Rightarrow> 'c storage" where
  "storageRemove fs p = filter (\<lambda>(q, c). q \<noteq> p) fs"

text \<open>\<^verbatim>\<open>storagePathRemoveP(..., .recurse = true)\<close>\<close>

definition storagePathRemove :: "'c storage \<Rightarrow> path \<Rightarrow> 'c storage" where
  "storagePathRemove fs p = filter (\<lambda>(q, c). \<not> prefix p q) fs"

definition storagePut :: "'c storage \<Rightarrow> path \<Rightarrow> 'c \<Rightarrow> 'c storage" where
  "storagePut fs p c = (p, c) # storageRemove fs p"

text \<open>Names directly below a path, one per name, and those that match an expression.\<close>

definition storageListAll :: "'c storage \<Rightarrow> path \<Rightarrow> string list" where
  "storageListAll fs p = remdups (map (\<lambda>(q, c). q ! length p) (filter (\<lambda>(q, c). strict_prefix p q) fs))"

definition storageList :: "'c storage \<Rightarrow> path \<Rightarrow> rx \<Rightarrow> string list" where
  "storageList fs p expression = filter (regExpMatch expression) (storageListAll fs p)"

section \<open>String lists\<close>

datatype SortOrder = sortOrderNone | sortOrderAsc | sortOrderDesc

definition strLstSort :: "string list \<Rightarrow> SortOrder \<Rightarrow> string list" where
  "strLstSort xs sortOrder =
    (case sortOrder of sortOrderNone \<Rightarrow> xs | sortOrderAsc \<Rightarrow> sort xs | sortOrderDesc \<Rightarrow> rev (sort xs))"

lemma set_strLstSort [simp]: "set (strLstSort xs so) = set xs"
  by (cases so) (auto simp: strLstSort_def)

lemma length_strLstSort [simp]: "length (strLstSort xs so) = length xs"
  by (cases so) (auto simp: strLstSort_def)

lemma distinct_strLstSort [simp]: "distinct (strLstSort xs so) = distinct xs"
  by (cases so) (auto simp: strLstSort_def)

section \<open>Laws\<close>

lemma storageContent_put [simp]:
  "storageContent (storagePut fs p c) q = (if q = p then Some c else storageContent fs q)"
  unfolding storageContent_def storagePut_def storageRemove_def
  by (induction fs) auto

lemma storageContent_remove [simp]:
  "storageContent (storageRemove fs p) q = (if q = p then None else storageContent fs q)"
  unfolding storageContent_def storageRemove_def by (induction fs) auto

lemma storageContent_path_remove [simp]:
  "storageContent (storagePathRemove fs p) q = (if prefix p q then None else storageContent fs q)"
  unfolding storageContent_def storagePathRemove_def by (induction fs) auto

lemma storageExists_get: "storageExists fs p \<longleftrightarrow> storageContent fs p \<noteq> None"
  unfolding storageExists_def storageContent_def by (simp add: map_of_eq_None_iff)

lemma storageExists_simps [simp]:
  "storageExists (storageRemove fs p) q \<longleftrightarrow> q \<noteq> p \<and> storageExists fs q"
  "storageExists (storagePathRemove fs p) q \<longleftrightarrow> \<not> prefix p q \<and> storageExists fs q"
  "storageExists (storagePut fs p c) q \<longleftrightarrow> q = p \<or> storageExists fs q"
  by (auto simp: storageExists_get)

text \<open>
  The contract that the clients of a storage rely on: what is read after a put and after a remove.  Clients that
  remove or write a list of files get their laws from it.
\<close>

locale file_store =
  fixes content :: "'s \<Rightarrow> 'p \<Rightarrow> 'c option"
    and put :: "'s \<Rightarrow> 'p \<Rightarrow> 'c \<Rightarrow> 's"
    and remove :: "'s \<Rightarrow> 'p \<Rightarrow> 's"
  assumes content_put: "content (put fs p c) q = (if q = p then Some c else content fs q)"
    and content_remove: "content (remove fs p) q = (if q = p then None else content fs q)"
begin

lemma content_remove_all:
  "content (foldl (\<lambda>fs x. remove fs (path x)) fs xs) q = (if q \<in> path ` set xs then None else content fs q)"
  by (induction xs arbitrary: fs) (auto simp: content_remove)

lemma content_put_all_other:
  "q \<notin> path ` set xs \<Longrightarrow> content (foldl (\<lambda>fs x. put fs (path x) (data x)) fs xs) q = content fs q"
  by (induction xs arbitrary: fs) (auto simp: content_put)

lemma content_put_all:
  assumes "x \<in> set xs" "inj_on path (set xs)"
  shows "content (foldl (\<lambda>fs x. put fs (path x) (data x)) fs xs) (path x) = Some (data x)"
  using assms
proof (induction xs arbitrary: fs)
  case (Cons y ys)
  then show ?case
  proof (cases "x \<in> set ys")
    case False
    then have "x = y" "path x \<notin> path ` set ys" using Cons.prems by (auto simp: inj_on_def)
    then show ?thesis by (simp add: content_put_all_other content_put)
  qed (auto simp: inj_on_def)
qed simp

end

interpretation storage: file_store storageContent storagePut storageRemove
  by unfold_locales simp_all

lemma in_storageListAll: "n \<in> set (storageListAll fs p) \<longleftrightarrow> (\<exists>q. storageExists fs (p @ n # q))"
proof -
  have "(\<exists>q. strict_prefix p q \<and> q ! length p = n \<and> storageExists fs q) \<longleftrightarrow> (\<exists>q. storageExists fs (p @ n # q))"
    by (auto simp: strict_prefix_def prefix_def) (metis neq_Nil_conv nth_append_length)
  moreover have "n \<in> (\<lambda>(q, c). q ! length p) ` {x \<in> set fs. case x of (q, c) \<Rightarrow> strict_prefix p q} \<longleftrightarrow>
      (\<exists>q. strict_prefix p q \<and> q ! length p = n \<and> storageExists fs q)"
    by (force simp: storageExists_def image_iff)
  ultimately show ?thesis
    by (auto simp: storageListAll_def)
qed

lemma in_storageList:
  "n \<in> set (storageList fs p r) \<longleftrightarrow> regExpMatch r n \<and> (\<exists>q. storageExists fs (p @ n # q))"
  by (auto simp: storageList_def in_storageListAll)

lemma distinct_storageListAll [simp]: "distinct (storageListAll fs p)"
  by (simp add: storageListAll_def)

end
