(* ===== verification/InfoBackup.thy ===== *)
theory InfoBackup
  imports Storage
begin

text \<open>
  \<^verbatim>\<open>backup.info\<close>, the index of the retained backups of a stanza: \<^verbatim>\<open>src/src/info/infoBackup.c\<close>, with the
  PostgreSQL history it carries (\<^verbatim>\<open>src/src/info/infoPg.c\<close>) and the two-file load of \<^verbatim>\<open>src/src/info/info.c\<close>.

  The file content is kept as the object it encodes; the ini/JSON text and its checksum are not modelled.
\<close>

section \<open>PostgreSQL history\<close>

record InfoPgData =
  pgid :: u32
  systemId :: u64
  catalogVersion :: u32
  version :: u32
  controlVersion :: u32

datatype InfoPgType = infoPgArchive | infoPgBackup

record InfoPg =
  history :: "InfoPgData list"
  pgType :: InfoPgType
  historyCurrent :: nat
  infoPgCipherPass :: "string option"

text \<open>\<^verbatim>\<open>lstGet\<close> out of range throws.\<close>

definition lstGet :: "'a list \<Rightarrow> nat \<Rightarrow> 'a res" where
  "lstGet xs i = (if i < length xs then Inr (xs ! i) else Inl AssertError)"

definition infoPgData :: "InfoPg \<Rightarrow> nat \<Rightarrow> InfoPgData res" where
  "infoPgData this pgDataIdx = lstGet (history this) pgDataIdx"

definition infoPgDataTotal :: "InfoPg \<Rightarrow> nat" where
  "infoPgDataTotal this = length (history this)"

definition infoPgDataCurrent :: "InfoPg \<Rightarrow> InfoPgData res" where
  "infoPgDataCurrent this = infoPgData this (historyCurrent this)"

definition infoPgCurrentDataId :: "InfoPg \<Rightarrow> u32 res" where
  "infoPgCurrentDataId this = bindR (infoPgDataCurrent this) (\<lambda>d. Inr (pgid d))"

definition infoPgAdd :: "InfoPg \<Rightarrow> InfoPgData \<Rightarrow> InfoPg" where
  "infoPgAdd this d = this\<lparr>history := d # history this, historyCurrent := 0\<rparr>"

text \<open>\<open>pgControlVersion\<close> is the version table of \<^verbatim>\<open>postgres/interface\<close>, generated at build time.\<close>

definition infoPgSet :: "(u32 \<Rightarrow> u32) \<Rightarrow> InfoPg \<Rightarrow> u32 \<Rightarrow> u64 \<Rightarrow> u32 \<Rightarrow> InfoPg res" where
  "infoPgSet pgControlVersion this pgVersion pgSystemId pgCatalogVersion =
    bindR (if infoPgDataTotal this > 0 then bindR (infoPgCurrentDataId this) (\<lambda>i. Inr (i + 1)) else Inr 1)
      (\<lambda>pgDataId.
        let d = \<lparr>pgid = pgDataId, systemId = pgSystemId, catalogVersion = 0, version = pgVersion, controlVersion = 0\<rparr>;
            d = (if pgType this = infoPgBackup
                 then d\<lparr>catalogVersion := pgCatalogVersion, controlVersion := pgControlVersion pgVersion\<rparr> else d)
        in Inr (infoPgAdd this d))"

definition pgVersionToStr :: "u32 \<Rightarrow> string" where
  "pgVersionToStr v =
    (if v \<ge> 100000 then fmt_u (unat (v div 10000))
     else fmt_u (unat (v div 10000)) @ ''.'' @ fmt_u (unat (v mod 10000 div 100)))"

definition infoPgArchiveId :: "InfoPg \<Rightarrow> nat \<Rightarrow> string res" where
  "infoPgArchiveId this pgDataIdx =
    bindR (infoPgData this pgDataIdx)
      (\<lambda>d. Inr (pgVersionToStr (version d) @ ''-'' @ fmt_u (unat (pgid d))))"

section \<open>Compression types\<close>

datatype CompressType = compressTypeNone | compressTypeBz2 | compressTypeGz | compressTypeLz4 | compressTypeZst | compressTypeXz

fun compressExtStr :: "CompressType \<Rightarrow> string" where
  "compressExtStr compressTypeNone = []"
| "compressExtStr compressTypeBz2 = ''.bz2''"
| "compressExtStr compressTypeGz = ''.gz''"
| "compressExtStr compressTypeLz4 = ''.lz4''"
| "compressExtStr compressTypeZst = ''.zst''"
| "compressExtStr compressTypeXz = ''.xz''"

text \<open>The number of a type is its position in the enum, which is what is sent in a message.\<close>

definition compressTypes :: "CompressType list" where
  "compressTypes = [compressTypeNone, compressTypeBz2, compressTypeGz, compressTypeLz4, compressTypeZst, compressTypeXz]"

definition compressTypeFromName :: "string \<Rightarrow> CompressType" where
  "compressTypeFromName name =
    (case find (\<lambda>t. suffix (compressExtStr t) name) (tl compressTypes) of None \<Rightarrow> compressTypeNone | Some t \<Rightarrow> t)"

section \<open>The part of a backup manifest that backup.info and the verify command use\<close>

record ManifestFile =
  manFileName :: string
  fileChecksumSha1 :: "byte list"
  fileChecksumRepoSha1 :: "byte list option"
  fileBundleId :: u64
  fileBundleOffset :: u64
  fileSize :: u64
  sizeRepo :: u64
  blockIncrMapSize :: u64
  reference :: "string option"
  checksumPageError :: bool

record ManifestData =
  manBackrestVersion :: string
  manBackupLabel :: string
  manBackupLabelPrior :: "string option"
  manTimestampStart :: int
  manTimestampStop :: int
  manBackupType :: BackupType
  manBundle :: bool
  manBlockIncr :: bool
  manArchiveStart :: "string option"
  manArchiveStop :: "string option"
  manLsnStart :: "string option"
  manLsnStop :: "string option"
  manPgId :: u32
  manPgVersion :: u32
  manPgSystemId :: u64
  manAnnotation :: "(string \<times> string) list option"
  manOptionArchiveCheck :: bool
  manOptionArchiveCopy :: bool
  manOptionStandby :: "bool option"
  manOptionChecksumPage :: "bool option"
  manOptionCompressType :: CompressType
  manOptionHardLink :: bool
  manOptionOnline :: bool

record Manifest =
  manData :: ManifestData
  manFileList :: "ManifestFile list"
  manReferenceList :: "string list"
  manCipherSubPass :: "string option"

section \<open>Backup entries\<close>

record InfoBackupData =
  backupLabel :: string
  backrestFormat :: u32
  backrestVersion :: string
  backupAnnotation :: "(string \<times> string) list option"
  backupArchiveStart :: "string option"
  backupArchiveStop :: "string option"
  backupInfoRepoSize :: u64
  backupInfoRepoSizeDelta :: u64
  backupInfoRepoSizeMap :: "u64 option"
  backupInfoRepoSizeMapDelta :: "u64 option"
  backupInfoSize :: u64
  backupInfoSizeDelta :: u64
  backupLsnStart :: "string option"
  backupLsnStop :: "string option"
  backupPgId :: u32
  backupPrior :: "string option"
  backupReference :: "string list option"
  backupTimestampStart :: int
  backupTimestampStop :: int
  backupType :: BackupType
  backupError :: "bool option"
  optionArchiveCheck :: bool
  optionArchiveCopy :: bool
  optionBackupStandby :: bool
  optionChecksumPage :: bool
  optionCompress :: bool
  optionHardlink :: bool
  optionOnline :: bool

record InfoBackup =
  infoBackupPg :: InfoPg
  backup :: "InfoBackupData list"
  updated :: bool

definition infoBackupNew :: "(u32 \<Rightarrow> u32) \<Rightarrow> u32 \<Rightarrow> u64 \<Rightarrow> u32 \<Rightarrow> string option \<Rightarrow> InfoBackup res" where
  "infoBackupNew pgControlVersion pgVersion pgSystemId pgCatalogVersion cipherPassSub =
    bindR (infoPgSet pgControlVersion
             \<lparr>history = [], pgType = infoPgBackup, historyCurrent = 0, infoPgCipherPass = cipherPassSub\<rparr>
             pgVersion pgSystemId pgCatalogVersion)
      (\<lambda>pg. Inr \<lparr>infoBackupPg = pg, backup = [], updated = True\<rparr>)"

definition infoBackupPgSet :: "(u32 \<Rightarrow> u32) \<Rightarrow> InfoBackup \<Rightarrow> u32 \<Rightarrow> u64 \<Rightarrow> u32 \<Rightarrow> InfoBackup res" where
  "infoBackupPgSet pgControlVersion this pgVersion pgSystemId pgCatalogVersion =
    bindR (infoPgSet pgControlVersion (infoBackupPg this) pgVersion pgSystemId pgCatalogVersion)
      (\<lambda>pg. Inr (this\<lparr>infoBackupPg := pg, updated := True\<rparr>))"

definition infoBackupData :: "InfoBackup \<Rightarrow> nat \<Rightarrow> InfoBackupData res" where
  "infoBackupData this backupDataIdx = lstGet (backup this) backupDataIdx"

definition infoBackupDataTotal :: "InfoBackup \<Rightarrow> nat" where
  "infoBackupDataTotal this = length (backup this)"

definition infoBackupDataByLabel :: "InfoBackup \<Rightarrow> string \<Rightarrow> InfoBackupData option" where
  "infoBackupDataByLabel this l = find (\<lambda>b. backupLabel b = l) (backup this)"

definition infoBackupLabelExists :: "InfoBackup \<Rightarrow> string \<Rightarrow> bool" where
  "infoBackupLabelExists this l = (infoBackupDataByLabel this l \<noteq> None)"

definition infoBackupDataLabelList :: "InfoBackup \<Rightarrow> rx option \<Rightarrow> string list" where
  "infoBackupDataLabelList this expression =
    filter (\<lambda>l. case expression of None \<Rightarrow> True | Some r \<Rightarrow> regExpMatch r l) (map backupLabel (backup this))"

text \<open>The loop over the entries from oldest to newest, with the list of labels so far.\<close>

fun infoBackupDataDependentList_loop :: "InfoBackupData list \<Rightarrow> string list \<Rightarrow> string list" where
  "infoBackupDataDependentList_loop [] result = result"
| "infoBackupDataDependentList_loop (b # bs) result =
    infoBackupDataDependentList_loop bs
      (case backupPrior b of
         None \<Rightarrow> result
       | Some p \<Rightarrow> if p \<in> set result then result @ [backupLabel b] else result)"

definition infoBackupDataDependentList :: "InfoBackup \<Rightarrow> string \<Rightarrow> string list" where
  "infoBackupDataDependentList this l = infoBackupDataDependentList_loop (backup this) [l]"

text \<open>The loop of \<^verbatim>\<open>infoBackupDataDelete\<close> goes on at the next index after a removal.\<close>

definition lstRemoveIdx :: "'a list \<Rightarrow> nat \<Rightarrow> 'a list" where
  "lstRemoveIdx xs i = take i xs @ drop (Suc i) xs"

function infoBackupDataDelete_loop :: "string \<Rightarrow> InfoBackupData list \<Rightarrow> nat \<Rightarrow> InfoBackupData list" where
  "infoBackupDataDelete_loop l bs idx =
    (if idx < length bs then
       if backupLabel (bs ! idx) = l then infoBackupDataDelete_loop l (lstRemoveIdx bs idx) (Suc idx)
       else infoBackupDataDelete_loop l bs (Suc idx)
     else bs)"
  by pat_completeness auto
termination
  by (relation "measure (\<lambda>(l, bs, idx). length bs - idx)") (auto simp: lstRemoveIdx_def)

declare infoBackupDataDelete_loop.simps [simp del]

definition infoBackupDataDelete :: "InfoBackup \<Rightarrow> string \<Rightarrow> InfoBackup" where
  "infoBackupDataDelete this l =
    this\<lparr>backup := infoBackupDataDelete_loop l (backup this) 0, updated := True\<rparr>"

section \<open>Adding a backup\<close>

text \<open>The sums of the loop over the manifest files: size, repo size, map size, the same three for files that
  are not references, and whether a file has a page checksum error.  All sums wrap at 64 bits.\<close>

record BackupSizes =
  szBackup :: u64
  szRepo :: u64
  szMap :: u64
  szBackupDelta :: u64
  szRepoDelta :: u64
  szMapDelta :: u64
  szError :: bool

definition manifestFile_repo :: "ManifestFile \<Rightarrow> u64" where
  "manifestFile_repo file = (if sizeRepo file > 0 then sizeRepo file else fileSize file)"

definition infoBackupDataAdd_file :: "ManifestFile \<Rightarrow> BackupSizes \<Rightarrow> BackupSizes" where
  "infoBackupDataAdd_file file s =
    (let s = s\<lparr>szBackup := szBackup s + fileSize file, szRepo := szRepo s + manifestFile_repo file,
               szMap := szMap s + blockIncrMapSize file\<rparr>;
         s = (if reference file = None
              then s\<lparr>szBackupDelta := szBackupDelta s + fileSize file,
                     szRepoDelta := szRepoDelta s + manifestFile_repo file,
                     szMapDelta := szMapDelta s + blockIncrMapSize file\<rparr>
              else s)
     in if checksumPageError file then s\<lparr>szError := True\<rparr> else s)"

definition infoBackupDataAdd_sizes :: "ManifestFile list \<Rightarrow> BackupSizes" where
  "infoBackupDataAdd_sizes files =
    fold infoBackupDataAdd_file files
      \<lparr>szBackup = 0, szRepo = 0, szMap = 0, szBackupDelta = 0, szRepoDelta = 0, szMapDelta = 0, szError = False\<rparr>"

definition REPOSITORY_FORMAT :: u32 where
  "REPOSITORY_FORMAT = 5"

definition infoBackupDataAdd_entry :: "Manifest \<Rightarrow> InfoBackupData" where
  "infoBackupDataAdd_entry manifest =
    (let d = manData manifest; s = infoBackupDataAdd_sizes (manFileList manifest)
     in \<lparr>backupLabel = manBackupLabel d,
         backrestFormat = REPOSITORY_FORMAT,
         backrestVersion = manBackrestVersion d,
         backupAnnotation = manAnnotation d,
         backupArchiveStart = manArchiveStart d,
         backupArchiveStop = manArchiveStop d,
         backupInfoRepoSize = szRepo s,
         backupInfoRepoSizeDelta = szRepoDelta s,
         backupInfoRepoSizeMap = (if manBlockIncr d then Some (szMap s) else None),
         backupInfoRepoSizeMapDelta = (if manBlockIncr d then Some (szMapDelta s) else None),
         backupInfoSize = szBackup s,
         backupInfoSizeDelta = szBackupDelta s,
         backupLsnStart = manLsnStart d,
         backupLsnStop = manLsnStop d,
         backupPgId = manPgId d,
         backupPrior = (if manBackupType d \<noteq> backupTypeFull then manBackupLabelPrior d else None),
         backupReference =
           (if manBackupType d \<noteq> backupTypeFull then Some (butlast (strLstSort (manReferenceList manifest) sortOrderAsc))
            else None),
         backupTimestampStart = manTimestampStart d,
         backupTimestampStop = manTimestampStop d,
         backupType = manBackupType d,
         backupError = Some (szError s),
         optionArchiveCheck = manOptionArchiveCheck d,
         optionArchiveCopy = manOptionArchiveCopy d,
         optionBackupStandby = (case manOptionStandby d of Some b \<Rightarrow> b | None \<Rightarrow> False),
         optionChecksumPage = (case manOptionChecksumPage d of Some b \<Rightarrow> b | None \<Rightarrow> False),
         optionCompress = (manOptionCompressType d \<noteq> compressTypeNone),
         optionHardlink = manOptionHardLink d,
         optionOnline = manOptionOnline d\<rparr>)"

text \<open>The reference list of a diff/incr manifest holds the backup itself, so its last entry can be removed; on
  an empty list the index of the removal wraps.\<close>

definition infoBackupDataAdd :: "InfoBackup \<Rightarrow> Manifest \<Rightarrow> InfoBackup res" where
  "infoBackupDataAdd this manifest =
    (if manBackupType (manData manifest) \<noteq> backupTypeFull \<and> manReferenceList manifest = [] then Inl UndefinedBehavior
     else Inr (this\<lparr>backup := sort_key backupLabel (backup this @ [infoBackupDataAdd_entry manifest]), updated := True\<rparr>))"

section \<open>Annotations\<close>

fun kvPut :: "(string \<times> string) list \<Rightarrow> string \<Rightarrow> string \<Rightarrow> (string \<times> string) list" where
  "kvPut [] k v = [(k, v)]"
| "kvPut ((k', v') # kvs) k v = (if k' = k then (k', v) # kvs else (k', v') # kvPut kvs k v)"

fun kvRemove :: "(string \<times> string) list \<Rightarrow> string \<Rightarrow> (string \<times> string) list" where
  "kvRemove [] k = []"
| "kvRemove ((k', v') # kvs) k = (if k' = k then kvs else (k', v') # kvRemove kvs k)"

fun annotation_update :: "(string \<times> string) list \<Rightarrow> (string \<times> string) list \<Rightarrow> (string \<times> string) list" where
  "annotation_update kvs [] = kvs"
| "annotation_update kvs ((newKey, newValue) # new) =
    annotation_update (if newValue = [] then kvRemove kvs newKey else kvPut kvs newKey newValue) new"

definition annotation_set :: "(string \<times> string) list \<Rightarrow> InfoBackupData \<Rightarrow> InfoBackupData" where
  "annotation_set newAnnotationKv b =
    (let kv = annotation_update (case backupAnnotation b of None \<Rightarrow> [] | Some kv \<Rightarrow> kv) newAnnotationKv
     in b\<lparr>backupAnnotation := (if kv = [] then None else Some kv)\<rparr>)"

text \<open>\<^verbatim>\<open>lstFind\<close> gives a pointer to the first entry with the label; a missing label is a null dereference.\<close>

fun update_first :: "('a \<Rightarrow> bool) \<Rightarrow> ('a \<Rightarrow> 'a) \<Rightarrow> 'a list \<Rightarrow> 'a list" where
  "update_first P f [] = []"
| "update_first P f (x # xs) = (if P x then f x # xs else x # update_first P f xs)"

definition infoBackupDataAnnotationSet :: "InfoBackup \<Rightarrow> string \<Rightarrow> (string \<times> string) list \<Rightarrow> InfoBackup res" where
  "infoBackupDataAnnotationSet this l newAnnotationKv =
    (if infoBackupLabelExists this l
     then Inr (this\<lparr>backup := update_first (\<lambda>b. backupLabel b = l) (annotation_set newAnnotationKv) (backup this),
                    updated := True\<rparr>)
     else Inl UndefinedBehavior)"

section \<open>Load and save\<close>

datatype content = FBackupInfo InfoBackup | FArchiveInfo InfoPg | FManifest Manifest | FLink string | FData string

type_synonym repo = "content storage"

text \<open>
  The retry loop of \<^verbatim>\<open>infoLoad\<close> for a callback that has the given results for tries 0, 1, \<dots> and returns
  false after the last one.
\<close>

definition infoLoad_error :: "error option \<Rightarrow> error \<Rightarrow> error" where
  "infoLoad_error loadErrorType e =
    (case loadErrorType of
       None \<Rightarrow> e
     | Some e0 \<Rightarrow>
         if e0 \<noteq> e then if e0 = FileMissingError then e else if e \<noteq> FileMissingError then FileOpenError else e0
         else e0)"

fun infoLoad :: "error option \<Rightarrow> 'a res list \<Rightarrow> 'a res" where
  "infoLoad loadErrorType [] = (case loadErrorType of None \<Rightarrow> Inl AssertError | Some e \<Rightarrow> Inl e)"
| "infoLoad loadErrorType (Inr x # tries) = Inr x"
| "infoLoad loadErrorType (Inl e # tries) = infoLoad (Some (infoLoad_error loadErrorType e)) tries"

definition INFO_COPY_EXT :: string where
  "INFO_COPY_EXT = ''.copy''"

definition copyFileName :: "path \<Rightarrow> path" where
  "copyFileName p = butlast p @ [last p @ INFO_COPY_EXT]"

definition REPO_BACKUP :: path where
  "REPO_BACKUP = [''backup'']"

definition INFO_BACKUP_PATH_FILE :: path where
  "INFO_BACKUP_PATH_FILE = REPO_BACKUP @ [''backup.info'']"

definition BACKUP_MANIFEST_FILE :: string where
  "BACKUP_MANIFEST_FILE = ''backup.manifest''"

definition manifestFileName :: "string \<Rightarrow> path" where
  "manifestFileName l = REPO_BACKUP @ [l, BACKUP_MANIFEST_FILE]"

definition infoBackupRead :: "repo \<Rightarrow> path \<Rightarrow> InfoBackup res" where
  "infoBackupRead storage fileName =
    (case storageContent storage fileName of
       None \<Rightarrow> Inl FileMissingError
     | Some (FBackupInfo ib) \<Rightarrow> Inr (ib\<lparr>updated := False\<rparr>)
     | Some _ \<Rightarrow> Inl FormatError)"

definition infoBackupLoadFile :: "repo \<Rightarrow> path \<Rightarrow> InfoBackup res" where
  "infoBackupLoadFile storage fileName =
    infoLoad None [infoBackupRead storage fileName, infoBackupRead storage (copyFileName fileName)]"

definition manifestRead :: "repo \<Rightarrow> path \<Rightarrow> Manifest res" where
  "manifestRead storage fileName =
    (case storageContent storage fileName of
       None \<Rightarrow> Inl FileMissingError
     | Some (FManifest m) \<Rightarrow> Inr m
     | Some _ \<Rightarrow> Inl FormatError)"

definition manifestLoadFile :: "repo \<Rightarrow> path \<Rightarrow> Manifest res" where
  "manifestLoadFile storage fileName =
    infoLoad None [manifestRead storage fileName, manifestRead storage (copyFileName fileName)]"

definition infoBackupSaveFile :: "InfoBackup \<Rightarrow> repo \<Rightarrow> path \<Rightarrow> InfoBackup \<times> repo" where
  "infoBackupSaveFile this storage fileName =
    (if updated this then
       (this\<lparr>updated := False\<rparr>,
        storagePut (storagePut storage fileName (FBackupInfo this)) (copyFileName fileName) (FBackupInfo this))
     else (this, storage))"

text \<open>First loop of \<^verbatim>\<open>infoBackupLoadFileReconstruct\<close>: drop the backups whose manifest is gone, with their
  dependents.\<close>

fun reconstruct_remove :: "repo \<Rightarrow> string list \<Rightarrow> InfoBackup \<Rightarrow> InfoBackup" where
  "reconstruct_remove storage [] ib = ib"
| "reconstruct_remove storage (l # ls) ib =
    reconstruct_remove storage ls
      (if \<not> storageExists storage (manifestFileName l) \<and> infoBackupLabelExists ib l
       then fold (\<lambda>r ib. infoBackupDataDelete ib r)
              (strLstSort (infoBackupDataDependentList ib l) sortOrderDesc) ib
       else ib)"

text \<open>Does some history entry allow this manifest to be added?\<close>

definition reconstruct_valid :: "InfoBackup \<Rightarrow> ManifestData \<Rightarrow> bool" where
  "reconstruct_valid ib d =
    (\<exists>h\<in>set (history (infoBackupPg ib)).
       manPgId d = pgid h \<and> manPgSystemId d = systemId h \<and> manPgVersion d = version h \<and>
       (case manBackupLabelPrior d of None \<Rightarrow> True | Some p \<Rightarrow> infoBackupLabelExists ib p))"

text \<open>Second loop: add the backups found in the repository that are valid.\<close>

fun reconstruct_add :: "repo \<Rightarrow> string list \<Rightarrow> string list \<Rightarrow> InfoBackup \<Rightarrow> InfoBackup res" where
  "reconstruct_add storage current [] ib = Inr ib"
| "reconstruct_add storage current (l # ls) ib =
    (if l \<notin> set current \<and> storageExists storage (manifestFileName l) then
       bindR (manifestLoadFile storage (manifestFileName l))
         (\<lambda>manifest.
            if reconstruct_valid ib (manData manifest)
            then bindR (infoBackupDataAdd ib manifest) (reconstruct_add storage current ls)
            else reconstruct_add storage current ls ib)
     else reconstruct_add storage current ls ib)"

abbreviation backupRegExpAll :: rx where
  "backupRegExpAll \<equiv> backupRegExp \<lparr>full = True, differential = True, incremental = True, noAnchorEnd = False\<rparr>"

definition infoBackupLoadFileReconstruct :: "repo \<Rightarrow> path \<Rightarrow> InfoBackup res" where
  "infoBackupLoadFileReconstruct storage fileName =
    bindR (infoBackupLoadFile storage fileName)
      (\<lambda>ib.
        let backupList = strLstSort (storageList storage REPO_BACKUP backupRegExpAll) sortOrderAsc;
            ib = reconstruct_remove storage (strLstSort (infoBackupDataLabelList ib None) sortOrderAsc) ib
        in reconstruct_add storage (strLstSort (infoBackupDataLabelList ib None) sortOrderAsc) backupList ib)"

section \<open>Well-formed indexes\<close>

abbreviation labels :: "InfoBackup \<Rightarrow> string list" where
  "labels ib \<equiv> map backupLabel (backup ib)"

abbreviation backupRegExpFull :: rx where
  "backupRegExpFull \<equiv> backupRegExp \<lparr>full = True, differential = False, incremental = False, noAnchorEnd = False\<rparr>"

text \<open>A full backup has no prior backup; another one has a prior that is older and has the same full backup.\<close>

definition entry_ok :: "InfoBackupData \<Rightarrow> bool" where
  "entry_ok b \<longleftrightarrow> regExpMatch backupRegExpAll (backupLabel b) \<and>
    (case backupPrior b of
       None \<Rightarrow> regExpMatch backupRegExpFull (backupLabel b)
     | Some p \<Rightarrow> \<not> regExpMatch backupRegExpFull (backupLabel b) \<and> p < backupLabel b \<and> take 16 p = take 16 (backupLabel b))"

definition index_ok :: "InfoBackup \<Rightarrow> bool" where
  "index_ok ib \<longleftrightarrow> sorted_wrt (<) (labels ib) \<and> list_all entry_ok (backup ib)"

text \<open>Every prior backup is in the index: each retained backup can be restored.\<close>

definition prior_closed :: "InfoBackup \<Rightarrow> bool" where
  "prior_closed ib \<longleftrightarrow>
    list_all (\<lambda>b. case backupPrior b of None \<Rightarrow> True | Some p \<Rightarrow> p \<in> set (labels ib)) (backup ib)"

definition prior_of :: "InfoBackup \<Rightarrow> string \<Rightarrow> string option" where
  "prior_of ib l = (case infoBackupDataByLabel ib l of None \<Rightarrow> None | Some b \<Rightarrow> backupPrior b)"

text \<open>\<open>depends ib l x\<close>: the backup \<open>x\<close> is \<open>l\<close> or needs \<open>l\<close>, directly or through other backups.\<close>

inductive depends :: "InfoBackupData list \<Rightarrow> string \<Rightarrow> string \<Rightarrow> bool" for bs where
  self: "depends bs l l"
| prior: "depends bs l p \<Longrightarrow> b \<in> set bs \<Longrightarrow> backupPrior b = Some p \<Longrightarrow> depends bs l (backupLabel b)"

inductive_cases dependsE: "depends bs l x"

lemma regExpMatch_all: "regExpMatch backupRegExpAll l \<longleftrightarrow> is_label l"
  by (subst backupRegExp_match) (auto simp: is_label_def)

lemma regExpMatch_full: "regExpMatch backupRegExpFull l \<longleftrightarrow> label_of backupTypeFull l"
  by (subst backupRegExp_match) auto

lemma distinct_labels: "index_ok ib \<Longrightarrow> distinct (labels ib)"
  by (simp add: index_ok_def strict_sorted_iff)

lemma entry_prior_less: "entry_ok b \<Longrightarrow> backupPrior b = Some p \<Longrightarrow> p < backupLabel b"
  by (simp add: entry_ok_def)

subsection \<open>Deletion\<close>

lemma delete_loop_filter:
  "distinct (map backupLabel bs) \<Longrightarrow>
    infoBackupDataDelete_loop l bs idx = take idx bs @ filter (\<lambda>b. backupLabel b \<noteq> l) (drop idx bs)"
proof (induction l bs idx rule: infoBackupDataDelete_loop.induct)
  case (1 l bs idx)
  show ?case
  proof (cases "idx < length bs")
    case False
    then show ?thesis by (simp add: infoBackupDataDelete_loop.simps)
  next
    case True
    then have dr: "drop idx bs = bs ! idx # drop (Suc idx) bs"
      by (simp add: Cons_nth_drop_Suc)
    have split: "bs = take idx bs @ bs ! idx # drop (Suc idx) bs"
      using True by (simp add: id_take_nth_drop)
    show ?thesis
    proof (cases "backupLabel (bs ! idx) = l")
      case False
      with 1 True show ?thesis
        by (subst infoBackupDataDelete_loop.simps) (simp add: dr take_Suc_conv_app_nth)
    next
      case hit: True
      have "distinct (map backupLabel (take idx bs @ bs ! idx # drop (Suc idx) bs))"
        using 1(3) split by simp
      then have rest: "l \<notin> backupLabel ` set (drop (Suc idx) bs)" "distinct (map backupLabel (lstRemoveIdx bs idx))"
        using hit by (auto simp: lstRemoveIdx_def)
      have none: "filter (\<lambda>b. backupLabel b \<noteq> l) (drop (Suc idx) bs) = drop (Suc idx) bs"
        using rest(1) by (auto simp: filter_id_conv)
      have "filter (\<lambda>b. backupLabel b \<noteq> l) (drop (Suc idx) (lstRemoveIdx bs idx)) = drop (Suc idx) (lstRemoveIdx bs idx)"
        using rest(1) True set_drop_subset_set_drop[of "Suc idx" "Suc (Suc idx)" bs]
        by (auto simp: filter_id_conv lstRemoveIdx_def)
      then have "infoBackupDataDelete_loop l (lstRemoveIdx bs idx) (Suc idx) = lstRemoveIdx bs idx"
        using 1(1)[OF True hit rest(2)] by simp
      with True hit show ?thesis
        by (subst infoBackupDataDelete_loop.simps) (simp add: dr none, simp add: lstRemoveIdx_def)
    qed
  qed
qed

lemma infoBackupDataDelete_filter:
  assumes "index_ok ib"
  shows "infoBackupDataDelete ib l = ib\<lparr>backup := filter (\<lambda>b. backupLabel b \<noteq> l) (backup ib), updated := True\<rparr>"
  using delete_loop_filter[of "backup ib" l 0] distinct_labels[OF assms] by (simp add: infoBackupDataDelete_def)

lemma sorted_wrt_map_filter: "sorted_wrt R (map f xs) \<Longrightarrow> sorted_wrt R (map f (filter P xs))"
  by (metis sorted_wrt_filter sorted_wrt_map)

lemma index_ok_filter:
  "index_ok ib \<Longrightarrow> index_ok (ib\<lparr>backup := filter P (backup ib), updated := u\<rparr>)"
  by (auto simp: index_ok_def list_all_iff intro: sorted_wrt_map_filter)

lemma index_ok_delete: "index_ok ib \<Longrightarrow> index_ok (infoBackupDataDelete ib l)"
  by (simp add: infoBackupDataDelete_filter index_ok_filter)

lemma find_filter: "(\<And>x. Q x \<Longrightarrow> P x) \<Longrightarrow> find Q (filter P xs) = find Q xs"
  by (induction xs) auto

lemma prior_of_delete:
  "index_ok ib \<Longrightarrow> x \<noteq> l \<Longrightarrow> prior_of (infoBackupDataDelete ib l) x = prior_of ib x"
  by (simp add: prior_of_def infoBackupDataByLabel_def infoBackupDataDelete_filter find_filter)

lemma labels_delete:
  "index_ok ib \<Longrightarrow> set (labels (infoBackupDataDelete ib l)) = set (labels ib) - {l}"
  by (auto simp: infoBackupDataDelete_filter)

lemma fold_delete:
  "index_ok ib \<Longrightarrow>
    index_ok (fold (\<lambda>r ib. infoBackupDataDelete ib r) ls ib) \<and>
    backup (fold (\<lambda>r ib. infoBackupDataDelete ib r) ls ib) = filter (\<lambda>b. backupLabel b \<notin> set ls) (backup ib) \<and>
    infoBackupPg (fold (\<lambda>r ib. infoBackupDataDelete ib r) ls ib) = infoBackupPg ib"
proof (induction ls arbitrary: ib)
  case (Cons l ls)
  then show ?case
    using Cons.IH[OF index_ok_delete[OF Cons.prems, of l]]
    by (simp add: infoBackupDataDelete_filter conj_commute)
qed simp

lemma find_distinct:
  "distinct (map f xs) \<Longrightarrow> find (\<lambda>b. f b = l) xs = Some b \<longleftrightarrow> b \<in> set xs \<and> f b = l"
  by (induction xs) auto

lemma infoBackupDataByLabel_Some_iff:
  "index_ok ib \<Longrightarrow> infoBackupDataByLabel ib l = Some b \<longleftrightarrow> b \<in> set (backup ib) \<and> backupLabel b = l"
  unfolding infoBackupDataByLabel_def by (rule find_distinct) (rule distinct_labels)

lemma infoBackupLabelExists_iff: "infoBackupLabelExists ib l \<longleftrightarrow> l \<in> set (labels ib)"
  unfolding infoBackupLabelExists_def infoBackupDataByLabel_def
  by (auto simp: find_None_iff)

lemma prior_of_entry:
  "index_ok ib \<Longrightarrow> b \<in> set (backup ib) \<Longrightarrow> prior_of ib (backupLabel b) = backupPrior b"
  unfolding prior_of_def using infoBackupDataByLabel_Some_iff[of ib "backupLabel b" b] by simp

subsection \<open>Dependents\<close>

lemma depends_snoc:
  assumes "\<And>c. c \<in> set bs \<Longrightarrow> backupPrior c \<noteq> Some (backupLabel b)"
    and "backupPrior b \<noteq> Some (backupLabel b)"
  shows "depends (bs @ [b]) l x \<longleftrightarrow>
    depends bs l x \<or> (x = backupLabel b \<and> (\<exists>p. backupPrior b = Some p \<and> depends bs l p))" (is "?L = ?R")
proof
  show "?L \<Longrightarrow> ?R"
  proof (induction rule: depends.induct)
    case (prior l p c)
    then show ?case
      using assms by (auto intro: depends.prior)
  qed (auto intro: depends.self)
  have mono: "depends bs l y \<Longrightarrow> depends (bs @ [b]) l y" for y
    by (induction rule: depends.induct) (auto intro: depends.intros)
  show "?R \<Longrightarrow> ?L"
    using mono depends.prior[of "bs @ [b]" l _ b] by auto
qed

lemma dependentList_loop_set:
  "sorted_wrt (<) (map backupLabel (bs1 @ bs2)) \<Longrightarrow> list_all entry_ok (bs1 @ bs2) \<Longrightarrow>
    set result = Collect (depends bs1 l) \<Longrightarrow>
    set (infoBackupDataDependentList_loop bs2 result) = Collect (depends (bs1 @ bs2) l)"
proof (induction bs2 arbitrary: bs1 result)
  case (Cons b bs2)
  have less: "c \<in> set bs1 \<Longrightarrow> backupLabel c < backupLabel b" for c
    using Cons.prems(1) by (auto simp: sorted_wrt_append)
  have not: "backupPrior c \<noteq> Some (backupLabel b)" if "c \<in> set (bs1 @ [b])" for c
  proof
    assume "backupPrior c = Some (backupLabel b)"
    moreover have "entry_ok c" using that Cons.prems(2) by (auto simp: list_all_iff)
    ultimately have "backupLabel b < backupLabel c" by (rule entry_prior_less[rotated])
    with that less[of c] show False by auto
  qed
  have snoc: "depends (bs1 @ [b]) l x \<longleftrightarrow>
      depends bs1 l x \<or> (x = backupLabel b \<and> (\<exists>p. backupPrior b = Some p \<and> depends bs1 l p))" for x
    by (rule depends_snoc) (auto simp: not)
  have "set (case backupPrior b of None \<Rightarrow> result
         | Some p \<Rightarrow> if p \<in> set result then result @ [backupLabel b] else result) = Collect (depends (bs1 @ [b]) l)"
  proof -
    have mem: "p \<in> set result \<longleftrightarrow> depends bs1 l p" for p
      using Cons.prems(3) by simp
    show ?thesis
      by (cases "backupPrior b") (auto simp: set_eq_iff snoc mem)
  qed
  then show ?case
    using Cons.IH[of "bs1 @ [b]"] Cons.prems(1,2) by simp
qed simp

lemma depends_Nil: "depends [] l x \<longleftrightarrow> x = l"
  by (auto elim: dependsE intro: depends.intros)

lemma set_dependentList:
  "index_ok ib \<Longrightarrow> set (infoBackupDataDependentList ib l) = Collect (depends (backup ib) l)"
  unfolding infoBackupDataDependentList_def index_ok_def
  using dependentList_loop_set[of "[]" "backup ib" "[l]" l] by (simp add: depends_Nil set_eq_iff)

lemma depends_le: "list_all entry_ok bs \<Longrightarrow> depends bs l x \<Longrightarrow> l \<le> x"
proof (rotate_tac 1, induction rule: depends.induct)
  case (prior l p b)
  then show ?case
    using entry_prior_less[of b p] by (auto simp: list_all_iff)
qed simp

lemma depends_take16: "list_all entry_ok bs \<Longrightarrow> depends bs l x \<Longrightarrow> take 16 x = take 16 l"
  by (rotate_tac 1, induction rule: depends.induct) (auto simp: list_all_iff entry_ok_def)

lemma depends_full:
  "list_all entry_ok bs \<Longrightarrow> depends bs l x \<Longrightarrow> label_of backupTypeFull x \<Longrightarrow> x = l"
  by (erule dependsE) (auto simp: list_all_iff entry_ok_def regExpMatch_full)

subsection \<open>Removal from newest to oldest\<close>

text \<open>
  What a retention policy needs of an index of backups: labels, priors and a deletion that takes out one
  label and nothing else, where a prior is always older.  Then removing a set of labels that is closed
  under dependents, newest first, leaves an index at every moment in which each backup still has its prior.
\<close>

definition has_priors :: "string set \<Rightarrow> (string \<Rightarrow> string option) \<Rightarrow> bool" where
  "has_priors L pri \<longleftrightarrow> (\<forall>x\<in>L. \<forall>p. pri x = Some p \<longrightarrow> p \<in> L)"

locale backup_index =
  fixes ok :: "'s \<Rightarrow> bool"
    and lab :: "'s \<Rightarrow> string set"
    and pri :: "'s \<Rightarrow> string \<Rightarrow> string option"
    and del :: "'s \<Rightarrow> string \<Rightarrow> 's"
  assumes ok_del: "ok s \<Longrightarrow> ok (del s l)"
    and lab_del: "ok s \<Longrightarrow> lab (del s l) = lab s - {l}"
    and pri_del: "ok s \<Longrightarrow> x \<in> lab s \<Longrightarrow> x \<noteq> l \<Longrightarrow> pri (del s l) x = pri s x"
    and pri_less: "ok s \<Longrightarrow> x \<in> lab s \<Longrightarrow> pri s x = Some p \<Longrightarrow> p < x"
begin

lemma fold_del:
  "ok s \<Longrightarrow> ok (fold (\<lambda>l s. del s l) D s) \<and> lab (fold (\<lambda>l s. del s l) D s) = lab s - set D \<and>
    (\<forall>x. x \<in> lab s - set D \<longrightarrow> pri (fold (\<lambda>l s. del s l) D s) x = pri s x)"
proof (induction D arbitrary: s)
  case (Cons l D)
  then show ?case
    using Cons.IH[OF ok_del[OF Cons.prems, of l]] by (auto simp: lab_del pri_del)
qed simp

lemma newest_first:
  assumes "ok s" and "has_priors (lab s) (pri s)" and "sorted_wrt (>) D"
    and "\<And>x p. x \<in> lab s \<Longrightarrow> pri s x = Some p \<Longrightarrow> p \<in> set D \<Longrightarrow> x \<in> set D"
  shows "has_priors (lab (fold (\<lambda>l s. del s l) (take k D) s)) (pri (fold (\<lambda>l s. del s l) (take k D) s))"
  unfolding has_priors_def
proof (intro ballI allI impI)
  fix x p
  assume x: "x \<in> lab (fold (\<lambda>l s. del s l) (take k D) s)"
    and p: "pri (fold (\<lambda>l s. del s l) (take k D) s) x = Some p"
  have xs: "x \<in> lab s" "x \<notin> set (take k D)" "pri s x = Some p"
    using fold_del[OF assms(1), of "take k D"] x p by auto
  then have "p \<in> lab s" "p < x"
    using assms(1,2) pri_less by (auto simp: has_priors_def)
  moreover have "p \<notin> set (take k D)"
  proof
    assume pk: "p \<in> set (take k D)"
    then have "x \<in> set (drop k D)"
      using assms(4)[OF xs(1,3)] xs(2) in_set_takeD[OF pk] set_append[of "take k D" "drop k D"] by auto
    with pk have "p > x"
      using assms(3) sorted_wrt_append[of "(>)" "take k D" "drop k D"] by auto
    with \<open>p < x\<close> show False by simp
  qed
  ultimately show "p \<in> lab (fold (\<lambda>l s. del s l) (take k D) s)"
    using fold_del[OF assms(1), of "take k D"] by auto
qed

end

lemma prior_less:
  "index_ok ib \<Longrightarrow> x \<in> set (labels ib) \<Longrightarrow> prior_of ib x = Some p \<Longrightarrow> p < x"
  using prior_of_entry entry_prior_less by (fastforce simp: index_ok_def list_all_iff)

interpretation ib_index: backup_index index_ok "\<lambda>ib. set (labels ib)" prior_of infoBackupDataDelete
  by unfold_locales
     (rule index_ok_delete labels_delete prior_of_delete prior_less; assumption)+

lemma prior_closed_has_priors:
  "index_ok ib \<Longrightarrow> prior_closed ib \<longleftrightarrow> has_priors (set (labels ib)) (prior_of ib)"
  by (auto simp: prior_closed_def has_priors_def list_all_iff prior_of_entry split: option.splits)

lemma dependentList_closed:
  assumes "index_ok ib" and "x \<in> set (labels ib)" and "prior_of ib x = Some p"
    and "p \<in> set (infoBackupDataDependentList ib l)"
  shows "x \<in> set (infoBackupDataDependentList ib l)"
proof -
  obtain b where "b \<in> set (backup ib)" "x = backupLabel b"
    using assms(2) by auto
  moreover from this have "backupPrior b = Some p"
    using assms(1,3) prior_of_entry by simp
  ultimately show ?thesis
    using assms(1,4) by (auto simp: set_dependentList intro: depends.prior)
qed

lemma dependentList_loop_sorted:
  "sorted_wrt (<) (map backupLabel bs) \<Longrightarrow> list_all entry_ok bs \<Longrightarrow> sorted_wrt (<) result \<Longrightarrow>
    \<forall>x\<in>set result. l \<le> x \<and> (\<forall>b\<in>set bs. x = l \<or> x < backupLabel b) \<Longrightarrow>
    sorted_wrt (<) (infoBackupDataDependentList_loop bs result)"
proof (induction bs arbitrary: result)
  case (Cons b bs)
  show ?case
  proof (cases "\<exists>p. backupPrior b = Some p \<and> p \<in> set result")
    case True
    then obtain p where p: "backupPrior b = Some p" "p \<in> set result" by blast
    have "l < backupLabel b"
      using p Cons.prems(2,4) entry_prior_less[of b p] by fastforce
    then have "\<forall>x\<in>set result. x < backupLabel b"
      using Cons.prems(4) by auto
    then show ?thesis
      using Cons.prems p \<open>l < backupLabel b\<close> by (auto simp: sorted_wrt_append intro!: Cons.IH)
  next
    case False
    then have "(case backupPrior b of None \<Rightarrow> result
        | Some p \<Rightarrow> if p \<in> set result then result @ [backupLabel b] else result) = result"
      by (auto split: option.splits)
    with Cons.prems show ?thesis by (simp, intro Cons.IH) auto
  qed
qed simp

lemma dependentList_sorted: "index_ok ib \<Longrightarrow> sorted_wrt (<) (infoBackupDataDependentList ib l)"
  unfolding infoBackupDataDependentList_def index_ok_def
  by (rule dependentList_loop_sorted[where l = l]) auto

lemma strLstSort_desc_sorted: "sorted_wrt (<) xs \<Longrightarrow> strLstSort xs sortOrderDesc = rev xs"
  by (simp add: strLstSort_def sorted_sort_id strict_sorted_iff)

lemma dependentList_desc:
  "index_ok ib \<Longrightarrow> sorted_wrt (>) (strLstSort (infoBackupDataDependentList ib l) sortOrderDesc)"
  using dependentList_sorted[of ib l] by (simp add: strLstSort_desc_sorted sorted_wrt_rev)

text \<open>Removing a backup with its dependents, newest first: at every moment each backup has its prior.\<close>

lemma remove_dependents_closed:
  assumes "index_ok ib" and "prior_closed ib"
  shows "prior_closed (fold (\<lambda>r ib. infoBackupDataDelete ib r)
    (take k (strLstSort (infoBackupDataDependentList ib l) sortOrderDesc)) ib)"
  using ib_index.newest_first[OF assms(1), of "strLstSort (infoBackupDataDependentList ib l) sortOrderDesc" k]
    dependentList_desc[OF assms(1), of l] dependentList_closed[OF assms(1), of _ _ l]
    prior_closed_has_priors assms fold_delete[OF assms(1)]
  by (metis set_strLstSort)

lemma remove_dependents:
  assumes "index_ok ib" and "prior_closed ib"
    and "ib' = fold (\<lambda>r ib. infoBackupDataDelete ib r) (strLstSort (infoBackupDataDependentList ib l) sortOrderDesc) ib"
  shows "index_ok ib'" and "prior_closed ib'" and "infoBackupPg ib' = infoBackupPg ib"
    and "backup ib' = filter (\<lambda>b. \<not> depends (backup ib) l (backupLabel b)) (backup ib)"
  using fold_delete[OF assms(1), of "strLstSort (infoBackupDataDependentList ib l) sortOrderDesc"]
    remove_dependents_closed[OF assms(1,2), of "length (strLstSort (infoBackupDataDependentList ib l) sortOrderDesc)" l]
  by (simp_all add: assms(3) set_dependentList[OF assms(1)])

section \<open>Reconstruction\<close>

text \<open>What the manifests of a repository satisfy: each one is stored under its own label, and its summary is a
  well-formed entry.\<close>

definition manifest_ok :: "string \<Rightarrow> Manifest \<Rightarrow> bool" where
  "manifest_ok l m \<longleftrightarrow> manBackupLabel (manData m) = l \<and> entry_ok (infoBackupDataAdd_entry m) \<and>
    (manBackupType (manData m) = backupTypeFull \<longleftrightarrow> manBackupLabelPrior (manData m) = None) \<and>
    (manBackupType (manData m) \<noteq> backupTypeFull \<longrightarrow> manReferenceList m \<noteq> [])"

definition manifests_ok :: "repo \<Rightarrow> bool" where
  "manifests_ok fs \<longleftrightarrow>
    list_all (\<lambda>(q, c). case c of FManifest m \<Rightarrow> (case q of [_, l, _] \<Rightarrow> manifest_ok l m | _ \<Rightarrow> True) | _ \<Rightarrow> True) fs"

lemma manifestFileName_shape:
  "manifestFileName l = [''backup'', l, ''backup.manifest'']"
  "copyFileName (manifestFileName l) = [''backup'', l, ''backup.manifest.copy'']"
  by (simp_all add: manifestFileName_def copyFileName_def BACKUP_MANIFEST_FILE_def INFO_COPY_EXT_def REPO_BACKUP_def)

lemma manifestLoadFile_ok:
  assumes "manifests_ok fs" and "manifestLoadFile fs (manifestFileName l) = Inr m"
  shows "manifest_ok l m"
proof -
  obtain q where q: "q = manifestFileName l \<or> q = copyFileName (manifestFileName l)" "map_of fs q = Some (FManifest m)"
    using assms(2)
    by (auto simp: manifestLoadFile_def manifestRead_def storageContent_def split: option.splits content.splits)
  then obtain f where "q = [''backup'', l, f]"
    using manifestFileName_shape[of l] by metis
  then show ?thesis
    using assms(1) map_of_SomeD[OF q(2)] by (auto simp: manifests_ok_def list_all_iff)
qed

lemma sorted_wrt_sort_key:
  "distinct (map f xs) \<Longrightarrow> sorted_wrt (<) (map f (sort_key f xs))"
  by (simp add: strict_sorted_iff distinct_map)

lemma infoBackupDataAdd_ok:
  assumes "index_ok ib" and "prior_closed ib" and "manifest_ok l m" and "reconstruct_valid ib (manData m)"
    and "l \<notin> set (labels ib)" and "infoBackupDataAdd ib m = Inr ib'"
  shows "index_ok ib' \<and> prior_closed ib' \<and> set (labels ib') = insert l (set (labels ib))"
proof -
  let ?e = "infoBackupDataAdd_entry m"
  have ib': "ib' = ib\<lparr>backup := sort_key backupLabel (backup ib @ [?e]), updated := True\<rparr>"
    using assms(6) by (simp add: infoBackupDataAdd_def split: if_splits)
  have lab: "backupLabel ?e = l"
    using assms(3) by (simp add: manifest_ok_def infoBackupDataAdd_entry_def Let_def)
  have pri: "backupPrior ?e = manBackupLabelPrior (manData m)"
    using assms(3) by (auto simp: manifest_ok_def infoBackupDataAdd_entry_def Let_def)
  have "distinct (map backupLabel (backup ib @ [?e]))"
    using distinct_labels[OF assms(1)] assms(5) lab by simp
  then have "sorted_wrt (<) (labels ib')"
    using sorted_wrt_sort_key[of backupLabel "backup ib @ [?e]"] by (simp add: ib' del: sort_key_simps)
  moreover have "list_all entry_ok (backup ib')"
    using assms(1,3) by (simp add: ib' index_ok_def list_all_iff manifest_ok_def)
  ultimately have "index_ok ib'"
    by (simp add: index_ok_def)
  moreover have "prior_closed ib'"
    using assms(2,4) pri
    by (auto simp: ib' prior_closed_def list_all_iff reconstruct_valid_def infoBackupLabelExists_iff split: option.splits)
  ultimately show ?thesis
    using lab by (auto simp: ib')
qed

lemma depends_mono: "depends bs l x \<Longrightarrow> set bs \<subseteq> set bs' \<Longrightarrow> depends bs' l x"
  by (induction rule: depends.induct) (auto intro: depends.intros)

lemma reconstruct_drop:
  assumes "index_ok ib" and "prior_closed ib"
  obtains ib' where "reconstruct_remove fs (l # ls) ib = reconstruct_remove fs ls ib'"
    and "index_ok ib'" and "prior_closed ib'"
    and "set (backup ib') \<subseteq> set (backup ib)"
    and "l \<in> set (labels ib') \<Longrightarrow> storageExists fs (manifestFileName l)"
    and "\<And>x. x \<in> set (labels ib) \<Longrightarrow> x \<notin> set (labels ib') \<Longrightarrow>
      depends (backup ib) l x \<and> \<not> storageExists fs (manifestFileName l)"
proof (cases "\<not> storageExists fs (manifestFileName l) \<and> infoBackupLabelExists ib l")
  case True
  let ?ib = "fold (\<lambda>r ib. infoBackupDataDelete ib r) (strLstSort (infoBackupDataDependentList ib l) sortOrderDesc) ib"
  note ok = remove_dependents[OF assms refl, of l]
  show ?thesis
  proof (rule that[of ?ib])
    show "set (backup ?ib) \<subseteq> set (backup ib)"
      unfolding ok(4) by auto
    show "l \<in> set (labels ?ib) \<Longrightarrow> storageExists fs (manifestFileName l)"
      unfolding ok(4) using depends.self[of "backup ib" l] by auto
    show "depends (backup ib) l x \<and> \<not> storageExists fs (manifestFileName l)"
      if "x \<in> set (labels ib)" "x \<notin> set (labels ?ib)" for x
      using that True unfolding ok(4) by auto
  qed (use ok True in auto)
next
  case False
  show ?thesis
    by (rule that[of ib]) (use assms False in \<open>auto simp: infoBackupLabelExists_iff\<close>)
qed

lemma reconstruct_remove_ok:
  "index_ok ib \<Longrightarrow> prior_closed ib \<Longrightarrow>
    index_ok (reconstruct_remove fs ls ib) \<and> prior_closed (reconstruct_remove fs ls ib) \<and>
    set (backup (reconstruct_remove fs ls ib)) \<subseteq> set (backup ib) \<and>
    (\<forall>l\<in>set ls. l \<in> set (labels (reconstruct_remove fs ls ib)) \<longrightarrow> storageExists fs (manifestFileName l)) \<and>
    (\<forall>x\<in>set (labels ib). x \<notin> set (labels (reconstruct_remove fs ls ib)) \<longrightarrow>
       (\<exists>l. depends (backup ib) l x \<and> \<not> storageExists fs (manifestFileName l)))"
proof (induction ls arbitrary: ib)
  case (Cons l ls)
  obtain ib' where step: "reconstruct_remove fs (l # ls) ib = reconstruct_remove fs ls ib'"
    and ok: "index_ok ib'" "prior_closed ib'"
    and sub: "set (backup ib') \<subseteq> set (backup ib)"
    and l: "l \<in> set (labels ib') \<Longrightarrow> storageExists fs (manifestFileName l)"
    and drop: "\<And>x. x \<in> set (labels ib) \<Longrightarrow> x \<notin> set (labels ib') \<Longrightarrow>
      depends (backup ib) l x \<and> \<not> storageExists fs (manifestFileName l)"
    by (rule reconstruct_drop[OF Cons.prems, where fs = fs and l = l and ls = ls]) blast
  note IH = Cons.IH[OF ok]
  have "set (labels (reconstruct_remove fs ls ib')) \<subseteq> set (labels ib')"
    using IH by auto
  then have "\<forall>k\<in>set (l # ls). k \<in> set (labels (reconstruct_remove fs ls ib')) \<longrightarrow> storageExists fs (manifestFileName k)"
    using IH l by (metis set_ConsD subsetD)
  moreover have "\<forall>x\<in>set (labels ib). x \<notin> set (labels (reconstruct_remove fs ls ib')) \<longrightarrow>
      (\<exists>l. depends (backup ib) l x \<and> \<not> storageExists fs (manifestFileName l))"
    using IH drop depends_mono[OF _ sub] by metis
  ultimately show ?case
    unfolding step using IH sub by (meson order_trans)
qed simp

lemma reconstruct_add_ok:
  "index_ok ib \<Longrightarrow> prior_closed ib \<Longrightarrow> manifests_ok fs \<Longrightarrow> distinct ls \<Longrightarrow>
    set (labels ib) \<inter> set ls \<subseteq> set current \<Longrightarrow>
    \<forall>l\<in>set (labels ib). storageExists fs (manifestFileName l) \<Longrightarrow>
    reconstruct_add fs current ls ib = Inr ib' \<Longrightarrow>
    index_ok ib' \<and> prior_closed ib' \<and> set (labels ib) \<subseteq> set (labels ib') \<and>
    (\<forall>l\<in>set (labels ib'). storageExists fs (manifestFileName l))"
proof (induction fs current ls ib rule: reconstruct_add.induct)
  case (2 fs current l ls ib)
  show ?case
  proof (cases "l \<notin> set current \<and> storageExists fs (manifestFileName l)")
    case False
    then have "reconstruct_add fs current ls ib = Inr ib'"
      using 2(10) by (simp only: reconstruct_add.simps if_False)
    moreover have "set (labels ib) \<inter> set ls \<subseteq> set current"
      using 2(8) by auto
    ultimately show ?thesis
      using 2(3)[OF False 2(4-6) _ _ 2(9)] 2(7) by (simp del: map_eq_conv)
  next
    case True
    obtain m where m: "manifestLoadFile fs (manifestFileName l) = Inr m"
      using 2(10) True by (auto simp: res_simps)
    show ?thesis
    proof (cases "reconstruct_valid ib (manData m)")
      case False
      with 2(2)[OF True m False] 2(4-) True m show ?thesis by (auto simp: res_simps)
    next
      case valid: True
      with 2(10) True m obtain ib1 where ib1: "infoBackupDataAdd ib m = Inr ib1" "reconstruct_add fs current ls ib1 = Inr ib'"
        by (auto simp: res_simps)
      have new: "l \<notin> set (labels ib)"
        using 2(8) True by auto
      have ok: "index_ok ib1" "prior_closed ib1" "set (labels ib1) = insert l (set (labels ib))"
        using infoBackupDataAdd_ok[OF 2(4,5) manifestLoadFile_ok[OF 2(6) m] valid new ib1(1)] by auto
      have "distinct ls" "set (labels ib1) \<inter> set ls \<subseteq> set current"
        using 2(7,8) ok(3) by auto
      moreover have "\<forall>l\<in>set (labels ib1). storageExists fs (manifestFileName l)"
        unfolding ok(3) using 2(9) True by blast
      ultimately show ?thesis
        using 2(1)[OF True m valid ib1(1) ok(1,2) 2(6) _ _ _ ib1(2)] ok(3) by blast
    qed
  qed
qed auto

lemma reconstruct_facts:
  assumes "infoBackupLoadFile fs f = Inr ib0" and "index_ok ib0" and "prior_closed ib0" and "manifests_ok fs"
    and "infoBackupLoadFileReconstruct fs f = Inr ib"
  shows "index_ok ib \<and> prior_closed ib \<and>
    (\<forall>l\<in>set (labels ib). storageExists fs (manifestFileName l)) \<and>
    (\<forall>x\<in>set (labels ib0). x \<notin> set (labels ib) \<longrightarrow>
       (\<exists>l. depends (backup ib0) l x \<and> \<not> storageExists fs (manifestFileName l)))"
proof -
  define ib1 where "ib1 = reconstruct_remove fs (strLstSort (infoBackupDataLabelList ib0 None) sortOrderAsc) ib0"
  define ls where "ls = strLstSort (storageList fs REPO_BACKUP backupRegExpAll) sortOrderAsc"
  have add: "reconstruct_add fs (strLstSort (infoBackupDataLabelList ib1 None) sortOrderAsc) ls ib1 = Inr ib"
    using assms(5) by (simp add: infoBackupLoadFileReconstruct_def assms(1) ib1_def ls_def Let_def)
  have all: "set (strLstSort (infoBackupDataLabelList i None) sortOrderAsc) = set (labels i)" for i
    by (simp add: infoBackupDataLabelList_def)
  note rm = reconstruct_remove_ok[OF assms(2,3), of fs "strLstSort (infoBackupDataLabelList ib0 None) sortOrderAsc",
      folded ib1_def, unfolded all]
  have "\<forall>l\<in>set (labels ib1). storageExists fs (manifestFileName l)"
    using rm by auto
  moreover have "distinct ls"
    by (simp add: ls_def storageList_def)
  ultimately have "index_ok ib \<and> prior_closed ib \<and> set (labels ib1) \<subseteq> set (labels ib) \<and>
      (\<forall>l\<in>set (labels ib). storageExists fs (manifestFileName l))"
    using reconstruct_add_ok[OF _ _ assms(4) _ _ _ add] rm all by blast
  then show ?thesis
    using rm by blast
qed

text \<open>Every change of the index is recorded, so that it is saved.\<close>

definition recorded :: "InfoBackup \<Rightarrow> InfoBackup \<Rightarrow> bool" where
  "recorded ib ib' \<longleftrightarrow> ib' = ib \<or> updated ib'"

lemma recorded_refl [simp]: "recorded ib ib"
  by (simp add: recorded_def)

lemma recorded_trans: "recorded a b \<Longrightarrow> recorded b c \<Longrightarrow> recorded a c"
  by (auto simp: recorded_def)

lemma recorded_updated: "updated b \<Longrightarrow> recorded a b"
  by (simp add: recorded_def)

lemma recorded_fold_delete: "recorded ib (fold (\<lambda>r ib. infoBackupDataDelete ib r) ls ib)"
proof (induction ls arbitrary: ib)
  case (Cons l ls)
  have "recorded ib (infoBackupDataDelete ib l)"
    by (simp add: recorded_updated infoBackupDataDelete_def)
  then show ?case
    using recorded_trans[OF _ Cons.IH] by simp
qed simp

lemma recorded_reconstruct_remove: "recorded ib (reconstruct_remove fs ls ib)"
proof (induction ls arbitrary: ib)
  case (Cons l ls)
  show ?case
    using Cons.IH recorded_trans[OF recorded_fold_delete Cons.IH] by simp
qed simp

lemma recorded_reconstruct_add: "reconstruct_add fs c ls ib = Inr ib' \<Longrightarrow> recorded ib ib'"
proof (induction fs c ls ib rule: reconstruct_add.induct)
  case (2 fs c l ls ib)
  have add: "infoBackupDataAdd ib m = Inr ib1 \<Longrightarrow> recorded ib ib1" for m ib1
    by (auto simp: infoBackupDataAdd_def recorded_updated split: if_splits)
  show ?case
    using 2 recorded_trans[OF add] by (auto simp: res_simps split: if_splits) blast
qed simp

lemma recorded_reconstruct:
  "infoBackupLoadFile fs f = Inr ib0 \<Longrightarrow> infoBackupLoadFileReconstruct fs f = Inr ib \<Longrightarrow> recorded ib0 ib"
  by (auto simp: infoBackupLoadFileReconstruct_def Let_def res_simps
      intro: recorded_trans[OF recorded_reconstruct_remove recorded_reconstruct_add])

lemma loaded_not_updated: "infoBackupLoadFile fs f = Inr ib \<Longrightarrow> \<not> updated ib"
  by (auto simp: infoBackupLoadFile_def infoBackupRead_def split: option.splits content.splits)

lemma infoBackupLoadFile_cong:
  "storageContent fs f = storageContent fs' f \<Longrightarrow> storageContent fs (copyFileName f) = storageContent fs' (copyFileName f) \<Longrightarrow>
    infoBackupLoadFile fs f = infoBackupLoadFile fs' f"
  by (simp add: infoBackupLoadFile_def infoBackupRead_def)

lemma infoBackupLoadFile_saved:
  "storageContent fs f = Some (FBackupInfo ib) \<Longrightarrow> infoBackupLoadFile fs f = Inr (ib\<lparr>updated := False\<rparr>)"
  by (simp add: infoBackupLoadFile_def infoBackupRead_def)

section \<open>Properties\<close>

text \<open>
  C12: Loading with reconstruction restores the agreement between \<^verbatim>\<open>backup.info\<close> and the repository: if the
  stored index is well formed and the manifests on disk are, the result is a well-formed index (labels
  strictly ascending, full backups without a prior), every backup in it has its prior in it, every backup in
  it has a manifest on disk, and a stored backup is only dropped when a backup it depends on (or it itself)
  has lost its manifest.
\<close>

theorem infoBackupLoadFileReconstruct_ok:
  assumes "infoBackupLoadFile fs f = Inr ib0" and "index_ok ib0" and "prior_closed ib0" and "manifests_ok fs"
    and "infoBackupLoadFileReconstruct fs f = Inr ib"
  shows "index_ok ib \<and> prior_closed ib \<and>
    (\<forall>l\<in>set (labels ib). storageExists fs (manifestFileName l)) \<and>
    (\<forall>x\<in>set (labels ib0). x \<notin> set (labels ib) \<longrightarrow>
       (\<exists>l. depends (backup ib0) l x \<and> \<not> storageExists fs (manifestFileName l)))"
  by (rule reconstruct_facts[OF assms])

text \<open>A sample index and repository for the witnesses: two full backups, with a diff of the first.\<close>

definition sample_entry :: "string \<Rightarrow> string option \<Rightarrow> int \<Rightarrow> string \<Rightarrow> string \<Rightarrow> InfoBackupData" where
  "sample_entry l prior stop walStart walStop =
    \<lparr>backupLabel = l, backrestFormat = 5, backrestVersion = ''2.58'', backupAnnotation = None,
     backupArchiveStart = Some walStart, backupArchiveStop = Some walStop,
     backupInfoRepoSize = 0, backupInfoRepoSizeDelta = 0, backupInfoRepoSizeMap = None, backupInfoRepoSizeMapDelta = None,
     backupInfoSize = 0, backupInfoSizeDelta = 0, backupLsnStart = None, backupLsnStop = None, backupPgId = 1,
     backupPrior = prior, backupReference = None, backupTimestampStart = stop, backupTimestampStop = stop,
     backupType = (if prior = None then backupTypeFull else backupTypeDiff), backupError = None,
     optionArchiveCheck = True, optionArchiveCopy = False, optionBackupStandby = False, optionChecksumPage = True,
     optionCompress = True, optionHardlink = False, optionOnline = True\<rparr>"

definition sample_index :: InfoBackup where
  "sample_index =
    \<lparr>infoBackupPg = \<lparr>history = [\<lparr>pgid = 1, systemId = 7, catalogVersion = 0, version = 150000, controlVersion = 0\<rparr>],
                     pgType = infoPgBackup, historyCurrent = 0, infoPgCipherPass = None\<rparr>,
     backup =
       [sample_entry ''20240101-000000F'' None 100 ''000000010000000000000001'' ''000000010000000000000002'',
        sample_entry ''20240101-000000F_20240102-000000D'' (Some ''20240101-000000F'') 200
          ''000000010000000000000004'' ''000000010000000000000005'',
        sample_entry ''20240103-000000F'' None 300 ''000000010000000000000007'' ''000000010000000000000008''],
     updated = False\<rparr>"

lemma sample_index_ok: "index_ok sample_index" "prior_closed sample_index"
  by code_simp+

definition sample_repo :: repo where
  "sample_repo =
    [(INFO_BACKUP_PATH_FILE, FBackupInfo sample_index),
     (manifestFileName ''20240101-000000F'', FData []), (manifestFileName ''20240103-000000F'', FData [])]"

theorem infoBackupLoadFileReconstruct_ok_witness:
  "\<exists>ib. infoBackupLoadFileReconstruct sample_repo INFO_BACKUP_PATH_FILE = Inr ib \<and> index_ok ib \<and> prior_closed ib"
proof -
  define ib where "ib = infoBackupDataDelete sample_index ''20240101-000000F_20240102-000000D''"
  have load: "infoBackupLoadFile sample_repo INFO_BACKUP_PATH_FILE = Inr sample_index"
    by code_simp
  have "manifests_ok sample_repo"
    by code_simp
  moreover have "infoBackupLoadFileReconstruct sample_repo INFO_BACKUP_PATH_FILE = Inr ib"
    unfolding ib_def by code_simp
  ultimately show ?thesis
    using infoBackupLoadFileReconstruct_ok[OF load sample_index_ok] by blast
qed

end
