(* ===== verification/Expire.thy ===== *)
theory Expire
  imports InfoBackup Wal
begin

text \<open>
  The expire command, \<^verbatim>\<open>src/src/command/expire/expire.c\<close>: which backups and which WAL the retention options
  remove.  The state is the storage of each repository, its retention options, and the \<^verbatim>\<open>InfoBackup\<close> object
  loaded from it.  A function that can throw after it changed storage returns the storage beside its result.

  \<open>dryRun\<close> is \<^verbatim>\<open>cfgOptionValid(cfgOptDryRun) && cfgOptionBool(cfgOptDryRun)\<close>.  Log output is not modelled, so
  \<^verbatim>\<open>ArchiveExpired\<close> and \<^verbatim>\<open>logExpire\<close>, which only feed it, have no counterpart.
\<close>

record RepoCfg =
  retentionFull :: "nat option"
  retentionFullTime :: bool  \<comment> \<open>\<^verbatim>\<open>repo-retention-full-type=time\<close>\<close>
  retentionDiff :: "nat option"
  retentionArchive :: "nat option"
  retentionArchiveType :: BackupType
  retentionHistory :: "nat option"
  symLink :: bool  \<comment> \<open>the storage has \<^verbatim>\<open>storageFeatureSymLink\<close>\<close>

section \<open>Expiring backups\<close>

fun expireBackup_loop ::
  "bool \<Rightarrow> string list \<Rightarrow> InfoBackup \<Rightarrow> repo \<Rightarrow> string list \<Rightarrow> InfoBackup \<times> repo \<times> string list" where
  "expireBackup_loop dryRun [] ib fs result = (ib, fs, result)"
| "expireBackup_loop dryRun (l # ls) ib fs result =
    expireBackup_loop dryRun ls (infoBackupDataDelete ib l)
      (if dryRun then fs
       else storageRemove (storageRemove fs (manifestFileName l)) (copyFileName (manifestFileName l)))
      (result @ [l])"

definition expireBackup :: "bool \<Rightarrow> InfoBackup \<Rightarrow> string \<Rightarrow> repo \<Rightarrow> InfoBackup \<times> repo \<times> string list" where
  "expireBackup dryRun ib l fs =
    (case expireBackup_loop dryRun (strLstSort (infoBackupDataDependentList ib l) sortOrderDesc) ib fs [] of
       (ib, fs, result) \<Rightarrow> (ib, fs, strLstSort result sortOrderAsc))"

definition BACKUP_LINK_LATEST :: path where
  "BACKUP_LINK_LATEST = REPO_BACKUP @ [''latest'']"

definition backupLinkLatest :: "RepoCfg \<Rightarrow> string \<Rightarrow> repo \<Rightarrow> repo" where
  "backupLinkLatest cfg l fs =
    (let fs = storageRemove fs BACKUP_LINK_LATEST
     in if symLink cfg then storagePut fs BACKUP_LINK_LATEST (FLink l) else fs)"

text \<open>The guard of \<^verbatim>\<open>expireAdhocBackup\<close>: the latest full backup stays unless the one before it has the same
  database id.\<close>

definition expireAdhocBackup_check :: "InfoBackup \<Rightarrow> string \<Rightarrow> unit res" where
  "expireAdhocBackup_check ib l =
    (let fullList = strLstSort (infoBackupDataLabelList ib (Some backupRegExpFull)) sortOrderDesc
     in bindR (lstGet fullList 0) (\<lambda>latestFull.
       if latestFull = l then
         if length fullList = 1 then Inl BackupSetInvalidError
         else
           (case (infoBackupDataByLabel ib l, infoBackupDataByLabel ib (fullList ! 1)) of
              (Some b, Some b1) \<Rightarrow> if backupPgId b \<noteq> backupPgId b1 then Inl BackupSetInvalidError else Inr ()
            | _ \<Rightarrow> Inl UndefinedBehavior)
       else Inr ()))"

definition expireAdhocBackup ::
  "bool \<Rightarrow> RepoCfg \<Rightarrow> InfoBackup \<Rightarrow> string \<Rightarrow> repo \<Rightarrow> repo \<times> (InfoBackup \<times> nat) res" where
  "expireAdhocBackup dryRun cfg ib l fs =
    (case bindR (expireAdhocBackup_check ib l) (\<lambda>_. infoBackupData ib (infoBackupDataTotal ib - 1)) of
       Inl e \<Rightarrow> (fs, Inl e)
     | Inr latestBackup \<Rightarrow>
         (case expireBackup dryRun ib l fs of
            (ib, fs, backupExpired) \<Rightarrow>
              if infoBackupLabelExists ib (backupLabel latestBackup) \<or> dryRun
              then (fs, Inr (ib, length backupExpired))
              else
                (case infoBackupData ib (infoBackupDataTotal ib - 1) of
                   Inl e \<Rightarrow> (fs, Inl e)
                 | Inr b \<Rightarrow> (backupLinkLatest cfg (backupLabel b) fs, Inr (ib, length backupExpired)))))"

text \<open>The loops of the count-based policies: expire each label of a list.\<close>

fun expireBackupList ::
  "bool \<Rightarrow> string list \<Rightarrow> InfoBackup \<Rightarrow> repo \<Rightarrow> nat \<Rightarrow> InfoBackup \<times> repo \<times> nat" where
  "expireBackupList dryRun [] ib fs result = (ib, fs, result)"
| "expireBackupList dryRun (l # ls) ib fs result =
    (case expireBackup dryRun ib l fs of
       (ib, fs, backupExpired) \<Rightarrow> expireBackupList dryRun ls ib fs (result + length backupExpired))"

definition opt_zero :: "nat option \<Rightarrow> nat" where
  "opt_zero v = (case v of None \<Rightarrow> 0 | Some n \<Rightarrow> n)"

abbreviation backupRegExpFullDiff :: rx where
  "backupRegExpFullDiff \<equiv> backupRegExp \<lparr>full = True, differential = True, incremental = False, noAnchorEnd = False\<rparr>"

definition expireDiffBackup :: "bool \<Rightarrow> RepoCfg \<Rightarrow> InfoBackup \<Rightarrow> repo \<Rightarrow> InfoBackup \<times> repo \<times> nat" where
  "expireDiffBackup dryRun cfg ib fs =
    (let differentialRetention = opt_zero (retentionDiff cfg)
     in if differentialRetention > 0 then
          let currentBackupList = infoBackupDataLabelList ib (Some backupRegExpFullDiff)
          in if length currentBackupList > differentialRetention then
               expireBackupList dryRun
                 (filter (\<lambda>l. \<not> regExpMatch backupRegExpFull l)
                    (take (length currentBackupList - differentialRetention) currentBackupList)) ib fs 0
             else (ib, fs, 0)
        else (ib, fs, 0))"

definition expireFullBackup :: "bool \<Rightarrow> RepoCfg \<Rightarrow> InfoBackup \<Rightarrow> repo \<Rightarrow> InfoBackup \<times> repo \<times> nat" where
  "expireFullBackup dryRun cfg ib fs =
    (let fullRetention = opt_zero (retentionFull cfg)
     in if fullRetention > 0 then
          let currentBackupList = infoBackupDataLabelList ib (Some backupRegExpFull)
          in if length currentBackupList > fullRetention then
               expireBackupList dryRun (take (length currentBackupList - fullRetention) currentBackupList) ib fs 0
             else (ib, fs, 0)
        else (ib, fs, 0))"

subsection \<open>Time-based retention\<close>

text \<open>The \<^verbatim>\<open>do\<close> loop from the newest full backup back; the argument list is newest first.\<close>

fun retentionMetBackup :: "InfoBackup \<Rightarrow> int \<Rightarrow> string list \<Rightarrow> string option res" where
  "retentionMetBackup ib minTimestamp [] = Inr None"
| "retentionMetBackup ib minTimestamp (l # ls) =
    (case infoBackupDataByLabel ib l of
       None \<Rightarrow> Inl UndefinedBehavior
     | Some info \<Rightarrow>
         if backupTimestampStop info < minTimestamp then Inr (Some (backupLabel info))
         else retentionMetBackup ib minTimestamp ls)"

lemma length_delete_loop: "length (infoBackupDataDelete_loop l bs idx) \<le> length bs"
proof (induction l bs idx rule: infoBackupDataDelete_loop.induct)
  case (1 l bs idx)
  have "idx < length bs \<Longrightarrow> length (lstRemoveIdx bs idx) \<le> length bs"
    by (simp add: lstRemoveIdx_def)
  with 1 show ?case
    by (subst infoBackupDataDelete_loop.simps) auto
qed

lemma length_delete_loop_less:
  "i < length bs \<Longrightarrow> idx \<le> i \<Longrightarrow> backupLabel (bs ! i) = l \<Longrightarrow>
    length (infoBackupDataDelete_loop l bs idx) < length bs"
proof (induction l bs idx rule: infoBackupDataDelete_loop.induct)
  case (1 l bs idx)
  show ?case
  proof (cases "backupLabel (bs ! idx) = l")
    case True
    have "length (lstRemoveIdx bs idx) < length bs"
      using 1(3,4) by (simp add: lstRemoveIdx_def)
    then show ?thesis
      using True 1(3,4) length_delete_loop[of l "lstRemoveIdx bs idx" "Suc idx"]
      by (subst infoBackupDataDelete_loop.simps) simp
  next
    case False
    with 1(5) have "Suc idx \<le> i"
      using 1(4) by (metis Suc_leI le_neq_implies_less)
    with 1 False show ?thesis
      by (subst infoBackupDataDelete_loop.simps) simp
  qed
qed

lemma delete_loop_other:
  "b \<in> set bs \<Longrightarrow> backupLabel b \<noteq> l \<Longrightarrow> b \<in> set (infoBackupDataDelete_loop l bs idx)"
proof (induction l bs idx rule: infoBackupDataDelete_loop.induct)
  case (1 l bs idx)
  show ?case
  proof (cases "idx < length bs \<and> backupLabel (bs ! idx) = l")
    case True
    have "bs = take idx bs @ bs ! idx # drop (Suc idx) bs"
      using True by (simp add: id_take_nth_drop)
    then have "b \<in> set (lstRemoveIdx bs idx)"
      using 1(3,4) True by (metis Un_iff insertE list.set(2) lstRemoveIdx_def set_append)
    with 1 True show ?thesis
      by (subst infoBackupDataDelete_loop.simps) simp
  next
    case False
    with 1 show ?thesis
      by (subst infoBackupDataDelete_loop.simps) auto
  qed
qed

lemma expireBackup_loop_shrinks:
  "length (backup (fst (expireBackup_loop d ls ib fs res))) \<le> length (backup ib) \<and>
   (b \<in> set (backup ib) \<longrightarrow> backupLabel b \<in> set ls \<longrightarrow>
     length (backup (fst (expireBackup_loop d ls ib fs res))) < length (backup ib))"
proof (induction d ls ib fs res rule: expireBackup_loop.induct)
  case (2 d l ls ib fs res)
  have le: "length (backup (infoBackupDataDelete ib l)) \<le> length (backup ib)"
    by (simp add: infoBackupDataDelete_def length_delete_loop)
  have less: "length (backup (infoBackupDataDelete ib l)) < length (backup ib)"
    if "b \<in> set (backup ib)" "backupLabel b = l"
    using that length_delete_loop_less[of _ "backup ib" 0 l]
    by (auto simp: infoBackupDataDelete_def in_set_conv_nth)
  have other: "b \<in> set (backup (infoBackupDataDelete ib l))"
    if "b \<in> set (backup ib)" "backupLabel b \<noteq> l"
    using that delete_loop_other[of b "backup ib" l 0] by (simp add: infoBackupDataDelete_def)
  show ?case
    using 2 le less other by (cases "backupLabel b = l") auto
qed simp

lemma dependentList_loop_superset: "set result \<subseteq> set (infoBackupDataDependentList_loop bs result)"
  by (induction bs result rule: infoBackupDataDependentList_loop.induct) (auto split: option.splits)

lemma expireBackup_shrinks:
  "b \<in> set (backup ib) \<Longrightarrow> length (backup (fst (expireBackup d ib (backupLabel b) fs))) < length (backup ib)"
  using expireBackup_loop_shrinks[of d "strLstSort (infoBackupDataDependentList ib (backupLabel b)) sortOrderDesc" ib fs "[]" b]
    dependentList_loop_superset[of "[backupLabel b]" "backup ib"]
  by (auto simp: expireBackup_def infoBackupDataDependentList_def split: prod.splits)

lemma expireBackup_shrinks_fst:
  "expireBackup d ib (backupLabel (backup ib ! 0)) fs = (ib', fs', e) \<Longrightarrow> backup ib \<noteq> [] \<Longrightarrow>
    length (backup ib') < length (backup ib)"
  using expireBackup_shrinks[of "backup ib ! 0" ib d fs] by simp

text \<open>The \<^verbatim>\<open>while\<close> loop: as long as the oldest backup is not the one to retain, expire it.\<close>

function expireTimeBased_loop ::
  "bool \<Rightarrow> string \<Rightarrow> InfoBackup \<Rightarrow> repo \<Rightarrow> nat \<Rightarrow> nat \<Rightarrow> repo \<times> (InfoBackup \<times> nat \<times> nat) res" where
  "expireTimeBased_loop dryRun retentionMetBackupLabel ib fs result numFullExpired =
    (case infoBackupData ib 0 of
       Inl e \<Rightarrow> (fs, Inl e)
     | Inr oldest \<Rightarrow>
         if backupLabel oldest = retentionMetBackupLabel then (fs, Inr (ib, result, numFullExpired))
         else
           (case expireBackup dryRun ib (backupLabel oldest) fs of
              (ib', fs', backupExpired) \<Rightarrow>
                expireTimeBased_loop dryRun retentionMetBackupLabel ib' fs' (result + length backupExpired) (Suc numFullExpired)))"
  by pat_completeness auto
termination
  by (relation "measure (\<lambda>(d, l, ib, fs, r, n). length (backup ib))")
     (auto simp: infoBackupData_def lstGet_def split: if_splits dest!: sym[of "(_, _, _)"] intro: expireBackup_shrinks_fst)

declare expireTimeBased_loop.simps [simp del]

definition expireTimeBasedBackup ::
  "bool \<Rightarrow> RepoCfg \<Rightarrow> InfoBackup \<Rightarrow> int \<Rightarrow> repo \<Rightarrow> repo \<times> (RepoCfg \<times> InfoBackup \<times> nat) res" where
  "expireTimeBasedBackup dryRun cfg ib minTimestamp fs =
    (let currentBackupList = strLstSort (infoBackupDataLabelList ib (Some backupRegExpFull)) sortOrderAsc
     in (case retentionMetBackup ib minTimestamp (rev currentBackupList) of
           Inl e \<Rightarrow> (fs, Inl e)
         | Inr None \<Rightarrow> (fs, Inr (cfg, ib, 0))
         | Inr (Some l) \<Rightarrow>
             (case expireTimeBased_loop dryRun l ib fs 0 0 of
                (fs, Inl e) \<Rightarrow> (fs, Inl e)
              | (fs, Inr (ib, result, numFullExpired)) \<Rightarrow>
                  (fs, Inr
                    (if retentionArchiveType cfg = backupTypeFull \<and> retentionArchive cfg = None
                     then cfg\<lparr>retentionArchive := Some (length currentBackupList - numFullExpired)\<rparr> else cfg,
                     ib, result)))))"

section \<open>What a single expiration does\<close>

lemma length_filter_less_strict:
  assumes "\<And>y. P y \<Longrightarrow> Q y" and "x \<in> set xs" and "Q x" and "\<not> P x"
  shows "length (filter P xs) < length (filter Q xs)"
proof -
  have "filter P xs = filter P (filter Q xs)"
    using assms(1) by (auto intro: filter_cong)
  also have "length \<dots> < length (filter Q xs)"
    by (rule length_filter_less[of x]) (use assms in auto)
  finally show ?thesis .
qed

lemma expireBackup_loop_index:
  "fst (expireBackup_loop d ls ib fs res) = fold (\<lambda>r ib. infoBackupDataDelete ib r) ls ib"
  by (induction d ls ib fs res rule: expireBackup_loop.induct) auto

lemma expireBackup_loop_result: "snd (snd (expireBackup_loop d ls ib fs res)) = res @ ls"
  by (induction d ls ib fs res rule: expireBackup_loop.induct) auto

lemma expireBackup_loop_storage:
  "storageContent (fst (snd (expireBackup_loop d ls ib fs res))) q =
    (if \<not> d \<and> (\<exists>l\<in>set ls. q = manifestFileName l \<or> q = copyFileName (manifestFileName l)) then None
     else storageContent fs q)"
  by (induction d ls ib fs res rule: expireBackup_loop.induct) auto

lemma expireBackup_loop_dry: "fst (snd (expireBackup_loop True ls ib fs res)) = fs"
  by (induction True ls ib fs res rule: expireBackup_loop.induct) auto

lemma expireBackup_split:
  assumes "expireBackup d ib l fs = (ib', fs', r)"
  shows "ib' = fold (\<lambda>r ib. infoBackupDataDelete ib r) (strLstSort (infoBackupDataDependentList ib l) sortOrderDesc) ib"
    and "r = strLstSort (strLstSort (infoBackupDataDependentList ib l) sortOrderDesc) sortOrderAsc"
    and "fs' = fst (snd (expireBackup_loop d (strLstSort (infoBackupDataDependentList ib l) sortOrderDesc) ib fs []))"
  using assms expireBackup_loop_index expireBackup_loop_result
  by (auto simp: expireBackup_def split: prod.splits) (metis fst_conv, metis append_Nil snd_conv)

lemma expireBackup_facts:
  assumes "index_ok ib" and "prior_closed ib" and "expireBackup d ib l fs = (ib', fs', r)"
  shows "index_ok ib'" and "prior_closed ib'" and "infoBackupPg ib' = infoBackupPg ib"
    and "backup ib' = filter (\<lambda>b. \<not> depends (backup ib) l (backupLabel b)) (backup ib)"
    and "set r = Collect (depends (backup ib) l)" and "sorted_wrt (<) r"
    and "storageContent fs' q =
      (if \<not> d \<and> (\<exists>x. depends (backup ib) l x \<and> (q = manifestFileName x \<or> q = copyFileName (manifestFileName x)))
       then None else storageContent fs q)"
    and "d \<Longrightarrow> fs' = fs"
proof -
  note sp = expireBackup_split[OF assms(3)]
  show "index_ok ib'" "prior_closed ib'" "infoBackupPg ib' = infoBackupPg ib"
    "backup ib' = filter (\<lambda>b. \<not> depends (backup ib) l (backupLabel b)) (backup ib)"
    using remove_dependents[OF assms(1,2) sp(1)] .
  show "set r = Collect (depends (backup ib) l)"
    using sp(2) set_dependentList[OF assms(1)] by simp
  have "r = infoBackupDataDependentList ib l"
    using dependentList_sorted[OF assms(1), of l]
    by (simp add: sp(2) strLstSort_def strict_sorted_iff sorted_sort_id)
       (metis sorted_list_of_set_sort_remdups distinct_remdups_id distinct_rev set_rev sorted_sort_id)
  then show "sorted_wrt (<) r"
    using dependentList_sorted[OF assms(1)] by simp
  show "storageContent fs' q =
      (if \<not> d \<and> (\<exists>x. depends (backup ib) l x \<and> (q = manifestFileName x \<or> q = copyFileName (manifestFileName x)))
       then None else storageContent fs q)"
    unfolding sp(3) expireBackup_loop_storage using set_dependentList[OF assms(1), of l] by auto
  show "d \<Longrightarrow> fs' = fs"
    unfolding sp(3) using expireBackup_loop_dry by simp
qed

text \<open>A backup depends on its full backup, and on no other one.\<close>

lemma entry_full_depends:
  assumes "index_ok ib" and "prior_closed ib"
  shows "b \<in> set (backup ib) \<Longrightarrow> depends (backup ib) (take 16 (backupLabel b)) (backupLabel b) \<and>
    take 16 (backupLabel b) \<in> set (labels ib)"
proof (induction "length (filter (\<lambda>l. l < backupLabel b) (labels ib))" arbitrary: b rule: less_induct)
  case less
  have ok: "entry_ok b"
    using assms(1) less(2) by (simp add: index_ok_def list_all_iff)
  show ?case
  proof (cases "backupPrior b")
    case None
    with ok have "take 16 (backupLabel b) = backupLabel b"
      by (auto simp: entry_ok_def regExpMatch_full dest: full_label_length)
    with less(2) show ?thesis
      by (auto intro: depends.self)
  next
    case (Some p)
    then obtain c where c: "c \<in> set (backup ib)" "backupLabel c = p"
      using assms(2) less(2) by (fastforce simp: prior_closed_def list_all_iff)
    have p: "p < backupLabel b" "take 16 p = take 16 (backupLabel b)"
      using ok Some by (auto simp: entry_ok_def)
    have "length (filter (\<lambda>l. l < p) (labels ib)) < length (filter (\<lambda>l. l < backupLabel b) (labels ib))"
      by (rule length_filter_less_strict[where x = p]) (use p c in auto)
    with less(1)[of c] c p show ?thesis
      using depends.prior[OF _ less(2) Some] by simp
  qed
qed

lemma depends_full_iff:
  assumes "index_ok ib" and "prior_closed ib" and "b \<in> set (backup ib)" and "label_of backupTypeFull f"
  shows "depends (backup ib) f (backupLabel b) \<longleftrightarrow> take 16 (backupLabel b) = f"
proof
  assume "depends (backup ib) f (backupLabel b)"
  then have "take 16 (backupLabel b) = take 16 f"
    using assms(1) depends_take16 by (auto simp: index_ok_def)
  with full_label_length[OF assms(4)] show "take 16 (backupLabel b) = f"
    by simp
next
  assume "take 16 (backupLabel b) = f"
  with entry_full_depends[OF assms(1-3)] show "depends (backup ib) f (backupLabel b)"
    by simp
qed

text \<open>What remains after a removal has the same dependencies as before.\<close>

lemma depends_remaining:
  "depends bs k x \<Longrightarrow> \<not> depends bs l x \<Longrightarrow>
    depends (filter (\<lambda>b. \<not> depends bs l (backupLabel b)) bs) k x"
proof (induction rule: depends.induct)
  case (prior k p b)
  then have "\<not> depends bs l p"
    using depends.prior by blast
  with prior show ?case
    using depends.prior[of "filter (\<lambda>b. \<not> depends bs l (backupLabel b)) bs" k p b] by simp
qed (rule depends.self)

lemma expireBackupList_facts:
  assumes "index_ok ib" and "prior_closed ib" and "expireBackupList d ls ib fs n = (ib', fs', r)"
  shows "index_ok ib' \<and> prior_closed ib' \<and> infoBackupPg ib' = infoBackupPg ib \<and>
    backup ib' = filter (\<lambda>b. \<forall>l\<in>set ls. \<not> depends (backup ib) l (backupLabel b)) (backup ib) \<and>
    (d \<longrightarrow> fs' = fs)"
  using assms
proof (induction ls arbitrary: ib fs n)
  case (Cons l ls)
  obtain ib1 fs1 e where e: "expireBackup d ib l fs = (ib1, fs1, e)"
    by (cases "expireBackup d ib l fs") auto
  note f = expireBackup_facts[OF Cons.prems(1,2) e]
  have IH: "index_ok ib' \<and> prior_closed ib' \<and> infoBackupPg ib' = infoBackupPg ib1 \<and>
    backup ib' = filter (\<lambda>b. \<forall>l\<in>set ls. \<not> depends (backup ib1) l (backupLabel b)) (backup ib1) \<and> (d \<longrightarrow> fs' = fs1)"
  proof -
    have "expireBackupList d ls ib1 fs1 (n + length e) = (ib', fs', r)"
      using Cons.prems(3) e by simp
    from Cons.IH[OF f(1,2) this] show ?thesis .
  qed
  have same: "depends (backup ib1) k (backupLabel b) \<longleftrightarrow> depends (backup ib) k (backupLabel b)"
    if "\<not> depends (backup ib) l (backupLabel b)" for k b
    using depends_remaining[OF _ that] depends_mono[of "backup ib1" k _ "backup ib"] unfolding f(4)
    by (metis filter_is_subset)
  have "backup ib' = filter (\<lambda>b. \<forall>k\<in>set (l # ls). \<not> depends (backup ib) k (backupLabel b)) (backup ib)"
    using IH same unfolding f(4) by (auto intro!: filter_cong)
  with IH f(3,8) show ?case by auto
qed simp

text \<open>Expiring full backups takes out exactly the backups of these full backups.\<close>

lemma expireBackupList_full:
  assumes "index_ok ib" and "prior_closed ib" and "expireBackupList d ls ib fs n = (ib', fs', r)"
    and "\<forall>l\<in>set ls. label_of backupTypeFull l"
  shows "backup ib' = filter (\<lambda>b. take 16 (backupLabel b) \<notin> set ls) (backup ib)"
proof -
  have "(\<forall>l\<in>set ls. \<not> depends (backup ib) l (backupLabel b)) \<longleftrightarrow> take 16 (backupLabel b) \<notin> set ls"
    if "b \<in> set (backup ib)" for b
    using depends_full_iff[OF assms(1,2) that] assms(4) by blast
  with expireBackupList_facts[OF assms(1-3)] show ?thesis
    by (auto intro!: filter_cong)
qed

definition full_labels :: "InfoBackup \<Rightarrow> string list" where
  "full_labels ib = infoBackupDataLabelList ib (Some backupRegExpFull)"

lemma full_labels_filter: "full_labels ib = filter (label_of backupTypeFull) (labels ib)"
  by (simp add: full_labels_def infoBackupDataLabelList_def regExpMatch_full)

lemma sorted_full_labels: "index_ok ib \<Longrightarrow> sorted_wrt (<) (full_labels ib)"
  by (simp add: full_labels_filter index_ok_def sorted_wrt_filter)

lemma filter_set_take_drop:
  "distinct xs \<Longrightarrow> filter (\<lambda>x. x \<notin> set (take k xs)) xs = drop k xs"
proof -
  assume d: "distinct xs"
  have "filter (\<lambda>x. x \<notin> set (take k xs)) (take k xs @ drop k xs) = drop k xs"
    using d set_take_disj_set_drop_if_distinct[OF d order_refl, of k]
    by (auto simp: filter_empty_conv filter_id_conv simp del: append_take_drop_id)
  then show ?thesis by simp
qed

lemma map_filter_labels:
  "map backupLabel (filter (\<lambda>b. P (backupLabel b)) bs) = filter P (map backupLabel bs)"
  by (simp add: filter_map comp_def)

lemma full_labels_after:
  assumes "index_ok ib" and "backup ib' = filter (\<lambda>b. take 16 (backupLabel b) \<notin> set (take k (full_labels ib))) (backup ib)"
  shows "full_labels ib' = drop k (full_labels ib)"
proof -
  have "full_labels ib' = filter (\<lambda>l. take 16 l \<notin> set (take k (full_labels ib))) (full_labels ib)"
    unfolding full_labels_filter[of ib'] assms(2)
      map_filter_labels[of "\<lambda>l. take 16 l \<notin> set (take k (full_labels ib))"]
    by (simp add: full_labels_filter[of ib] conj_commute)
  also have "\<dots> = filter (\<lambda>l. l \<notin> set (take k (full_labels ib))) (full_labels ib)"
    by (rule filter_cong) (auto simp: full_labels_filter dest: full_label_length)
  also have "\<dots> = drop k (full_labels ib)"
    using sorted_full_labels[OF assms(1)] by (intro filter_set_take_drop) (simp add: strict_sorted_iff)
  finally show ?thesis .
qed

subsection \<open>The time-based loop\<close>

lemma oldest_is_full:
  assumes "index_ok ib" and "prior_closed ib" and "backup ib = b # bs"
  shows "label_of backupTypeFull (backupLabel b)"
proof (cases "backupPrior b")
  case None
  with assms show ?thesis
    by (auto simp: index_ok_def entry_ok_def regExpMatch_full)
next
  case (Some p)
  then have "p \<in> set (labels ib)" "p < backupLabel b"
    using assms by (auto simp: prior_closed_def index_ok_def entry_ok_def)
  with assms show ?thesis
    by (force simp: index_ok_def)
qed

lemma expire_oldest:
  assumes "index_ok ib" and "prior_closed ib" and "backup ib = b # bs"
    and "expireBackup d ib (backupLabel b) fs = (ib', fs', e)"
    and "label_of backupTypeFull l" and "backupLabel b < l"
  shows "filter (\<lambda>c. l \<le> backupLabel c) (backup ib') = filter (\<lambda>c. l \<le> backupLabel c) (backup ib)"
    and "length (filter (\<lambda>f. f < l) (full_labels ib)) = Suc (length (filter (\<lambda>f. f < l) (full_labels ib')))"
proof -
  note full = oldest_is_full[OF assms(1-3)]
  have bk: "backup ib' = filter (\<lambda>c. take 16 (backupLabel c) \<noteq> backupLabel b) (backup ib)"
    unfolding expireBackup_facts(4)[OF assms(1,2,4)]
    by (rule filter_cong) (auto simp: depends_full_iff[OF assms(1,2) _ full])
  have before: "backupLabel c < l" if "c \<in> set (backup ib)" "take 16 (backupLabel c) = backupLabel b" for c
    using label_before_later_full[of "backupLabel c" l] that assms(1,5,6)
    by (simp add: index_ok_def list_all_iff entry_ok_def regExpMatch_all)
  show "filter (\<lambda>c. l \<le> backupLabel c) (backup ib') = filter (\<lambda>c. l \<le> backupLabel c) (backup ib)"
    unfolding bk by (auto intro!: filter_cong dest: before)
  have hd: "full_labels ib = backupLabel b # tl (full_labels ib)"
    using full assms(3) by (simp add: full_labels_filter)
  have "full_labels ib' = drop 1 (full_labels ib)"
    by (rule full_labels_after[OF assms(1)]) (subst hd, simp add: bk)
  then show "length (filter (\<lambda>f. f < l) (full_labels ib)) = Suc (length (filter (\<lambda>f. f < l) (full_labels ib')))"
    using assms(6) by (subst hd) (simp add: drop_Suc)
qed

lemma expireTimeBased_loop_facts:
  "index_ok ib \<Longrightarrow> prior_closed ib \<Longrightarrow> label_of backupTypeFull l \<Longrightarrow> l \<in> set (labels ib) \<Longrightarrow>
    \<exists>ib' fs' r. expireTimeBased_loop d l ib fs r0 n =
      (fs', Inr (ib', r, n + length (filter (\<lambda>f. f < l) (full_labels ib)))) \<and>
      index_ok ib' \<and> prior_closed ib' \<and> backup ib' = filter (\<lambda>c. l \<le> backupLabel c) (backup ib) \<and> (d \<longrightarrow> fs' = fs)"
proof (induction d l ib fs r0 n rule: expireTimeBased_loop.induct)
  case (1 d l ib fs r0 n)
  obtain b bs where bs: "backup ib = b # bs"
    using 1(5) by (cases "backup ib") auto
  have get: "infoBackupData ib 0 = Inr b"
    by (simp add: infoBackupData_def lstGet_def bs)
  have sorted: "sorted_wrt (<) (labels ib)"
    using 1(2) by (simp add: index_ok_def)
  show ?case
  proof (cases "backupLabel b = l")
    case True
    have all: "\<forall>x\<in>set (labels ib). l \<le> x"
      using sorted True by (auto simp: bs)
    then have "filter (\<lambda>f. f < l) (full_labels ib) = []" "filter (\<lambda>c. l \<le> backupLabel c) (backup ib) = backup ib"
      by (auto simp: filter_empty_conv filter_id_conv full_labels_filter leD)
    with 1(2,3) True show ?thesis
      by (subst expireTimeBased_loop.simps) (simp add: get)
  next
    case False
    obtain ib1 fs1 e where e: "expireBackup d ib (backupLabel b) fs = (ib1, fs1, e)"
      by (cases "expireBackup d ib (backupLabel b) fs") auto
    have less: "backupLabel b < l"
      using sorted 1(5) False by (auto simp: bs)
    note f = expireBackup_facts[OF 1(2,3) e] and o = expire_oldest[OF 1(2,3) bs e 1(4) less]
    have "l \<in> set (labels ib1)"
    proof -
      obtain c where "c \<in> set (backup ib)" "backupLabel c = l"
        using 1(5) by auto
      then have "c \<in> set (filter (\<lambda>c. l \<le> backupLabel c) (backup ib1))"
        unfolding o(1) by simp
      with \<open>backupLabel c = l\<close> show ?thesis by auto
    qed
    from 1(1)[OF get False e[symmetric] refl f(1,2) 1(4) this]
    obtain ib' fs' r where IH: "expireTimeBased_loop d l ib1 fs1 (r0 + length e) (Suc n) =
        (fs', Inr (ib', r, Suc n + length (filter (\<lambda>f. f < l) (full_labels ib1))))"
      "index_ok ib'" "prior_closed ib'" "backup ib' = filter (\<lambda>c. l \<le> backupLabel c) (backup ib1)" "d \<longrightarrow> fs' = fs1"
      by blast
    have "expireTimeBased_loop d l ib fs r0 n = (fs', Inr (ib', r, n + length (filter (\<lambda>f. f < l) (full_labels ib))))"
      using IH(1) o(2) False by (subst expireTimeBased_loop.simps) (simp add: get e)
    with IH(2-5) f(8) show ?thesis
      by (auto simp: o(1))
  qed
qed

lemma retentionMetBackup_facts:
  assumes "index_ok ib"
  shows "set ls \<subseteq> set (labels ib) \<Longrightarrow>
    retentionMetBackup ib minTimestamp ls =
      Inr (find (\<lambda>l. \<exists>b\<in>set (backup ib). backupLabel b = l \<and> backupTimestampStop b < minTimestamp) ls)"
proof (induction ls)
  case (Cons l ls)
  then obtain b where b: "b \<in> set (backup ib)" "backupLabel b = l"
    by auto
  then have get: "infoBackupDataByLabel ib l = Some b"
    using infoBackupDataByLabel_Some_iff[OF assms] by blast
  then have "(\<exists>c\<in>set (backup ib). backupLabel c = l \<and> backupTimestampStop c < minTimestamp) \<longleftrightarrow>
      backupTimestampStop b < minTimestamp"
    using b infoBackupDataByLabel_Some_iff[OF assms, of l] by (metis option.inject)
  then show ?case
    using Cons b(2) get by simp
qed simp

subsection \<open>Adhoc expiration\<close>

lemma adhoc_full_list:
  "index_ok ib \<Longrightarrow>
    strLstSort (infoBackupDataLabelList ib (Some backupRegExpFull)) sortOrderDesc = rev (full_labels ib)"
  using sorted_full_labels[of ib] by (simp add: full_labels_def strLstSort_desc_sorted)

lemma full_labels_not_empty:
  assumes "index_ok ib" and "prior_closed ib" and "backup ib \<noteq> []"
  shows "full_labels ib \<noteq> []"
  using oldest_is_full[OF assms(1,2)] assms(3) by (cases "backup ib") (auto simp: full_labels_filter)

text \<open>When the check passes there is a full backup other than the one to expire; when it does not, it fails in
  the way the code means to.\<close>

lemma expireAdhocBackup_check_facts:
  assumes "index_ok ib" and "prior_closed ib" and "l \<in> set (labels ib)"
  shows "expireAdhocBackup_check ib l = Inr () \<Longrightarrow> \<exists>f\<in>set (full_labels ib). f \<noteq> l"
    and "expireAdhocBackup_check ib l = Inl e \<Longrightarrow> e = BackupSetInvalidError"
proof -
  have ne: "full_labels ib \<noteq> []"
    using full_labels_not_empty[OF assms(1,2)] assms(3) by (cases "backup ib") auto
  have len1: "length (full_labels ib) \<noteq> 1 \<Longrightarrow> 1 < length (full_labels ib)"
    using ne by (cases "full_labels ib") auto
  have by_label: "\<exists>b. infoBackupDataByLabel ib x = Some b" if "x \<in> set (full_labels ib)" for x
    using that infoBackupDataByLabel_Some_iff[OF assms(1)] by (fastforce simp: full_labels_filter)
  have mem: "rev (full_labels ib) ! k \<in> set (full_labels ib)" if "k < length (full_labels ib)" for k
    using that by (metis length_rev nth_mem set_rev)
  have dist: "rev (full_labels ib) ! 1 \<noteq> rev (full_labels ib) ! 0" if "1 < length (full_labels ib)"
    using that sorted_full_labels[OF assms(1)] nth_eq_iff_index_eq[of "rev (full_labels ib)" 1 0] ne
    by (simp add: strict_sorted_iff)
  have zero: "rev (full_labels ib) ! 0 \<in> set (full_labels ib)"
    using ne by (auto intro: mem)
  show "\<exists>f\<in>set (full_labels ib). f \<noteq> l" if "expireAdhocBackup_check ib l = Inr ()"
  proof (cases "rev (full_labels ib) ! 0 = l")
    case True
    with that ne have "length (full_labels ib) \<noteq> 1"
      by (auto simp: expireAdhocBackup_check_def adhoc_full_list[OF assms(1)] lstGet_def Let_def)
    with True len1 mem[of 1] dist show ?thesis by auto
  qed (use zero in blast)
  show "e = BackupSetInvalidError" if "expireAdhocBackup_check ib l = Inl e"
  proof (cases "rev (full_labels ib) ! 0 = l \<and> length (full_labels ib) \<noteq> 1")
    case True
    obtain b b1 where "infoBackupDataByLabel ib l = Some b" "infoBackupDataByLabel ib (rev (full_labels ib) ! 1) = Some b1"
      using by_label[of l] by_label[OF mem[of 1]] zero True len1 by auto
    with that True ne show ?thesis
      by (auto simp: expireAdhocBackup_check_def adhoc_full_list[OF assms(1)] lstGet_def Let_def split: if_splits)
  next
    case False
    with that ne show ?thesis
      by (auto simp: expireAdhocBackup_check_def adhoc_full_list[OF assms(1)] lstGet_def Let_def split: if_splits)
  qed
qed

lemma infoBackupData_last:
  "backup ib \<noteq> [] \<Longrightarrow> infoBackupData ib (infoBackupDataTotal ib - 1) = Inr (last (backup ib))"
  by (simp add: infoBackupData_def infoBackupDataTotal_def lstGet_def last_conv_nth)

text \<open>Sample options and storage for the witnesses.\<close>

definition sample_cfg :: RepoCfg where
  "sample_cfg = \<lparr>retentionFull = Some 1, retentionFullTime = False, retentionDiff = Some 1, retentionArchive = None,
    retentionArchiveType = backupTypeFull, retentionHistory = None, symLink = True\<rparr>"

definition sample_full_repo :: repo where
  "sample_full_repo = map (\<lambda>l. (manifestFileName l, FData [])) (labels sample_index)"

section \<open>Properties\<close>

text \<open>
  C1: \<open>expireBackup\<close> removes from the index exactly the given backup and the backups that depend on it,
  directly or indirectly, and returns their labels from oldest to newest.  The index stays well formed and
  every remaining backup still has its prior.  On storage exactly the manifest and manifest copy of these
  backups disappear, and nothing at all in a dry run.
\<close>

theorem expireBackup_removes_dependents:
  assumes "index_ok ib" and "prior_closed ib" and "expireBackup dryRun ib l fs = (ib', fs', expired)"
  shows "index_ok ib' \<and> prior_closed ib' \<and>
    backup ib' = filter (\<lambda>b. \<not> depends (backup ib) l (backupLabel b)) (backup ib) \<and>
    set expired = Collect (depends (backup ib) l) \<and> sorted_wrt (<) expired \<and>
    (\<forall>q. storageContent fs' q =
      (if \<not> dryRun \<and> (\<exists>x\<in>set expired. q = manifestFileName x \<or> q = copyFileName (manifestFileName x))
       then None else storageContent fs q))"
  using expireBackup_facts[OF assms] by simp

theorem expireBackup_removes_dependents_witness:
  "prior_closed (fst (expireBackup False sample_index ''20240101-000000F'' sample_repo)) \<and>
   labels (fst (expireBackup False sample_index ''20240101-000000F'' sample_repo)) = [''20240103-000000F'']"
proof -
  obtain ib' fs' e where r: "expireBackup False sample_index ''20240101-000000F'' sample_repo = (ib', fs', e)"
    by (cases "expireBackup False sample_index ''20240101-000000F'' sample_repo") auto
  have "prior_closed ib'"
    using expireBackup_removes_dependents[OF sample_index_ok r] by simp
  moreover have "labels (fst (expireBackup False sample_index ''20240101-000000F'' sample_repo)) = [''20240103-000000F'']"
    by code_simp
  ultimately show ?thesis
    using r by simp
qed



text \<open>
  C5: Count-based full retention: with \<^verbatim>\<open>repo-retention-full=n\<close>, exactly the newest \<open>n\<close> full backups stay (all of
  them when there are at most \<open>n\<close>), and a diff or incr backup stays exactly when the full backup at the start
  of its label stays.
\<close>

theorem expireFullBackup_keeps_newest:
  assumes "index_ok ib" and "prior_closed ib" and "retentionFull cfg = Some n" and "0 < n"
    and "expireFullBackup dryRun cfg ib fs = (ib', fs', tot)"
  shows "index_ok ib' \<and> prior_closed ib' \<and>
    full_labels ib' = drop (length (full_labels ib) - n) (full_labels ib) \<and>
    backup ib' = filter (\<lambda>b. take 16 (backupLabel b) \<in> set (full_labels ib')) (backup ib)"
proof -
  let ?k = "length (full_labels ib) - n"
  have run: "expireBackupList dryRun (take ?k (full_labels ib)) ib fs 0 = (ib', fs', tot)"
    using assms(3-5) by (auto simp: expireFullBackup_def opt_zero_def full_labels_def Let_def split: if_splits)
  have full: "\<forall>l\<in>set (take ?k (full_labels ib)). label_of backupTypeFull l"
    by (auto simp: full_labels_filter dest: in_set_takeD)
  have bk: "backup ib' = filter (\<lambda>b. take 16 (backupLabel b) \<notin> set (take ?k (full_labels ib))) (backup ib)"
    by (rule expireBackupList_full[OF assms(1,2) run full])
  have fl: "full_labels ib' = drop ?k (full_labels ib)"
    by (rule full_labels_after[OF assms(1) bk])
  have "take 16 (backupLabel b) \<notin> set (take ?k (full_labels ib)) \<longleftrightarrow> take 16 (backupLabel b) \<in> set (drop ?k (full_labels ib))"
    if "b \<in> set (backup ib)" for b
  proof -
    have "is_label (backupLabel b)"
      using assms(1) that by (simp add: index_ok_def list_all_iff entry_ok_def regExpMatch_all)
    then have "take 16 (backupLabel b) \<in> set (full_labels ib)"
      using entry_full_depends[OF assms(1,2) that] is_label_full by (simp add: full_labels_filter)
    moreover have "distinct (full_labels ib)"
      using sorted_full_labels[OF assms(1)] by (simp add: strict_sorted_iff)
    ultimately show ?thesis
      by (metis Un_iff append_take_drop_id set_append set_take_disj_set_drop_if_distinct order_refl disjoint_iff)
  qed
  then have "backup ib' = filter (\<lambda>b. take 16 (backupLabel b) \<in> set (full_labels ib')) (backup ib)"
    unfolding fl bk by (auto intro: filter_cong)
  with fl expireBackupList_facts[OF assms(1,2) run] show ?thesis by blast
qed

theorem expireFullBackup_keeps_newest_witness:
  "full_labels (fst (expireFullBackup False sample_cfg sample_index sample_full_repo)) = [''20240103-000000F'']"
proof -
  let ?r = "expireFullBackup False sample_cfg sample_index sample_full_repo"
  have full: "full_labels sample_index = [''20240101-000000F'', ''20240103-000000F'']"
    by code_simp
  have "full_labels (fst ?r) = drop (length (full_labels sample_index) - 1) (full_labels sample_index)"
    using expireFullBackup_keeps_newest[OF sample_index_ok, of sample_cfg 1 False sample_full_repo "fst ?r" "fst (snd ?r)" "snd (snd ?r)"]
    by (simp add: sample_cfg_def)
  then show ?thesis
    by (simp add: full)
qed

text \<open>
  C7: Differential retention: with \<^verbatim>\<open>repo-retention-diff=n\<close> every full backup stays, and so do the newest \<open>n\<close> of
  the full and differential backups taken together; a backup is removed exactly when it is, or depends
  on, a differential backup older than these \<open>n\<close>.
\<close>

theorem expireDiffBackup_keeps_newest:
  assumes "index_ok ib" and "prior_closed ib" and "retentionDiff cfg = Some n" and "0 < n"
    and "expireDiffBackup dryRun cfg ib fs = (ib', fs', tot)"
    and "fd = infoBackupDataLabelList ib (Some backupRegExpFullDiff)"
  shows "index_ok ib' \<and> prior_closed ib' \<and> full_labels ib' = full_labels ib \<and>
    backup ib' = filter (\<lambda>b. \<forall>d\<in>set (take (length fd - n) fd). label_of backupTypeDiff d \<longrightarrow>
      \<not> depends (backup ib) d (backupLabel b)) (backup ib)"
proof -
  let ?ls = "filter (\<lambda>l. \<not> regExpMatch backupRegExpFull l) (take (length fd - n) fd)"
  have run: "expireBackupList dryRun ?ls ib fs 0 = (ib', fs', tot)"
    using assms(3-6) by (auto simp: expireDiffBackup_def opt_zero_def Let_def split: if_splits)
  note f = expireBackupList_facts[OF assms(1,2) run]
  have fd: "\<forall>l\<in>set fd. label_of backupTypeFull l \<or> label_of backupTypeDiff l"
    unfolding assms(6) infoBackupDataLabelList_def by (auto simp: backupRegExp_match)
  then have ls: "set ?ls = {l \<in> set (take (length fd - n) fd). label_of backupTypeDiff l}"
    using label_of_unique by (fastforce simp: regExpMatch_full dest: in_set_takeD)
  have bk: "backup ib' = filter (\<lambda>b. \<forall>d\<in>set (take (length fd - n) fd). label_of backupTypeDiff d \<longrightarrow>
      \<not> depends (backup ib) d (backupLabel b)) (backup ib)"
    using f unfolding ls by (auto intro!: filter_cong)
  have keep: "\<not> depends (backup ib) d l" if "label_of backupTypeFull l" "label_of backupTypeDiff d" for d l
    using depends_full[of "backup ib" d l] assms(1) that label_of_unique by (auto simp: index_ok_def)
  have "full_labels ib' = full_labels ib"
    unfolding full_labels_filter bk
      map_filter_labels[of "\<lambda>l. \<forall>d\<in>set (take (length fd - n) fd). label_of backupTypeDiff d \<longrightarrow> \<not> depends (backup ib) d l"]
    by (auto simp: keep intro!: filter_cong)
  with bk f show ?thesis by blast
qed

theorem expireDiffBackup_keeps_newest_witness:
  "full_labels (fst (expireDiffBackup False sample_cfg sample_index sample_full_repo)) = full_labels sample_index \<and>
   labels (fst (expireDiffBackup False sample_cfg sample_index sample_full_repo)) = [''20240101-000000F'', ''20240103-000000F'']"
proof -
  let ?r = "expireDiffBackup False sample_cfg sample_index sample_full_repo"
  have "full_labels (fst ?r) = full_labels sample_index"
    using expireDiffBackup_keeps_newest[OF sample_index_ok, of sample_cfg 1 False sample_full_repo "fst ?r" "fst (snd ?r)" "snd (snd ?r)"]
    by (simp add: sample_cfg_def)
  moreover have "labels (fst ?r) = [''20240101-000000F'', ''20240103-000000F'']"
    by code_simp
  ultimately show ?thesis by simp
qed

text \<open>
  C6: Time-based retention: let \<open>l\<close> be the newest full backup that stopped before the retention period began.
  Then exactly the backups older than \<open>l\<close> are removed, so \<open>l\<close>, everything taken during the period and every
  dependent of these stay; the loop always ends normally.  If archive retention is by full backups and not
  set, it becomes the number of full backups that remain, which is not zero.  If there is no such full backup
  nothing changes.
\<close>

theorem expireTimeBasedBackup_keeps_period:
  assumes "index_ok ib" and "prior_closed ib"
    and "met = find (\<lambda>l. \<exists>b\<in>set (backup ib). backupLabel b = l \<and> backupTimestampStop b < minTimestamp) (rev (full_labels ib))"
    and "keep = (case met of None \<Rightarrow> backup ib | Some l \<Rightarrow> filter (\<lambda>b. l \<le> backupLabel b) (backup ib))"
  shows "\<exists>fs' cfg' ib' tot. expireTimeBasedBackup dryRun cfg ib minTimestamp fs = (fs', Inr (cfg', ib', tot)) \<and>
    index_ok ib' \<and> prior_closed ib' \<and> backup ib' = keep \<and>
    cfg' = (if met \<noteq> None \<and> retentionArchiveType cfg = backupTypeFull \<and> retentionArchive cfg = None
            then cfg\<lparr>retentionArchive := Some (length (full_labels ib'))\<rparr> else cfg) \<and>
    (met \<noteq> None \<longrightarrow> full_labels ib' \<noteq> [])"
proof -
  have sorted: "strLstSort (infoBackupDataLabelList ib (Some backupRegExpFull)) sortOrderAsc = full_labels ib"
    using sorted_full_labels[OF assms(1)] by (simp add: strLstSort_def sorted_sort_id strict_sorted_iff full_labels_def)
  have met: "retentionMetBackup ib minTimestamp (rev (full_labels ib)) = Inr met"
    unfolding assms(3) by (rule retentionMetBackup_facts[OF assms(1)]) (auto simp: full_labels_filter)
  show ?thesis
  proof (cases met)
    case None
    with assms met show ?thesis
      by (simp add: expireTimeBasedBackup_def sorted)
  next
    case (Some l)
    then have l: "l \<in> set (full_labels ib)"
      using assms(3) by (auto simp: find_Some_iff) (metis length_rev nth_mem set_rev)
    then obtain ib' fs' r where run:
        "expireTimeBased_loop dryRun l ib fs 0 0 = (fs', Inr (ib', r, length (filter (\<lambda>f. f < l) (full_labels ib))))"
        "index_ok ib'" "prior_closed ib'" "backup ib' = filter (\<lambda>c. l \<le> backupLabel c) (backup ib)"
      using expireTimeBased_loop_facts[OF assms(1,2), of l dryRun fs 0 0] by (auto simp: full_labels_filter)
    have fl: "full_labels ib' = filter (\<lambda>f. \<not> f < l) (full_labels ib)"
      unfolding full_labels_filter run(4) map_filter_labels[of "\<lambda>x. l \<le> x"] by (simp add: not_less conj_commute)
    have "length (full_labels ib) - length (filter (\<lambda>f. f < l) (full_labels ib)) = length (full_labels ib')"
      unfolding fl using sum_length_filter_compl[of "\<lambda>f. f < l" "full_labels ib"] by simp
    moreover have "l \<in> set (full_labels ib')"
      using l by (simp add: fl)
    moreover have "expireTimeBasedBackup dryRun cfg ib minTimestamp fs =
        (fs', Inr (if retentionArchiveType cfg = backupTypeFull \<and> retentionArchive cfg = None
            then cfg\<lparr>retentionArchive := Some (length (full_labels ib'))\<rparr> else cfg, ib', r))"
      using run(1) met Some calculation(1) by (simp add: expireTimeBasedBackup_def sorted Let_def)
    ultimately show ?thesis
      using run(2-4) Some assms(4) by (intro exI[of _ fs'] exI[of _ ib'] exI[of _ r]) auto
  qed
qed

theorem expireTimeBasedBackup_keeps_period_witness:
  "\<exists>fs' cfg' ib' tot. expireTimeBasedBackup False sample_cfg sample_index 301 sample_full_repo = (fs', Inr (cfg', ib', tot)) \<and>
     prior_closed ib' \<and> labels ib' = [''20240103-000000F''] \<and> retentionArchive cfg' = Some 1"
proof -
  have "\<exists>fs' cfg' ib' tot. expireTimeBasedBackup False sample_cfg sample_index 301 sample_full_repo = (fs', Inr (cfg', ib', tot)) \<and>
      prior_closed ib'"
    using expireTimeBasedBackup_keeps_period[OF sample_index_ok refl refl, of False sample_cfg 301 sample_full_repo] by blast
  moreover have "(case expireTimeBasedBackup False sample_cfg sample_index 301 sample_full_repo of
      (_, Inr (cfg', ib', _)) \<Rightarrow> labels ib' = [''20240103-000000F''] \<and> retentionArchive cfg' = Some 1 | _ \<Rightarrow> False)"
    by code_simp
  ultimately show ?thesis by auto
qed

text \<open>
  C8: Adhoc expiration of a backup that is in the index either refuses with \<open>BackupSetInvalidError\<close> and leaves
  the storage as it was, or removes the backup with its dependents and leaves at least one full backup; if it
  removed the latest backup then, unless this is a dry run, the \<^verbatim>\<open>latest\<close> link of a storage with links points to
  the newest backup that remains.
\<close>

theorem expireAdhocBackup_keeps_full:
  assumes "index_ok ib" and "prior_closed ib" and "l \<in> set (labels ib)"
    and "expireAdhocBackup dryRun cfg ib l fs = (fs', result)"
  shows "case result of
      Inl e \<Rightarrow> e = BackupSetInvalidError \<and> fs' = fs
    | Inr (ib', n) \<Rightarrow> index_ok ib' \<and> prior_closed ib' \<and> full_labels ib' \<noteq> [] \<and>
        backup ib' = filter (\<lambda>b. \<not> depends (backup ib) l (backupLabel b)) (backup ib) \<and>
        (\<not> dryRun \<and> symLink cfg \<and> last (labels ib) \<notin> set (labels ib') \<longrightarrow>
          storageContent fs' BACKUP_LINK_LATEST = Some (FLink (last (labels ib'))))"
proof (cases "expireAdhocBackup_check ib l")
  case (Inl e)
  then show ?thesis
    using assms(4) expireAdhocBackup_check_facts(2)[OF assms(1-3) Inl] by (auto simp: expireAdhocBackup_def)
next
  case (Inr u)
  have ne: "backup ib \<noteq> []"
    using assms(3) by auto
  obtain ib1 fs1 e where e: "expireBackup dryRun ib l fs = (ib1, fs1, e)"
    by (cases "expireBackup dryRun ib l fs") auto
  note f = expireBackup_facts[OF assms(1,2) e]
  obtain g where g: "g \<in> set (full_labels ib)" "g \<noteq> l"
    using expireAdhocBackup_check_facts(1)[OF assms(1-3)] Inr by auto
  have "\<not> depends (backup ib) l g"
    using depends_full[of "backup ib" l g] g assms(1) by (auto simp: index_ok_def full_labels_filter)
  then have gl: "g \<in> set (full_labels ib1)"
    using g unfolding full_labels_filter f(4) by auto
  then have ne1: "backup ib1 \<noteq> []" "full_labels ib1 \<noteq> []"
    by (auto simp: full_labels_filter filter_empty_conv)
  have lastl: "last (labels ib) = backupLabel (last (backup ib))" "last (labels ib1) = backupLabel (last (backup ib1))"
    using ne ne1 by (simp_all add: last_map)
  have "(fs', result) =
      (if infoBackupLabelExists ib1 (last (labels ib)) \<or> dryRun then (fs1, Inr (ib1, length e))
       else (backupLinkLatest cfg (last (labels ib1)) fs1, Inr (ib1, length e)))"
    using assms(4) Inr infoBackupData_last[OF ne] infoBackupData_last[OF ne1(1)] e lastl
    by (auto simp: expireAdhocBackup_def split: if_splits)
  then show ?thesis
    using f(1,2,4) ne1 infoBackupLabelExists_iff[of ib1 "last (labels ib)"]
    by (auto simp: backupLinkLatest_def Let_def simp del: in_set_conv_nth split: if_splits)
qed

theorem expireAdhocBackup_keeps_full_witness:
  "(case expireAdhocBackup False sample_cfg sample_index ''20240103-000000F'' sample_full_repo of
      (fs', Inr (ib', _)) \<Rightarrow> prior_closed ib' \<and> full_labels ib' \<noteq> [] \<and>
         storageContent fs' BACKUP_LINK_LATEST = Some (FLink ''20240101-000000F_20240102-000000D'')
    | _ \<Rightarrow> False)"
proof -
  let ?r = "expireAdhocBackup False sample_cfg sample_index ''20240103-000000F'' sample_full_repo"
  have "''20240103-000000F'' \<in> set (labels sample_index)"
    by code_simp
  note spec = expireAdhocBackup_keeps_full[OF sample_index_ok this, of False sample_cfg sample_full_repo "fst ?r" "snd ?r"]
  have "(case ?r of (fs', Inr (ib', _)) \<Rightarrow> storageContent fs' BACKUP_LINK_LATEST = Some (FLink ''20240101-000000F_20240102-000000D'')
      | _ \<Rightarrow> False)"
    by code_simp
  with spec show ?thesis
    by (auto split: prod.splits sum.splits)
qed

end
