(* ===== verification/InfoArchive.thy ===== *)
theory InfoArchive
  imports InfoBackup
begin

text \<open>
  Loading of \<^verbatim>\<open>archive.info\<close> (\<^verbatim>\<open>src/src/info/infoArchive.c\<close>) and the archive directory of a repository.  As for
  \<^verbatim>\<open>backup.info\<close>, the content of the file is the object it encodes.
\<close>

definition REPO_ARCHIVE :: path where
  "REPO_ARCHIVE = [''archive'']"

definition INFO_ARCHIVE_PATH_FILE :: path where
  "INFO_ARCHIVE_PATH_FILE = REPO_ARCHIVE @ [''archive.info'']"

definition infoArchiveRead :: "repo \<Rightarrow> path \<Rightarrow> InfoPg res" where
  "infoArchiveRead storage fileName =
    (case storageContent storage fileName of
       None \<Rightarrow> Inl FileMissingError
     | Some (FArchiveInfo pg) \<Rightarrow> Inr pg
     | Some _ \<Rightarrow> Inl FormatError)"

definition infoArchiveLoadFile :: "repo \<Rightarrow> path \<Rightarrow> InfoPg res" where
  "infoArchiveLoadFile storage fileName =
    infoLoad None [infoArchiveRead storage fileName, infoArchiveRead storage (copyFileName fileName)]"

end
