(* ===== verification/ExpireArchive.thy ===== *)
theory ExpireArchive
  imports Expire InfoArchive
begin

text \<open>
  Archive retention: \<^verbatim>\<open>removeExpiredArchive\<close> of \<^verbatim>\<open>src/src/command/expire/expire.c\<close>, one definition for each
  of its loops.
\<close>

section \<open>Which backups decide\<close>

text \<open>The backups that count for archive retention, newest first.\<close>

definition globalBackupRetentionList :: "InfoBackup \<Rightarrow> BackupType \<Rightarrow> string list" where
  "globalBackupRetentionList ib archiveRetentionType =
    strLstSort (infoBackupDataLabelList ib (Some
      (case archiveRetentionType of
         backupTypeFull \<Rightarrow> backupRegExpFull
       | backupTypeDiff \<Rightarrow> backupRegExpFullDiff
       | backupTypeIncr \<Rightarrow> backupRegExpAll))) sortOrderDesc"

text \<open>\<^verbatim>\<open>"^[0-9]+(\\.[0-9]+)*-[0-9]+$"\<close>\<close>

definition rx_digits :: rx where
  "rx_digits = RSeq (RRng CHR ''0'' CHR ''9'') (RStar (RRng CHR ''0'' CHR ''9''))"

definition REGEX_ARCHIVE_DIR_DB_VERSION :: rx where
  "REGEX_ARCHIVE_DIR_DB_VERSION =
    RSeq rx_digits (RSeq (RStar (RSeq (RChr CHR ''.'') rx_digits)) (RSeq (RChr CHR ''-'') (RSeq rx_digits REnd)))"

text \<open>\<^verbatim>\<open>"^[0-F]{16}$"\<close>, \<^verbatim>\<open>"^[0-F]{24}.*$"\<close> and \<^verbatim>\<open>"^[0-F]{8}.history$"\<close>\<close>

definition WAL_SEGMENT_DIR_REGEXP :: rx where
  "WAL_SEGMENT_DIR_REGEXP = RSeq (RTimes 16 (RRng CHR ''0'' CHR ''F'')) REnd"

definition walSubPathRegExp :: rx where
  "walSubPathRegExp = RSeq (RTimes 24 (RRng CHR ''0'' CHR ''F'')) (RSeq (RStar RAny) REnd)"

definition WAL_TIMELINE_HISTORY_REGEXP :: rx where
  "WAL_TIMELINE_HISTORY_REGEXP = RSeq (RTimes 8 (RRng CHR ''0'' CHR ''F'')) (RSeq RAny (rx_str ''history'' REnd))"

text \<open>The two histories must agree on every entry of archive.info.\<close>

fun archiveHistoryMatch :: "InfoPg \<Rightarrow> InfoPg \<Rightarrow> nat list \<Rightarrow> unit res" where
  "archiveHistoryMatch archivePg backupPg [] = Inr ()"
| "archiveHistoryMatch archivePg backupPg (infoPgIdx # idxs) =
    bindR (infoPgData archivePg infoPgIdx) (\<lambda>a. bindR (infoPgData backupPg infoPgIdx) (\<lambda>b.
      if pgid a \<noteq> pgid b \<or> systemId a \<noteq> systemId b \<or> version a \<noteq> version b then Inl FormatError
      else archiveHistoryMatch archivePg backupPg idxs))"

text \<open>From the global list, oldest first, the backups of this database; one entry per entry of the index with
  that label.\<close>

definition localBackupRetentionList :: "InfoBackup \<Rightarrow> string list \<Rightarrow> u32 \<Rightarrow> string list" where
  "localBackupRetentionList ib global archivePgId =
    concat (map (\<lambda>l. map backupLabel (filter (\<lambda>b. backupLabel b = l \<and> backupPgId b = archivePgId) (backup ib)))
      (rev global))"

definition localBackupArchiveRetentionList :: "string list \<Rightarrow> string list \<Rightarrow> string list" where
  "localBackupArchiveRetentionList globalArchive local =
    (let result = concat (map (\<lambda>g. filter (\<lambda>l. g = l) local) (rev globalArchive))
     in if result = [] then [last local] else result)"

section \<open>Which WAL is kept\<close>

record ArchiveRange =
  start :: string
  stop :: "string option"

text \<open>The ranges to preserve: start to stop of every backup of the database up to the retention backup, whose
  own range is open.\<close>

definition archiveRangeList :: "InfoBackupData \<Rightarrow> InfoBackupData list \<Rightarrow> ArchiveRange list" where
  "archiveRangeList archiveRetentionBackup archiveIdBackupList =
    map (\<lambda>b. \<lparr>start = the (backupArchiveStart b),
              stop = (if backupLabel b \<noteq> backupLabel archiveRetentionBackup then backupArchiveStop b else None)\<rparr>)
      (filter (\<lambda>b. backupLabel b \<le> backupLabel archiveRetentionBackup \<and> backupArchiveStart b \<noteq> None)
        archiveIdBackupList)"

definition walPathKept :: "ArchiveRange list \<Rightarrow> string \<Rightarrow> bool" where
  "walPathKept ranges walDir =
    list_ex (\<lambda>r. take 16 (start r) \<le> walDir \<and>
      (case stop r of None \<Rightarrow> True | Some s \<Rightarrow> walDir \<le> take 16 s)) ranges"

definition walSubPathKept :: "ArchiveRange list \<Rightarrow> string \<Rightarrow> bool" where
  "walSubPathKept ranges walSubPath =
    list_ex (\<lambda>r. start r \<le> take 24 walSubPath \<and>
      (case stop r of None \<Rightarrow> True | Some s \<Rightarrow> take 24 walSubPath \<le> s)) ranges"

text \<open>The files of one major path.\<close>

fun removeArchiveFiles :: "bool \<Rightarrow> ArchiveRange list \<Rightarrow> path \<Rightarrow> string list \<Rightarrow> repo \<Rightarrow> repo" where
  "removeArchiveFiles dryRun ranges p [] fs = fs"
| "removeArchiveFiles dryRun ranges p (walSubPath # rest) fs =
    removeArchiveFiles dryRun ranges p rest
      (if \<not> walSubPathKept ranges walSubPath \<and> \<not> dryRun then storageRemove fs (p @ [walSubPath]) else fs)"

text \<open>The major paths of one archive id.\<close>

fun removeArchivePaths ::
  "bool \<Rightarrow> ArchiveRange list \<Rightarrow> string \<Rightarrow> path \<Rightarrow> string list \<Rightarrow> repo \<Rightarrow> repo" where
  "removeArchivePaths dryRun ranges archiveExpireMax p [] fs = fs"
| "removeArchivePaths dryRun ranges archiveExpireMax p (walDir # rest) fs =
    removeArchivePaths dryRun ranges archiveExpireMax p rest
      (if \<not> walPathKept ranges walDir then
         if dryRun then fs else storagePathRemove fs (p @ [walDir])
       else if walDir \<le> take 16 archiveExpireMax then
         removeArchiveFiles dryRun ranges (p @ [walDir])
           (strLstSort (storageList fs (p @ [walDir]) walSubPathRegExp) sortOrderAsc) fs
       else fs)"

text \<open>The timeline history files older than the timeline of the retention backup.\<close>

fun removeHistoryFiles :: "bool \<Rightarrow> string \<Rightarrow> path \<Rightarrow> string list \<Rightarrow> repo \<Rightarrow> repo" where
  "removeHistoryFiles dryRun timeline p [] fs = fs"
| "removeHistoryFiles dryRun timeline p (historyFile # rest) fs =
    removeHistoryFiles dryRun timeline p rest
      (if take 8 historyFile < timeline \<and> \<not> dryRun then storageRemove fs (p @ [historyFile]) else fs)"

text \<open>WAL removal for an archive id, once the retention backup is known.\<close>

definition removeArchiveWal ::
  "bool \<Rightarrow> path \<Rightarrow> InfoBackupData \<Rightarrow> InfoBackupData list \<Rightarrow> repo \<Rightarrow> repo" where
  "removeArchiveWal dryRun p archiveRetentionBackup archiveIdBackupList fs =
    (case backupArchiveStart archiveRetentionBackup of
       None \<Rightarrow> fs
     | Some archiveStart \<Rightarrow>
         let ranges = archiveRangeList archiveRetentionBackup archiveIdBackupList;
             fs = removeArchivePaths dryRun ranges archiveStart p
                    (strLstSort (storageList fs p WAL_SEGMENT_DIR_REGEXP) sortOrderAsc) fs
         in removeHistoryFiles dryRun (take 8 archiveStart) p
              (strLstSort (storageList fs p WAL_TIMELINE_HISTORY_REGEXP) sortOrderAsc) fs)"

text \<open>\<^verbatim>\<open>strrchr(archiveId, '-') + 1\<close>\<close>

definition after_last :: "char \<Rightarrow> string \<Rightarrow> string" where
  "after_last c s = rev (takeWhile (\<lambda>d. d \<noteq> c) (rev s))"

text \<open>One archive id that has a directory on disk.\<close>

definition removeArchiveId ::
  "bool \<Rightarrow> InfoBackup \<Rightarrow> InfoPg \<Rightarrow> string list \<Rightarrow> string list \<Rightarrow> string \<Rightarrow> repo \<Rightarrow> repo \<times> unit res" where
  "removeArchiveId dryRun ib archivePg global globalArchive archiveId fs =
    (case cvtZToUInt (after_last CHR ''-'' archiveId) of
       Inl e \<Rightarrow> (fs, Inl e)
     | Inr archivePgId \<Rightarrow>
         let p = REPO_ARCHIVE @ [archiveId];
             local = localBackupRetentionList ib global archivePgId
         in if local = [] then
              (case infoPgDataCurrent archivePg of
                 Inl e \<Rightarrow> (fs, Inl e)
               | Inr currentPg \<Rightarrow>
                   (if pgid currentPg \<noteq> archivePgId \<and> \<not> dryRun then storagePathRemove fs p else fs, Inr ()))
            else
              let localArchive = localBackupArchiveRetentionList globalArchive local
              in (case find (\<lambda>b. backupLabel b = localArchive ! 0) (rev (backup ib)) of
                    None \<Rightarrow> (fs, Inr ())
                  | Some archiveRetentionBackup \<Rightarrow>
                      (removeArchiveWal dryRun p archiveRetentionBackup
                         (filter (\<lambda>b. backupPgId b = archivePgId) (backup ib)) fs, Inr ())))"

text \<open>The loop over the history of archive.info from oldest to newest.  The list of archive directories has no
  duplicates, so the inner loop over it runs the body at most once; its order is of no effect.\<close>

fun removeArchiveIds ::
  "bool \<Rightarrow> InfoBackup \<Rightarrow> InfoPg \<Rightarrow> string list \<Rightarrow> string list \<Rightarrow> string list \<Rightarrow> nat list \<Rightarrow> repo \<Rightarrow> repo \<times> unit res" where
  "removeArchiveIds dryRun ib archivePg listArchiveDisk global globalArchive [] fs = (fs, Inr ())"
| "removeArchiveIds dryRun ib archivePg listArchiveDisk global globalArchive (pgIdx # idxs) fs =
    (case infoPgArchiveId archivePg pgIdx of
       Inl e \<Rightarrow> (fs, Inl e)
     | Inr archiveId \<Rightarrow>
         if archiveId \<in> set listArchiveDisk then
           (case removeArchiveId dryRun ib archivePg global globalArchive archiveId fs of
              (fs, Inl e) \<Rightarrow> (fs, Inl e)
            | (fs, Inr u) \<Rightarrow> removeArchiveIds dryRun ib archivePg listArchiveDisk global globalArchive idxs fs)
         else removeArchiveIds dryRun ib archivePg listArchiveDisk global globalArchive idxs fs)"

definition removeExpiredArchive :: "bool \<Rightarrow> RepoCfg \<Rightarrow> InfoBackup \<Rightarrow> repo \<Rightarrow> repo \<times> unit res" where
  "removeExpiredArchive dryRun cfg ib fs =
    (let archiveRetention = opt_zero (retentionArchive cfg);
         global = globalBackupRetentionList ib (retentionArchiveType cfg)
     in if archiveRetention = 0 then (fs, Inr ())
        else if global \<noteq> [] \<and> archiveRetention \<le> length global then
          (case infoArchiveLoadFile fs INFO_ARCHIVE_PATH_FILE of
             Inl e \<Rightarrow> (fs, Inl e)
           | Inr archivePg \<Rightarrow>
               (case archiveHistoryMatch archivePg (infoBackupPg ib) [0..<infoPgDataTotal archivePg] of
                  Inl e \<Rightarrow> (fs, Inl e)
                | Inr _ \<Rightarrow>
                    removeArchiveIds dryRun ib archivePg
                      (storageList fs REPO_ARCHIVE REGEX_ARCHIVE_DIR_DB_VERSION)
                      global (take archiveRetention global) (rev [0..<infoPgDataTotal archivePg]) fs))
        else (fs, Inr ()))"

section \<open>What each loop leaves\<close>

lemma removeArchiveFiles_get:
  "storageContent (removeArchiveFiles d ranges p ls fs) q =
    (if \<not> d \<and> (\<exists>f\<in>set ls. q = p @ [f] \<and> \<not> walSubPathKept ranges f) then None else storageContent fs q)"
  by (induction d ranges p ls fs rule: removeArchiveFiles.induct) auto

lemma removeHistoryFiles_get:
  "storageContent (removeHistoryFiles d tml p ls fs) q =
    (if \<not> d \<and> (\<exists>h\<in>set ls. q = p @ [h] \<and> take 8 h < tml) then None else storageContent fs q)"
  by (induction d tml p ls fs rule: removeHistoryFiles.induct) auto

lemma removeArchivePaths_outside:
  "\<not> prefix p q \<Longrightarrow> storageContent (removeArchivePaths d ranges m p ls fs) q = storageContent fs q"
proof (induction d ranges m p ls fs rule: removeArchivePaths.induct)
  case (2 d ranges m p w ls fs)
  then have "\<not> prefix (p @ [w]) q" "\<forall>f. q \<noteq> p @ [w, f]"
    by (auto dest: append_prefixD)
  with 2 show ?case
    by (simp add: removeArchiveFiles_get)
qed simp

lemma removeArchivePaths_kept:
  "walPathKept ranges dir \<Longrightarrow> walSubPathKept ranges f \<Longrightarrow>
    storageContent (removeArchivePaths d ranges m p ls fs) (p @ [dir, f]) = storageContent fs (p @ [dir, f])"
proof (induction d ranges m p ls fs rule: removeArchivePaths.induct)
  case (2 d ranges m p w ls fs)
  have "\<not> walPathKept ranges w \<Longrightarrow> \<not> prefix (p @ [w]) (p @ [dir, f])"
    using 2(2) by auto
  with 2 show ?case
    by (auto simp: removeArchiveFiles_get)
qed simp

lemma removeArchiveWal_get:
  assumes "backupArchiveStart rb \<noteq> None \<Longrightarrow> walPathKept (archiveRangeList rb bs) dir \<and> walSubPathKept (archiveRangeList rb bs) f"
  shows "storageContent (removeArchiveWal d p rb bs fs) (p @ [dir, f]) = storageContent fs (p @ [dir, f])"
  using assms
  by (auto simp: removeArchiveWal_def removeHistoryFiles_get removeArchivePaths_kept Let_def split: option.splits)

lemma removeArchiveWal_outside:
  assumes "\<not> prefix p q"
  shows "storageContent (removeArchiveWal d p rb bs fs) q = storageContent fs q"
proof -
  have "q \<noteq> p @ [h]" for h
    using assms by auto
  then show ?thesis
    using assms
    by (auto simp: removeArchiveWal_def removeHistoryFiles_get removeArchivePaths_outside Let_def split: option.splits)
qed

lemma after_last_append: "c \<notin> set ys \<Longrightarrow> after_last c (xs @ c # ys) = ys"
  unfolding after_last_def by (subst rev_append, subst rev.simps, subst append.assoc, subst takeWhile_append2) auto

lemma archiveId_pgId:
  "cvtZToUInt (after_last CHR ''-'' (v @ ''-'' @ fmt_u (unat i))) = Inr i"
proof -
  have digits: "\<forall>c\<in>set (fmt_u (unat i)). is_digit_in 10 c"
    using is_digit_in_print[of 10 digit_lower _ "unat i"] by (auto simp: fmt_u_def)
  then have "CHR ''-'' \<notin> set (fmt_u (unat i))"
    using is_digit_in_not_sign[of 10 "CHR ''-''"] by auto
  then have "after_last CHR ''-'' (v @ ''-'' @ fmt_u (unat i)) = fmt_u (unat i)"
    using after_last_append[of "CHR ''-''" _ v] by simp
  moreover have "digits_val 10 (fmt_u (unat i)) = unat i"
    by (simp add: fmt_u_def digits_val_print)
  moreover have "fmt_u (unat i) \<noteq> []"
    by (simp add: fmt_u_def)
  ultimately show ?thesis
    using cvtZToUIntBase_digits[OF _ digits] unat_u32_less[of i] by (simp add: cvtZToUInt_def)
qed

lemma removeArchiveId_outside:
  assumes "q = REPO_ARCHIVE @ A # r" and "A \<noteq> archiveId"
  shows "storageContent (fst (removeArchiveId d ib pg g ga archiveId fs)) q = storageContent fs q"
proof -
  have "\<not> prefix (REPO_ARCHIVE @ [archiveId]) q"
    using assms by auto
  then show ?thesis
    by (auto simp: removeArchiveId_def removeArchiveWal_outside Let_def split: sum.splits option.splits)
qed

lemma removeArchiveIds_get:
  assumes "q = REPO_ARCHIVE @ A # r"
    and "\<And>fs. storageContent (fst (removeArchiveId d ib pg g ga A fs)) q = storageContent fs q"
  shows "storageContent (fst (removeArchiveIds d ib pg disk g ga idxs fs)) q = storageContent fs q"
proof (induction idxs arbitrary: fs)
  case (Cons k idxs)
  have "storageContent (fst (removeArchiveId d ib pg g ga B fs)) q = storageContent fs q" for B
    using assms removeArchiveId_outside[OF assms(1)] by (cases "B = A") auto
  then show ?case
    using Cons by (auto split: sum.splits prod.splits) (metis fst_conv)+
qed simp

section \<open>WAL that backups need\<close>

text \<open>
  What backups of one database have in common: a dependent backup is of the same database as its full
  backup, and a later backup does not start at an earlier WAL segment.
\<close>

definition wal_consistent :: "InfoBackup \<Rightarrow> bool" where
  "wal_consistent ib \<longleftrightarrow>
    list_all (\<lambda>b. list_all (\<lambda>c.
      (backupLabel c = take 16 (backupLabel b) \<longrightarrow> backupPgId c = backupPgId b) \<and>
      (backupPgId c = backupPgId b \<and> backupLabel c \<le> backupLabel b \<longrightarrow>
        (case (backupArchiveStart c, backupArchiveStart b) of (Some s, Some s') \<Rightarrow> s \<le> s' | _ \<Rightarrow> True)))
      (backup ib)) (backup ib)"

text \<open>A segment that a retained backup needs to become consistent, or that one of the backups in archive
  retention needs to be played forward.\<close>

definition wal_needed :: "InfoBackup \<Rightarrow> string list \<Rightarrow> u32 \<Rightarrow> string \<Rightarrow> bool" where
  "wal_needed ib globalArchive i seg \<longleftrightarrow>
    (\<exists>b\<in>set (backup ib). backupPgId b = i \<and>
      (\<exists>s. backupArchiveStart b = Some s \<and> s \<le> seg \<and>
        (backupLabel b \<in> set globalArchive \<or> (\<exists>e. backupArchiveStop b = Some e \<and> seg \<le> e))))"

lemma wal_consistent_full:
  "wal_consistent ib \<Longrightarrow> b \<in> set (backup ib) \<Longrightarrow> c \<in> set (backup ib) \<Longrightarrow>
    backupLabel c = take 16 (backupLabel b) \<Longrightarrow> backupPgId c = backupPgId b"
  unfolding wal_consistent_def list_all_iff by blast

lemma wal_consistent_start:
  assumes "wal_consistent ib" and "b \<in> set (backup ib)" and "c \<in> set (backup ib)" and "backupPgId c = backupPgId b"
    and "backupLabel c \<le> backupLabel b" and "backupArchiveStart c = Some s" and "backupArchiveStart b = Some s'"
  shows "s \<le> s'"
proof -
  have "case (backupArchiveStart c, backupArchiveStart b) of (Some s, Some s') \<Rightarrow> s \<le> s' | _ \<Rightarrow> True"
    using assms(1-5) unfolding wal_consistent_def list_all_iff by blast
  with assms(6,7) show ?thesis by simp
qed

lemma take_mono_le: "xs \<le> ys \<Longrightarrow> take n xs \<le> take n (ys :: 'a::linorder list)"
proof (induction n arbitrary: xs ys)
  case (Suc n)
  then show ?case by (cases xs; cases ys) auto
qed simp

lemma range_keeps:
  assumes "r \<in> set ranges" and "start r \<le> take 24 f" and "\<And>s. stop r = Some s \<Longrightarrow> take 24 f \<le> s"
  shows "walPathKept ranges (take 16 f) \<and> walSubPathKept ranges f"
proof -
  have "take 16 (start r) \<le> take 16 f"
    using take_mono_le[OF assms(2), of 16] by simp
  moreover have "take 16 f \<le> take 16 s" if "stop r = Some s" for s
    using take_mono_le[OF assms(3)[OF that], of 16] by simp
  ultimately show ?thesis
    using assms unfolding walPathKept_def walSubPathKept_def list_ex_iff by (auto split: option.splits)
qed

lemma archiveRange_in:
  assumes "b \<in> set bs" and "backupArchiveStart b = Some s" and "backupLabel b \<le> backupLabel rb"
  shows "\<lparr>start = s, stop = (if backupLabel b \<noteq> backupLabel rb then backupArchiveStop b else None)\<rparr>
    \<in> set (archiveRangeList rb bs)"
  using assms by (force simp: archiveRangeList_def image_iff)

lemma in_localBackupRetentionList:
  "x \<in> set (localBackupRetentionList ib g i) \<longleftrightarrow>
    x \<in> set g \<and> (\<exists>b\<in>set (backup ib). backupLabel b = x \<and> backupPgId b = i)"
  by (auto simp: localBackupRetentionList_def)

lemma global_desc:
  assumes "index_ok ib"
  shows "sorted_wrt (>) (globalBackupRetentionList ib ty)"
proof -
  have "sorted_wrt (<) (infoBackupDataLabelList ib e)" for e
    using assms by (simp add: infoBackupDataLabelList_def index_ok_def sorted_wrt_filter)
  then show ?thesis
    by (simp add: globalBackupRetentionList_def strLstSort_desc_sorted sorted_wrt_rev)
qed

lemma full_in_global: "label_of backupTypeFull l \<Longrightarrow> l \<in> set (labels ib) \<Longrightarrow> l \<in> set (globalBackupRetentionList ib ty)"
  by (cases ty) (auto simp: globalBackupRetentionList_def infoBackupDataLabelList_def backupRegExp_match)

text \<open>The retention backup is the oldest of the backups of the database that are in archive retention.\<close>

lemma localArchive_hd_le:
  assumes "sorted_wrt (>) ga" and "c \<in> set ga" and "c \<in> set local"
  shows "localBackupArchiveRetentionList ga local ! 0 \<le> c"
proof -
  let ?r = "concat (map (\<lambda>g. filter (\<lambda>l. g = l) local) (rev ga))"
  have asc: "sorted_wrt (<) (rev ga)"
    using assms(1) by (simp add: sorted_wrt_rev)
  have c: "c \<in> set ?r"
    using assms(2,3) by auto
  have sorted: "sorted_wrt (<) xs \<Longrightarrow> sorted_wrt (\<le>) (concat (map (\<lambda>g. filter (\<lambda>l. g = l) local) xs))" for xs
  proof (induction xs)
    case (Cons x xs)
    moreover have "sorted_wrt (\<le>) (filter (\<lambda>l. x = l) local)"
      by (induction local) auto
    ultimately show ?case
      by (auto simp: sorted_wrt_append intro: less_imp_le)
  qed simp
  have "?r ! 0 \<le> c"
    using sorted[OF asc] c by (cases ?r) auto
  moreover have "?r \<noteq> []"
    using c by (cases ?r) simp_all
  ultimately show ?thesis
    by (simp only: localBackupArchiveRetentionList_def Let_def if_False)
qed

lemma localArchive_in_local:
  "local \<noteq> [] \<Longrightarrow> localBackupArchiveRetentionList ga local ! 0 \<in> set local"
proof -
  assume ne: "local \<noteq> []"
  let ?r = "localBackupArchiveRetentionList ga local"
  have "?r \<noteq> []" "set ?r \<subseteq> set local"
    using ne by (auto simp: localBackupArchiveRetentionList_def Let_def)
  then show ?thesis
    by (metis length_greater_0_conv nth_mem subsetD)
qed

lemma needed_in_local:
  assumes "index_ok ib" and "prior_closed ib" and "wal_consistent ib" and "b \<in> set (backup ib)" and "backupPgId b = i"
  shows "localBackupRetentionList ib (globalBackupRetentionList ib ty) i \<noteq> []"
proof -
  have lab: "is_label (backupLabel b)"
    using assms(1,4) by (simp add: index_ok_def list_all_iff entry_ok_def regExpMatch_all)
  obtain c where c: "c \<in> set (backup ib)" "backupLabel c = take 16 (backupLabel b)"
    using entry_full_depends[OF assms(1,2,4)] by auto
  then have "backupPgId c = i"
    using wal_consistent_full[OF assms(3,4) c] assms(5) by simp
  then have "take 16 (backupLabel b) \<in> set (localBackupRetentionList ib (globalBackupRetentionList ib ty) i)"
    unfolding in_localBackupRetentionList using c full_in_global[OF is_label_full[OF lab], of ib ty] by force
  then show ?thesis by auto
qed

lemma find_rev_distinct:
  "distinct (map f xs) \<Longrightarrow> find (\<lambda>b. f b = l) (rev xs) = Some b \<longleftrightarrow> b \<in> set xs \<and> f b = l"
  using find_distinct[of f "rev xs" l b] by (simp add: rev_map [symmetric])

text \<open>A needed file is in a range of its archive id.\<close>

lemma needed_kept:
  assumes "index_ok ib" and "wal_consistent ib" and "wal_needed ib ga i (take 24 f)" and "sorted_wrt (>) ga"
    and "set ga \<subseteq> set g"
    and "rb \<in> set (backup ib)" and "backupPgId rb = i" and "backupArchiveStart rb = Some m"
    and "backupLabel rb = localBackupArchiveRetentionList ga (localBackupRetentionList ib g i) ! 0"
    and "bs = filter (\<lambda>b. backupPgId b = i) (backup ib)"
  shows "walPathKept (archiveRangeList rb bs) (take 16 f) \<and> walSubPathKept (archiveRangeList rb bs) f"
proof -
  obtain b s where b: "b \<in> set (backup ib)" "backupPgId b = i" "backupArchiveStart b = Some s" "s \<le> take 24 f"
    and stop: "backupLabel b \<in> set ga \<or> (\<exists>e. backupArchiveStop b = Some e \<and> take 24 f \<le> e)"
    using assms(3) by (auto simp: wal_needed_def)
  have in_bs: "b \<in> set bs" "rb \<in> set bs"
    using b assms(6,7,10) by auto
  have later: "backupLabel b \<in> set ga \<Longrightarrow> backupLabel rb \<le> backupLabel b"
    unfolding assms(9) by (rule localArchive_hd_le[OF assms(4)])
      (use assms(5) b in \<open>auto simp: in_localBackupRetentionList\<close>)
  show ?thesis
  proof (cases "backupLabel rb \<le> backupLabel b")
    case True
    have "m \<le> s"
      using wal_consistent_start[OF assms(2) b(1) assms(6) _ True assms(8) b(3)] assms(7) b(2) by simp
    then show ?thesis
      using archiveRange_in[OF in_bs(2) assms(8) order_refl] b(4)
      by (intro range_keeps[where r = "\<lparr>start = m, stop = None\<rparr>"]) auto
  next
    case False
    then obtain e where e: "backupArchiveStop b = Some e" "take 24 f \<le> e"
      using stop later by auto
    have "\<lparr>start = s, stop = Some e\<rparr> \<in> set (archiveRangeList rb bs)"
    proof -
      have "backupLabel b \<le> backupLabel rb" "backupLabel b \<noteq> backupLabel rb"
        using False by auto
      with archiveRange_in[OF in_bs(1) b(3), of rb] e(1) show ?thesis by simp
    qed
    then show ?thesis
      using b(4) e(2) by (intro range_keeps[where r = "\<lparr>start = s, stop = Some e\<rparr>"]) auto
  qed
qed

lemma removeArchiveId_keeps:
  assumes "index_ok ib" and "prior_closed ib" and "wal_consistent ib"
    and "g = globalBackupRetentionList ib ty" and "ga = take n g"
    and "A = v @ ''-'' @ fmt_u (unat i)" and "wal_needed ib ga i (take 24 f)"
  shows "storageContent (fst (removeArchiveId d ib pg g ga A fs)) (REPO_ARCHIVE @ [A, take 16 f, f])
    = storageContent fs (REPO_ARCHIVE @ [A, take 16 f, f])"
proof -
  let ?local = "localBackupRetentionList ib g i"
  obtain b where "b \<in> set (backup ib)" "backupPgId b = i"
    using assms(7) by (auto simp: wal_needed_def)
  then have ne: "?local \<noteq> []"
    using needed_in_local[OF assms(1-3)] assms(4) by simp
  obtain rb where rb: "rb \<in> set (backup ib)" "backupPgId rb = i"
      "backupLabel rb = localBackupArchiveRetentionList ga ?local ! 0"
    using localArchive_in_local[OF ne, of ga] unfolding in_localBackupRetentionList by auto
  then have find: "find (\<lambda>b. backupLabel b = localBackupArchiveRetentionList ga ?local ! 0) (rev (backup ib)) = Some rb"
    using find_rev_distinct[OF distinct_labels[OF assms(1)]] by simp
  have ga: "sorted_wrt (>) ga" "set ga \<subseteq> set g"
    using global_desc[OF assms(1), of ty] by (auto simp: assms(4,5) sorted_wrt_take dest: in_set_takeD)
  have "storageContent (removeArchiveWal d (REPO_ARCHIVE @ [A]) rb (filter (\<lambda>b. backupPgId b = i) (backup ib)) fs)
      ((REPO_ARCHIVE @ [A]) @ [take 16 f, f]) = storageContent fs ((REPO_ARCHIVE @ [A]) @ [take 16 f, f])"
    by (rule removeArchiveWal_get) (use needed_kept[OF assms(1,3,7) ga rb(1,2) _ rb(3) refl] in blast)
  moreover have "cvtZToUInt (after_last CHR ''-'' A) = Inr i"
    unfolding assms(6) by (rule archiveId_pgId)
  ultimately show ?thesis
    using ne find by (simp add: removeArchiveId_def Let_def)
qed

lemma removeArchivePaths_subset:
  "storageExists (removeArchivePaths d ranges m p ls fs) q \<Longrightarrow> storageExists fs q"
proof (induction d ranges m p ls fs rule: removeArchivePaths.induct)
  case (2 d ranges m p w ls fs)
  then show ?case
    by (auto simp: storageExists_get removeArchiveFiles_get split: if_splits)
qed simp

lemma removeArchivePaths_exists:
  "dir \<in> set ls \<Longrightarrow> regExpMatch walSubPathRegExp f \<Longrightarrow>
    storageExists (removeArchivePaths False ranges m p ls fs) (p @ [dir, f]) \<Longrightarrow>
    walPathKept ranges dir \<and> (walSubPathKept ranges f \<or> take 16 m < dir)"
proof (induction False ranges m p ls fs rule: removeArchivePaths.induct)
  case (2 ranges m p w ls fs)
  show ?case
  proof (cases "dir = w")
    case False
    with 2(2-) show ?thesis using 2(1) by simp
  next
    case True
    let ?fs1 = "if \<not> walPathKept ranges w then storagePathRemove fs (p @ [w])
      else if w \<le> take 16 m then removeArchiveFiles False ranges (p @ [w])
        (strLstSort (storageList fs (p @ [w]) walSubPathRegExp) sortOrderAsc) fs else fs"
    have ex: "storageExists ?fs1 (p @ [dir, f])"
      using 2(4) by (intro removeArchivePaths_subset[of False ranges m p ls ?fs1]) (simp only: removeArchivePaths.simps if_False)
    then have kept: "walPathKept ranges w"
      using True by (auto split: if_splits)
    show ?thesis
    proof (cases "w \<le> take 16 m")
      case le: True
      have "storageExists fs (p @ [w, f])"
        using ex True kept le by (auto simp: storageExists_get removeArchiveFiles_get split: if_splits)
      then have "f \<in> set (strLstSort (storageList fs (p @ [w]) walSubPathRegExp) sortOrderAsc)"
        using 2(3) by (auto simp: in_storageList)
      with ex True kept le show ?thesis
        by (auto simp: storageExists_get removeArchiveFiles_get split: if_splits)
    qed (use kept True in auto)
  qed
qed simp

section \<open>Properties\<close>

text \<open>
  C3: Archive expiration never removes WAL that is still needed: whatever the retention options, a WAL file in
  the archive directory of database \<open>i\<close> whose segment lies between the archive start and stop of a backup of
  that database in the index, or at or after the archive start of a backup that counts for archive retention,
  is still there, unchanged, after \<open>removeExpiredArchive\<close>, also when it ends with an error.
\<close>

theorem removeExpiredArchive_keeps_needed:
  assumes "index_ok ib" and "prior_closed ib" and "wal_consistent ib"
    and "ga = take (opt_zero (retentionArchive cfg)) (globalBackupRetentionList ib (retentionArchiveType cfg))"
    and "A = v @ ''-'' @ fmt_u (unat i)" and "wal_needed ib ga i (take 24 f)"
  shows "storageContent (fst (removeExpiredArchive dryRun cfg ib fs)) (REPO_ARCHIVE @ [A, take 16 f, f])
    = storageContent fs (REPO_ARCHIVE @ [A, take 16 f, f])"
proof -
  have "storageContent (fst (removeArchiveIds dryRun ib pg disk (globalBackupRetentionList ib (retentionArchiveType cfg)) ga idxs fs))
      (REPO_ARCHIVE @ [A, take 16 f, f]) = storageContent fs (REPO_ARCHIVE @ [A, take 16 f, f])" for pg disk idxs
    by (rule removeArchiveIds_get[where A = A and r = "[take 16 f, f]"])
       (simp_all add: removeArchiveId_keeps[OF assms(1-3) refl assms(4-6)])
  then show ?thesis
    unfolding assms(4) by (auto simp: removeExpiredArchive_def Let_def split: sum.splits)
qed

definition sample_archive_repo :: repo where
  "sample_archive_repo =
    [(INFO_ARCHIVE_PATH_FILE, FArchiveInfo (infoBackupPg sample_index)),
     ([''archive'', ''15-1'', ''0000000100000000'', ''000000010000000000000003-aa''], FData []),
     ([''archive'', ''15-1'', ''0000000100000000'', ''000000010000000000000004-bb''], FData []),
     ([''archive'', ''15-1'', ''0000000100000000'', ''000000010000000000000009-cc''], FData [])]"

definition sample_archive_cfg :: RepoCfg where
  "sample_archive_cfg = sample_cfg\<lparr>retentionArchive := Some 1\<rparr>"

theorem removeExpiredArchive_keeps_needed_witness:
  "storageExists (fst (removeExpiredArchive False sample_archive_cfg sample_index sample_archive_repo))
     [''archive'', ''15-1'', ''0000000100000000'', ''000000010000000000000004-bb'']"
proof -
  define b where "b = backup sample_index ! 1"
  have b: "b \<in> set (backup sample_index)" "backupPgId b = 1"
      "backupArchiveStart b = Some ''000000010000000000000004''" "backupArchiveStop b = Some ''000000010000000000000005''"
    unfolding b_def by (simp_all add: sample_index_def sample_entry_def)
  have "''000000010000000000000004'' \<le> ''000000010000000000000004''" "''000000010000000000000004'' \<le> ''000000010000000000000005''"
    by code_simp+
  then have need: "wal_needed sample_index ga 1 (take 24 ''000000010000000000000004-bb'')" for ga
    unfolding wal_needed_def using b by (intro bexI[of _ b]) auto
  have wc: "wal_consistent sample_index"
    by code_simp
  have id: "''15-1'' = ''15'' @ ''-'' @ fmt_u (unat (1::u32))"
    by code_simp
  have get: "storageContent sample_archive_repo [''archive'', ''15-1'', ''0000000100000000'', ''000000010000000000000004-bb''] = Some (FData [])"
    by code_simp
  show "storageExists (fst (removeExpiredArchive False sample_archive_cfg sample_index sample_archive_repo))
     [''archive'', ''15-1'', ''0000000100000000'', ''000000010000000000000004-bb'']"
    using removeExpiredArchive_keeps_needed[OF sample_index_ok wc refl id need, of False sample_archive_cfg sample_archive_repo]
    by (simp add: REPO_ARCHIVE_def storageExists_get get)
qed

text \<open>
  C9: What is not needed is removed: after the WAL of an archive id is expired on the basis of retention backup
  \<open>rb\<close>, every WAL file that is left in its major path lies in one of the ranges to preserve (which end with the
  open range of \<open>rb\<close>), and no timeline history file is left that is older than the timeline of \<open>rb\<close>.
\<close>

theorem removeArchiveWal_removes_expired:
  assumes "rb \<in> set bs" and "backupArchiveStart rb = Some m"
    and "fs' = removeArchiveWal False p rb bs fs"
    and "storageExists fs' q"
  shows "(\<forall>dir f. q = p @ [dir, f] \<and> dir = take 16 f \<and> regExpMatch WAL_SEGMENT_DIR_REGEXP dir \<and>
        regExpMatch walSubPathRegExp f \<longrightarrow> walSubPathKept (archiveRangeList rb bs) f) \<and>
    (\<forall>h. q = p @ [h] \<and> regExpMatch WAL_TIMELINE_HISTORY_REGEXP h \<longrightarrow> take 8 m \<le> take 8 h)"
proof (intro conjI allI impI; elim conjE)
  let ?ranges = "archiveRangeList rb bs"
  let ?ls = "strLstSort (storageList fs p WAL_SEGMENT_DIR_REGEXP) sortOrderAsc"
  let ?fs1 = "removeArchivePaths False ?ranges m p ?ls fs"
  have fs': "fs' = removeHistoryFiles False (take 8 m) p
      (strLstSort (storageList ?fs1 p WAL_TIMELINE_HISTORY_REGEXP) sortOrderAsc) ?fs1"
    using assms(2,3) by (simp add: removeArchiveWal_def Let_def)
  have ex1: "storageExists ?fs1 q"
    using assms(4) by (auto simp: fs' storageExists_get removeHistoryFiles_get split: if_splits)
  {
    fix dir f
    assume q: "q = p @ [dir, f]" and dir: "dir = take 16 f" "regExpMatch WAL_SEGMENT_DIR_REGEXP dir"
      and f: "regExpMatch walSubPathRegExp f"
    have "storageExists fs (p @ dir # [f])"
      using removeArchivePaths_subset ex1 q by auto
    then have "dir \<in> set ?ls"
      using dir(2) by (auto simp: in_storageList)
    then have "walSubPathKept ?ranges f \<or> take 16 m < dir"
      using removeArchivePaths_exists[OF _ f] ex1 q by blast
    moreover have "m \<le> take 24 f" if "take 16 m < dir"
      using that take_mono_le[of "take 24 f" m 16] dir(1) linear[of m "take 24 f"] by auto
    ultimately show "walSubPathKept ?ranges f"
      using range_keeps[OF archiveRange_in[OF assms(1,2) order_refl], of f] by auto
  next
    fix h
    assume q: "q = p @ [h]" and h: "regExpMatch WAL_TIMELINE_HISTORY_REGEXP h"
    have "h \<in> set (strLstSort (storageList ?fs1 p WAL_TIMELINE_HISTORY_REGEXP) sortOrderAsc)"
      using ex1 q h by (auto simp: in_storageList)
    with assms(4) q show "take 8 m \<le> take 8 h"
      by (auto simp: fs' storageExists_get removeHistoryFiles_get not_less split: if_splits)
  }
qed

theorem removeArchiveWal_removes_expired_witness:
  "walSubPathKept (archiveRangeList (backup sample_index ! 2) (backup sample_index)) ''000000010000000000000009-cc''"
proof -
  let ?rb = "backup sample_index ! 2"
  let ?fs = "removeArchiveWal False [''archive'', ''15-1''] ?rb (backup sample_index) sample_archive_repo"
  have rb: "?rb \<in> set (backup sample_index)" "backupArchiveStart ?rb = Some ''000000010000000000000007''"
    by (simp_all add: sample_index_def sample_entry_def)
  have ex: "storageExists ?fs [''archive'', ''15-1'', ''0000000100000000'', ''000000010000000000000009-cc'']"
    by code_simp
  have "regExpMatch WAL_SEGMENT_DIR_REGEXP ''0000000100000000''" "regExpMatch walSubPathRegExp ''000000010000000000000009-cc''"
    by code_simp+
  then show ?thesis
    using removeArchiveWal_removes_expired[OF rb refl ex] by simp
qed

end
