(* ===== verification/ExpireCmd.thy ===== *)
theory ExpireCmd
  imports ExpireArchive
begin

text \<open>
  The rest of \<^verbatim>\<open>src/src/command/expire/expire.c\<close>: removal of backup directories and of backup history
  manifests, and the command itself, over all repositories.
\<close>

section \<open>Backup directories\<close>

text \<open>Index of the first backup on disk (newest first) to look at: the newest one is skipped when it is resumable
  and may not depend on the backup that was expired on request.  \<^verbatim>\<open>strCmp\<close> with a missing prior label finds no
  entry.\<close>

definition removeExpiredBackup_start :: "InfoBackup \<Rightarrow> string option \<Rightarrow> string list \<Rightarrow> repo \<Rightarrow> nat res" where
  "removeExpiredBackup_start ib adhocBackupLabel backupList fs =
    (case (adhocBackupLabel, backupList) of
       (Some adhoc, l # _) \<Rightarrow>
         if \<not> storageExists fs (manifestFileName l) \<and> storageExists fs (copyFileName (manifestFileName l)) then
           if \<not> prefix (take 16 adhoc) l then Inr 1
           else
             bindR (manifestLoadFile fs (manifestFileName l))
               (\<lambda>manifestResume.
                  case manBackupLabelPrior (manData manifestResume) of
                    None \<Rightarrow> Inr 0
                  | Some prior \<Rightarrow> Inr (if infoBackupLabelExists ib prior then 1 else 0))
         else Inr 0
     | _ \<Rightarrow> Inr 0)"

fun removeExpiredBackup_loop :: "bool \<Rightarrow> string list \<Rightarrow> string list \<Rightarrow> repo \<Rightarrow> repo" where
  "removeExpiredBackup_loop dryRun currentBackupList [] fs = fs"
| "removeExpiredBackup_loop dryRun currentBackupList (l # ls) fs =
    removeExpiredBackup_loop dryRun currentBackupList ls
      (if l \<notin> set currentBackupList \<and> \<not> dryRun then storagePathRemove fs (REPO_BACKUP @ [l]) else fs)"

definition removeExpiredBackup :: "bool \<Rightarrow> InfoBackup \<Rightarrow> string option \<Rightarrow> repo \<Rightarrow> repo \<times> unit res" where
  "removeExpiredBackup dryRun ib adhocBackupLabel fs =
    (let currentBackupList = strLstSort (infoBackupDataLabelList ib None) sortOrderDesc;
         backupList = strLstSort (storageList fs REPO_BACKUP backupRegExpAll) sortOrderDesc
     in (case removeExpiredBackup_start ib adhocBackupLabel backupList fs of
           Inl e \<Rightarrow> (fs, Inl e)
         | Inr backupIdx \<Rightarrow>
             (removeExpiredBackup_loop dryRun currentBackupList (drop backupIdx backupList) fs, Inr ())))"

section \<open>Backup history\<close>

definition REPO_HISTORY :: path where
  "REPO_HISTORY = REPO_BACKUP @ [''backup.history'']"

definition historyYearRegExp :: rx where
  "historyYearRegExp = RSeq (RChr CHR ''2'') (RSeq (RTimes 3 (RRng CHR ''0'' CHR ''9'')) REnd)"

definition historyFileRegExp :: rx where
  "historyFileRegExp =
    RSeq (backupRegExp \<lparr>full = True, differential = True, incremental = True, noAnchorEnd = True\<rparr>)
      (rx_str ''.manifest.gz'' REnd)"

definition SEC_PER_DAY :: int where
  "SEC_PER_DAY = 86400"

fun removeExpiredHistory_files ::
  "bool \<Rightarrow> string list \<Rightarrow> string \<Rightarrow> path \<Rightarrow> string list \<Rightarrow> repo \<Rightarrow> repo" where
  "removeExpiredHistory_files dryRun current minBackupLabel p [] fs = fs"
| "removeExpiredHistory_files dryRun current minBackupLabel p (f # rest) fs =
    (let historyBackupLabel = hd (split_char CHR ''.'' f)
     in removeExpiredHistory_files dryRun current minBackupLabel p rest
          (if historyBackupLabel \<notin> set current \<and> historyBackupLabel < minBackupLabel \<and> \<not> dryRun
           then storageRemove fs (p @ [f]) else fs))"

text \<open>
  The repositories are a list.  The years and the files are listed on the default repository \<open>dflt\<close>
  (\<^verbatim>\<open>storageRepo()\<close>) but removed on repository \<open>idx\<close> (\<^verbatim>\<open>storageRepoIdxWrite(repoIdx)\<close>).
\<close>

fun removeExpiredHistory_years ::
  "bool \<Rightarrow> string list \<Rightarrow> string \<Rightarrow> nat \<Rightarrow> nat \<Rightarrow> string list \<Rightarrow> repo list \<Rightarrow> repo list" where
  "removeExpiredHistory_years dryRun current minBackupLabel dflt idx [] repos = repos"
| "removeExpiredHistory_years dryRun current minBackupLabel dflt idx (historyYear # years) repos =
    (if historyYear < take 4 minBackupLabel then
       removeExpiredHistory_years dryRun current minBackupLabel dflt idx years
         (if dryRun then repos else repos[idx := storagePathRemove (repos ! idx) (REPO_HISTORY @ [historyYear])])
     else if historyYear = take 4 minBackupLabel then
       removeExpiredHistory_years dryRun current minBackupLabel dflt idx years
         (repos[idx := removeExpiredHistory_files dryRun current minBackupLabel (REPO_HISTORY @ [historyYear])
                  (strLstSort (storageList (repos ! dflt) (REPO_HISTORY @ [historyYear]) historyFileRegExp) sortOrderDesc)
                  (repos ! idx)])
     else repos)"

definition removeExpiredHistory ::
  "(int \<Rightarrow> string) \<Rightarrow> int \<Rightarrow> bool \<Rightarrow> RepoCfg \<Rightarrow> InfoBackup \<Rightarrow> nat \<Rightarrow> nat \<Rightarrow> repo list \<Rightarrow> repo list" where
  "removeExpiredHistory timeFmt now dryRun cfg ib dflt idx repos =
    (case retentionHistory cfg of
       None \<Rightarrow> repos
     | Some days \<Rightarrow>
         let current = strLstSort (infoBackupDataLabelList ib None) sortOrderDesc;
             minTimestamp = now - int days * SEC_PER_DAY;
             minBackupLabel = backupLabelFormat timeFmt backupTypeFull None minTimestamp
         in removeExpiredHistory_years dryRun current minBackupLabel dflt idx
              (strLstSort (storageList (repos ! dflt) REPO_HISTORY historyYearRegExp) sortOrderAsc) repos)"

section \<open>The command\<close>

record ExpireOpt =
  optRepo :: bool              \<comment> \<open>was \<^verbatim>\<open>--repo\<close> given?\<close>
  optRepoDefault :: nat        \<comment> \<open>\<^verbatim>\<open>cfgOptionGroupIdxDefault(cfgOptGrpRepo)\<close>\<close>
  optSet :: "string option"
  optOldest :: bool
  optDryRun :: bool

text \<open>\<^verbatim>\<open>--oldest\<close> lowers the retention of this run: the new options and whether full retention is by time.\<close>

definition expireOldest_cfg :: "bool \<Rightarrow> InfoBackup \<Rightarrow> RepoCfg \<Rightarrow> RepoCfg" where
  "expireOldest_cfg expireOldest ib cfg =
    (let fullLstSize = length (infoBackupDataLabelList ib (Some backupRegExpFull))
     in if expireOldest \<and> fullLstSize > 1 then
          cfg\<lparr>retentionFullTime := False, retentionFull := Some (fullLstSize - 1),
              retentionArchiveType := backupTypeFull, retentionArchive := Some (fullLstSize - 1)\<rparr>
        else cfg)"

text \<open>Which backups go: on request, by time, or by count and then the differential ones.\<close>

definition expireBackups ::
  "int \<Rightarrow> bool \<Rightarrow> string option \<Rightarrow> RepoCfg \<Rightarrow> InfoBackup \<Rightarrow> repo \<Rightarrow> repo \<times> (RepoCfg \<times> InfoBackup) res" where
  "expireBackups now dryRun adhocBackupLabel cfg ib fs =
    (case adhocBackupLabel of
       Some l \<Rightarrow>
         if infoBackupLabelExists ib l then
           (case expireAdhocBackup dryRun cfg ib l fs of
              (fs, Inl e) \<Rightarrow> (fs, Inl e)
            | (fs, Inr (ib, n)) \<Rightarrow> (fs, Inr (cfg, ib)))
         else (fs, Inr (cfg, ib))
     | None \<Rightarrow>
         (case (if retentionFullTime cfg then
                  (case retentionFull cfg of
                     None \<Rightarrow> (fs, Inr (cfg, ib, 0))
                   | Some days \<Rightarrow> expireTimeBasedBackup dryRun cfg ib (now - int days * SEC_PER_DAY) fs)
                else (case expireFullBackup dryRun cfg ib fs of (ib, fs, n) \<Rightarrow> (fs, Inr (cfg, ib, n)))) of
            (fs, Inl e) \<Rightarrow> (fs, Inl e)
          | (fs, Inr (cfg, ib, n)) \<Rightarrow>
              (case expireDiffBackup dryRun cfg ib fs of (ib, fs, n) \<Rightarrow> (fs, Inr (cfg, ib)))))"

text \<open>The body of the loop over repositories, up to the error it ends with.\<close>

definition expireRepo ::
  "(int \<Rightarrow> string) \<Rightarrow> int \<Rightarrow> ExpireOpt \<Rightarrow> nat \<Rightarrow> RepoCfg \<Rightarrow> repo list \<Rightarrow> repo list \<times> unit res" where
  "expireRepo timeFmt now opt idx cfg repos =
    (let dryRun = optDryRun opt; fs = repos ! idx
     in (case infoBackupLoadFileReconstruct fs INFO_BACKUP_PATH_FILE of
           Inl e \<Rightarrow> (repos, Inl e)
         | Inr ib \<Rightarrow>
             (case expireBackups now dryRun (optSet opt) (expireOldest_cfg (optOldest opt) ib cfg) ib fs of
                (fs, Inl e) \<Rightarrow> (repos[idx := fs], Inl e)
              | (fs, Inr (cfg, ib)) \<Rightarrow>
                  (case (if dryRun then (ib, fs) else infoBackupSaveFile ib fs INFO_BACKUP_PATH_FILE) of
                     (ib, fs) \<Rightarrow>
                       (case removeExpiredBackup dryRun ib (optSet opt) fs of
                          (fs, Inl e) \<Rightarrow> (repos[idx := fs], Inl e)
                        | (fs, Inr _) \<Rightarrow>
                            (case removeExpiredArchive dryRun cfg ib fs of
                               (fs, Inl e) \<Rightarrow> (repos[idx := fs], Inl e)
                             | (fs, Inr _) \<Rightarrow>
                                 (removeExpiredHistory timeFmt now dryRun cfg ib (optRepoDefault opt) idx (repos[idx := fs]),
                                  Inr ())))))))"

fun cmdExpire_loop ::
  "(int \<Rightarrow> string) \<Rightarrow> int \<Rightarrow> ExpireOpt \<Rightarrow> RepoCfg list \<Rightarrow> nat list \<Rightarrow> repo list \<Rightarrow> nat \<Rightarrow> repo list \<times> nat" where
  "cmdExpire_loop timeFmt now opt cfgs [] repos errorTotal = (repos, errorTotal)"
| "cmdExpire_loop timeFmt now opt cfgs (idx # idxs) repos errorTotal =
    (case expireRepo timeFmt now opt idx (cfgs ! idx) repos of
       (repos, result) \<Rightarrow>
         cmdExpire_loop timeFmt now opt cfgs idxs repos (case result of Inl e \<Rightarrow> Suc errorTotal | Inr _ \<Rightarrow> errorTotal))"

text \<open>\<open>stopFile\<close>: \<^verbatim>\<open>lockStopTest\<close> finds a stop file.\<close>

definition cmdExpire ::
  "(int \<Rightarrow> string) \<Rightarrow> int \<Rightarrow> bool \<Rightarrow> ExpireOpt \<Rightarrow> RepoCfg list \<Rightarrow> repo list \<Rightarrow> repo list \<times> unit res" where
  "cmdExpire timeFmt now stopFile opt cfgs repos =
    (if stopFile then (repos, Inl StopError)
     else if optSet opt \<noteq> None \<and> optOldest opt then (repos, Inl OptionInvalidError)
     else if (case optSet opt of None \<Rightarrow> False | Some l \<Rightarrow> \<not> regExpMatch backupRegExpAll l) then (repos, Inl OptionInvalidValueError)
     else
       (case cmdExpire_loop timeFmt now opt cfgs
               (if optRepo opt then [optRepoDefault opt] else [0..<length repos]) repos 0 of
          (repos, errorTotal) \<Rightarrow> (repos, if errorTotal > 0 then Inl CommandError else Inr ())))"

section \<open>Dry runs\<close>

lemma expireBackup_dry: "fst (snd (expireBackup True ib l fs)) = fs"
  using expireBackup_loop_dry by (auto simp: expireBackup_def split: prod.splits) (metis fst_conv snd_conv)

lemma expireBackupList_dry: "fst (snd (expireBackupList True ls ib fs n)) = fs"
proof (induction ls arbitrary: ib n)
  case (Cons l ls)
  then show ?case
    using expireBackup_dry[of ib l fs] by (auto split: prod.splits)
qed simp

lemma expireTimeBased_loop_dry: "fst (expireTimeBased_loop True l ib fs r n) = fs"
proof (induction True l ib fs r n rule: expireTimeBased_loop.induct)
  case (1 l ib fs r n)
  show ?case
  proof (cases "infoBackupData ib 0")
    case (Inl e)
    then show ?thesis by (subst expireTimeBased_loop.simps) simp
  next
    case (Inr b)
    obtain ib' e where e: "expireBackup True ib (backupLabel b) fs = (ib', fs, e)"
      using expireBackup_dry[of ib "backupLabel b" fs] by (cases "expireBackup True ib (backupLabel b) fs") auto
    show ?thesis
      using Inr 1[OF Inr _ e[symmetric] refl] by (subst expireTimeBased_loop.simps) (simp add: e)
  qed
qed

lemma expireFullBackup_dry: "fst (snd (expireFullBackup True cfg ib fs)) = fs"
  by (simp add: expireFullBackup_def Let_def expireBackupList_dry)

lemma expireDiffBackup_dry: "fst (snd (expireDiffBackup True cfg ib fs)) = fs"
  by (simp add: expireDiffBackup_def Let_def expireBackupList_dry)

lemma expireTimeBasedBackup_dry: "fst (expireTimeBasedBackup True cfg ib m fs) = fs"
  using expireTimeBased_loop_dry[of _ ib fs 0 0]
  by (auto simp: expireTimeBasedBackup_def Let_def split: sum.splits option.splits prod.splits) (metis fst_conv)+

lemma expireAdhocBackup_dry: "fst (expireAdhocBackup True cfg ib l fs) = fs"
  using expireBackup_dry[of ib l fs]
  by (auto simp: expireAdhocBackup_def split: sum.splits prod.splits)

lemma expireBackups_dry: "fst (expireBackups now True a cfg ib fs) = fs"
proof (cases a)
  case None
  have "fst (if retentionFullTime cfg then
          (case retentionFull cfg of None \<Rightarrow> (fs, Inr (cfg, ib, 0))
           | Some days \<Rightarrow> expireTimeBasedBackup True cfg ib (now - int days * SEC_PER_DAY) fs)
        else (case expireFullBackup True cfg ib fs of (ib, fs, n) \<Rightarrow> (fs, Inr (cfg, ib, n)))) = fs"
    using expireFullBackup_dry[of cfg ib fs] expireTimeBasedBackup_dry[of cfg ib _ fs]
    by (auto split: prod.splits option.splits)
  then show ?thesis
    using None expireDiffBackup_dry[of _ _ fs]
    by (auto simp: expireBackups_def split: prod.splits sum.splits) (metis fst_conv snd_conv)+
next
  case (Some l)
  then show ?thesis
    using expireAdhocBackup_dry[of cfg ib l fs] by (auto simp: expireBackups_def split: prod.splits sum.splits)
qed

lemma removeExpiredBackup_dry: "fst (removeExpiredBackup True ib a fs) = fs"
proof -
  have "removeExpiredBackup_loop True c ls fs = fs" for c ls
    by (induction ls) auto
  then show ?thesis
    by (auto simp: removeExpiredBackup_def Let_def split: sum.splits)
qed

lemma removeArchivePaths_dry: "removeArchivePaths True ranges m p ls fs = fs"
proof -
  have "removeArchiveFiles True ranges q fl fs = fs" for q fl
    by (induction fl) auto
  then show ?thesis by (induction ls) auto
qed

lemma removeArchiveWal_dry: "removeArchiveWal True p rb bs fs = fs"
proof -
  have "removeHistoryFiles True tml p ls fs = fs" for tml ls
    by (induction ls) auto
  then show ?thesis
    by (simp add: removeArchiveWal_def removeArchivePaths_dry Let_def split: option.splits)
qed

lemma removeArchiveId_dry: "fst (removeArchiveId True ib pg g ga A fs) = fs"
  by (auto simp: removeArchiveId_def removeArchiveWal_dry Let_def split: sum.splits option.splits)

lemma removeArchiveIds_dry: "fst (removeArchiveIds True ib pg disk g ga idxs fs) = fs"
proof (induction idxs)
  case (Cons k idxs)
  then show ?case
    using removeArchiveId_dry[of ib pg g ga _ fs] by (auto split: sum.splits prod.splits) (metis fst_conv)+
qed simp

lemma removeExpiredArchive_dry: "fst (removeExpiredArchive True cfg ib fs) = fs"
  by (auto simp: removeExpiredArchive_def Let_def removeArchiveIds_dry split: sum.splits)

lemma removeExpiredHistory_dry: "removeExpiredHistory timeFmt now True cfg ib dflt idx repos = repos"
proof -
  have files: "removeExpiredHistory_files True c m p ls fs = fs" for c m p ls fs
    by (induction ls) (auto simp: Let_def)
  have "removeExpiredHistory_years True c m dflt idx ys repos = repos" for c m ys
    by (induction ys) (auto simp: files)
  then show ?thesis
    by (simp add: removeExpiredHistory_def Let_def split: option.splits)
qed

lemma expireRepo_dry:
  assumes "optDryRun opt"
  shows "fst (expireRepo timeFmt now opt idx cfg repos) = repos"
proof (cases "infoBackupLoadFileReconstruct (repos ! idx) INFO_BACKUP_PATH_FILE")
  case (Inl e)
  then show ?thesis by (simp add: expireRepo_def Let_def)
next
  case (Inr ib)
  obtain r where r: "expireBackups now True (optSet opt) (expireOldest_cfg (optOldest opt) ib cfg) ib (repos ! idx) = (repos ! idx, r)"
    using expireBackups_dry[of now "optSet opt" "expireOldest_cfg (optOldest opt) ib cfg" ib "repos ! idx"] by (metis prod.collapse)
  show ?thesis
  proof (cases r)
    case (Inl e)
    with Inr r assms show ?thesis by (simp add: expireRepo_def Let_def)
  next
    case r2: (Inr cfg_ib)
    obtain cfg' ib' where ci: "cfg_ib = (cfg', ib')" by (cases cfg_ib)
    obtain rb where rb: "removeExpiredBackup True ib' (optSet opt) (repos ! idx) = (repos ! idx, rb)"
      using removeExpiredBackup_dry[of ib' "optSet opt" "repos ! idx"] by (metis prod.collapse)
    obtain ra where ra: "removeExpiredArchive True cfg' ib' (repos ! idx) = (repos ! idx, ra)"
      using removeExpiredArchive_dry[of cfg' ib' "repos ! idx"] by (metis prod.collapse)
    show ?thesis
      using Inr r r2 ci rb ra assms
      by (simp add: expireRepo_def Let_def removeExpiredHistory_dry split: sum.splits)
  qed
qed

lemma cmdExpire_loop_dry:
  "optDryRun opt \<Longrightarrow> fst (cmdExpire_loop timeFmt now opt cfgs idxs repos n) = repos"
proof (induction idxs arbitrary: n)
  case (Cons k idxs)
  then show ?case
    using expireRepo_dry[of opt timeFmt now k "cfgs ! k" repos] by (auto split: prod.splits)
qed simp

section \<open>History listing\<close>

lemma removeExpiredHistory_files_get:
  "storageContent (removeExpiredHistory_files d c m p ls fs) q =
    (if \<not> d \<and> (\<exists>f\<in>set ls. q = p @ [f] \<and> hd (split_char CHR ''.'' f) \<notin> set c \<and> hd (split_char CHR ''.'' f) < m)
     then None else storageContent fs q)"
  by (induction d c m p ls fs rule: removeExpiredHistory_files.induct) (auto simp: Let_def)

lemma storageList_cong:
  "(\<And>q. prefix p q \<Longrightarrow> storageContent fs q = storageContent fs' q) \<Longrightarrow> set (storageList fs p r) = set (storageList fs' p r)"
  by (auto simp: in_storageList storageExists_get)

text \<open>One year at a time: what happens to a file of year \<open>y\<close> on repository \<open>idx\<close>.\<close>

definition history_removed :: "string list \<Rightarrow> string \<Rightarrow> repo \<Rightarrow> string \<Rightarrow> string \<Rightarrow> bool" where
  "history_removed current minLabel listed y f \<longleftrightarrow>
    y < take 4 minLabel \<or>
    (y = take 4 minLabel \<and> f \<in> set (storageList listed (REPO_HISTORY @ [y]) historyFileRegExp) \<and>
      hd (split_char CHR ''.'' f) \<notin> set current \<and> hd (split_char CHR ''.'' f) < minLabel)"

lemma removeExpiredHistory_years_other:
  "y \<notin> set ys \<Longrightarrow> idx < length repos \<Longrightarrow> dflt < length repos \<Longrightarrow> prefix (REPO_HISTORY @ [y]) q \<Longrightarrow>
    storageContent (removeExpiredHistory_years d c m dflt idx ys repos ! k) q = storageContent (repos ! k) q"
proof (induction ys arbitrary: repos)
  case (Cons x ys)
  have nop: "\<not> prefix (REPO_HISTORY @ [x]) q" and nof: "q \<noteq> REPO_HISTORY @ [x, f]" for f
    using Cons.prems(1,4) by (auto simp: prefix_def)
  have step: "storageContent (repos[idx := storagePathRemove (repos ! idx) (REPO_HISTORY @ [x])] ! k) q = storageContent (repos ! k) q"
    "storageContent (repos[idx := removeExpiredHistory_files d c m (REPO_HISTORY @ [x]) ls (repos ! idx)] ! k) q = storageContent (repos ! k) q" for ls
    using Cons.prems(2) nop nof by (cases "k = idx"; simp add: removeExpiredHistory_files_get)+
  show ?case
    using Cons.IH[of "repos[idx := _]"] Cons.IH[of repos] Cons.prems step by auto
qed simp

lemma removeExpiredHistory_years_get:
  "sorted_wrt (<) ys \<Longrightarrow> y \<in> set ys \<Longrightarrow> idx < length repos \<Longrightarrow> dflt < length repos \<Longrightarrow>
    storageContent (removeExpiredHistory_years False c m dflt idx ys repos ! idx) (REPO_HISTORY @ [y, f]) =
      (if history_removed c m (repos ! dflt) y f then None else storageContent (repos ! idx) (REPO_HISTORY @ [y, f]))"
proof (induction ys arbitrary: repos)
  case (Cons x ys)
  let ?q = "REPO_HISTORY @ [y, f]"
  let ?del = "repos[idx := storagePathRemove (repos ! idx) (REPO_HISTORY @ [x])]"
  let ?fil = "repos[idx := removeExpiredHistory_files False c m (REPO_HISTORY @ [x])
      (strLstSort (storageList (repos ! dflt) (REPO_HISTORY @ [x]) historyFileRegExp) sortOrderDesc) (repos ! idx)]"
  have pre: "prefix (REPO_HISTORY @ [y]) ?q" by simp
  show ?case
  proof (cases "y = x")
    case True
    then have "y \<notin> set ys"
      using Cons.prems(1) by auto
    note other = removeExpiredHistory_years_other[OF this _ _ pre, of idx _ dflt False c m idx]
    show ?thesis
      using Cons.prems True other[of ?del] other[of ?fil]
      by (auto simp: history_removed_def removeExpiredHistory_files_get)
  next
    case False
    then have y: "y \<in> set ys" "x < y"
      using Cons.prems(1,2) by auto
    have same: "storageContent (?del ! k) q = storageContent (repos ! k) q" "storageContent (?fil ! k) q = storageContent (repos ! k) q"
      if "prefix (REPO_HISTORY @ [y]) q" for q k
      using that False Cons.prems(3) by (cases "k = idx"; auto simp: removeExpiredHistory_files_get prefix_def)+
    have rem: "history_removed c m (?del ! dflt) y f = history_removed c m (repos ! dflt) y f"
      "history_removed c m (?fil ! dflt) y f = history_removed c m (repos ! dflt) y f"
      unfolding history_removed_def
      using storageList_cong[of "REPO_HISTORY @ [y]" "?del ! dflt" "repos ! dflt"]
        storageList_cong[of "REPO_HISTORY @ [y]" "?fil ! dflt" "repos ! dflt"] same by simp_all
    have late: "\<not> history_removed c m (repos ! dflt) y f" if "\<not> x < take 4 m" "x \<noteq> take 4 m"
      using that y(2) by (auto simp: history_removed_def)
    have len: "sorted_wrt (<) ys" "idx < length ?del" "dflt < length ?del" "idx < length ?fil" "dflt < length ?fil"
      using Cons.prems by auto
    note IH = Cons.IH[OF len(1) y(1) len(2,3), unfolded rem(1) same(1)[OF pre]]
      Cons.IH[OF len(1) y(1) len(4,5), unfolded rem(2) same(2)[OF pre]]
    show ?thesis
      using IH late by (cases "x = take 4 m") auto
  qed
qed simp

section \<open>Directories\<close>

lemma removeExpiredBackup_loop_get:
  "storageContent (removeExpiredBackup_loop d c ls fs) q =
    (if \<not> d \<and> (\<exists>l\<in>set ls. l \<notin> set c \<and> prefix (REPO_BACKUP @ [l]) q) then None else storageContent fs q)"
  by (induction d c ls fs rule: removeExpiredBackup_loop.induct) auto

section \<open>What the steps of the command keep\<close>

text \<open>
  A step of the retention policies from one index and storage to another: the index stays well formed, only
  loses backups, a change of it is recorded, the manifests of the backups that stay are not touched, and
  neither is \<^verbatim>\<open>backup.info\<close>.
\<close>

definition expire_step :: "InfoBackup \<Rightarrow> repo \<Rightarrow> InfoBackup \<Rightarrow> repo \<Rightarrow> bool" where
  "expire_step ib fs ib' fs' \<longleftrightarrow>
    (index_ok ib \<and> prior_closed ib \<longrightarrow>
      index_ok ib' \<and> prior_closed ib' \<and> set (labels ib') \<subseteq> set (labels ib) \<and>
      (\<forall>l\<in>set (labels ib'). storageContent fs' (manifestFileName l) = storageContent fs (manifestFileName l))) \<and>
    recorded ib ib' \<and>
    storageContent fs' INFO_BACKUP_PATH_FILE = storageContent fs INFO_BACKUP_PATH_FILE \<and>
    storageContent fs' (copyFileName INFO_BACKUP_PATH_FILE) = storageContent fs (copyFileName INFO_BACKUP_PATH_FILE)"

lemma expire_step_refl [simp]: "expire_step ib fs ib fs"
  by (simp add: expire_step_def)

lemma expire_step_trans:
  assumes "expire_step a fa b fb" and "expire_step b fb c fc"
  shows "expire_step a fa c fc"
proof -
  have "recorded a c"
    using assms recorded_trans unfolding expire_step_def by blast
  moreover have "index_ok c \<and> prior_closed c \<and> set (labels c) \<subseteq> set (labels a) \<and>
      (\<forall>l\<in>set (labels c). storageContent fc (manifestFileName l) = storageContent fa (manifestFileName l))"
    if "index_ok a" "prior_closed a"
    using assms that unfolding expire_step_def by (metis subset_trans subsetD)
  ultimately show ?thesis
    using assms unfolding expire_step_def by metis
qed

lemma info_path_shape:
  "INFO_BACKUP_PATH_FILE = [''backup'', ''backup.info'']"
  "copyFileName [''backup'', ''backup.info''] = [''backup'', ''backup.info.copy'']"
  by (simp_all add: INFO_BACKUP_PATH_FILE_def copyFileName_def INFO_COPY_EXT_def REPO_BACKUP_def)

lemma expireBackup_step: "expireBackup d ib l fs = (ib', fs', r) \<Longrightarrow> expire_step ib fs ib' fs'"
proof -
  assume run: "expireBackup d ib l fs = (ib', fs', r)"
  have "storageContent fs' q = storageContent fs q" if "length q = 2" for q
    unfolding expireBackup_split(3)[OF run] expireBackup_loop_storage using that by (auto simp: manifestFileName_shape(2)) (auto simp: manifestFileName_shape(1))
  moreover have "recorded ib ib'"
    using expireBackup_split(1)[OF run] recorded_fold_delete by simp
  moreover have "index_ok ib' \<and> prior_closed ib' \<and> set (labels ib') \<subseteq> set (labels ib) \<and>
      (\<forall>x\<in>set (labels ib'). storageContent fs' (manifestFileName x) = storageContent fs (manifestFileName x))"
    if "index_ok ib" "prior_closed ib"
  proof -
    note f = expireBackup_facts[OF that run]
    have "storageContent fs' (manifestFileName x) = storageContent fs (manifestFileName x)" if "\<not> depends (backup ib) l x" for x
      using that unfolding f(7) by (auto simp: manifestFileName_shape(2)) (auto simp: manifestFileName_shape(1))
    then show ?thesis
      using f(1,2,4) by auto
  qed
  ultimately show ?thesis
    by (simp add: expire_step_def info_path_shape)
qed

lemma expireBackupList_step: "expireBackupList d ls ib fs n = (ib', fs', r) \<Longrightarrow> expire_step ib fs ib' fs'"
proof (induction ls arbitrary: ib fs n)
  case (Cons l ls)
  then show ?case
    using expire_step_trans[OF expireBackup_step] by (auto split: prod.splits)
qed simp

lemma expireTimeBased_loop_step:
  "expireTimeBased_loop d l ib fs r n = (fs', Inr (ib', r', n')) \<Longrightarrow> expire_step ib fs ib' fs'"
proof (induction d l ib fs r n rule: expireTimeBased_loop.induct)
  case (1 d l ib fs r n)
  show ?case
  proof (cases "infoBackupData ib 0")
    case (Inl e)
    with 1(2) show ?thesis by (subst (asm) expireTimeBased_loop.simps) simp
  next
    case (Inr b)
    obtain ib1 fs1 e where e: "expireBackup d ib (backupLabel b) fs = (ib1, fs1, e)"
      by (cases "expireBackup d ib (backupLabel b) fs") auto
    show ?thesis
      using 1(2) Inr e 1(1)[OF Inr _ e[symmetric] refl] expire_step_trans[OF expireBackup_step[OF e]]
      by (subst (asm) expireTimeBased_loop.simps) (auto split: if_splits)
  qed
qed

lemma expireFullBackup_step: "expireFullBackup d cfg ib fs = (ib', fs', n) \<Longrightarrow> expire_step ib fs ib' fs'"
  using expireBackupList_step by (auto simp: expireFullBackup_def Let_def split: if_splits)

lemma expireDiffBackup_step: "expireDiffBackup d cfg ib fs = (ib', fs', n) \<Longrightarrow> expire_step ib fs ib' fs'"
  using expireBackupList_step by (auto simp: expireDiffBackup_def Let_def split: if_splits)

lemma expireTimeBasedBackup_step:
  "expireTimeBasedBackup d cfg ib m fs = (fs', Inr (cfg', ib', n)) \<Longrightarrow> expire_step ib fs ib' fs'"
  using expireTimeBased_loop_step[of d _ ib fs 0 0]
  by (auto simp: expireTimeBasedBackup_def Let_def split: sum.splits option.splits prod.splits)

lemma backupLinkLatest_step: "expire_step ib fs ib (backupLinkLatest cfg l fs)"
  by (auto simp: expire_step_def backupLinkLatest_def BACKUP_LINK_LATEST_def REPO_BACKUP_def info_path_shape
      manifestFileName_shape Let_def)

lemma expireAdhocBackup_step:
  assumes "expireAdhocBackup d cfg ib l fs = (fs', Inr (ib', n))"
  shows "expire_step ib fs ib' fs'"
proof -
  obtain ib1 fs1 e where e: "expireBackup d ib l fs = (ib1, fs1, e)"
    by (cases "expireBackup d ib l fs") auto
  show ?thesis
    using assms e expireBackup_step[OF e] expire_step_trans[OF expireBackup_step[OF e] backupLinkLatest_step]
    by (auto simp: expireAdhocBackup_def split: sum.splits if_splits)
qed

lemma expireBackups_step:
  assumes "expireBackups now d a cfg ib fs = (fs', Inr (cfg', ib'))"
  shows "expire_step ib fs ib' fs'"
proof (cases a)
  case (Some l)
  then show ?thesis
    using assms expireAdhocBackup_step by (auto simp: expireBackups_def split: if_splits sum.splits prod.splits)
next
  case None
  obtain fs1 r where r: "(if retentionFullTime cfg then
          (case retentionFull cfg of None \<Rightarrow> (fs, Inr (cfg, ib, 0))
           | Some days \<Rightarrow> expireTimeBasedBackup d cfg ib (now - int days * SEC_PER_DAY) fs)
        else (case expireFullBackup d cfg ib fs of (ib, fs, n) \<Rightarrow> (fs, Inr (cfg, ib, n)))) = (fs1, r)"
    by (metis prod.collapse)
  show ?thesis
  proof (cases r)
    case (Inl e)
    with assms None r show ?thesis by (simp add: expireBackups_def)
  next
    case (Inr t)
    obtain cfg1 ib1 n where t: "t = (cfg1, ib1, n)" by (cases t)
    have "expire_step ib fs ib1 fs1"
      using r Inr t expireFullBackup_step expireTimeBasedBackup_step
      by (auto split: if_splits option.splits prod.splits)
    moreover have "expire_step ib1 fs1 ib' fs'"
      using assms None r Inr t expireDiffBackup_step by (auto simp: expireBackups_def split: prod.splits)
    ultimately show ?thesis
      by (rule expire_step_trans)
  qed
qed

text \<open>Paths that the removals on storage do not touch.\<close>

lemma removeExpiredBackup_keeps:
  assumes "removeExpiredBackup d ib a fs = (fs', r)"
    and "\<forall>l. prefix (REPO_BACKUP @ [l]) q \<longrightarrow> \<not> is_label l \<or> l \<in> set (labels ib)"
  shows "storageContent fs' q = storageContent fs q"
proof -
  have lab: "\<forall>l\<in>set (drop k (strLstSort (storageList fs REPO_BACKUP backupRegExpAll) sortOrderDesc)). is_label l" for k
    by (auto simp: in_storageList regExpMatch_all dest!: in_set_dropD)
  have cur: "set (strLstSort (infoBackupDataLabelList ib None) sortOrderDesc) = set (labels ib)"
    by (simp add: infoBackupDataLabelList_def)
  have "storageContent (removeExpiredBackup_loop d (strLstSort (infoBackupDataLabelList ib None) sortOrderDesc)
      (drop k (strLstSort (storageList fs REPO_BACKUP backupRegExpAll) sortOrderDesc)) fs) q = storageContent fs q" for k
    unfolding removeExpiredBackup_loop_get cur using lab[of k] assms(2) by metis
  then show ?thesis
    using assms(1) by (auto simp: removeExpiredBackup_def Let_def split: sum.splits)
qed

lemma removeExpiredArchive_keeps_backup:
  assumes "q = ''backup'' # p"
  shows "storageContent (fst (removeExpiredArchive d cfg ib fs)) q = storageContent fs q"
proof -
  have np: "\<not> prefix (REPO_ARCHIVE @ [A]) q" for A
    using assms by (simp add: REPO_ARCHIVE_def)
  have one: "storageContent (fst (removeArchiveId d ib pg g ga A fs)) q = storageContent fs q" for pg g ga A fs
    by (auto simp: removeArchiveId_def removeArchiveWal_outside[OF np] np Let_def split: sum.splits option.splits)
  have "storageContent (fst (removeArchiveIds d ib pg disk g ga idxs fs)) q = storageContent fs q" for pg disk g ga idxs fs
  proof (induction idxs arbitrary: fs)
    case (Cons k idxs)
    then show ?case
      using one[of pg g ga _ fs] by (auto split: sum.splits prod.splits) (metis fst_conv)+
  qed simp
  then show ?thesis
    by (auto simp: removeExpiredArchive_def Let_def split: sum.splits)
qed

lemma removeExpiredHistory_keeps:
  assumes "idx < length repos" and "\<And>y. \<not> prefix (REPO_HISTORY @ [y]) q"
  shows "storageContent (removeExpiredHistory timeFmt now d cfg ib dflt idx repos ! idx) q = storageContent (repos ! idx) q"
proof -
  have nof: "q \<noteq> REPO_HISTORY @ [y, f]" for y f
    using assms(2)[of y] by auto
  have "idx < length repos \<Longrightarrow>
      storageContent (removeExpiredHistory_years d c m dflt idx ys repos ! idx) q = storageContent (repos ! idx) q" for c m ys
  proof (induction ys arbitrary: repos)
    case (Cons y ys)
    then show ?case
      using Cons.IH[of "repos[idx := _]"] Cons.IH[of repos] assms(2)[of y] nof[of y]
      by (auto simp: removeExpiredHistory_files_get)
  qed simp
  then show ?thesis
    using assms(1) by (simp add: removeExpiredHistory_def Let_def split: option.splits)
qed

lemma not_label: "\<not> is_label (CHR ''b'' # l)"
proof
  assume "is_label (CHR ''b'' # l)"
  then obtain f r where f: "date_time_ok f" "CHR ''b'' # l = f @ ''F'' @ r"
    by (rule is_labelE)
  then have "CHR ''b'' \<in> set (take 8 f)"
    using date_time_length[OF f(1)] by (cases f) auto
  then have "CHR ''b'' \<le> CHR ''9''"
    using f(1) unfolding date_time_ok_def by blast
  then show False
    by (simp add: less_eq_char_def)
qed

text \<open>After the index is saved: the removals keep it and the manifests it lists.\<close>

lemma removals_keep:
  assumes "removeExpiredBackup d ib a fs = (fs1, r)" and "removeExpiredArchive d cfg ib fs1 = (fs2, r2)"
    and "idx < length repos" and "repos' = removeExpiredHistory timeFmt now d cfg ib dflt idx (repos[idx := fs2])"
    and "q = INFO_BACKUP_PATH_FILE \<or> q = copyFileName INFO_BACKUP_PATH_FILE \<or> (\<exists>l\<in>set (labels ib). q = manifestFileName l \<and> is_label l)"
  shows "storageContent (repos' ! idx) q = storageContent fs q"
proof -
  have nolab: "\<not> is_label ''backup.info''" "\<not> is_label ''backup.info.copy''" "\<not> is_label ''backup.history''"
    by (rule not_label)+
  then have hist: "\<not> prefix (REPO_HISTORY @ [y]) q" for y
    using assms(5) by (auto simp: REPO_HISTORY_def REPO_BACKUP_def info_path_shape manifestFileName_shape)
  obtain p where q: "q = ''backup'' # p"
    using assms(5) by (auto simp: info_path_shape manifestFileName_shape)
  have "storageContent (repos' ! idx) q = storageContent fs2 q"
    using removeExpiredHistory_keeps[of idx "repos[idx := fs2]" q] hist assms(3,4) by simp
  also have "\<dots> = storageContent fs1 q"
    using removeExpiredArchive_keeps_backup[OF q, of d cfg ib fs1] assms(2) by simp
  also have "\<dots> = storageContent fs q"
    by (rule removeExpiredBackup_keeps[OF assms(1)])
       (use assms(5) nolab in \<open>auto simp: REPO_BACKUP_def info_path_shape manifestFileName_shape\<close>)
  finally show ?thesis .
qed

section \<open>Properties\<close>

text \<open>
  A dry run of the expire command changes nothing on any repository, whatever the options, the state of the
  repositories and the errors on the way.
\<close>

theorem cmdExpire_dry_run:
  assumes "optDryRun opt"
  shows "fst (cmdExpire timeFmt now stopFile opt cfgs repos) = repos"
proof -
  obtain n where "cmdExpire_loop timeFmt now opt cfgs
      (if optRepo opt then [optRepoDefault opt] else [0..<length repos]) repos 0 = (repos, n)"
    using cmdExpire_loop_dry[OF assms] by (metis prod.collapse)
  then show ?thesis
    by (simp add: cmdExpire_def)
qed

definition sample_opt :: ExpireOpt where
  "sample_opt = \<lparr>optRepo = False, optRepoDefault = 0, optSet = None, optOldest = False, optDryRun = True\<rparr>"

theorem cmdExpire_dry_run_witness:
  "fst (cmdExpire (\<lambda>_. ''20240101-000000'') 0 False sample_opt [sample_cfg] [sample_repo]) = [sample_repo]"
  by (rule cmdExpire_dry_run) (simp add: sample_opt_def)

text \<open>
  When the newest backup directory is left alone: a backup was expired on request, the directory is resumable (a
  manifest copy and no manifest), and it is of another full backup than the expired one, or the prior backup that its
  manifest names is still in the index.
\<close>

definition resumable :: "repo \<Rightarrow> string \<Rightarrow> bool" where
  "resumable fs l \<longleftrightarrow> \<not> storageExists fs (manifestFileName l) \<and> storageExists fs (copyFileName (manifestFileName l))"

definition resumableStays :: "InfoBackup \<Rightarrow> string option \<Rightarrow> repo \<Rightarrow> string \<Rightarrow> bool" where
  "resumableStays ib adhoc fs l \<longleftrightarrow>
    (\<exists>a. adhoc = Some a \<and> resumable fs l \<and>
      (\<not> prefix (take 16 a) l \<or>
       (\<exists>m p. manifestLoadFile fs (manifestFileName l) = Inr m \<and> manBackupLabelPrior (manData m) = Some p \<and> p \<in> set (labels ib))))"

definition newestOf :: "string set \<Rightarrow> string \<Rightarrow> bool" where
  "newestOf S l \<longleftrightarrow> l \<in> S \<and> (\<forall>l'\<in>S. l' \<le> l)"

lemma strLstSort_desc_newest:
  assumes "strLstSort xs sortOrderDesc = l # ls"
  shows "newestOf (set xs) l' \<longleftrightarrow> l' = l"
proof -
  have "sorted_wrt (\<ge>) (l # ls)" using assms[symmetric] by (simp add: strLstSort_def sorted_wrt_rev)
  moreover have "set xs = insert l (set ls)" by (metis assms list.simps(15) set_strLstSort)
  ultimately show ?thesis by (auto simp: newestOf_def intro: antisym)
qed

lemma removeExpiredBackup_start_newest:
  assumes "ls = strLstSort xs sortOrderDesc" "distinct xs"
  shows "removeExpiredBackup_start ib adhoc ls fs = Inl e \<longleftrightarrow>
      (\<exists>a l. adhoc = Some a \<and> newestOf (set xs) l \<and> resumable fs l \<and> prefix (take 16 a) l \<and> manifestLoadFile fs (manifestFileName l) = Inl e)"
    and "removeExpiredBackup_start ib adhoc ls fs = Inr k \<Longrightarrow>
      set (drop k ls) = {l \<in> set xs. \<not> (newestOf (set xs) l \<and> resumableStays ib adhoc fs l)}"
proof -
  have nil: "\<not> newestOf {} l" for l by (simp add: newestOf_def)
  show "removeExpiredBackup_start ib adhoc ls fs = Inl e \<longleftrightarrow>
      (\<exists>a l. adhoc = Some a \<and> newestOf (set xs) l \<and> resumable fs l \<and> prefix (take 16 a) l \<and> manifestLoadFile fs (manifestFileName l) = Inl e)"
  proof (cases ls)
    case Nil
    then have "set xs = {}" using assms(1) by (metis set_strLstSort empty_set)
    then show ?thesis using Nil nil by (auto simp: removeExpiredBackup_start_def split: option.splits)
  next
    case (Cons l ls')
    have new: "newestOf (set xs) l' \<longleftrightarrow> l' = l" for l'
      using strLstSort_desc_newest[of xs l ls'] assms(1) Cons by simp
    show ?thesis
      unfolding new Cons removeExpiredBackup_start_def resumable_def
      by (cases adhoc; cases "manifestLoadFile fs (manifestFileName l)") (auto simp: bindR_def split: option.splits)
  qed
  show "set (drop k ls) = {l \<in> set xs. \<not> (newestOf (set xs) l \<and> resumableStays ib adhoc fs l)}"
    if start: "removeExpiredBackup_start ib adhoc ls fs = Inr k"
  proof (cases ls)
    case Nil
    then have "set xs = {}" using assms(1) by (metis set_strLstSort empty_set)
    then show ?thesis using Nil by auto
  next
    case (Cons l ls')
    have xs: "set xs = insert l (set ls')" "l \<notin> set ls'"
      using assms Cons by (metis set_strLstSort list.simps(15), metis distinct_strLstSort distinct.simps(2))
    have "k = (if resumableStays ib adhoc fs l then 1 else 0)"
      using start Cons
      by (cases "manifestLoadFile fs (manifestFileName l)")
         (auto simp: removeExpiredBackup_start_def resumableStays_def resumable_def infoBackupLabelExists_iff
          split: option.splits if_splits)
    then show ?thesis
      using xs Cons strLstSort_desc_newest[of xs l ls'] assms(1) by auto
  qed
qed

text \<open>
  C10: Removal of backup directories, exactly.  It fails only for an adhoc expiration whose newest directory is
  resumable, is of the full backup that was expired and has a manifest that cannot be loaded, with that error and
  without a change.  Otherwise everything below the backup directories that are not in the index is gone and nothing
  else is touched; the newest directory is spared if and only if it is a resumable backup that cannot depend on the
  expired one.
\<close>

theorem removeExpiredBackup_exact:
  assumes "removeExpiredBackup False ib adhoc fs = (fs', result)"
    and "dirs = set (storageList fs REPO_BACKUP backupRegExpAll)"
  shows "(\<forall>e. result = Inl e \<longleftrightarrow>
      (\<exists>a l. adhoc = Some a \<and> newestOf dirs l \<and> resumable fs l \<and> prefix (take 16 a) l \<and>
        manifestLoadFile fs (manifestFileName l) = Inl e)) \<and>
    (\<forall>q. storageContent fs' q =
      (if result = Inr () \<and>
          (\<exists>l\<in>dirs. prefix (REPO_BACKUP @ [l]) q \<and> l \<notin> set (labels ib) \<and> \<not> (newestOf dirs l \<and> resumableStays ib adhoc fs l))
       then None else storageContent fs q))"
proof -
  let ?xs = "storageList fs REPO_BACKUP backupRegExpAll"
  let ?ls = "strLstSort ?xs sortOrderDesc"
  have d: "distinct ?xs" by (simp add: storageList_def)
  note start = removeExpiredBackup_start_newest[OF refl d, of ib adhoc fs, folded assms(2)]
  show ?thesis
  proof (cases "removeExpiredBackup_start ib adhoc ?ls fs")
    case (Inl e)
    have "fs' = fs" "result = Inl e" using assms(1) Inl by (auto simp: removeExpiredBackup_def Let_def)
    moreover have "(\<exists>a l. adhoc = Some a \<and> newestOf dirs l \<and> resumable fs l \<and> prefix (take 16 a) l \<and>
        manifestLoadFile fs (manifestFileName l) = Inl e') \<longleftrightarrow> e' = e" for e'
      using start(1)[of e'] Inl by auto
    ultimately show ?thesis by auto
  next
    case (Inr k)
    have fs': "fs' = removeExpiredBackup_loop False (strLstSort (infoBackupDataLabelList ib None) sortOrderDesc) (drop k ?ls) fs"
      and res: "result = Inr ()"
      using assms(1) Inr by (auto simp: removeExpiredBackup_def Let_def)
    have lab: "set (strLstSort (infoBackupDataLabelList ib None) sortOrderDesc) = set (labels ib)"
      by (simp add: infoBackupDataLabelList_def)
    have "storageContent fs' q =
      (if \<exists>l\<in>dirs. prefix (REPO_BACKUP @ [l]) q \<and> l \<notin> set (labels ib) \<and> \<not> (newestOf dirs l \<and> resumableStays ib adhoc fs l)
       then None else storageContent fs q)" for q
      unfolding fs' removeExpiredBackup_loop_get lab start(2)[OF Inr] by auto
    moreover have "\<not> (\<exists>a l. adhoc = Some a \<and> newestOf dirs l \<and> resumable fs l \<and> prefix (take 16 a) l \<and>
        manifestLoadFile fs (manifestFileName l) = Inl e)" for e
      using start(1)[of e] Inr by simp
    ultimately show ?thesis using res by simp
  qed
qed

text \<open>
  Expiring the full backup of 3 January on request while a resumable backup of the next day is there: the expired
  directory goes and the resumable one, of another full backup, stays.
\<close>

definition sample_resume_repo :: repo where
  "sample_resume_repo = storagePut sample_full_repo (copyFileName (manifestFileName ''20240104-000000F'')) (FData [])"

theorem removeExpiredBackup_exact_witness:
  "storageContent (fst (removeExpiredBackup False (infoBackupDataDelete sample_index ''20240103-000000F'') (Some ''20240103-000000F'')
     sample_resume_repo)) (manifestFileName ''20240103-000000F'') = None \<and>
   storageContent (fst (removeExpiredBackup False (infoBackupDataDelete sample_index ''20240103-000000F'') (Some ''20240103-000000F'')
     sample_resume_repo)) (copyFileName (manifestFileName ''20240104-000000F'')) \<noteq> None"
proof -
  let ?ib = "infoBackupDataDelete sample_index ''20240103-000000F''"
  let ?fs = sample_resume_repo
  let ?r = "removeExpiredBackup False ?ib (Some ''20240103-000000F'') ?fs"
  let ?dirs = "set (storageList ?fs REPO_BACKUP backupRegExpAll)"
  have ok: "snd ?r = Inr ()" by code_simp
  have dirs: "''20240103-000000F'' \<in> ?dirs" "''20240104-000000F'' \<in> ?dirs" "\<forall>l\<in>?dirs. l \<le> ''20240104-000000F''"
    by code_simp+
  have gt: "\<not> ''20240104-000000F'' \<le> ''20240103-000000F''" by code_simp
  have new: "newestOf ?dirs ''20240104-000000F''" "\<not> newestOf ?dirs ''20240103-000000F''"
    using dirs gt unfolding newestOf_def by blast+
  have "resumable ?fs ''20240104-000000F''" by code_simp
  moreover have "\<not> prefix (take 16 ''20240103-000000F'') ''20240104-000000F''" by code_simp
  ultimately have stays: "resumableStays ?ib (Some ''20240103-000000F'') ?fs ''20240104-000000F''"
    unfolding resumableStays_def by blast
  have lab: "''20240103-000000F'' \<notin> set (labels ?ib)" by code_simp
  have have4: "storageContent ?fs (copyFileName (manifestFileName ''20240104-000000F'')) \<noteq> None"
    by (simp add: sample_resume_repo_def)
  have pre: "prefix (REPO_BACKUP @ [''20240103-000000F'']) (manifestFileName ''20240103-000000F'')"
    "prefix (REPO_BACKUP @ [l]) (copyFileName (manifestFileName ''20240104-000000F'')) \<Longrightarrow> l = ''20240104-000000F''" for l
    by (auto simp: manifestFileName_shape REPO_BACKUP_def copyFileName_def)
  have run: "?r = (fst ?r, snd ?r)" by simp
  have get: "storageContent (fst ?r) q =
      (if \<exists>l\<in>?dirs. prefix (REPO_BACKUP @ [l]) q \<and> l \<notin> set (labels ?ib) \<and>
          \<not> (newestOf ?dirs l \<and> resumableStays ?ib (Some ''20240103-000000F'') ?fs l)
       then None else storageContent ?fs q)" for q
    using removeExpiredBackup_exact[OF run refl] ok by simp
  have "storageContent (fst ?r) (manifestFileName ''20240103-000000F'') = None"
    unfolding get using dirs(1) new(2) lab pre(1) by auto
  moreover have "storageContent (fst ?r) (copyFileName (manifestFileName ''20240104-000000F'')) \<noteq> None"
    unfolding get using pre(2) new(1) stays have4 by auto
  ultimately show ?thesis by blast
qed

text \<open>
  C11: Expiration of backup history manifests, exactly.  A history file of year \<open>y\<close> on repository \<open>idx\<close> is removed
  when the year is listed on the \<^emph>\<open>default\<close> repository and is before the year of the oldest label to retain,
  or is that year and the file is listed on the default repository for a backup that is neither in the index nor
  new enough; no other history file is.  So a year before the limit is dropped with the manifests of backups
  that are still in the index, and nothing is removed on a repository for years that only it has.
\<close>

theorem removeExpiredHistory_exact:
  assumes "retentionHistory cfg = Some days"
    and "minLabel = backupLabelFormat timeFmt backupTypeFull None (now - int days * SEC_PER_DAY)"
    and "idx < length repos" and "dflt < length repos"
    and "years = storageList (repos ! dflt) REPO_HISTORY historyYearRegExp"
  shows "storageContent (removeExpiredHistory timeFmt now False cfg ib dflt idx repos ! idx) (REPO_HISTORY @ [y, f]) =
    (if y \<in> set years \<and> history_removed (labels ib) minLabel (repos ! dflt) y f then None
     else storageContent (repos ! idx) (REPO_HISTORY @ [y, f]))"
proof -
  let ?ys = "strLstSort years sortOrderAsc"
  let ?c = "strLstSort (infoBackupDataLabelList ib None) sortOrderDesc"
  have run: "removeExpiredHistory timeFmt now False cfg ib dflt idx repos =
      removeExpiredHistory_years False ?c minLabel dflt idx ?ys repos"
    using assms(1,2,5) by (simp add: removeExpiredHistory_def Let_def)
  have sorted: "sorted_wrt (<) ?ys"
    by (simp add: assms(5) strLstSort_def strict_sorted_iff storageList_def)
  have rem: "history_removed ?c minLabel r y f = history_removed (labels ib) minLabel r y f" for r
    by (simp add: history_removed_def infoBackupDataLabelList_def)
  show ?thesis
  proof (cases "y \<in> set years")
    case True
    then show ?thesis
      using removeExpiredHistory_years_get[OF sorted _ assms(3,4)] by (simp add: run rem)
  next
    case False
    then show ?thesis
      using removeExpiredHistory_years_other[OF _ assms(3,4), of y ?ys "REPO_HISTORY @ [y, f]" False ?c minLabel idx]
      by (simp add: run)
  qed
qed

text \<open>The witness: the history manifest of a backup of 2024 that is still in the index is removed in 2025.\<close>

definition sample_history_repo :: repo where
  "sample_history_repo = [(REPO_HISTORY @ [''2024'', ''20240103-000000F.manifest.gz''], FData [])]"

theorem removeExpiredHistory_exact_witness:
  "''20240103-000000F'' \<in> set (labels sample_index) \<and>
   storageContent (removeExpiredHistory (\<lambda>_. ''20250101-000000'') 0 False (sample_cfg\<lparr>retentionHistory := Some 0\<rparr>) sample_index 0 0
     [sample_history_repo] ! 0) (REPO_HISTORY @ [''2024'', ''20240103-000000F.manifest.gz'']) = None"
proof
  show "''20240103-000000F'' \<in> set (labels sample_index)"
    by code_simp
  have "''2024'' \<in> set (storageList sample_history_repo REPO_HISTORY historyYearRegExp)"
    by code_simp
  moreover have "history_removed (labels sample_index) ''20250101-000000F'' sample_history_repo ''2024'' ''20240103-000000F.manifest.gz''"
    by code_simp
  ultimately show "storageContent (removeExpiredHistory (\<lambda>_. ''20250101-000000'') 0 False (sample_cfg\<lparr>retentionHistory := Some 0\<rparr>) sample_index 0 0
     [sample_history_repo] ! 0) (REPO_HISTORY @ [''2024'', ''20240103-000000F.manifest.gz'']) = None"
    using removeExpiredHistory_exact[of "sample_cfg\<lparr>retentionHistory := Some 0\<rparr>" 0 _ "\<lambda>_. ''20250101-000000''" 0 0 "[sample_history_repo]" 0,
        OF _ refl, where ib = sample_index and y = "''2024''" and f = "''20240103-000000F.manifest.gz''"]
    by (simp add: backupLabelFormat_def)
qed

text \<open>
  C4: The expire command leaves a repository whose index can be trusted: if a repository with a well-formed
  \<^verbatim>\<open>backup.info\<close> and well-formed manifests is processed without error (and it is not a dry run), then the
  \<^verbatim>\<open>backup.info\<close> that is then on storage loads, is well formed, has with every backup its prior, and has only
  backups whose manifest is still on storage.  This holds for every combination of retention options and
  for adhoc expiration.
\<close>

theorem expireRepo_consistent:
  assumes "infoBackupLoadFile (repos ! idx) INFO_BACKUP_PATH_FILE = Inr ib0" and "index_ok ib0" and "prior_closed ib0"
    and "manifests_ok (repos ! idx)" and "idx < length repos" and "\<not> optDryRun opt"
    and "expireRepo timeFmt now opt idx cfg repos = (repos', Inr ())"
  shows "\<exists>ib. infoBackupLoadFile (repos' ! idx) INFO_BACKUP_PATH_FILE = Inr ib \<and> index_ok ib \<and> prior_closed ib \<and>
    (\<forall>l\<in>set (labels ib). storageExists (repos' ! idx) (manifestFileName l))"
proof -
  let ?fs = "repos ! idx" and ?f = INFO_BACKUP_PATH_FILE
  obtain ib1 where ib1: "infoBackupLoadFileReconstruct ?fs ?f = Inr ib1"
    using assms(7) by (auto simp: expireRepo_def Let_def split: sum.splits)
  obtain fs2 cfg2 ib2 where ib2: "expireBackups now False (optSet opt) (expireOldest_cfg (optOldest opt) ib1 cfg) ib1 ?fs = (fs2, Inr (cfg2, ib2))"
    using assms(6,7) ib1 by (auto simp: expireRepo_def Let_def split: sum.splits prod.splits)
  obtain ib3 fs3 where ib3: "infoBackupSaveFile ib2 fs2 ?f = (ib3, fs3)"
    by (cases "infoBackupSaveFile ib2 fs2 ?f") auto
  obtain fs4 where fs4: "removeExpiredBackup False ib3 (optSet opt) fs3 = (fs4, Inr ())"
    using assms(6,7) ib1 ib2 ib3 by (auto simp: expireRepo_def Let_def split: sum.splits prod.splits)
  obtain fs5 where fs5: "removeExpiredArchive False cfg2 ib3 fs4 = (fs5, Inr ())"
    using assms(6,7) ib1 ib2 ib3 fs4 by (auto simp: expireRepo_def Let_def split: sum.splits prod.splits)
  have repos': "repos' = removeExpiredHistory timeFmt now False cfg2 ib3 (optRepoDefault opt) idx (repos[idx := fs5])"
    using assms(6,7) ib1 ib2 ib3 fs4 fs5 by (simp add: expireRepo_def Let_def)
  note keep = removals_keep[OF fs4 fs5 assms(5) repos']
  have rec: "index_ok ib1 \<and> prior_closed ib1 \<and> (\<forall>l\<in>set (labels ib1). storageExists ?fs (manifestFileName l))"
    using reconstruct_facts[OF assms(1-4) ib1] by blast
  have step: "expire_step ib1 ?fs ib2 fs2"
    by (rule expireBackups_step[OF ib2])
  have same3: "backup ib3 = backup ib2" "ib3 = ib2\<lparr>updated := False\<rparr>"
    using ib3 by (auto simp: infoBackupSaveFile_def split: if_splits)
  have ok3: "index_ok ib3" "prior_closed ib3"
  proof -
    have "index_ok ib2" "prior_closed ib2"
      using step rec unfolding expire_step_def by blast+
    then show "index_ok ib3" "prior_closed ib3"
      unfolding index_ok_def prior_closed_def same3(1) by blast+
  qed
  have load: "infoBackupLoadFile (repos' ! idx) ?f = Inr ib3"
  proof (cases "updated ib2")
    case True
    then have "storageContent fs3 ?f = Some (FBackupInfo ib2)"
      using ib3 by (auto simp: infoBackupSaveFile_def info_path_shape)
    then show ?thesis
      using keep[of ?f] same3(2) infoBackupLoadFile_saved by simp
  next
    case False
    have "ib2 = ib0"
      using False recorded_reconstruct[OF assms(1) ib1] step unfolding expire_step_def recorded_def by auto
    moreover have "fs3 = fs2" "ib3 = ib2"
      using False ib3 by (auto simp: infoBackupSaveFile_def)
    moreover have "infoBackupLoadFile (repos' ! idx) ?f = infoBackupLoadFile fs2 ?f"
      using keep[of ?f] keep[of "copyFileName ?f"] \<open>fs3 = fs2\<close> by (intro infoBackupLoadFile_cong) auto
    moreover have "infoBackupLoadFile fs2 ?f = infoBackupLoadFile ?fs ?f"
      using step by (intro infoBackupLoadFile_cong) (auto simp: expire_step_def)
    ultimately show ?thesis
      using assms(1) by simp
  qed
  have "storageExists (repos' ! idx) (manifestFileName l)" if l: "l \<in> set (labels ib3)" for l
  proof -
    have lab: "is_label l"
      using ok3(1) l by (auto simp: index_ok_def list_all_iff entry_ok_def regExpMatch_all)
    have "storageContent fs3 (manifestFileName l) = storageContent fs2 (manifestFileName l)"
      using ib3 by (auto simp: infoBackupSaveFile_def manifestFileName_shape info_path_shape split: if_splits)
    then have "storageContent (repos' ! idx) (manifestFileName l) = storageContent fs2 (manifestFileName l)"
      using keep[of "manifestFileName l"] l lab by auto
    moreover have "l \<in> set (labels ib2)"
      using l unfolding same3(1) .
    ultimately show ?thesis
      using step rec unfolding expire_step_def storageExists_get by (metis subsetD)
  qed
  with load ok3 show ?thesis by blast
qed

definition sample_stanza :: repo where
  "sample_stanza = (INFO_BACKUP_PATH_FILE, FBackupInfo sample_index) # sample_full_repo"

theorem expireRepo_consistent_witness:
  "\<exists>ib. infoBackupLoadFile (fst (expireRepo (\<lambda>_. ''20250101-000000'') 0 (sample_opt\<lparr>optDryRun := False\<rparr>) 0 sample_cfg [sample_stanza]) ! 0)
      INFO_BACKUP_PATH_FILE = Inr ib \<and> index_ok ib \<and> prior_closed ib"
proof -
  let ?r = "expireRepo (\<lambda>_. ''20250101-000000'') 0 (sample_opt\<lparr>optDryRun := False\<rparr>) 0 sample_cfg [sample_stanza]"
  have load: "infoBackupLoadFile ([sample_stanza] ! 0) INFO_BACKUP_PATH_FILE = Inr sample_index"
    by code_simp
  have mok: "manifests_ok ([sample_stanza] ! 0)"
    by code_simp
  have "snd ?r = Inr ()"
    by code_simp
  then have run: "?r = (fst ?r, Inr ())"
    by (metis prod.collapse)
  show ?thesis
    using expireRepo_consistent[OF load sample_index_ok mok _ _ run] by auto
qed

end
