(* ===== verification/Wait.thy ===== *)
theory Wait
  imports Prelude
begin

text \<open>
  The backoff timer of every retry loop: \<^verbatim>\<open>src/src/common/wait.c\<close>.  Times are milliseconds in 64-bit words; the
  value of \<^verbatim>\<open>timeMSec()\<close> at the moment of a call is an argument, and what the call sleeps is part of the result.
\<close>

section \<open>Definitions\<close>

abbreviation MSEC_PER_SEC :: u64 where
  "MSEC_PER_SEC \<equiv> 1000"

record Wait =
  waitTime :: u64
  sleepTime :: u64
  sleepPrevTime :: u64
  beginTime :: u64
  retry :: nat

definition waitNew :: "u64 \<Rightarrow> u64 \<Rightarrow> Wait" where
  "waitNew timeMSec wait =
    \<lparr>waitTime = wait,
     sleepTime = (if wait \<ge> MSEC_PER_SEC then MSEC_PER_SEC div 10 else wait div 10),
     sleepPrevTime = 0, beginTime = timeMSec, retry = 2\<rparr>"

definition waitRemains :: "u64 \<Rightarrow> Wait \<Rightarrow> Wait \<times> u64" where
  "waitRemains timeMSec this =
    (if sleepTime this > 0 then
       (let elapsedTime = timeMSec - beginTime this;
            (this, result) =
              (if elapsedTime < waitTime this then
                 (let result = waitTime this - elapsedTime;
                      sleep = sleepTime this + sleepPrevTime this;
                      sleep = (if sleep > result then result else sleep)
                  in (this\<lparr>sleepPrevTime := sleepTime this, sleepTime := sleep\<rparr>, result))
               else if retry this \<noteq> 0 then (this, sleepTime this)
               else (this\<lparr>sleepTime := 0\<rparr>, 0))
        in (if retry this > 0 then this\<lparr>retry := retry this - 1\<rparr> else this, result))
     else (this, 0))"

text \<open>The result is whether to go on, and how long the call slept.\<close>

definition waitMore :: "u64 \<Rightarrow> Wait \<Rightarrow> Wait \<times> bool \<times> u64" where
  "waitMore timeMSec this =
    (case waitRemains timeMSec this of
       (this', remains) \<Rightarrow> if remains > 0 then (this', True, sleepTime this') else (this', False, 0))"

section \<open>Bounds\<close>

text \<open>
  The state of a wait that began with a total time of \<open>w\<close>.  \<open>waitNew\<close> asserts that the total is at most
  999999000.
\<close>

definition wait_ok :: "u64 \<Rightarrow> Wait \<Rightarrow> bool" where
  "wait_ok w this \<longleftrightarrow> waitTime this = w \<and> w \<le> 999999000 \<and> sleepTime this \<le> w \<and> sleepPrevTime this \<le> w \<and> retry this \<le> 2"

lemma wait_ok_new:
  assumes "w \<le> 999999000"
  shows "wait_ok w (waitNew now w)"
proof -
  have "w div 10 \<le> w" by (simp add: word_le_nat_alt unat_div)
  moreover have "100 \<le> w" if "1000 \<le> w" using that by (rule order_trans [rotated]) simp
  ultimately show ?thesis using assms by (simp add: wait_ok_def waitNew_def)
qed

text \<open>The calls made on a wait, each with the time it is made at; whether each said to go on.\<close>

fun waitRun :: "Wait \<Rightarrow> u64 list \<Rightarrow> (bool \<times> u64) list" where
  "waitRun this [] = []"
| "waitRun this (now # nows) = (case waitMore now this of (this', r) \<Rightarrow> r # waitRun this' nows)"

lemma sum_le_no_wrap:
  fixes a b w :: u64
  assumes "a \<le> w" "b \<le> w" "w \<le> 999999000"
  shows "unat (a + b) = unat a + unat b"
proof (rule unat_add_lem [THEN iffD1])
  have "unat a + unat b \<le> 2 * 999999000"
    using assms by (simp add: word_le_nat_alt)
  then show "unat a + unat b < 2 ^ LENGTH(64)" by simp
qed

text \<open>One call, before the deadline and after it.\<close>

lemma waitMore_before:
  assumes "wait_ok w this" "0 < sleepTime this" "now - beginTime this < w"
  defines "sleep \<equiv> min (sleepTime this + sleepPrevTime this) (w - (now - beginTime this))"
  shows "waitMore now this =
      (this\<lparr>sleepPrevTime := sleepTime this, sleepTime := sleep, retry := retry this - 1\<rparr>, True, sleep)"
    and "0 < sleep" and "sleep \<le> w - (now - beginTime this)" and "sleep \<le> w"
proof -
  let ?e = "now - beginTime this"
  have le: "?e \<le> w" using assms(3) by simp
  have rem: "0 < w - ?e" using assms(3) le by (simp add: word_less_nat_alt unat_sub)
  have sum: "0 < sleepTime this + sleepPrevTime this"
    using assms(1,2) sum_le_no_wrap [of "sleepTime this" w "sleepPrevTime this"]
    by (simp add: wait_ok_def word_less_nat_alt)
  show "0 < sleep" using rem sum by (simp add: sleep_def)
  show "sleep \<le> w - ?e" by (simp add: sleep_def)
  also have "w - ?e \<le> w" using le by (simp add: word_le_nat_alt unat_sub)
  finally show "sleep \<le> w" .
  have sl: "(if sleepTime this + sleepPrevTime this > w - ?e then w - ?e else sleepTime this + sleepPrevTime this) = sleep"
    by (auto simp: sleep_def min_def)
  have w: "waitTime this = w" using assms(1) by (simp add: wait_ok_def)
  have z: "retry this - 1 = retry this" if "\<not> 0 < retry this" using that by simp
  show "waitMore now this =
      (this\<lparr>sleepPrevTime := sleepTime this, sleepTime := sleep, retry := retry this - 1\<rparr>, True, sleep)"
    unfolding waitMore_def waitRemains_def Let_def w sl using assms(2,3) rem
    by (cases this) (simp add: sl)
qed

lemma waitMore_after:
  assumes "wait_ok w this" "0 < sleepTime this" "\<not> now - beginTime this < w"
  shows "waitMore now this =
    (if retry this \<noteq> 0 then (this\<lparr>retry := retry this - 1\<rparr>, True, sleepTime this)
     else (this\<lparr>sleepTime := 0\<rparr>, False, 0))"
  using assms by (cases this) (simp add: waitMore_def waitRemains_def wait_ok_def Let_def)

lemma waitRun_step:
  assumes "wait_ok w this" "0 < sleepTime this"
  obtains this' slept where
    "waitMore now this = (this', now - beginTime this < w \<or> retry this \<noteq> 0, slept)"
    "now - beginTime this < w \<or> retry this \<noteq> 0 \<Longrightarrow>
       wait_ok w this' \<and> 0 < sleepTime this' \<and> beginTime this' = beginTime this \<and> retry this' = retry this - 1 \<and> 0 < slept"
    "now - beginTime this < w \<Longrightarrow> slept \<le> w - (now - beginTime this)"
proof (cases "now - beginTime this < w")
  case True
  note b = waitMore_before [OF assms True]
  show ?thesis
    by (rule that [OF _ _ b(3)]) (use b assms True in \<open>auto simp: wait_ok_def\<close>)
next
  case False
  note a = waitMore_after [OF assms False]
  show ?thesis
    using a assms False that by (cases "retry this = 0") (auto simp: wait_ok_def)
qed

lemma waitRun_schedule_state:
  assumes "wait_ok w this" "0 < sleepTime this" "i < length nows" "\<forall>j<i. fst (waitRun this nows ! j)"
  shows "(fst (waitRun this nows ! i) \<longleftrightarrow> nows ! i - beginTime this < w \<or> i < retry this) \<and>
    (nows ! i - beginTime this < w \<longrightarrow>
      0 < snd (waitRun this nows ! i) \<and> snd (waitRun this nows ! i) \<le> w - (nows ! i - beginTime this))"
  using assms
proof (induction nows arbitrary: this i)
  case (Cons now nows)
  obtain this' slept where step:
    "waitMore now this = (this', now - beginTime this < w \<or> retry this \<noteq> 0, slept)"
    "now - beginTime this < w \<or> retry this \<noteq> 0 \<Longrightarrow>
       wait_ok w this' \<and> 0 < sleepTime this' \<and> beginTime this' = beginTime this \<and> retry this' = retry this - 1 \<and> 0 < slept"
    "now - beginTime this < w \<Longrightarrow> slept \<le> w - (now - beginTime this)"
    by (rule waitRun_step [OF Cons.prems(1,2), of now]) blast
  show ?case
  proof (cases i)
    case 0
    then show ?thesis using step by simp
  next
    case (Suc k)
    have go: "now - beginTime this < w \<or> retry this \<noteq> 0"
      using Cons.prems(4) Suc step(1) by fastforce
    have "\<forall>j<k. fst (waitRun this' nows ! j)"
    proof (intro allI impI)
      fix j assume "j < k"
      then show "fst (waitRun this' nows ! j)" using Cons.prems(4) Suc step(1) by fastforce
    qed
    then show ?thesis
      using Cons.IH [of this' k] Cons.prems(3) Suc step(1) step(2) [OF go] by auto
  qed
qed simp

text \<open>
  While time remains, what a call sleeps: the sum of the two times before it (the first of them the time that
  \<open>waitNew\<close> set, the second nothing), cut off at the time that remains.
\<close>

definition timesBefore :: "u64 \<Rightarrow> (nat \<Rightarrow> u64) \<Rightarrow> nat \<Rightarrow> nat" where
  "timesBefore unit sleep i =
    (case i of 0 \<Rightarrow> unat unit | Suc 0 \<Rightarrow> unat (sleep 0) + unat unit | Suc (Suc k) \<Rightarrow> unat (sleep (Suc k)) + unat (sleep k))"

lemma waitMore_before_unat:
  assumes "wait_ok w this" "0 < sleepTime this" "now - beginTime this < w"
  obtains this' slept where "waitMore now this = (this', True, slept)" "wait_ok w this'" "0 < sleepTime this'"
    "beginTime this' = beginTime this" "sleepTime this' = slept" "sleepPrevTime this' = sleepTime this"
    "unat slept = min (unat (sleepTime this) + unat (sleepPrevTime this)) (unat (w - (now - beginTime this)))"
proof -
  note b = waitMore_before [OF assms]
  let ?s = "min (sleepTime this + sleepPrevTime this) (w - (now - beginTime this))"
  have "unat ?s = min (unat (sleepTime this) + unat (sleepPrevTime this)) (unat (w - (now - beginTime this)))"
    using assms(1) sum_le_no_wrap [of "sleepTime this" w "sleepPrevTime this"]
    by (simp add: wait_ok_def min_def word_le_nat_alt)
  then show thesis
    by (intro that [OF b(1)]) (use b assms in \<open>auto simp: wait_ok_def\<close>)
qed

lemma waitRun_sleeps:
  assumes "wait_ok w this" "0 < sleepTime this" "i < length nows" "\<forall>j\<le>i. nows ! j - beginTime this < w"
  shows "unat (snd (waitRun this nows ! i)) =
    min (case i of 0 \<Rightarrow> unat (sleepTime this) + unat (sleepPrevTime this)
         | Suc 0 \<Rightarrow> unat (snd (waitRun this nows ! 0)) + unat (sleepTime this)
         | Suc (Suc k) \<Rightarrow> unat (snd (waitRun this nows ! Suc k)) + unat (snd (waitRun this nows ! k)))
        (unat (w - (nows ! i - beginTime this)))"
  using assms
proof (induction nows arbitrary: this i)
  case (Cons now nows)
  have "now - beginTime this < w" using Cons.prems(4) [rule_format, of 0] by simp
  then obtain this' slept where s: "waitMore now this = (this', True, slept)" "wait_ok w this'" "0 < sleepTime this'"
    "beginTime this' = beginTime this" "sleepTime this' = slept" "sleepPrevTime this' = sleepTime this"
    "unat slept = min (unat (sleepTime this) + unat (sleepPrevTime this)) (unat (w - (now - beginTime this)))"
    using waitMore_before_unat [OF Cons.prems(1,2)] by metis
  show ?case
  proof (cases i)
    case 0
    then show ?thesis using s by simp
  next
    case (Suc k)
    have "\<forall>j\<le>k. nows ! j - beginTime this' < w"
    proof (intro allI impI)
      fix j assume "j \<le> k"
      then show "nows ! j - beginTime this' < w" using Cons.prems(4) [rule_format, of "Suc j"] Suc s(4) by simp
    qed
    then have IH: "unat (snd (waitRun this' nows ! k)) =
      min (case k of 0 \<Rightarrow> unat (sleepTime this') + unat (sleepPrevTime this')
           | Suc 0 \<Rightarrow> unat (snd (waitRun this' nows ! 0)) + unat (sleepTime this')
           | Suc (Suc m) \<Rightarrow> unat (snd (waitRun this' nows ! Suc m)) + unat (snd (waitRun this' nows ! m)))
          (unat (w - (nows ! k - beginTime this')))"
      using Cons.IH [OF s(2,3)] Cons.prems(3) Suc by simp
    show ?thesis using IH s Suc by (auto split: nat.splits)
  qed
qed simp

text \<open>The Fibonacci numbers.\<close>

fun fibonacci :: "nat \<Rightarrow> nat" where
  "fibonacci 0 = 0"
| "fibonacci (Suc 0) = 1"
| "fibonacci (Suc (Suc n)) = fibonacci (Suc n) + fibonacci n"

lemma timesBefore_fibonacci:
  assumes "\<forall>j\<le>i. unat (sleep j) = min (timesBefore unit sleep j) (rem j)" "\<forall>j\<le>i. unat unit * fibonacci (j + 2) \<le> rem j"
  shows "unat (sleep i) = unat unit * fibonacci (i + 2)"
  using assms
proof (induction i rule: less_induct)
  case (less i)
  have IH: "unat (sleep j) = unat unit * fibonacci (j + 2)" if "j < i" for j
    using less.IH [OF that] less.prems that by auto
  have "timesBefore unit sleep i = unat unit * fibonacci (i + 2)"
  proof (cases i)
    case (Suc k)
    then show ?thesis using IH [of k] IH [of "k - 1"]
      by (cases k) (simp_all add: timesBefore_def algebra_simps numeral_2_eq_2)
  qed (simp add: timesBefore_def numeral_2_eq_2)
  then show ?case using less.prems by simp
qed

text \<open>
  C40: The schedule of a wait of at least 10 ms.  The call number \<open>i\<close>, when all calls before it said to go on, says
  to go on exactly if the time has not run out or it is one of the first two calls.  While time remains a call sleeps
  the sum of the two times before it, starting with a tenth of the wait or 100 ms, but not beyond the end of the wait;
  so as long as the time suffices the sleeps are the Fibonacci numbers 1, 2, 3, 5, ... times that start.  The two
  calls that are granted after the end count all calls: a wait that was polled twice within its time ends at once when
  the time is over.
\<close>

theorem waitMore_schedule:
  assumes "10 \<le> w" "w \<le> 999999000" "i < length nows" "\<forall>j<i. fst (waitRun (waitNew t0 w) nows ! j)"
  defines "run \<equiv> waitRun (waitNew t0 w) nows" and "unit \<equiv> (if 1000 \<le> w then 100 else w div 10)"
  defines "sleep \<equiv> \<lambda>j. snd (run ! j)" and "remaining \<equiv> \<lambda>j. unat (w - (nows ! j - t0))"
  shows "(fst (run ! i) \<longleftrightarrow> nows ! i - t0 < w \<or> i < 2) \<and>
    (nows ! i - t0 < w \<longrightarrow> 0 < unat (sleep i) \<and> unat (sleep i) \<le> remaining i) \<and>
    ((\<forall>j\<le>i. nows ! j - t0 < w) \<longrightarrow>
      unat (sleep i) = min (timesBefore unit sleep i) (remaining i) \<and>
      ((\<forall>j\<le>i. unat unit * fibonacci (j + 2) \<le> remaining j) \<longrightarrow> unat (sleep i) = unat unit * fibonacci (i + 2)))"
proof -
  have "0 < w div 10"
    using assms(1) by (simp add: word_less_nat_alt word_le_nat_alt unat_div div_greater_zero_iff)
  then have pos: "0 < sleepTime (waitNew t0 w)" by (simp add: waitNew_def)
  note ok = wait_ok_new [OF assms(2), of t0]
  have new: "sleepTime (waitNew t0 w) = unit" "sleepPrevTime (waitNew t0 w) = 0" "beginTime (waitNew t0 w) = t0" "retry (waitNew t0 w) = 2"
    by (simp_all add: waitNew_def unit_def)
  have sl: "unat (sleep j) = min (timesBefore unit sleep j) (remaining j)" if "j \<le> i" "\<forall>j\<le>i. nows ! j - t0 < w" for j
    using waitRun_sleeps [OF ok pos, of j nows] that assms(3) new
    by (auto simp: sleep_def run_def remaining_def timesBefore_def split: nat.splits)
  have "unat (sleep i) = unat unit * fibonacci (i + 2)"
    if "\<forall>j\<le>i. nows ! j - t0 < w" "\<forall>j\<le>i. unat unit * fibonacci (j + 2) \<le> remaining j"
    using timesBefore_fibonacci [of i sleep unit remaining] sl that by blast
  moreover have "(fst (run ! i) \<longleftrightarrow> nows ! i - t0 < w \<or> i < 2) \<and>
    (nows ! i - t0 < w \<longrightarrow> 0 < unat (sleep i) \<and> unat (sleep i) \<le> remaining i)"
    using waitRun_schedule_state [OF ok pos assms(3,4)] new
    by (simp add: run_def sleep_def remaining_def word_less_nat_alt word_le_nat_alt)
  ultimately show ?thesis using sl by blast
qed

text \<open>Within a second that is polled every 100 ms the first calls sleep 100, 200 and 300 ms; a call after the end ends the wait.\<close>

theorem waitMore_schedule_witness:
  "unat (snd (waitRun (waitNew 5000 1000) [5000, 5100, 5200, 6000] ! 2)) = 300 \<and>
   \<not> fst (waitRun (waitNew 5000 1000) [5000, 5100, 5200, 6000] ! 3)"
proof -
  let ?nows = "[5000, 5100, 5200, 6000] :: u64 list"
  have "\<forall>j\<in>set [0 ..< 3]. fst (waitRun (waitNew 5000 1000) ?nows ! j)" by code_simp
  then have before: "\<forall>j<3. fst (waitRun (waitNew 5000 1000) ?nows ! j)" by simp
  have w: "(10 :: u64) \<le> 1000" "(1000 :: u64) \<le> 999999000" by code_simp+
  have late: "\<not> ?nows ! 3 - 5000 < 1000" by code_simp
  have "\<forall>j\<in>set [0 ..< 3]. ?nows ! j - 5000 < 1000 \<and> 100 * fibonacci (j + 2) \<le> unat (1000 - (?nows ! j - 5000))" by code_simp
  moreover have "j \<in> set [0 ..< 3]" if "j \<le> 2" for j :: nat using that by auto
  ultimately have early: "\<forall>j\<le>2. ?nows ! j - 5000 < 1000" "\<forall>j\<le>2. 100 * fibonacci (j + 2) \<le> unat (1000 - (?nows ! j - 5000))"
    by blast+
  have fib: "100 * fibonacci (2 + 2) = 300" by code_simp
  have "\<forall>j<2. fst (waitRun (waitNew 5000 1000) ?nows ! j)" using before by simp
  from waitMore_schedule [OF w _ this] have "unat (snd (waitRun (waitNew 5000 1000) ?nows ! 2)) = 300"
    using early fib by auto
  moreover have "\<not> fst (waitRun (waitNew 5000 1000) ?nows ! 3)"
    using waitMore_schedule [OF w _ before] late by simp
  ultimately show ?thesis by blast
qed

end
