(* ===== verification/WalFind.thy ===== *)
theory WalFind
  imports InfoArchive Wal
begin

text \<open>
  Finding a WAL segment in the archive: \<^verbatim>\<open>src/src/command/archive/find.c\<close>.  In the single mode the storage is
  listed with an expression for the one segment; in the other mode the listing of a directory is cached and
  consumed in sorted order.

  Each round of the wait loop sees the storage as it is then: \<open>snaps\<close> holds the storages of the successive rounds,
  as many as \<^verbatim>\<open>waitMore\<close> allows.
\<close>

section \<open>Definitions\<close>

definition rx_eps :: rx where
  "rx_eps = RTimes 0 RAny"

definition COMPRESS_TYPE_REGEXP :: rx where
  "COMPRESS_TYPE_REGEXP =
    RAlt (rx_str ''.gz'' rx_eps) (RAlt (rx_str ''.lz4'' rx_eps) (RAlt (rx_str ''.zst'' rx_eps)
      (RAlt (rx_str ''.xz'' rx_eps) (rx_str ''.bz2'' rx_eps))))"

text \<open>\<^verbatim>\<open>"-[0-f]{40}" COMPRESS_TYPE_REGEXP "{0,1}$"\<close>\<close>

definition rx_hash_ext :: rx where
  "rx_hash_ext = RSeq (RChr CHR ''-'')
    (RSeq (RTimes 40 (RRng CHR ''0'' CHR ''f'')) (RSeq (ROpt COMPRESS_TYPE_REGEXP) REnd))"

definition walSegmentExpression :: "string \<Rightarrow> rx" where
  "walSegmentExpression walSegment =
    rx_str (take 24 walSegment @ (if walIsPartial walSegment then WAL_SEGMENT_PARTIAL_EXT else [])) rx_hash_ext"

record WalSegmentFind =
  wsfArchiveId :: string
  wsfSingle :: bool
  wsfTimeout :: u64
  wsfPrefix :: "string option"
  wsfList :: "string list option"

definition walSegmentFindNew :: "string \<Rightarrow> bool \<Rightarrow> u64 \<Rightarrow> WalSegmentFind" where
  "walSegmentFindNew archiveId single timeout =
    \<lparr>wsfArchiveId = archiveId, wsfSingle = single, wsfTimeout = timeout, wsfPrefix = None, wsfList = None\<rparr>"

text \<open>The listing at the head of a round, from the cache when it is for the same directory.\<close>

definition walSegmentFind_load :: "'c storage \<Rightarrow> WalSegmentFind \<Rightarrow> string \<Rightarrow> string list" where
  "walSegmentFind_load storage this walSegment =
    (let prefix = take 16 walSegment;
         path = REPO_ARCHIVE @ [wsfArchiveId this, prefix]
     in case wsfList this of
          Some list \<Rightarrow>
            if wsfPrefix this = Some prefix then list
            else strLstSort (if wsfSingle this then storageList storage path (walSegmentExpression walSegment)
                             else storageListAll storage path) sortOrderAsc
        | None \<Rightarrow>
            strLstSort (if wsfSingle this then storageList storage path (walSegmentExpression walSegment)
                        else storageListAll storage path) sortOrderAsc)"

text \<open>One round of the \<^verbatim>\<open>do\<close> loop: the object afterwards, and the segment file found or the error.\<close>

definition walSegmentFind_round ::
  "'c storage \<Rightarrow> WalSegmentFind \<Rightarrow> string \<Rightarrow> WalSegmentFind \<times> (string option) res" where
  "walSegmentFind_round storage this walSegment =
    (let regExp = walSegmentExpression walSegment;
         list = walSegmentFind_load storage this walSegment;
         this = this\<lparr>wsfPrefix := Some (take 16 walSegment)\<rparr>;
         list = (if wsfSingle this then list else dropWhile (\<lambda>x. \<not> regExpMatch regExp x) list);
         match = (if wsfSingle this then length list else length (takeWhile (regExpMatch regExp) list))
     in if match > 1 then (this\<lparr>wsfList := None\<rparr>, Inl ArchiveDuplicateError)
        else
          (let result = (if match = 1 then Some (hd list) else None);
               list = (if wsfSingle this then list else dropWhile (regExpMatch regExp) list)
           in (this\<lparr>wsfList := if wsfSingle this \<or> list = [] then None else Some list\<rparr>, Inr result)))"

fun walSegmentFind_loop ::
  "'c storage list \<Rightarrow> WalSegmentFind \<Rightarrow> string \<Rightarrow> WalSegmentFind \<times> (string option) res" where
  "walSegmentFind_loop [] this walSegment = (this, Inr None)"
| "walSegmentFind_loop (storage # snaps) this walSegment =
    (case walSegmentFind_round storage this walSegment of
       (this', Inr None) \<Rightarrow> walSegmentFind_loop snaps this' walSegment
     | r \<Rightarrow> r)"

definition walSegmentFind ::
  "'c storage list \<Rightarrow> WalSegmentFind \<Rightarrow> string \<Rightarrow> WalSegmentFind \<times> (string option) res" where
  "walSegmentFind snaps this walSegment =
    (case walSegmentFind_loop snaps this walSegment of
       (this', r) \<Rightarrow>
         (this', if r = Inr None \<and> wsfTimeout this \<noteq> 0 then Inl ArchiveTimeoutError else r))"

definition walSegmentFindOne :: "'c storage list \<Rightarrow> string \<Rightarrow> string \<Rightarrow> u64 \<Rightarrow> (string option) res" where
  "walSegmentFindOne snaps archiveId walSegment timeout =
    snd (walSegmentFind snaps (walSegmentFindNew archiveId True timeout) walSegment)"

section \<open>What is to be found\<close>

text \<open>The files of a segment in the archive, and the answer that a search should give on one storage.\<close>

definition segmentFiles :: "'c storage \<Rightarrow> string \<Rightarrow> string \<Rightarrow> string list" where
  "segmentFiles storage archiveId walSegment =
    sort (storageList storage (REPO_ARCHIVE @ [archiveId, take 16 walSegment]) (walSegmentExpression walSegment))"

definition segmentLookup :: "'c storage \<Rightarrow> string \<Rightarrow> string \<Rightarrow> (string option) res" where
  "segmentLookup storage archiveId walSegment =
    (case segmentFiles storage archiveId walSegment of
       [] \<Rightarrow> Inr None | [f] \<Rightarrow> Inr (Some f) | _ \<Rightarrow> Inl ArchiveDuplicateError)"

text \<open>The first answer over the rounds of a search; a timeout is an error only when one was asked for.\<close>

fun segmentLookup_first :: "'c storage list \<Rightarrow> string \<Rightarrow> u64 \<Rightarrow> string \<Rightarrow> (string option) res" where
  "segmentLookup_first [] archiveId timeout walSegment =
    (if timeout \<noteq> 0 then Inl ArchiveTimeoutError else Inr None)"
| "segmentLookup_first (storage # snaps) archiveId timeout walSegment =
    (if segmentLookup storage archiveId walSegment = Inr None
     then segmentLookup_first snaps archiveId timeout walSegment
     else segmentLookup storage archiveId walSegment)"

section \<open>The single mode\<close>

lemma single_round:
  assumes "wsfSingle this" "wsfList this = None"
  shows "walSegmentFind_round storage this s =
    (this\<lparr>wsfPrefix := Some (take 16 s)\<rparr>, segmentLookup storage (wsfArchiveId this) s)"
proof -
  have l: "walSegmentFind_load storage this s = segmentFiles storage (wsfArchiveId this) s"
    using assms by (simp add: walSegmentFind_load_def segmentFiles_def strLstSort_def Let_def)
  have u: "this\<lparr>wsfPrefix := p, wsfList := None\<rparr> = this\<lparr>wsfPrefix := p\<rparr>" for p
    using assms(2) by simp
  show ?thesis
    using assms
    by (auto simp: walSegmentFind_round_def l u segmentLookup_def Let_def split: list.splits)
qed

lemma single_loop:
  assumes "wsfSingle this" "wsfList this = None"
  shows "snd (walSegmentFind snaps this s) = segmentLookup_first snaps (wsfArchiveId this) (wsfTimeout this) s"
  using assms
proof (induction snaps arbitrary: this)
  case Nil
  then show ?case by (simp add: walSegmentFind_def)
next
  case (Cons storage snaps)
  show ?case
    using Cons.IH [of "this\<lparr>wsfPrefix := Some (take 16 s)\<rparr>"] Cons.prems
    by (auto simp: walSegmentFind_def single_round split: sum.splits option.splits prod.splits)
qed

lemma walSegmentFindOne_eq:
  "walSegmentFindOne snaps archiveId s timeout = segmentLookup_first snaps archiveId timeout s"
  using single_loop [of "walSegmentFindNew archiveId True timeout" snaps s]
  by (simp add: walSegmentFindOne_def walSegmentFindNew_def)

section \<open>The cached mode\<close>

subsection \<open>File names of the archive\<close>

text \<open>A well-formed name: segment, optionally \<^verbatim>\<open>.partial\<close>, checksum, optionally a compression extension.\<close>

definition compressExts :: "string list" where
  "compressExts = [''.gz'', ''.lz4'', ''.zst'', ''.xz'', ''.bz2'']"

definition hash_ext :: "string \<Rightarrow> bool" where
  "hash_ext s \<longleftrightarrow> s \<noteq> [] \<and> hd s = CHR ''-'' \<and> 41 \<le> length s \<and>
    list_all (\<lambda>c. CHR ''0'' \<le> c \<and> c \<le> CHR ''f'') (take 40 (tl s)) \<and> drop 41 s \<in> set ([] # compressExts)"

definition segment_file :: "string \<Rightarrow> bool" where
  "segment_file s \<longleftrightarrow> 24 \<le> length s \<and>
    (hash_ext (drop 24 s) \<or> prefix WAL_SEGMENT_PARTIAL_EXT (drop 24 s) \<and> hash_ext (drop 32 s))"

lemma rx_rests_str: "rx_rests (rx_str p r) s = (if prefix p s then rx_rests r (drop (length p) s) else [])"
proof (induction p arbitrary: s)
  case (Cons c p)
  then show ?case by (cases s) (simp_all add: rx_str_def)
qed (simp add: rx_str_def)

lemma rx_rests_eps [simp]: "rx_rests rx_eps s = [s]"
  by (simp add: rx_eps_def)

lemma rx_end_iff: "rx_rests (RSeq r REnd) s \<noteq> [] \<longleftrightarrow> [] \<in> set (rx_rests r s)"
  by auto

lemma rx_str_eps_whole: "[] \<in> set (rx_rests (rx_str p rx_eps) s) \<longleftrightarrow> s = p"
  by (auto simp: rx_rests_str prefix_def)

lemma rx_rests_compress:
  "rx_rests (RSeq (ROpt COMPRESS_TYPE_REGEXP) REnd) s \<noteq> [] \<longleftrightarrow> s \<in> set ([] # compressExts)"
proof -
  have "[] \<in> set (rx_rests COMPRESS_TYPE_REGEXP s) \<longleftrightarrow> s \<in> set compressExts"
    by (simp only: COMPRESS_TYPE_REGEXP_def rx_rests.simps(5) set_append Un_iff rx_str_eps_whole)
      (simp add: compressExts_def)
  then show ?thesis by (auto simp only: rx_end_iff rx_rests.simps(7) list.set insert_iff)
qed

lemma rx_rests_hash_ext: "rx_rests rx_hash_ext s \<noteq> [] \<longleftrightarrow> hash_ext s"
proof (cases s)
  case (Cons c t)
  let ?r = "RSeq (ROpt COMPRESS_TYPE_REGEXP) REnd"
  have "rx_rests rx_hash_ext s =
    (if c = CHR ''-'' then concat (map (rx_rests ?r) (rx_times (rx_rests (RRng CHR ''0'' CHR ''f'')) 40 t)) else [])"
    using Cons by (simp add: rx_hash_ext_def del: rx_times_rng)
  also have "\<dots> =
    (if c = CHR ''-'' \<and> 40 \<le> length t \<and> (\<forall>d\<in>set (take 40 t). CHR ''0'' \<le> d \<and> d \<le> CHR ''f'')
     then rx_rests ?r (drop 40 t) else [])"
    by (auto simp del: rx_rests.simps)
  finally show ?thesis
    using Cons rx_rests_compress [of "drop 40 t"] by (auto simp only: hash_ext_def list_all_iff list.sel list.size drop_Suc_Cons split: if_splits) auto
qed (simp add: rx_hash_ext_def hash_ext_def)

definition segment_stem :: "string \<Rightarrow> string" where
  "segment_stem s = take 24 s @ (if walIsPartial s then WAL_SEGMENT_PARTIAL_EXT else [])"

lemma walSegmentExpression_match:
  "regExpMatch (walSegmentExpression s) f \<longleftrightarrow>
    prefix (segment_stem s) f \<and> hash_ext (drop (length (segment_stem s)) f)"
  by (simp add: regExpMatch_def walSegmentExpression_def segment_stem_def rx_rests_str rx_rests_hash_ext)

subsection \<open>Matches are contiguous\<close>

lemma prefix_between:
  fixes x y z p :: string
  shows "x \<le> y \<Longrightarrow> y \<le> z \<Longrightarrow> prefix p x \<Longrightarrow> prefix p z \<Longrightarrow> prefix p y"
proof (induction p arbitrary: x y z)
  case (Cons c p)
  obtain x' z' where xz: "x = c # x'" "z = c # z'" using Cons.prems(3,4) by (auto simp: prefix_def)
  then obtain d y' where y: "y = d # y'" using Cons.prems(1) by (cases y) auto
  have "d = c" using Cons.prems(1,2) xz y by (auto simp: Cons_le_Cons)
  then show ?case using Cons xz y by (auto simp: Cons_le_Cons)
qed simp

lemma take_mono_list:
  fixes x y :: string
  shows "x \<le> y \<Longrightarrow> take n x \<le> take n y"
proof (induction n arbitrary: x y)
  case (Suc n)
  then show ?case by (cases x; cases y) (auto simp: Cons_le_Cons)
qed simp

lemma hash_ext_dash: "hash_ext t \<Longrightarrow> \<exists>u. t = CHR ''-'' # u"
  by (cases t) (auto simp: hash_ext_def)

lemma length_segment_stem: "24 \<le> length s \<Longrightarrow> take 24 (segment_stem s @ t) = take 24 s"
  by (simp add: segment_stem_def)

text \<open>A well-formed file name with the stem of a segment and a dash after it is a file of the segment.\<close>

lemma segment_file_match:
  assumes "24 \<le> length s" "segment_file f" "prefix (segment_stem s @ ''-'') f"
  shows "regExpMatch (walSegmentExpression s) f"
proof -
  obtain u where f: "f = segment_stem s @ CHR ''-'' # u" using assms(3) by (auto simp: prefix_def)
  have "hash_ext (CHR ''-'' # u)"
  proof (cases "walIsPartial s")
    case True
    then have "drop 24 f = WAL_SEGMENT_PARTIAL_EXT @ CHR ''-'' # u" "drop 32 f = CHR ''-'' # u"
      using f assms(1) by (simp_all add: segment_stem_def WAL_SEGMENT_PARTIAL_EXT_def)
    then show ?thesis
      using assms(2) by (auto simp: segment_file_def WAL_SEGMENT_PARTIAL_EXT_def dest: hash_ext_dash)
  next
    case False
    then have "drop 24 f = CHR ''-'' # u" using f assms(1) by (simp add: segment_stem_def)
    then show ?thesis
      using assms(2) by (auto simp: segment_file_def WAL_SEGMENT_PARTIAL_EXT_def)
  qed
  then show ?thesis using f by (simp add: walSegmentExpression_match)
qed

lemma match_stem_dash:
  assumes "regExpMatch (walSegmentExpression s) f"
  shows "prefix (segment_stem s @ ''-'') f"
proof -
  have p: "prefix (segment_stem s) f" "hash_ext (drop (length (segment_stem s)) f)"
    using assms by (simp_all add: walSegmentExpression_match)
  then obtain t where f: "f = segment_stem s @ t" by (auto simp: prefix_def)
  then have "hash_ext t" using p(2) by simp
  then show ?thesis using f by (auto dest: hash_ext_dash simp: prefix_def)
qed

lemma match_take_24:
  assumes "24 \<le> length s" "regExpMatch (walSegmentExpression s) f"
  shows "take 24 f = take 24 s"
  using match_stem_dash [OF assms(2)] length_segment_stem [OF assms(1)] by (auto simp: prefix_def)

lemma match_between:
  assumes "24 \<le> length s" "segment_file y" "x \<le> y" "y \<le> z"
    "regExpMatch (walSegmentExpression s) x" "regExpMatch (walSegmentExpression s) z"
  shows "regExpMatch (walSegmentExpression s) y"
  using prefix_between [OF assms(3,4) match_stem_dash [OF assms(5)] match_stem_dash [OF assms(6)]]
    segment_file_match [OF assms(1,2)] by blast

lemma dropWhile_block:
  assumes "sorted xs" "\<And>x y z. y \<in> set xs \<Longrightarrow> x \<le> y \<Longrightarrow> y \<le> z \<Longrightarrow> P x \<Longrightarrow> P z \<Longrightarrow> P y"
  shows "takeWhile P (dropWhile (\<lambda>x. \<not> P x) xs) = filter P xs \<and>
    (\<forall>x\<in>set (dropWhile P (dropWhile (\<lambda>x. \<not> P x) xs)). \<not> P x)"
  using assms
proof (induction xs)
  case (Cons a xs)
  have s: "sorted xs" "\<forall>x\<in>set xs. a \<le> x" using Cons.prems(1) by simp_all
  have IH: "takeWhile P (dropWhile (\<lambda>x. \<not> P x) xs) = filter P xs \<and>
    (\<forall>x\<in>set (dropWhile P (dropWhile (\<lambda>x. \<not> P x) xs)). \<not> P x)"
  proof (rule Cons.IH [OF s(1)])
    show "P y" if "y \<in> set xs" "x \<le> y" "y \<le> z" "P x" "P z" for x y z
      by (rule Cons.prems(2) [OF _ that(2-5)]) (simp add: that(1))
  qed
  show ?case
  proof (cases "P a")
    case True
    have "\<not> P x" if x: "x \<in> set (dropWhile P xs)" for x
    proof
      assume "P x"
      obtain b ys where b: "dropWhile P xs = b # ys" "\<not> P b"
        using x hd_dropWhile [of P xs] by (cases "dropWhile P xs") (simp_all del: dropWhile_eq_Nil_conv)
      have "sorted (b # ys)" using sorted_dropWhile [OF s(1), of P] b(1) by simp
      then have "b \<le> x" using x b by auto
      moreover have "b \<in> set xs" using set_dropWhileD [of b P xs] b(1) by simp
      ultimately show False using Cons.prems(2) [of b a x] s(2) True \<open>P x\<close> b(2) by auto
    qed
    moreover from this have "takeWhile P xs = filter P xs"
    proof -
      have "filter P (takeWhile P xs) = takeWhile P xs" by (induction xs) simp_all
      moreover have "filter P (dropWhile P xs) = []"
        by (rule filter_False) (use \<open>\<And>x. x \<in> set (dropWhile P xs) \<Longrightarrow> \<not> P x\<close> in blast)
      moreover have "filter P xs = filter P (takeWhile P xs) @ filter P (dropWhile P xs)"
        by (simp only: filter_append [symmetric] takeWhile_dropWhile_id)
      ultimately show ?thesis by simp
    qed
    ultimately show ?thesis using True by simp
  next
    case False
    then show ?thesis using IH by (simp only: dropWhile.simps filter.simps if_True if_False simp_thms) blast
  qed
qed simp

subsection \<open>The cache\<close>

text \<open>
  The names that were removed from the cached listing so far belong to the last segment searched or to earlier
  ones.
\<close>

definition cache_ok :: "'c storage \<Rightarrow> WalSegmentFind \<Rightarrow> string \<Rightarrow> bool" where
  "cache_ok storage this lst \<longleftrightarrow>
    (case wsfList this of
       None \<Rightarrow> True
     | Some list \<Rightarrow>
         (case wsfPrefix this of
            None \<Rightarrow> False
          | Some p \<Rightarrow>
              (\<exists>removed. sort (storageListAll storage (REPO_ARCHIVE @ [wsfArchiveId this, p])) = removed @ list \<and>
                (\<forall>x\<in>set removed. take 24 x \<le> lst))))"

definition dirs_ok :: "'c storage \<Rightarrow> string \<Rightarrow> bool" where
  "dirs_ok storage archiveId \<longleftrightarrow>
    (\<forall>p f. f \<in> set (storageListAll storage (REPO_ARCHIVE @ [archiveId, p])) \<longrightarrow> segment_file f)"

lemma load_cached:
  assumes "\<not> wsfSingle this" "cache_ok storage this lst" "24 \<le> length s" "lst < take 24 s"
  obtains removed where
    "sort (storageListAll storage (REPO_ARCHIVE @ [wsfArchiveId this, take 16 s])) =
      removed @ walSegmentFind_load storage this s"
    "\<forall>x\<in>set removed. \<not> regExpMatch (walSegmentExpression s) x"
    "\<forall>x\<in>set removed. take 24 x \<le> lst"
proof (cases "wsfList this \<noteq> None \<and> wsfPrefix this = Some (take 16 s)")
  case True
  then obtain list where l: "wsfList this = Some list" "wsfPrefix this = Some (take 16 s)" by blast
  then obtain removed where r:
    "sort (storageListAll storage (REPO_ARCHIVE @ [wsfArchiveId this, take 16 s])) = removed @ list"
    "\<forall>x\<in>set removed. take 24 x \<le> lst"
    using assms(2) by (auto simp: cache_ok_def)
  have "\<forall>x\<in>set removed. \<not> regExpMatch (walSegmentExpression s) x"
    using r(2) assms(4) match_take_24 [OF assms(3)] by fastforce
  with r l that show ?thesis by (simp add: walSegmentFind_load_def Let_def)
next
  case False
  then have "walSegmentFind_load storage this s =
    sort (storageListAll storage (REPO_ARCHIVE @ [wsfArchiveId this, take 16 s]))"
    using assms(1) by (auto simp: walSegmentFind_load_def strLstSort_def Let_def split: option.splits)
  with that [of "[]"] show ?thesis by simp
qed

lemma round_cached:
  assumes "\<not> wsfSingle this"
  shows "walSegmentFind_round storage this s =
    (if length (takeWhile (regExpMatch (walSegmentExpression s))
          (dropWhile (\<lambda>x. \<not> regExpMatch (walSegmentExpression s) x) (walSegmentFind_load storage this s))) > 1
     then (this\<lparr>wsfPrefix := Some (take 16 s), wsfList := None\<rparr>, Inl ArchiveDuplicateError)
     else (this\<lparr>wsfPrefix := Some (take 16 s), wsfList :=
         if dropWhile (regExpMatch (walSegmentExpression s))
           (dropWhile (\<lambda>x. \<not> regExpMatch (walSegmentExpression s) x) (walSegmentFind_load storage this s)) = []
         then None
         else Some (dropWhile (regExpMatch (walSegmentExpression s))
           (dropWhile (\<lambda>x. \<not> regExpMatch (walSegmentExpression s) x) (walSegmentFind_load storage this s)))\<rparr>,
       Inr (if length (takeWhile (regExpMatch (walSegmentExpression s))
           (dropWhile (\<lambda>x. \<not> regExpMatch (walSegmentExpression s) x) (walSegmentFind_load storage this s))) = 1
         then Some (hd (dropWhile (\<lambda>x. \<not> regExpMatch (walSegmentExpression s) x) (walSegmentFind_load storage this s)))
         else None)))"
  using assms unfolding walSegmentFind_round_def Let_def
  by (cases this) (simp only: WalSegmentFind.simps if_False simp_thms)

lemma cached_round:
  assumes "\<not> wsfSingle this" "cache_ok storage this lst" "24 \<le> length s" "lst < take 24 s"
    "dirs_ok storage (wsfArchiveId this)"
  shows "snd (walSegmentFind_round storage this s) = segmentLookup storage (wsfArchiveId this) s"
    "cache_ok storage (fst (walSegmentFind_round storage this s)) (take 24 s)"
proof -
  let ?P = "regExpMatch (walSegmentExpression s)"
  let ?L = "sort (storageListAll storage (REPO_ARCHIVE @ [wsfArchiveId this, take 16 s]))"
  define list where "list = walSegmentFind_load storage this s"
  obtain removed where r: "?L = removed @ list" "\<forall>x\<in>set removed. \<not> ?P x" "\<forall>x\<in>set removed. take 24 x \<le> lst"
    using load_cached [OF assms(1-4)] unfolding list_def by blast
  have files: "filter ?P list = segmentFiles storage (wsfArchiveId this) s"
  proof -
    have "filter ?P ?L = filter ?P list" using r(1,2) by simp
    then show ?thesis by (simp add: segmentFiles_def storageList_def filter_sort)
  qed
  have "sorted list" using r(1) sorted_sort [of "storageListAll storage (REPO_ARCHIVE @ [wsfArchiveId this, take 16 s])"]
    by (simp add: sorted_append)
  moreover have "segment_file y" if "y \<in> set list" for y
  proof -
    have "y \<in> set ?L" using that r(1) by simp
    then show ?thesis using assms(5) by (auto simp: dirs_ok_def)
  qed
  ultimately have block: "takeWhile ?P (dropWhile (\<lambda>x. \<not> ?P x) list) = filter ?P list"
    using dropWhile_block [of list ?P] match_between [OF assms(3)] by blast
  define rest where "rest = dropWhile ?P (dropWhile (\<lambda>x. \<not> ?P x) list)"
  have round: "walSegmentFind_round storage this s =
    (if length (filter ?P list) > 1 then (this\<lparr>wsfPrefix := Some (take 16 s), wsfList := None\<rparr>, Inl ArchiveDuplicateError)
     else (this\<lparr>wsfPrefix := Some (take 16 s), wsfList := if rest = [] then None else Some rest\<rparr>,
       Inr (if length (filter ?P list) = 1 then Some (hd (dropWhile (\<lambda>x. \<not> ?P x) list)) else None)))"
    using round_cached [OF assms(1), of storage s] unfolding list_def [symmetric] block rest_def [symmetric] .
  have hd: "hd (dropWhile (\<lambda>x. \<not> ?P x) list) = hd (filter ?P list)" if "filter ?P list \<noteq> []"
    using that block [symmetric] by (metis hd_append takeWhile_dropWhile_id)
  show "snd (walSegmentFind_round storage this s) = segmentLookup storage (wsfArchiveId this) s"
    unfolding round using hd by (auto simp: files segmentLookup_def split: list.splits)
  have "cache_ok storage (this\<lparr>wsfPrefix := Some (take 16 s), wsfList := Some rest\<rparr>) (take 24 s)" if ne: "rest \<noteq> []"
  proof -
    let ?rm = "takeWhile (\<lambda>x. \<not> ?P x) list @ filter ?P list"
    have l: "list = ?rm @ rest"
      unfolding rest_def block [symmetric] by simp
    have "take 24 x \<le> take 24 s" if x: "x \<in> set ?rm" for x
    proof (cases "?P x")
      case True
      then show ?thesis using match_take_24 [OF assms(3)] by simp
    next
      case False
      then have x': "x \<in> set (takeWhile (\<lambda>x. \<not> ?P x) list)" using x by auto
      have "dropWhile (\<lambda>x. \<not> ?P x) list \<noteq> []" using ne unfolding rest_def by (metis dropWhile.simps(1))
      then obtain m ms where m: "dropWhile (\<lambda>x. \<not> ?P x) list = m # ms" "?P m"
        using hd_dropWhile [of "\<lambda>x. \<not> ?P x" list] by (cases "dropWhile (\<lambda>x. \<not> ?P x) list") auto
      then have "sorted (takeWhile (\<lambda>x. \<not> ?P x) list @ m # ms)"
        using \<open>sorted list\<close> by (metis takeWhile_dropWhile_id)
      then have "x \<le> m" using x' by (simp add: sorted_append)
      then show ?thesis using take_mono_list [of x m 24] match_take_24 [OF assms(3) m(2)] by simp
    qed
    moreover have "take 24 x \<le> take 24 s" if "x \<in> set removed" for x
      using r(3) that assms(4) by (meson order_trans less_imp_le)
    ultimately have "\<forall>x\<in>set (removed @ ?rm). take 24 x \<le> take 24 s" by auto
    moreover have "?L = (removed @ ?rm) @ rest" using r(1) l by simp
    ultimately show ?thesis unfolding cache_ok_def by (simp del: set_append)
  qed
  then show "cache_ok storage (fst (walSegmentFind_round storage this s)) (take 24 s)"
    unfolding round by (auto simp: cache_ok_def)
qed

text \<open>A sequence of searches with one object.\<close>

fun walSegmentFind_list :: "'c storage \<Rightarrow> WalSegmentFind \<Rightarrow> string list \<Rightarrow> ((string option) res) list" where
  "walSegmentFind_list storage this [] = []"
| "walSegmentFind_list storage this (s # segs) =
    (case walSegmentFind [storage] this s of (this', r) \<Rightarrow> r # walSegmentFind_list storage this' segs)"

lemma walSegmentFind_one_round:
  "walSegmentFind [storage] this s =
    (fst (walSegmentFind_round storage this s),
     if snd (walSegmentFind_round storage this s) = Inr None \<and> wsfTimeout this \<noteq> 0 then Inl ArchiveTimeoutError
     else snd (walSegmentFind_round storage this s))"
  by (cases "walSegmentFind_round storage this s")
    (auto simp: walSegmentFind_def split: sum.splits option.splits)

lemma round_keeps [simp]:
  "wsfSingle (fst (walSegmentFind_round storage this s)) = wsfSingle this"
  "wsfArchiveId (fst (walSegmentFind_round storage this s)) = wsfArchiveId this"
  "wsfTimeout (fst (walSegmentFind_round storage this s)) = wsfTimeout this"
  unfolding walSegmentFind_round_def Let_def by (auto split: if_splits)

lemma find_list_cached:
  assumes "\<not> wsfSingle this" "cache_ok storage this lst" "dirs_ok storage (wsfArchiveId this)"
    "\<forall>s\<in>set segs. 24 \<le> length s" "sorted_wrt (<) (lst # map (take 24) segs)"
  shows "walSegmentFind_list storage this segs =
    map (segmentLookup_first [storage] (wsfArchiveId this) (wsfTimeout this)) segs"
  using assms
proof (induction segs arbitrary: this lst)
  case (Cons s segs)
  have lt: "lst < take 24 s" using Cons.prems(5) by simp
  have len: "24 \<le> length s" using Cons.prems(4) by simp
  note round = cached_round [OF Cons.prems(1,2) len lt Cons.prems(3)]
  have "walSegmentFind_list storage (fst (walSegmentFind_round storage this s)) segs =
    map (segmentLookup_first [storage] (wsfArchiveId this) (wsfTimeout this)) segs"
    using Cons.IH [of "fst (walSegmentFind_round storage this s)" "take 24 s"] Cons.prems round by simp
  then show ?case by (simp add: walSegmentFind_one_round round(1))
qed simp

text \<open>
  C37: Searching with the cached listing finds the same as a separate listing for each segment: for segments in
  ascending order and a directory whose files have well-formed names, a sequence of searches with one object gives
  for every segment the answer of a search for it alone, duplicates and timeouts included.
\<close>

theorem walSegmentFind_cache_equiv:
  assumes "dirs_ok storage archiveId" "\<forall>s\<in>set segs. 24 \<le> length s" "sorted_wrt (<) (map (take 24) segs)"
  shows "walSegmentFind_list storage (walSegmentFindNew archiveId False timeout) segs =
    map (\<lambda>s. walSegmentFindOne [storage] archiveId s timeout) segs"
proof -
  show ?thesis
  proof (cases segs)
    case (Cons s ss)
    have "sorted_wrt (<) ([] # map (take 24) segs)"
    proof -
      have "[] < take 24 x" if "x \<in> set segs" for x
        using assms(2) that by (cases x) auto
      then show ?thesis using assms(3) by simp
    qed
    then show ?thesis
      using find_list_cached [of "walSegmentFindNew archiveId False timeout" storage "[]" segs] assms(1,2)
      by (simp add: walSegmentFindNew_def cache_ok_def walSegmentFindOne_eq)
  qed simp
qed

text \<open>An archive with one segment on each side of a missing one.\<close>

definition sample_archive :: "unit storage" where
  "sample_archive =
    [(REPO_ARCHIVE @ [''10-1'', ''0000000100000001'', ''000000010000000100000003-'' @ replicate 40 (CHR ''b'')], ()),
     (REPO_ARCHIVE @ [''10-1'', ''0000000100000001'', ''000000010000000100000001-'' @ replicate 40 (CHR ''a'') @ ''.gz''], ())]"

lemma sample_archive_ok: "dirs_ok sample_archive ''10-1''"
proof -
  have "segment_file (''000000010000000100000003-'' @ replicate 40 (CHR ''b''))"
    "segment_file (''000000010000000100000001-'' @ replicate 40 (CHR ''a'') @ ''.gz'')"
    by code_simp+
  then show ?thesis
    by (auto simp: dirs_ok_def in_storageListAll storageExists_def sample_archive_def REPO_ARCHIVE_def)
qed

theorem walSegmentFind_cache_equiv_witness:
  "walSegmentFind_list sample_archive (walSegmentFindNew ''10-1'' False 0)
      [''000000010000000100000001'', ''000000010000000100000002'', ''000000010000000100000003''] =
    map (\<lambda>s. walSegmentFindOne [sample_archive] ''10-1'' s 0)
      [''000000010000000100000001'', ''000000010000000100000002'', ''000000010000000100000003'']"
  by (rule walSegmentFind_cache_equiv [OF sample_archive_ok]) simp_all

text \<open>
  A left-over temporary file between two copies of a segment hides the duplicate from the cached search: the search
  for the one segment reports it, the cached search returns the first copy.
\<close>

lemma walSegmentFind_hidden_duplicate:
  "let seg = ''000000010000000100000001'';
       file = (\<lambda>n. (REPO_ARCHIVE @ [''10-1'', ''0000000100000001'', seg @ n], ()));
       storage = [file (CHR ''-'' # replicate 40 (CHR ''a'')), file (CHR ''-'' # replicate 40 (CHR ''a'') @ ''.gz.pgbackrest.tmp''),
         file (CHR ''-'' # replicate 40 (CHR ''b''))]
   in walSegmentFindOne [storage] ''10-1'' seg 0 = Inl ArchiveDuplicateError \<and>
      walSegmentFind_list storage (walSegmentFindNew ''10-1'' False 0) [seg] =
        [Inr (Some (seg @ CHR ''-'' # replicate 40 (CHR ''a'')))]"
  by code_simp

end
