(* ===== verification/ArchiveAsync.thy ===== *)
theory ArchiveAsync
  imports Storage Convert
begin

text \<open>
  The status files of asynchronous archiving: the \<^verbatim>\<open>archiveAsync*\<close> functions of
  \<^verbatim>\<open>src/src/command/archive/common.c\<close>.  The worker of archive-push and archive-get reports on a WAL segment
  by a file \<^verbatim>\<open>SEGMENT.ok\<close>, \<^verbatim>\<open>SEGMENT.error\<close> or \<^verbatim>\<open>global.error\<close> in its spool queue; the foreground process
  polls for them.

  The spool is a storage of texts with paths below \<^verbatim>\<open><SPOOL:ARCHIVE>\<close>.  An error is kept with its message,
  a warning that the code logs is part of the result.
\<close>

section \<open>Definitions\<close>

datatype ArchiveMode = archiveModeGet | archiveModePush

type_synonym spool = "string storage"
type_synonym 'a msg_res = "(error \<times> string) + 'a"

definition STORAGE_SPOOL_ARCHIVE_IN :: string where
  "STORAGE_SPOOL_ARCHIVE_IN = ''in''"

definition STORAGE_SPOOL_ARCHIVE_OUT :: string where
  "STORAGE_SPOOL_ARCHIVE_OUT = ''out''"

definition STATUS_EXT_ERROR :: string where
  "STATUS_EXT_ERROR = ''.error''"

definition STATUS_EXT_OK :: string where
  "STATUS_EXT_OK = ''.ok''"

definition STATUS_FILE_GLOBAL :: string where
  "STATUS_FILE_GLOBAL = ''global''"

definition archiveAsyncSpoolQueue :: "ArchiveMode \<Rightarrow> string" where
  "archiveAsyncSpoolQueue archiveMode =
    (if archiveMode = archiveModeGet then STORAGE_SPOOL_ARCHIVE_IN else STORAGE_SPOOL_ARCHIVE_OUT)"

text \<open>The code does not look at the mode here.\<close>

definition archiveAsyncErrorClear :: "ArchiveMode \<Rightarrow> string \<Rightarrow> spool \<Rightarrow> spool" where
  "archiveAsyncErrorClear archiveMode archiveFile spool =
    storageRemove
      (storageRemove spool [STORAGE_SPOOL_ARCHIVE_OUT, archiveFile @ STATUS_EXT_ERROR])
      [STORAGE_SPOOL_ARCHIVE_OUT, STATUS_FILE_GLOBAL @ STATUS_EXT_ERROR]"

text \<open>\<^verbatim>\<open>strTrim\<close>, and the text of a string up to its first zero byte, which is what \<^verbatim>\<open>strchr\<close> and \<^verbatim>\<open>strlen\<close> see.\<close>

definition trim_char :: "char \<Rightarrow> bool" where
  "trim_char c \<longleftrightarrow> c = CHR '' '' \<or> c = CHR 0x09 \<or> c = CHR 0x0D \<or> c = CHR 0x0A"

definition strTrim :: "string \<Rightarrow> string" where
  "strTrim s = rev (dropWhile trim_char (rev (dropWhile trim_char s)))"

definition cstr :: "string \<Rightarrow> string" where
  "cstr = takeWhile (\<lambda>c. c \<noteq> CHR 0x00)"

text \<open>The code and message of a status file: \<open>0\<close> and no message when it is empty.\<close>

definition statusContent :: "string \<Rightarrow> string \<Rightarrow> (int \<times> string option) msg_res" where
  "statusContent statusFile content =
    (if content = [] then Inr (0, None)
     else
       (let line = takeWhile (\<lambda>c. c \<noteq> CHR 0x0A) (cstr content);
            linefeedPtr = drop (length line) (cstr content)
        in if linefeedPtr = [] then Inl (FormatError, statusFile @ '' content must have at least two lines'')
           else if tl linefeedPtr = [] then Inl (FormatError, statusFile @ '' message must be > 0'')
           else
             (case cvtZToInt line of
                Inl e \<Rightarrow> Inl (e, ''unable to convert base 10 string '' @ CHR 0x27 # line @ CHR 0x27 # '' to int'')
              | Inr code \<Rightarrow> Inr (code, Some (strTrim (tl linefeedPtr))))))"

definition skippedWarning :: "string \<Rightarrow> int \<Rightarrow> string \<Rightarrow> string" where
  "skippedWarning walSegment code message =
    ''WAL segment '' @ CHR 0x27 # walSegment @ CHR 0x27 # '' was not pushed due to error ['' @ fmt_d code
      @ ''] and was manually skipped: '' @ message"

definition archiveAsyncStatus ::
  "spool \<Rightarrow> ArchiveMode \<Rightarrow> string \<Rightarrow> bool \<Rightarrow> bool \<Rightarrow> (bool \<times> string option) msg_res" where
  "archiveAsyncStatus spool archiveMode walSegment throwOnError warnOnOk =
    (let spoolQueue = archiveAsyncSpoolQueue archiveMode;
         okFile = walSegment @ STATUS_EXT_OK;
         okFileExists = storageExists spool [spoolQueue, okFile];
         errorFile = walSegment @ STATUS_EXT_ERROR;
         errorFile =
           (if storageExists spool [spoolQueue, errorFile] then errorFile else STATUS_FILE_GLOBAL @ STATUS_EXT_ERROR);
         statusFile = (if okFileExists then okFile else errorFile)
     in case storageContent spool [spoolQueue, statusFile] of
          None \<Rightarrow> Inr (False, None)
        | Some content \<Rightarrow>
            (case statusContent statusFile content of
               Inl e \<Rightarrow> Inl e
             | Inr (code, message) \<Rightarrow>
                 if okFileExists then
                   Inr (True,
                     if content \<noteq> [] \<and> warnOnOk
                     then Some (if code \<noteq> 0 then skippedWarning walSegment code (the message) else the message)
                     else None)
                 else if throwOnError then
                   if content = [] then
                     Inl (AssertError, ''status file '' @ CHR 0x27 # statusFile @ CHR 0x27 # '' has no content'')
                   else Inl (ErrorCode code, the message)
                 else Inr (False, None)))"

definition archiveAsyncStatusErrorWrite :: "ArchiveMode \<Rightarrow> string option \<Rightarrow> int \<Rightarrow> string \<Rightarrow> spool \<Rightarrow> spool" where
  "archiveAsyncStatusErrorWrite archiveMode walSegment code message spool =
    (let errorFile = (case walSegment of None \<Rightarrow> STATUS_FILE_GLOBAL | Some s \<Rightarrow> s)
     in storagePut spool [archiveAsyncSpoolQueue archiveMode, errorFile @ STATUS_EXT_ERROR]
          (fmt_d code @ CHR 0x0A # message))"

definition archiveAsyncStatusOkWrite :: "ArchiveMode \<Rightarrow> string \<Rightarrow> string option \<Rightarrow> spool \<Rightarrow> spool" where
  "archiveAsyncStatusOkWrite archiveMode walSegment warning spool =
    storagePut spool [archiveAsyncSpoolQueue archiveMode, walSegment @ STATUS_EXT_OK]
      (case warning of None \<Rightarrow> [] | Some w \<Rightarrow> CHR ''0'' # CHR 0x0A # w)"

lemmas spool_defs = STORAGE_SPOOL_ARCHIVE_IN_def STORAGE_SPOOL_ARCHIVE_OUT_def STATUS_EXT_ERROR_def
  STATUS_EXT_OK_def STATUS_FILE_GLOBAL_def

section \<open>Reading back what was written\<close>

lemma fmt_d_chars: "c \<in> set (fmt_d i) \<Longrightarrow> c \<noteq> CHR 0x0A \<and> c \<noteq> CHR 0x00"
proof -
  have "is_digit_in 10 c \<Longrightarrow> c \<noteq> CHR 0x0A \<and> c \<noteq> CHR 0x00" for c
    by (auto simp: is_digit_in_def digit_of_char_def)
  then show "c \<in> set (fmt_d i) \<Longrightarrow> c \<noteq> CHR 0x0A \<and> c \<noteq> CHR 0x00"
    using fmt_u_digits [of c] by (cases "i < 0") (auto simp: fmt_d_def)
qed

lemma takeWhile_until: "\<forall>x\<in>set xs. P x \<Longrightarrow> \<not> P y \<Longrightarrow> takeWhile P (xs @ y # ys) = xs"
  by (induction xs) auto

lemma cstr_id: "CHR 0x00 \<notin> set s \<Longrightarrow> cstr s = s"
  by (auto simp: cstr_def takeWhile_eq_all_conv)

lemma statusContent_written:
  assumes "- (2 ^ 31) \<le> code" "code < 2 ^ 31" "message \<noteq> []" "CHR 0x00 \<notin> set message"
  shows "statusContent f (fmt_d code @ CHR 0x0A # message) = Inr (code, Some (strTrim message))"
proof -
  let ?s = "fmt_d code @ CHR 0x0A # message"
  have c: "cstr ?s = ?s" using assms(4) fmt_d_chars by (intro cstr_id) auto
  have tw: "takeWhile (\<lambda>c. c \<noteq> CHR 0x0A) ?s = fmt_d code"
    by (rule takeWhile_until) (use fmt_d_chars in auto)
  show ?thesis
    using assms(3) cvtZToInt_fmt_d [OF assms(1,2)] by (simp add: statusContent_def c tw)
qed

lemma fmt_d_zero [simp]: "fmt_d 0 = ''0''"
  by (simp add: fmt_d_def fmt_u_def digits_of.simps digit_lower_def) code_simp

lemma statusContent_warning:
  assumes "message \<noteq> []" "CHR 0x00 \<notin> set message"
  shows "statusContent f (CHR ''0'' # CHR 0x0A # message) = Inr (0, Some (strTrim message))"
  using statusContent_written [of 0 message f] assms by simp

lemma status_files_differ [simp]:
  "s @ STATUS_EXT_OK \<noteq> t @ STATUS_EXT_ERROR"
  by (auto simp: STATUS_EXT_OK_def STATUS_EXT_ERROR_def dest: arg_cong [where f = last])

lemma status_exts_differ [simp]: "STATUS_EXT_OK \<noteq> STATUS_EXT_ERROR" "STATUS_EXT_ERROR \<noteq> STATUS_EXT_OK"
  by (simp_all add: STATUS_EXT_OK_def STATUS_EXT_ERROR_def)

lemma queues_differ [simp]: "STORAGE_SPOOL_ARCHIVE_IN \<noteq> STORAGE_SPOOL_ARCHIVE_OUT"
  by (simp add: spool_defs)

text \<open>What the status is, by which of the three files exist.\<close>

lemma archiveAsyncStatus_none:
  assumes "\<not> storageExists spool [archiveAsyncSpoolQueue mode, s @ STATUS_EXT_OK]"
    "\<not> storageExists spool [archiveAsyncSpoolQueue mode, s @ STATUS_EXT_ERROR]"
    "\<not> storageExists spool [archiveAsyncSpoolQueue mode, STATUS_FILE_GLOBAL @ STATUS_EXT_ERROR]"
  shows "archiveAsyncStatus spool mode s throw warn = Inr (False, None)"
  using assms by (simp add: archiveAsyncStatus_def storageExists_get)

lemma archiveAsyncStatus_ok:
  assumes "storageContent spool [archiveAsyncSpoolQueue mode, s @ STATUS_EXT_OK] = Some content"
  shows "archiveAsyncStatus spool mode s throw warn =
    (case statusContent (s @ STATUS_EXT_OK) content of
       Inl e \<Rightarrow> Inl e
     | Inr (code, message) \<Rightarrow>
         Inr (True,
           if content \<noteq> [] \<and> warn
           then Some (if code \<noteq> 0 then skippedWarning s code (the message) else the message) else None))"
  using assms by (auto simp: archiveAsyncStatus_def storageExists_get Let_def split: sum.splits)

lemma archiveAsyncStatus_error:
  assumes "\<not> storageExists spool [archiveAsyncSpoolQueue mode, s @ STATUS_EXT_OK]"
    "f = (if storageExists spool [archiveAsyncSpoolQueue mode, s @ STATUS_EXT_ERROR] then s else STATUS_FILE_GLOBAL)"
    "storageContent spool [archiveAsyncSpoolQueue mode, f @ STATUS_EXT_ERROR] = Some content" "content \<noteq> []"
    "statusContent (f @ STATUS_EXT_ERROR) content = Inr (code, Some message)"
  shows "archiveAsyncStatus spool mode s throw warn = (if throw then Inl (ErrorCode code, message) else Inr (False, None))"
  using assms by (auto simp: archiveAsyncStatus_def Let_def split: if_splits)

lemma archiveAsyncStatus_ok_exists:
  "archiveAsyncStatus spool mode s throw warn = Inr (True, w) \<Longrightarrow>
    storageExists spool [archiveAsyncSpoolQueue mode, s @ STATUS_EXT_OK]"
  by (auto simp: archiveAsyncStatus_def Let_def split: if_splits option.splits sum.splits)

lemma archiveAsyncStatus_cong:
  assumes "\<And>f. f = s @ STATUS_EXT_OK \<or> f = s @ STATUS_EXT_ERROR \<or> f = STATUS_FILE_GLOBAL @ STATUS_EXT_ERROR \<Longrightarrow>
    storageContent spool' [archiveAsyncSpoolQueue mode, f] = storageContent spool [archiveAsyncSpoolQueue mode, f]"
  shows "archiveAsyncStatus spool' mode s throw warn = archiveAsyncStatus spool mode s throw warn"
proof -
  note eqs = assms [OF disjI1, OF refl] assms [OF disjI2, OF disjI1, OF refl] assms [OF disjI2, OF disjI2, OF refl]
  have ex: "storageExists spool' [archiveAsyncSpoolQueue mode, s @ STATUS_EXT_OK] =
      storageExists spool [archiveAsyncSpoolQueue mode, s @ STATUS_EXT_OK]"
    "storageExists spool' [archiveAsyncSpoolQueue mode, s @ STATUS_EXT_ERROR] =
      storageExists spool [archiveAsyncSpoolQueue mode, s @ STATUS_EXT_ERROR]"
    by (simp_all only: storageExists_get eqs)
  show ?thesis
    unfolding archiveAsyncStatus_def Let_def ex
    by (cases "storageExists spool [archiveAsyncSpoolQueue mode, s @ STATUS_EXT_OK]";
        cases "storageExists spool [archiveAsyncSpoolQueue mode, s @ STATUS_EXT_ERROR]")
      (simp_all only: if_True if_False eqs)
qed

text \<open>
  C39: What the worker writes is what the foreground process reads.  An error written for a segment that has no ok
  file is thrown with its code and trimmed message; a global error is thrown for every segment that has neither an
  ok nor an error file of its own; an ok file counts even beside error files and returns its warning; with no
  status file the segment is pending.  Writing a status for one segment never changes the status of another.
\<close>

theorem archiveAsyncStatus_protocol:
  assumes "- (2 ^ 31) \<le> code" "code < 2 ^ 31" "message \<noteq> []" "CHR 0x00 \<notin> set message"
  shows "(\<not> storageExists spool [archiveAsyncSpoolQueue mode, s @ STATUS_EXT_OK] \<longrightarrow>
      archiveAsyncStatus (archiveAsyncStatusErrorWrite mode (Some s) code message spool) mode s True warn =
        Inl (ErrorCode code, strTrim message)) \<and>
    (\<not> storageExists spool [archiveAsyncSpoolQueue mode, s @ STATUS_EXT_OK] \<and>
      \<not> storageExists spool [archiveAsyncSpoolQueue mode, s @ STATUS_EXT_ERROR] \<longrightarrow>
      archiveAsyncStatus (archiveAsyncStatusErrorWrite mode None code message spool) mode s True warn =
        Inl (ErrorCode code, strTrim message)) \<and>
    archiveAsyncStatus (archiveAsyncStatusOkWrite mode s (Some message) spool) mode s throw True =
        Inr (True, Some (strTrim message)) \<and>
    archiveAsyncStatus (archiveAsyncStatusOkWrite mode s None spool) mode s throw warn = Inr (True, None) \<and>
    (t \<noteq> s \<and> s \<noteq> STATUS_FILE_GLOBAL \<longrightarrow>
      archiveAsyncStatus (archiveAsyncStatusErrorWrite mode (Some s) code message spool) mode t throw warn =
        archiveAsyncStatus spool mode t throw warn \<and>
      archiveAsyncStatus (archiveAsyncStatusOkWrite mode s w spool) mode t throw warn =
        archiveAsyncStatus spool mode t throw warn)"
proof (intro conjI, goal_cases)
  note written = statusContent_written [OF assms]
  have ne: "fmt_d code @ CHR 0x0A # message \<noteq> []" by simp
  note thrown = archiveAsyncStatus_error [OF _ refl _ ne]
  case 1
  show ?case
    using archiveAsyncStatus_error [of "archiveAsyncStatusErrorWrite mode (Some s) code message spool" mode s s
        "fmt_d code @ CHR 0x0A # message" code "strTrim message" True warn] written
    by (simp add: archiveAsyncStatusErrorWrite_def)
  case 2
  show ?case by (auto simp: thrown written archiveAsyncStatusErrorWrite_def)
  case 3
  show ?case by (simp add: archiveAsyncStatus_ok archiveAsyncStatusOkWrite_def statusContent_warning [OF assms(3,4)])
  case 4
  show ?case by (simp add: archiveAsyncStatus_ok archiveAsyncStatusOkWrite_def statusContent_def)
  case 5
  show ?case
    by (auto intro!: archiveAsyncStatus_cong
        simp: archiveAsyncStatusErrorWrite_def archiveAsyncStatusOkWrite_def status_files_differ [symmetric])
qed

theorem archiveAsyncStatus_protocol_witness:
  "archiveAsyncStatus (archiveAsyncStatusErrorWrite archiveModePush (Some ''0001'') 45 ''duplicate '' [])
     archiveModePush ''0001'' True True = Inl (ErrorCode 45, ''duplicate'')"
  using archiveAsyncStatus_protocol [of 45 "''duplicate ''" "[]" archiveModePush "''0001''" True]
  by (simp add: storageExists_def strTrim_def trim_char_def)

text \<open>
  Clearing errors before the worker is started removes every error the foreground process of archive-push could
  read for the file, and keeps its ok file.  For archive-get it has no effect at all on what the foreground process
  reads, since the files of the push queue are removed whatever the mode.
\<close>

theorem archiveAsyncErrorClear_effect:
  "(\<not> storageExists spool [archiveAsyncSpoolQueue archiveModePush, f @ STATUS_EXT_OK] \<longrightarrow>
      archiveAsyncStatus (archiveAsyncErrorClear mode f spool) archiveModePush f throw warn = Inr (False, None)) \<and>
   storageContent (archiveAsyncErrorClear mode f spool) [archiveAsyncSpoolQueue archiveModePush, f @ STATUS_EXT_OK] =
      storageContent spool [archiveAsyncSpoolQueue archiveModePush, f @ STATUS_EXT_OK] \<and>
   archiveAsyncStatus (archiveAsyncErrorClear archiveModeGet f spool) archiveModeGet s throw warn =
      archiveAsyncStatus spool archiveModeGet s throw warn"
proof (intro conjI, goal_cases)
  have out: "archiveAsyncSpoolQueue archiveModePush = STORAGE_SPOOL_ARCHIVE_OUT"
    "archiveAsyncSpoolQueue archiveModeGet = STORAGE_SPOOL_ARCHIVE_IN"
    by (simp_all add: archiveAsyncSpoolQueue_def)
  case 1
  show ?case by (auto intro!: archiveAsyncStatus_none simp: out archiveAsyncErrorClear_def)
  case 2
  show ?case by (simp add: archiveAsyncErrorClear_def)
  case 3
  show ?case by (rule archiveAsyncStatus_cong) (simp add: out archiveAsyncErrorClear_def)
qed

theorem archiveAsyncErrorClear_effect_witness:
  "archiveAsyncStatus (archiveAsyncErrorClear archiveModePush ''0001'' [([''out'', ''0001.error''], ''45'')])
     archiveModePush ''0001'' True True = Inr (False, None)"
  using archiveAsyncErrorClear_effect
    [of "[([''out'', ''0001.error''], ''45'')]" "''0001''" archiveModePush True True]
  by (simp add: storageExists_def spool_defs archiveAsyncSpoolQueue_def)

end
