(* ===== verification/ArchivePush.thy ===== *)
theory ArchivePush
  imports WalFind ArchiveAsync Wait
begin

text \<open>
  The queue of archive-push: \<^verbatim>\<open>src/src/command/archive/push/push.c\<close> and \<^verbatim>\<open>strLstMergeAnti\<close> of
  \<^verbatim>\<open>src/src/common/type/stringList.c\<close>.  PostgreSQL marks a WAL file to archive by a file \<^verbatim>\<open>FILE.ready\<close> in
  \<^verbatim>\<open>archive_status\<close>; the worker pushes the files that have no ok file in the spool.
\<close>

section \<open>The process list\<close>

subsection \<open>Definitions\<close>

fun strLstMergeAnti :: "string list \<Rightarrow> string list \<Rightarrow> string list" where
  "strLstMergeAnti [] anti = []"
| "strLstMergeAnti (x # xs) [] = x # strLstMergeAnti xs []"
| "strLstMergeAnti (x # xs) (a # anti) =
    (if x < a then x # strLstMergeAnti xs (a # anti)
     else if x = a then strLstMergeAnti xs anti
     else strLstMergeAnti (x # xs) anti)"

definition STATUS_EXT_READY :: string where
  "STATUS_EXT_READY = ''.ready''"

text \<open>Remove the extension of a name that has it.\<close>

definition stripExt :: "string \<Rightarrow> string \<Rightarrow> string" where
  "stripExt ext s = take (length s - length ext) s"

text \<open>
  \<open>archiveStatus\<close> is the listing of the directory \<^verbatim>\<open>archive_status\<close>, \<open>None\<close> when it does not exist; the expression
  \<^verbatim>\<open>\.ready$\<close> matches a name that ends so.
\<close>

definition archivePushReadyList :: "string list option \<Rightarrow> (string list) res" where
  "archivePushReadyList archiveStatus =
    (case archiveStatus of
       None \<Rightarrow> Inl PathMissingError
     | Some names \<Rightarrow>
         Inr (map (stripExt STATUS_EXT_READY) (strLstSort (filter (suffix STATUS_EXT_READY) names) sortOrderAsc)))"

definition removeStatusFiles :: "spool \<Rightarrow> string list \<Rightarrow> spool" where
  "removeStatusFiles spool files = foldl (\<lambda>sp f. storageRemove sp [STORAGE_SPOOL_ARCHIVE_OUT, f]) spool files"

text \<open>The queue path is created when it is missing, so an empty listing is not an error.\<close>

definition archivePushProcessList :: "spool \<Rightarrow> string list option \<Rightarrow> spool \<times> (string list) res" where
  "archivePushProcessList spool archiveStatus =
    (let statusList = strLstSort (storageListAll spool [STORAGE_SPOOL_ARCHIVE_OUT]) sortOrderAsc;
         okList = map (stripExt STATUS_EXT_OK) (filter (suffix STATUS_EXT_OK) statusList);
         spool = removeStatusFiles spool (filter (\<lambda>f. \<not> suffix STATUS_EXT_OK f) statusList)
     in case archivePushReadyList archiveStatus of
          Inl e \<Rightarrow> (spool, Inl e)
        | Inr readyList \<Rightarrow>
            (removeStatusFiles spool (map (\<lambda>f. f @ STATUS_EXT_OK) (strLstMergeAnti okList readyList)),
             Inr (strLstMergeAnti readyList okList)))"

text \<open>\<open>walFileSize\<close> is the size that \<^verbatim>\<open>storageInfoP\<close> reports for a file of the WAL directory.\<close>

definition archivePushDrop :: "(string \<Rightarrow> u64 option) \<Rightarrow> u64 \<Rightarrow> string list \<Rightarrow> bool res" where
  "archivePushDrop walFileSize queueMax processList =
    (case processList of
       [] \<Rightarrow> Inr (0 > queueMax)
     | f # fs \<Rightarrow>
         (case walFileSize f of
            None \<Rightarrow> Inl FileMissingError
          | Some size' \<Rightarrow> Inr (size' * of_nat (length processList) > queueMax)))"

subsection \<open>Merging\<close>

lemma strLstMergeAnti_filter:
  assumes "sorted_wrt (<) xs" "sorted anti"
  shows "strLstMergeAnti xs anti = filter (\<lambda>x. x \<notin> set anti) xs"
  using assms
proof (induction xs anti rule: strLstMergeAnti.induct)
  case (2 x xs)
  then show ?case by simp
next
  case (3 x xs a anti)
  show ?case
  proof (cases x a rule: linorder_cases)
    case less
    then have "x \<notin> set (a # anti)" using "3.prems"(2) by auto
    then show ?thesis using 3 less by simp
  next
    case equal
    then have "filter (\<lambda>y. y \<notin> set (a # anti)) xs = filter (\<lambda>y. y \<notin> set anti) xs"
      using "3.prems"(1) by (intro filter_cong) auto
    then show ?thesis using 3 equal by simp
  next
    case greater
    then have "filter (\<lambda>y. y \<notin> set (a # anti)) (x # xs) = filter (\<lambda>y. y \<notin> set anti) (x # xs)"
      using "3.prems"(1) by (intro filter_cong) auto
    moreover have n: "\<not> x < a" "x \<noteq> a" using greater by auto
    moreover have "strLstMergeAnti (x # xs) anti = filter (\<lambda>y. y \<notin> set anti) (x # xs)"
      using "3.IH"(3) [OF n] "3.prems" by simp
    ultimately show ?thesis by (simp only: strLstMergeAnti.simps if_False)
  qed
qed simp

text \<open>
  The lists that are merged are sorted before the extension is cut off.  They are still sorted after it when no name
  is a proper prefix of another.
\<close>

definition prefix_free :: "string set \<Rightarrow> bool" where
  "prefix_free A \<longleftrightarrow> (\<forall>x\<in>A. \<forall>y\<in>A. prefix x y \<longrightarrow> x = y)"

lemma append_ext_less_iff:
  fixes x y :: string
  shows "\<not> prefix x y \<Longrightarrow> \<not> prefix y x \<Longrightarrow> x @ e < y @ e \<longleftrightarrow> x < y"
proof (induction x arbitrary: y)
  case (Cons c x)
  then show ?case by (cases y) auto
qed simp

lemma stripExt_append [simp]: "stripExt ext (x @ ext) = x"
  by (simp add: stripExt_def)

lemma stripExt_suffix: "suffix ext s \<Longrightarrow> stripExt ext s @ ext = s"
  by (auto simp: suffix_def)

lemma sorted_stripExt:
  assumes "sorted xs" "distinct xs" "\<forall>x\<in>set xs. suffix ext x" "prefix_free (stripExt ext ` set xs)"
  shows "sorted_wrt (<) (map (stripExt ext) xs)"
  using assms
proof (induction xs)
  case (Cons x xs)
  have "stripExt ext x < stripExt ext y" if y: "y \<in> set xs" for y
  proof -
    have lt: "x < y" using Cons.prems(1,2) y by (metis distinct.simps(2) list.set_intros(1) order_le_less sorted_simps(2))
    have e: "x = stripExt ext x @ ext" "y = stripExt ext y @ ext"
      using Cons.prems(3) y stripExt_suffix by simp_all
    then have ne: "stripExt ext x \<noteq> stripExt ext y" using lt by auto
    then have "\<not> prefix (stripExt ext x) (stripExt ext y)" "\<not> prefix (stripExt ext y) (stripExt ext x)"
      using Cons.prems(4) y by (auto simp: prefix_free_def)
    then show ?thesis using append_ext_less_iff [of "stripExt ext x" "stripExt ext y" ext] lt e by simp
  qed
  moreover have "prefix_free (stripExt ext ` set xs)" using Cons.prems(4) by (simp add: prefix_free_def)
  ultimately show ?case using Cons by auto
qed simp

lemma removeStatusFiles_content:
  "storageContent (removeStatusFiles spool files) p =
    (if \<exists>f\<in>set files. p = [STORAGE_SPOOL_ARCHIVE_OUT, f] then None else storageContent spool p)"
  unfolding removeStatusFiles_def
  using storage.content_remove_all [of "\<lambda>f. [STORAGE_SPOOL_ARCHIVE_OUT, f]" spool files p] by (auto simp: image_iff)

lemma removeStatusFiles_exists [simp]:
  "storageExists (removeStatusFiles spool files) p \<longleftrightarrow>
    storageExists spool p \<and> \<not> (\<exists>f\<in>set files. p = [STORAGE_SPOOL_ARCHIVE_OUT, f])"
  by (simp add: storageExists_get removeStatusFiles_content)

text \<open>The names that a set of files with an extension stands for.\<close>

definition stems :: "string \<Rightarrow> string list \<Rightarrow> string set" where
  "stems ext names = {w. w @ ext \<in> set names}"

lemma stems_stripExt: "set (map (stripExt ext) (filter (suffix ext) names)) = stems ext names"
proof -
  have "w \<in> stripExt ext ` {x \<in> set names. suffix ext x}" if "w @ ext \<in> set names" for w
    using that by (metis (mono_tags, lifting) image_eqI mem_Collect_eq stripExt_append suffixI)
  then show ?thesis by (auto simp: stems_def stripExt_suffix)
qed

lemma processList_lists:
  assumes "prefix_free (stems STATUS_EXT_OK (storageListAll spool [STORAGE_SPOOL_ARCHIVE_OUT]))"
    "prefix_free (stems STATUS_EXT_READY names)" "distinct names"
  defines "okList \<equiv> map (stripExt STATUS_EXT_OK) (filter (suffix STATUS_EXT_OK)
      (strLstSort (storageListAll spool [STORAGE_SPOOL_ARCHIVE_OUT]) sortOrderAsc))"
    and "readyList \<equiv> map (stripExt STATUS_EXT_READY) (strLstSort (filter (suffix STATUS_EXT_READY) names) sortOrderAsc)"
  shows "sorted_wrt (<) okList" "set okList = stems STATUS_EXT_OK (storageListAll spool [STORAGE_SPOOL_ARCHIVE_OUT])"
    "sorted_wrt (<) readyList" "set readyList = stems STATUS_EXT_READY names"
proof -
  let ?L = "storageListAll spool [STORAGE_SPOOL_ARCHIVE_OUT]"
  have ok: "okList = map (stripExt STATUS_EXT_OK) (filter (suffix STATUS_EXT_OK) (sort ?L))"
    and rd: "readyList = map (stripExt STATUS_EXT_READY) (filter (suffix STATUS_EXT_READY) (sort names))"
    by (simp_all add: okList_def readyList_def strLstSort_def filter_sort)
  have st: "stems e (sort xs) = stems e xs" for e and xs :: "string list" by (simp add: stems_def)
  show so: "set okList = stems STATUS_EXT_OK ?L" unfolding ok stems_stripExt st ..
  show sr: "set readyList = stems STATUS_EXT_READY names" unfolding rd stems_stripExt st ..
  show "sorted_wrt (<) okList"
    unfolding ok by (rule sorted_stripExt) (use so assms(1) in \<open>auto simp: ok intro: sorted_filter [of "\<lambda>x. x", simplified]\<close>)
  show "sorted_wrt (<) readyList"
    unfolding rd by (rule sorted_stripExt) (use sr assms(2,3) in \<open>auto simp: rd intro: sorted_filter [of "\<lambda>x. x", simplified]\<close>)
qed

text \<open>The spool holds files directly below its two queues.\<close>

definition spool_ok :: "spool \<Rightarrow> bool" where
  "spool_ok spool \<longleftrightarrow> (\<forall>(p, c)\<in>set spool. length p = 2)"

lemma spool_ok_list:
  "spool_ok spool \<Longrightarrow> f \<in> set (storageListAll spool [q]) \<longleftrightarrow> storageExists spool [q, f]"
proof -
  assume ok: "spool_ok spool"
  have "q' = []" if ex: "storageExists spool (q # f # q')" for q'
  proof -
    obtain c where "(q # f # q', c) \<in> set spool" using ex by (auto simp: storageExists_def)
    then show ?thesis using ok by (fastforce simp: spool_ok_def)
  qed
  then show "f \<in> set (storageListAll spool [q]) \<longleftrightarrow> storageExists spool [q, f]"
    by (auto simp: in_storageListAll)
qed

lemma processList_result:
  assumes "prefix_free (stems STATUS_EXT_OK (storageListAll spool [STORAGE_SPOOL_ARCHIVE_OUT]))"
    "prefix_free (stems STATUS_EXT_READY names)" "distinct names" "spool_ok spool"
  shows "\<exists>spool' list. archivePushProcessList spool (Some names) = (spool', Inr list) \<and>
    sorted_wrt (<) list \<and>
    set list = {w. w @ STATUS_EXT_READY \<in> set names \<and> \<not> storageExists spool [STORAGE_SPOOL_ARCHIVE_OUT, w @ STATUS_EXT_OK]} \<and>
    (\<forall>f. storageContent spool' [STORAGE_SPOOL_ARCHIVE_OUT, f] =
      (if \<exists>w. f = w @ STATUS_EXT_OK \<and> w @ STATUS_EXT_READY \<in> set names
       then storageContent spool [STORAGE_SPOOL_ARCHIVE_OUT, f] else None))"
proof -
  let ?L = "storageListAll spool [STORAGE_SPOOL_ARCHIVE_OUT]"
  define okList where "okList = map (stripExt STATUS_EXT_OK) (filter (suffix STATUS_EXT_OK) (strLstSort ?L sortOrderAsc))"
  define readyList where
    "readyList = map (stripExt STATUS_EXT_READY) (strLstSort (filter (suffix STATUS_EXT_READY) names) sortOrderAsc)"
  note lists = processList_lists [OF assms(1-3), folded okList_def readyList_def]
  have merge: "strLstMergeAnti okList readyList = filter (\<lambda>w. w \<notin> set readyList) okList"
    "strLstMergeAnti readyList okList = filter (\<lambda>w. w \<notin> set okList) readyList"
    using lists by (simp_all add: strLstMergeAnti_filter strict_sorted_imp_sorted)
  define spool1 where "spool1 = removeStatusFiles spool (filter (\<lambda>f. \<not> suffix STATUS_EXT_OK f) (strLstSort ?L sortOrderAsc))"
  define spool' where "spool' = removeStatusFiles spool1
    (map (\<lambda>f. f @ STATUS_EXT_OK) (filter (\<lambda>w. w \<notin> set readyList) okList))"
  have run: "archivePushProcessList spool (Some names) = (spool', Inr (filter (\<lambda>w. w \<notin> set okList) readyList))"
    by (simp add: archivePushProcessList_def archivePushReadyList_def Let_def okList_def [symmetric]
        readyList_def [symmetric] merge spool'_def spool1_def)
  have ok_iff: "w \<in> set okList \<longleftrightarrow> storageExists spool [STORAGE_SPOOL_ARCHIVE_OUT, w @ STATUS_EXT_OK]" for w
    using lists(2) spool_ok_list [OF assms(4)] by (simp add: stems_def)
  have ready_iff: "w \<in> set readyList \<longleftrightarrow> w @ STATUS_EXT_READY \<in> set names" for w
    using lists(4) by (simp add: stems_def)
  have content: "storageContent spool' [STORAGE_SPOOL_ARCHIVE_OUT, f] =
      (if \<exists>w. f = w @ STATUS_EXT_OK \<and> w @ STATUS_EXT_READY \<in> set names
       then storageContent spool [STORAGE_SPOOL_ARCHIVE_OUT, f] else None)" for f
  proof (cases "suffix STATUS_EXT_OK f")
    case True
    then obtain w where f: "f = w @ STATUS_EXT_OK" by (auto simp: suffix_def)
    show ?thesis
      using f ok_iff [of w] ready_iff [of w]
      by (auto simp: spool'_def spool1_def removeStatusFiles_content storageExists_get suffix_def)
  next
    case False
    then have "storageContent spool1 [STORAGE_SPOOL_ARCHIVE_OUT, f] = None"
      using spool_ok_list [OF assms(4), of f]
      by (auto simp: spool1_def removeStatusFiles_content storageExists_get)
    moreover have "\<not> (\<exists>w. f = w @ STATUS_EXT_OK \<and> w @ STATUS_EXT_READY \<in> set names)"
      using False by (auto simp: suffix_def)
    ultimately show ?thesis by (auto simp: spool'_def removeStatusFiles_content)
  qed
  have "sorted_wrt (<) (filter (\<lambda>w. w \<notin> set okList) readyList)"
    using lists(3) by (rule sorted_wrt_filter)
  moreover have "set (filter (\<lambda>w. w \<notin> set okList) readyList) =
    {w. w @ STATUS_EXT_READY \<in> set names \<and> \<not> storageExists spool [STORAGE_SPOOL_ARCHIVE_OUT, w @ STATUS_EXT_OK]}"
    by (auto simp: ok_iff ready_iff)
  ultimately show ?thesis using run content by blast
qed

text \<open>
  C35: Which WAL files the worker pushes.  When among the files with an ok file, and among the ready files, no name is
  a proper prefix of another, the process list is the ready files that have no ok file, in ascending order; and what
  stays in the spool queue is exactly the ok files of ready files, unchanged.
\<close>

theorem archivePushProcessList_correct:
  assumes "prefix_free (stems STATUS_EXT_OK (storageListAll spool [STORAGE_SPOOL_ARCHIVE_OUT]))"
    "prefix_free (stems STATUS_EXT_READY names)" "distinct names" "spool_ok spool"
  shows "\<exists>spool' list. archivePushProcessList spool (Some names) = (spool', Inr list) \<and>
    sorted_wrt (<) list \<and>
    set list = {w. w @ STATUS_EXT_READY \<in> set names \<and> \<not> storageExists spool [STORAGE_SPOOL_ARCHIVE_OUT, w @ STATUS_EXT_OK]} \<and>
    (\<forall>f. storageContent spool' [STORAGE_SPOOL_ARCHIVE_OUT, f] =
      (if \<exists>w. f = w @ STATUS_EXT_OK \<and> w @ STATUS_EXT_READY \<in> set names
       then storageContent spool [STORAGE_SPOOL_ARCHIVE_OUT, f] else None))"
  using assms by (rule processList_result)

definition sample_spool :: spool where
  "sample_spool = [([''out'', ''0001.ok''], []), ([''out'', ''0002.error''], ''45''), ([''out'', ''0000.ok''], [])]"

theorem archivePushProcessList_correct_witness:
  "\<exists>spool' list. archivePushProcessList sample_spool (Some [''0002.ready'', ''0001.ready'', ''0002.done'']) = (spool', Inr list) \<and>
    sorted_wrt (<) list \<and>
    set list = {w. w @ STATUS_EXT_READY \<in> set [''0002.ready'', ''0001.ready'', ''0002.done''] \<and>
      \<not> storageExists sample_spool [STORAGE_SPOOL_ARCHIVE_OUT, w @ STATUS_EXT_OK]} \<and>
    (\<forall>f. storageContent spool' [STORAGE_SPOOL_ARCHIVE_OUT, f] =
      (if \<exists>w. f = w @ STATUS_EXT_OK \<and> w @ STATUS_EXT_READY \<in> set [''0002.ready'', ''0001.ready'', ''0002.done'']
       then storageContent sample_spool [STORAGE_SPOOL_ARCHIVE_OUT, f] else None))"
proof (rule archivePushProcessList_correct)
  have e: "w @ ext = f \<longleftrightarrow> suffix ext f \<and> w = stripExt ext f" for w ext f
    using stripExt_suffix [of ext f] by (auto simp: suffix_def)
  show "prefix_free (stems STATUS_EXT_READY [''0002.ready'', ''0001.ready'', ''0002.done''])"
    by (auto simp: stems_def e prefix_free_def STATUS_EXT_READY_def stripExt_def suffix_def)
  have "storageListAll sample_spool [STORAGE_SPOOL_ARCHIVE_OUT] = [''0001.ok'', ''0002.error'', ''0000.ok'']" by code_simp
  then show "prefix_free (stems STATUS_EXT_OK (storageListAll sample_spool [STORAGE_SPOOL_ARCHIVE_OUT]))"
    by (auto simp: stems_def e prefix_free_def STATUS_EXT_OK_def stripExt_def suffix_def)
  show "distinct [''0002.ready'', ''0001.ready'', ''0002.done'']" by simp
  show "spool_ok sample_spool" by (simp add: spool_ok_def sample_spool_def)
qed

text \<open>
  A backup history file among the ready files breaks the order: the name of its segment is a prefix of its own name.
  The segment was pushed and has an ok file, but the ok file is removed and the segment is pushed again.
\<close>

lemma archivePushProcessList_backup_file:
  "let seg = ''000000010000000000000002'';
       spool = [([STORAGE_SPOOL_ARCHIVE_OUT, seg @ STATUS_EXT_OK], [])]
   in archivePushProcessList spool (Some [seg @ STATUS_EXT_READY, seg @ ''.00000028.backup'' @ STATUS_EXT_READY]) =
     ([], Inr [seg @ ''.00000028.backup'', seg])"
  by code_simp

end
