(* ===== verification/ArchivePushFile.thy ===== *)
theory ArchivePushFile
  imports WalFind
begin

text \<open>
  Pushing one WAL file to every repository: \<^verbatim>\<open>src/src/command/archive/push/file.c\<close>, and the path of an archive
  file in a repository (\<^verbatim>\<open>storageRepoPathExpression\<close> of \<^verbatim>\<open>src/src/storage/helper.c\<close>).

  Code that is not part of the model enters as a record of parameters: the SHA-1 checksum, the parser of the WAL
  header, the compression and encryption of the content, and the outcome of the I/O on each repository.  A repository
  file appears when its writer is closed; until then the writer works on a temporary file.  An error of one
  repository is kept as the index of the repository with the error.
\<close>

section \<open>Definitions\<close>

definition walPrefixExpression :: rx where
  "walPrefixExpression = RTimes 24 (RRng CHR ''0'' CHR ''F'')"

text \<open>\<^verbatim>\<open><REPO:ARCHIVE>/archiveId/file\<close>: a WAL file goes to the directory of its first 16 characters.\<close>

definition storageRepoPathExpression :: "string \<Rightarrow> string \<Rightarrow> path" where
  "storageRepoPathExpression archiveId file =
    REPO_ARCHIVE @ (if regExpMatch walPrefixExpression file then [archiveId, take 16 file, file] else [archiveId, file])"

datatype ArchivePushFileIoType = archivePushFileIoTypeOpen | archivePushFileIoTypeWrite | archivePushFileIoTypeClose

record ArchivePushFileRepoData =
  pushRepoIdx :: nat
  pushArchiveId :: string

record PushEnv =
  sha1 :: "string \<Rightarrow> string"
  walHeader :: "string \<Rightarrow> (u32 \<times> u64) res"
  compressExtPush :: string
  encodeFile :: "nat \<Rightarrow> bool \<Rightarrow> string \<Rightarrow> string"
  repoName :: "nat \<Rightarrow> string"
  findFault :: "nat \<Rightarrow> error option"
  ioFault :: "ArchivePushFileIoType \<Rightarrow> nat \<Rightarrow> error option"

type_synonym repo_errors = "(nat \<times> error) list"

definition sameChecksumWarning :: "PushEnv \<Rightarrow> string \<Rightarrow> nat \<Rightarrow> string" where
  "sameChecksumWarning env archiveFile idx =
    ''WAL file '' @ CHR 0x27 # archiveFile @ CHR 0x27 # '' already exists in the '' @ repoName env idx
      @ '' archive with the same checksum'' @ CHR 0x0A #
      ''HINT: this is valid in some recovery scenarios but may also indicate a problem.''"

text \<open>
  The loop that checks each repository for the segment.  The result has, for each repository, whether it needs a
  copy, and the errors and warnings.
\<close>

fun archivePushFile_find ::
  "PushEnv \<Rightarrow> repo list \<Rightarrow> bool \<Rightarrow> string \<Rightarrow> string \<Rightarrow> ArchivePushFileRepoData list \<Rightarrow> bool list \<Rightarrow> repo_errors \<Rightarrow> string list
    \<Rightarrow> (bool list \<times> repo_errors \<times> string list) res" where
  "archivePushFile_find env repos modeCheck archiveFile checksum [] copy errs warns = Inr (copy, errs, warns)"
| "archivePushFile_find env repos modeCheck archiveFile checksum (rd # rds) copy errs warns =
    (case (case findFault env (pushRepoIdx rd) of
             Some e \<Rightarrow> Inl e
           | None \<Rightarrow> walSegmentFindOne [repos ! pushRepoIdx rd] (pushArchiveId rd) archiveFile 0) of
       Inl e \<Rightarrow>
         archivePushFile_find env repos modeCheck archiveFile checksum rds (copy @ [False])
           (errs @ [(pushRepoIdx rd, e)]) warns
     | Inr None \<Rightarrow> archivePushFile_find env repos modeCheck archiveFile checksum rds (copy @ [True]) errs warns
     | Inr (Some walSegmentFile) \<Rightarrow>
         if checksum = take 40 (drop (length archiveFile + 1) walSegmentFile) then
           archivePushFile_find env repos modeCheck archiveFile checksum rds (copy @ [False]) errs
             (if modeCheck then warns @ [sameChecksumWarning env archiveFile (pushRepoIdx rd)] else warns)
         else Inl ArchiveDuplicateError)"

text \<open>One I/O operation on every repository that still takes part in the copy.\<close>

fun archivePushFileIo ::
  "PushEnv \<Rightarrow> ArchivePushFileIoType \<Rightarrow> ArchivePushFileRepoData list \<Rightarrow> bool list \<Rightarrow> repo_errors \<Rightarrow> bool list \<times> repo_errors" where
  "archivePushFileIo env type (rd # rds) (c # cs) errs =
    (let (c', errs') =
       (if c then
          (case ioFault env type (pushRepoIdx rd) of
             None \<Rightarrow> (True, errs)
           | Some e \<Rightarrow> (False, errs @ [(pushRepoIdx rd, e)]))
        else (False, errs));
         (cs', errs'') = archivePushFileIo env type rds cs errs'
     in (c' # cs', errs''))"
| "archivePushFileIo env type _ _ errs = ([], errs)"

fun archivePushFile_put ::
  "PushEnv \<Rightarrow> string \<Rightarrow> bool \<Rightarrow> string \<Rightarrow> ArchivePushFileRepoData list \<Rightarrow> bool list \<Rightarrow> repo list \<Rightarrow> repo list" where
  "archivePushFile_put env source compressed destination (rd # rds) (c # cs) repos =
    archivePushFile_put env source compressed destination rds cs
      (if c then
         repos[pushRepoIdx rd :=
           storagePut (repos ! pushRepoIdx rd) (storageRepoPathExpression (pushArchiveId rd) destination)
             (FData (encodeFile env (pushRepoIdx rd) compressed source))]
       else repos)"
| "archivePushFile_put env source compressed destination _ _ repos = repos"

text \<open>The copy: open, write and close the destinations; those that were closed hold the file.\<close>

definition archivePushFile_copy ::
  "PushEnv \<Rightarrow> string \<Rightarrow> bool \<Rightarrow> string \<Rightarrow> ArchivePushFileRepoData list \<Rightarrow> bool list \<Rightarrow> repo_errors \<Rightarrow> repo list
    \<Rightarrow> repo list \<times> repo_errors" where
  "archivePushFile_copy env source compressed destination repoList copy errs repos =
    (let (copy, errs) = archivePushFileIo env archivePushFileIoTypeOpen repoList copy errs;
         (copy, errs) = archivePushFileIo env archivePushFileIoTypeWrite repoList copy errs;
         (copy, errs) = archivePushFileIo env archivePushFileIoTypeClose repoList copy errs
     in (archivePushFile_put env source compressed destination repoList copy repos, errs))"

text \<open>\<open>source\<close> is the content of the WAL file, \<open>None\<close> when it does not exist.  The result is the list of warnings.\<close>

definition archivePushFile ::
  "PushEnv \<Rightarrow> string option \<Rightarrow> bool \<Rightarrow> bool \<Rightarrow> u32 \<Rightarrow> u64 \<Rightarrow> string \<Rightarrow> ArchivePushFileRepoData list \<Rightarrow> repo_errors \<Rightarrow> repo list
    \<Rightarrow> repo list \<times> (string list) res" where
  "archivePushFile env source headerCheck modeCheck pgVersion pgSystemId archiveFile repoList priorErrorList repos =
    (case source of
       None \<Rightarrow> (repos, Inl FileMissingError)
     | Some wal \<Rightarrow>
         (let isSegment = walIsSegment archiveFile
          in case (if headerCheck \<and> isSegment
                   then bindR (walHeader env wal)
                     (\<lambda>(version, systemId). if version \<noteq> pgVersion \<or> systemId \<noteq> pgSystemId then Inl ArchiveMismatchError else Inr ())
                   else Inr ()) of
               Inl e \<Rightarrow> (repos, Inl e)
             | Inr _ \<Rightarrow>
                 (case (if isSegment
                        then archivePushFile_find env repos modeCheck archiveFile (sha1 env wal) repoList [] priorErrorList []
                        else Inr (replicate (length repoList) True, priorErrorList, [])) of
                    Inl e \<Rightarrow> (repos, Inl e)
                  | Inr (copy, errs, warns) \<Rightarrow>
                      (let destination =
                             (if isSegment then archiveFile @ ''-'' @ sha1 env wal @ compressExtPush env else archiveFile);
                           (repos', errs) =
                             (if True \<in> set copy \<or> \<not> isSegment
                              then archivePushFile_copy env wal isSegment destination repoList copy errs repos
                              else (repos, errs))
                       in (repos', if errs \<noteq> [] then Inl CommandError else Inr warns)))))"

section \<open>The search loop\<close>

definition needs_copy :: "PushEnv \<Rightarrow> repo list \<Rightarrow> string \<Rightarrow> ArchivePushFileRepoData \<Rightarrow> bool" where
  "needs_copy env repos f rd \<longleftrightarrow>
    findFault env (pushRepoIdx rd) = None \<and> segmentFiles (repos ! pushRepoIdx rd) (pushArchiveId rd) f = []"

text \<open>The repository has exactly one file for the segment, with the checksum.\<close>

definition has_segment :: "repo \<Rightarrow> string \<Rightarrow> string \<Rightarrow> string \<Rightarrow> bool" where
  "has_segment fs archiveId f checksum \<longleftrightarrow>
    (\<exists>g. segmentFiles fs archiveId f = [g] \<and> checksum = take 40 (drop (length f + 1) g))"

lemma lookup_cases:
  "walSegmentFindOne [fs] archiveId f 0 =
    (case segmentFiles fs archiveId f of [] \<Rightarrow> Inr None | [g] \<Rightarrow> Inr (Some g) | _ \<Rightarrow> Inl ArchiveDuplicateError)"
  by (simp add: walSegmentFindOne_eq segmentLookup_def split: list.splits)

lemma find_Inr:
  assumes "archivePushFile_find env repos modeCheck f checksum rds copy errs warns = Inr (copy', errs', warns')"
  shows "copy' = copy @ map (needs_copy env repos f) rds \<and>
    (\<exists>es. errs' = errs @ es \<and> (es = [] \<longrightarrow>
      (\<forall>rd\<in>set rds. needs_copy env repos f rd \<or>
         has_segment (repos ! pushRepoIdx rd) (pushArchiveId rd) f checksum)))"
  using assms
proof (induction rds arbitrary: copy errs warns)
  case (Cons rd rds)
  show ?case
  proof (cases "findFault env (pushRepoIdx rd)")
    case (Some e)
    then have n: "\<not> needs_copy env repos f rd" by (simp add: needs_copy_def)
    show ?thesis using Cons.prems Cons.IH [of "copy @ [False]" "errs @ [(pushRepoIdx rd, e)]"] Some n by fastforce
  next
    case None
    show ?thesis
    proof (cases "segmentFiles (repos ! pushRepoIdx rd) (pushArchiveId rd) f")
      case Nil
      then have n: "needs_copy env repos f rd" using None by (simp add: needs_copy_def)
      show ?thesis using Cons.prems Cons.IH [of "copy @ [True]" errs warns] None Nil n by (auto simp: lookup_cases)
    next
      case (Cons g gs)
      then have n: "\<not> needs_copy env repos f rd" by (simp add: needs_copy_def)
      show ?thesis
      proof (cases gs)
        case Nil
        then have h: "checksum = take 40 (drop (length f + 1) g) \<Longrightarrow>
            has_segment (repos ! pushRepoIdx rd) (pushArchiveId rd) f checksum"
          using Cons by (simp add: has_segment_def)
        show ?thesis
          using Cons.prems Cons.IH [of "copy @ [False]" errs "if modeCheck then warns @ [sameChecksumWarning env f (pushRepoIdx rd)] else warns"]
            None Cons Nil n h by (auto simp: lookup_cases split: if_splits)
      next
        case (Cons g' gs')
        then show ?thesis
          using Cons.prems Cons.IH [of "copy @ [False]" "errs @ [(pushRepoIdx rd, ArchiveDuplicateError)]"]
            None \<open>segmentFiles _ _ f = g # gs\<close> n by (fastforce simp: lookup_cases)
      qed
    qed
  qed
qed simp

lemma find_mismatch:
  assumes "rd \<in> set rds" "findFault env (pushRepoIdx rd) = None"
    "segmentFiles (repos ! pushRepoIdx rd) (pushArchiveId rd) f = [g]" "checksum \<noteq> take 40 (drop (length f + 1) g)"
  shows "archivePushFile_find env repos modeCheck f checksum rds copy errs warns = Inl ArchiveDuplicateError"
  using assms(1)
proof (induction rds arbitrary: copy errs warns)
  case (Cons r rds)
  show ?case
  proof (cases "r = rd")
    case True
    then show ?thesis using assms by (simp add: lookup_cases)
  next
    case False
    then have "rd \<in> set rds" using Cons.prems by simp
    then show ?thesis
      using Cons.IH by (auto split: sum.splits option.splits)
  qed
qed simp

section \<open>The copy\<close>

lemma archivePushFileIo_result:
  assumes "length rds = length cs" "archivePushFileIo env type rds cs errs = (cs', errs')"
  shows "length cs' = length rds \<and> (\<forall>i<length rds. cs' ! i \<longrightarrow> cs ! i) \<and>
    (\<exists>es. errs' = errs @ es \<and> (es = [] \<longrightarrow> cs' = cs))"
  using assms
proof (induction rds cs arbitrary: errs cs' errs' rule: list_induct2)
  case (Cons rd rds c cs)
  define r where "r = (if c then
          (case ioFault env type (pushRepoIdx rd) of
             None \<Rightarrow> (True, errs)
           | Some e \<Rightarrow> (False, errs @ [(pushRepoIdx rd, e)]))
        else (False, errs))"
  obtain ds es where rec: "archivePushFileIo env type rds cs (snd r) = (ds, es)" by fastforce
  have r: "(fst r \<longrightarrow> c) \<and> (\<exists>es. snd r = errs @ es \<and> (es = [] \<longrightarrow> fst r = c))"
    by (auto simp: r_def split: option.splits)
  have eq: "cs' = fst r # ds" "errs' = es"
    using Cons.prems rec by (auto simp: r_def [symmetric] Let_def split: prod.splits)
  show ?case
    using Cons.IH [OF rec] r unfolding eq by (auto simp: nth_Cons split: nat.splits)
qed simp

text \<open>The repositories whose writer was closed.\<close>

definition chosen :: "ArchivePushFileRepoData list \<Rightarrow> bool list \<Rightarrow> ArchivePushFileRepoData list" where
  "chosen rds cs = map fst (filter snd (zip rds cs))"

definition putStep ::
  "PushEnv \<Rightarrow> string \<Rightarrow> bool \<Rightarrow> string \<Rightarrow> repo list \<Rightarrow> ArchivePushFileRepoData \<Rightarrow> repo list" where
  "putStep env source compressed destination rs rd = rs[pushRepoIdx rd :=
     storagePut (rs ! pushRepoIdx rd) (storageRepoPathExpression (pushArchiveId rd) destination)
       (FData (encodeFile env (pushRepoIdx rd) compressed source))]"

lemma put_chosen:
  "archivePushFile_put env source compressed destination rds cs repos =
    foldl (putStep env source compressed destination) repos (chosen rds cs)"
  by (induction env source compressed destination rds cs repos rule: archivePushFile_put.induct)
    (simp_all add: chosen_def putStep_def)

lemma length_put [simp]: "length (archivePushFile_put env source compressed destination rds cs repos) = length repos"
  by (induction env source compressed destination rds cs repos rule: archivePushFile_put.induct) auto

lemma put_preserves:
  assumes "\<forall>rd\<in>set rds. pushRepoIdx rd = i \<longrightarrow> p \<noteq> storageRepoPathExpression (pushArchiveId rd) destination"
  shows "storageContent (foldl (putStep env source compressed destination) repos rds ! i) p = storageContent (repos ! i) p"
  using assms
proof (induction rds arbitrary: repos)
  case (Cons rd rds)
  show ?case
    using Cons.IH Cons.prems
    by (cases "pushRepoIdx rd < length repos"; cases "pushRepoIdx rd = i") (simp_all add: putStep_def list_update_beyond)
qed simp

lemma putStep_nth [simp]:
  "pushRepoIdx r < length rs \<Longrightarrow> putStep env source compressed destination rs r ! pushRepoIdx r =
    storagePut (rs ! pushRepoIdx r) (storageRepoPathExpression (pushArchiveId r) destination)
       (FData (encodeFile env (pushRepoIdx r) compressed source))"
  "j \<noteq> pushRepoIdx r \<Longrightarrow> putStep env source compressed destination rs r ! j = rs ! j"
  "length (putStep env source compressed destination rs r) = length rs"
  by (simp_all add: putStep_def)

lemma put_other:
  "j \<notin> pushRepoIdx ` set rds \<Longrightarrow> foldl (putStep env source compressed destination) rs rds ! j = rs ! j"
  by (induction rds arbitrary: rs) (auto simp: putStep_def)

lemma put_writes:
  assumes "rd \<in> set rds" "distinct (map pushRepoIdx rds)" "\<forall>rd\<in>set rds. pushRepoIdx rd < length repos"
  shows "foldl (putStep env source compressed destination) repos rds ! pushRepoIdx rd =
     storagePut (repos ! pushRepoIdx rd) (storageRepoPathExpression (pushArchiveId rd) destination)
             (FData (encodeFile env (pushRepoIdx rd) compressed source))"
  using assms
proof (induction rds arbitrary: repos)
  case (Cons r rds)
  show ?case
  proof (cases "rd = r")
    case True
    then show ?thesis using put_other [of "pushRepoIdx r" rds] Cons.prems by simp
  next
    case False
    then have rd: "rd \<in> set rds" using Cons.prems(1) by simp
    then have "pushRepoIdx r \<noteq> pushRepoIdx rd" using Cons.prems(2) by auto
    then show ?thesis using Cons.IH [OF rd, of "putStep env source compressed destination repos r"] Cons.prems(2,3) by simp
  qed
qed simp

section \<open>The files of a segment\<close>

lemma set_segmentFiles:
  "set (segmentFiles fs archiveId s) =
    {f. regExpMatch (walSegmentExpression s) f \<and> (\<exists>q. storageExists fs (REPO_ARCHIVE @ archiveId # take 16 s # f # q))}"
  by (simp add: segmentFiles_def in_storageList set_eq_iff)

lemma distinct_segmentFiles [simp]: "distinct (segmentFiles fs archiveId s)"
  by (simp add: segmentFiles_def storageList_def)

lemma distinct_singleton:
  assumes "distinct xs" "set xs = {x}"
  shows "xs = [x]"
proof -
  have "length xs = 1" using distinct_card [OF assms(1)] assms(2) by simp
  then obtain y where "xs = [y]" by (auto simp: length_Suc_conv)
  then show ?thesis using assms(2) by simp
qed

text \<open>What the code relies on of its parameters: a checksum has 40 hexadecimal digits, and the extension is one of a
  compression type or empty.\<close>

definition push_env_ok :: "PushEnv \<Rightarrow> bool" where
  "push_env_ok env \<longleftrightarrow>
    (\<forall>w. length (sha1 env w) = 40 \<and> list_all (\<lambda>c. CHR ''0'' \<le> c \<and> c \<le> CHR ''f'') (sha1 env w)) \<and>
    compressExtPush env \<in> set ([] # compressExts)"

definition segmentDestination :: "PushEnv \<Rightarrow> string \<Rightarrow> string \<Rightarrow> string" where
  "segmentDestination env wal f = f @ ''-'' @ sha1 env wal @ compressExtPush env"

lemma walIsSegment_stem:
  assumes "walIsSegment f"
  shows "segment_stem f = f" "24 \<le> length f" "take 24 (f @ t) = take 24 f" "take 16 (f @ t) = take 16 f"
proof -
  have len: "24 \<le> length f" and rest: "drop 24 f = [] \<or> drop 24 f = WAL_SEGMENT_PARTIAL_EXT"
    using assms by (simp_all add: walIsSegment_def)
  have f: "f = take 24 f @ drop 24 f" by simp
  have "walIsPartial f \<longleftrightarrow> drop 24 f = WAL_SEGMENT_PARTIAL_EXT"
  proof (cases "drop 24 f = []")
    case True
    then have "length f = 24" using len by simp
    have "\<not> walIsPartial f"
    proof
      assume "walIsPartial f"
      then have "CHR ''l'' \<in> set f" by (auto simp: walIsPartial_def WAL_SEGMENT_PARTIAL_EXT_def suffix_def)
      moreover have "list_all in_range_0_F f" using assms \<open>length f = 24\<close> by (simp add: walIsSegment_def)
      ultimately show False by (auto simp: list_all_iff in_range_0_F_def dest!: bspec)
    qed
    then show ?thesis using True by (simp add: WAL_SEGMENT_PARTIAL_EXT_def)
  next
    case False
    then show ?thesis using rest by (metis f suffixI walIsPartial_def)
  qed
  then show "segment_stem f = f" using rest f unfolding segment_stem_def by (metis append_Nil2)
  show "24 \<le> length f" "take 24 (f @ t) = take 24 f" "take 16 (f @ t) = take 16 f" using len by simp_all
qed

lemma destination_facts:
  assumes "push_env_ok env" "walIsSegment f"
  shows "regExpMatch (walSegmentExpression f) (segmentDestination env wal f)"
    "storageRepoPathExpression archiveId (segmentDestination env wal f) =
      REPO_ARCHIVE @ [archiveId, take 16 f, segmentDestination env wal f]"
    "take 40 (drop (length f + 1) (segmentDestination env wal f)) = sha1 env wal"
proof -
  have sha: "length (sha1 env wal) = 40" "list_all (\<lambda>c. CHR ''0'' \<le> c \<and> c \<le> CHR ''f'') (sha1 env wal)"
    and ext: "compressExtPush env \<in> set ([] # compressExts)"
    using assms(1) by (simp_all add: push_env_ok_def)
  show "take 40 (drop (length f + 1) (segmentDestination env wal f)) = sha1 env wal"
    using sha by (simp add: segmentDestination_def)
  have "hash_ext (CHR ''-'' # sha1 env wal @ compressExtPush env)"
    using sha ext by (simp add: hash_ext_def)
  then show "regExpMatch (walSegmentExpression f) (segmentDestination env wal f)"
    by (simp add: walSegmentExpression_match walIsSegment_stem [OF assms(2)] segmentDestination_def)
  have "regExpMatch walPrefixExpression (segmentDestination env wal f)"
    using assms(2) walIsSegment_stem(2,3) [OF assms(2)]
    by (auto simp: regExpMatch_def walPrefixExpression_def segmentDestination_def walIsSegment_def list_all_iff in_range_0_F_def)
  then show "storageRepoPathExpression archiveId (segmentDestination env wal f) =
      REPO_ARCHIVE @ [archiveId, take 16 f, segmentDestination env wal f]"
    using walIsSegment_stem(2) [OF assms(2)] by (simp add: storageRepoPathExpression_def segmentDestination_def)
qed

lemma put_has_segment:
  assumes "push_env_ok env" "walIsSegment f" "segmentFiles fs archiveId f = []"
  shows "has_segment (storagePut fs (storageRepoPathExpression archiveId (segmentDestination env wal f)) c) archiveId f (sha1 env wal)"
proof -
  let ?d = "segmentDestination env wal f"
  have none: "\<not> (regExpMatch (walSegmentExpression f) g \<and> (\<exists>q. storageExists fs (REPO_ARCHIVE @ archiveId # take 16 f # g # q)))" for g
    using assms(3) set_segmentFiles [of fs archiveId f] by auto
  have "set (segmentFiles (storagePut fs (REPO_ARCHIVE @ [archiveId, take 16 f, ?d]) c) archiveId f) = {?d}"
    unfolding set_segmentFiles using none destination_facts(1) [OF assms(1,2)] by auto
  then have seg: "segmentFiles (storagePut fs (REPO_ARCHIVE @ [archiveId, take 16 f, ?d]) c) archiveId f = [?d]"
    by (intro distinct_singleton) simp_all
  show ?thesis
    unfolding has_segment_def destination_facts(2) [OF assms(1,2)]
    by (rule exI [of _ ?d]) (simp only: seg destination_facts(3) [OF assms(1,2)] simp_thms)
qed

lemma not_exists_destination:
  assumes "push_env_ok env" "walIsSegment f" "segmentFiles fs archiveId f = []"
  shows "storageContent fs (storageRepoPathExpression archiveId (segmentDestination env wal f)) = None"
proof -
  have "\<not> storageExists fs (REPO_ARCHIVE @ [archiveId, take 16 f, segmentDestination env wal f])"
    using assms(3) set_segmentFiles [of fs archiveId f] destination_facts(1) [OF assms(1,2), of wal] by auto
  then show ?thesis unfolding destination_facts(2) [OF assms(1,2)] by (simp add: storageExists_get)
qed

section \<open>A push of a segment\<close>

lemma chosen_all_False: "\<forall>i<length cs. \<not> cs ! i \<Longrightarrow> chosen rds cs = []"
proof -
  assume "\<forall>i<length cs. \<not> cs ! i"
  then have "\<forall>c\<in>set cs. \<not> c" by (auto simp: in_set_conv_nth)
  then show "chosen rds cs = []" by (auto simp: chosen_def filter_empty_conv dest: set_zip_rightD)
qed

lemma copy_result:
  assumes "archivePushFile_copy env wal compressed destination rds copy errs repos = (repos', errs')"
    "length rds = length copy"
  shows "\<exists>cs es. length cs = length rds \<and> (\<forall>i<length rds. cs ! i \<longrightarrow> copy ! i) \<and> errs' = errs @ es \<and> (es = [] \<longrightarrow> cs = copy) \<and>
    repos' = archivePushFile_put env wal compressed destination rds cs repos"
proof -
  obtain c1 e1 where io1: "archivePushFileIo env archivePushFileIoTypeOpen rds copy errs = (c1, e1)" by fastforce
  obtain c2 e2 where io2: "archivePushFileIo env archivePushFileIoTypeWrite rds c1 e1 = (c2, e2)" by fastforce
  obtain c3 e3 where io3: "archivePushFileIo env archivePushFileIoTypeClose rds c2 e2 = (c3, e3)" by fastforce
  note r1 = archivePushFileIo_result [OF assms(2) io1]
  have r2: "length c2 = length rds \<and> (\<forall>i<length rds. c2 ! i \<longrightarrow> c1 ! i) \<and> (\<exists>es. e2 = e1 @ es \<and> (es = [] \<longrightarrow> c2 = c1))"
    using archivePushFileIo_result [OF _ io2] r1 by simp
  have r3: "length c3 = length rds \<and> (\<forall>i<length rds. c3 ! i \<longrightarrow> c2 ! i) \<and> (\<exists>es. e3 = e2 @ es \<and> (es = [] \<longrightarrow> c3 = c2))"
    using archivePushFileIo_result [OF _ io3] r2 by simp
  have "repos' = archivePushFile_put env wal compressed destination rds c3 repos" "errs' = e3"
    using assms(1) io1 io2 io3 by (simp_all add: archivePushFile_copy_def)
  then show ?thesis using r1 r2 r3 by (intro exI [of _ c3]) auto
qed

lemma push_segment_result:
  assumes "walIsSegment f"
    "archivePushFile env (Some wal) headerCheck modeCheck pv sid f rds prior repos = (repos', r)"
  shows "(repos' = repos \<and> (\<exists>e. r = Inl e)) \<or>
    (\<exists>cs. length cs = length rds \<and> (\<forall>i<length rds. cs ! i \<longrightarrow> needs_copy env repos f (rds ! i)) \<and>
      repos' = archivePushFile_put env wal True (segmentDestination env wal f) rds cs repos \<and>
      (\<forall>warns. r = Inr warns \<longrightarrow> prior = [] \<and> cs = map (needs_copy env repos f) rds \<and>
        (\<forall>rd\<in>set rds. needs_copy env repos f rd \<or> has_segment (repos ! pushRepoIdx rd) (pushArchiveId rd) f (sha1 env wal))))"
proof (cases "if headerCheck then bindR (walHeader env wal)
      (\<lambda>(v, i). if v \<noteq> pv \<or> i \<noteq> sid then Inl ArchiveMismatchError else Inr ()) else Inr ()")
  case (Inl e)
  then show ?thesis using assms by (auto simp: archivePushFile_def)
next
  case (Inr u)
  show ?thesis
  proof (cases "archivePushFile_find env repos modeCheck f (sha1 env wal) rds [] prior []")
    case (Inl e)
    then show ?thesis using assms Inr by (auto simp: archivePushFile_def)
  next
    case (Inr res)
    obtain copy errs warns where res: "res = (copy, errs, warns)" by (cases res)
    note find = find_Inr [OF Inr [unfolded res]]
    have copy: "copy = map (needs_copy env repos f) rds" using find by simp
    define d where "d = segmentDestination env wal f"
    obtain repos1 errs1 where c: "(if True \<in> set copy then archivePushFile_copy env wal True d rds copy errs repos else (repos, errs)) =
      (repos1, errs1)" by fastforce
    have dd: "f @ CHR ''-'' # sha1 env wal @ compressExtPush env = d" by (simp add: d_def segmentDestination_def)
    have run: "repos' = repos1" "r = (if errs1 \<noteq> [] then Inl CommandError else Inr warns)"
      using assms Inr res c \<open>(if headerCheck then _ else _) = Inr u\<close>
      by (cases "True \<in> set copy"; simp add: archivePushFile_def Let_def dd)+
    have "\<exists>cs es. length cs = length rds \<and> (\<forall>i<length rds. cs ! i \<longrightarrow> copy ! i) \<and> errs1 = errs @ es \<and> (es = [] \<longrightarrow> cs = copy) \<and>
      repos1 = archivePushFile_put env wal True d rds cs repos"
    proof (cases "True \<in> set copy")
      case True
      then show ?thesis using c copy_result [of env wal True d rds copy errs repos repos1 errs1] by (simp add: copy)
    next
      case False
      then have "chosen rds copy = []" by (intro chosen_all_False) (metis nth_mem)
      then have "archivePushFile_put env wal True d rds copy repos = repos" by (simp add: put_chosen)
      then show ?thesis using c False by (intro exI [of _ copy]) (auto simp: copy)
    qed
    then obtain cs es where cs: "length cs = length rds" "\<forall>i<length rds. cs ! i \<longrightarrow> copy ! i" "errs1 = errs @ es"
      "es = [] \<longrightarrow> cs = copy" "repos1 = archivePushFile_put env wal True d rds cs repos" by blast
    have "r = Inr w \<longrightarrow> prior = [] \<and> cs = copy \<and>
        (\<forall>rd\<in>set rds. needs_copy env repos f rd \<or> has_segment (repos ! pushRepoIdx rd) (pushArchiveId rd) f (sha1 env wal))" for w
      using run(2) cs(3,4) find by (auto split: if_splits)
    then show ?thesis using cs run(1) by (auto simp: copy d_def)
  qed
qed

definition repo_list_ok :: "ArchivePushFileRepoData list \<Rightarrow> repo list \<Rightarrow> bool" where
  "repo_list_ok rds repos \<longleftrightarrow> distinct (map pushRepoIdx rds) \<and> (\<forall>rd\<in>set rds. pushRepoIdx rd < length repos)"

lemma chosen_subset:
  assumes "length cs = length rds" "rd \<in> set (chosen rds cs)"
  obtains i where "i < length rds" "rd = rds ! i" "cs ! i"
  using assms by (auto simp: chosen_def in_set_zip)

lemma chosen_distinct: "distinct (map pushRepoIdx rds) \<Longrightarrow> distinct (map pushRepoIdx (chosen rds cs))"
proof (induction rds arbitrary: cs)
  case (Cons rd rds)
  show ?case
  proof (cases cs)
    case (Cons c cs')
    have "pushRepoIdx ` set (chosen rds cs') \<subseteq> pushRepoIdx ` set rds"
      by (auto simp: chosen_def dest: set_zip_leftD)
    then show ?thesis using Cons Cons.IH [of cs'] Cons.prems by (auto simp: chosen_def)
  qed (simp add: chosen_def)
qed (simp add: chosen_def)

lemma push_keeps_files:
  assumes "push_env_ok env" "walIsSegment f"
    "archivePushFile env (Some wal) headerCheck modeCheck pv sid f rds prior repos = (repos', r)"
    "storageContent (repos ! i) p = Some c"
  shows "storageContent (repos' ! i) p = Some c"
  using push_segment_result [OF assms(2,3)]
proof (elim disjE exE conjE)
  fix cs
  assume cs: "length cs = length rds" "\<forall>i<length rds. cs ! i \<longrightarrow> needs_copy env repos f (rds ! i)"
    "repos' = archivePushFile_put env wal True (segmentDestination env wal f) rds cs repos"
  have "\<forall>rd\<in>set (chosen rds cs). pushRepoIdx rd = i \<longrightarrow>
      p \<noteq> storageRepoPathExpression (pushArchiveId rd) (segmentDestination env wal f)"
  proof (intro ballI impI)
    fix rd assume "rd \<in> set (chosen rds cs)" and i: "pushRepoIdx rd = i"
    then have "needs_copy env repos f rd" using cs(1,2) by (metis chosen_subset)
    then have "segmentFiles (repos ! i) (pushArchiveId rd) f = []" using i by (simp add: needs_copy_def)
    then show "p \<noteq> storageRepoPathExpression (pushArchiveId rd) (segmentDestination env wal f)"
      using not_exists_destination [OF assms(1,2)] assms(4) by fastforce
  qed
  from put_preserves [OF this] show ?thesis using assms(4) by (simp add: cs(3) put_chosen)
qed (use assms(4) in simp)

text \<open>
  C24: A push never overwrites.  Whatever the outcome of pushing a WAL segment, every file that was in a repository is
  there afterwards with the same content; and when a repository holds the segment with a different checksum, the push
  ends in \<^verbatim>\<open>ArchiveDuplicateError\<close> and no repository is changed.
\<close>

theorem archivePushFile_never_overwrites:
  assumes "push_env_ok env" "walIsSegment f"
    "archivePushFile env (Some wal) headerCheck modeCheck pv sid f rds prior repos = (repos', r)"
  shows "(\<forall>i p c. storageContent (repos ! i) p = Some c \<longrightarrow> storageContent (repos' ! i) p = Some c) \<and>
    (\<forall>rd\<in>set rds. \<forall>g. findFault env (pushRepoIdx rd) = None \<longrightarrow>
      segmentFiles (repos ! pushRepoIdx rd) (pushArchiveId rd) f = [g] \<longrightarrow>
      take 40 (drop (length f + 1) g) \<noteq> sha1 env wal \<longrightarrow> (\<exists>e. r = Inl e) \<and> repos' = repos)"
proof (intro conjI ballI allI impI)
  show "storageContent (repos' ! i) p = Some c" if "storageContent (repos ! i) p = Some c" for i p c
    using push_keeps_files [OF assms that] .
next
  fix rd g
  assume "rd \<in> set rds" "findFault env (pushRepoIdx rd) = None"
    "segmentFiles (repos ! pushRepoIdx rd) (pushArchiveId rd) f = [g]" "take 40 (drop (length f + 1) g) \<noteq> sha1 env wal"
  then have "archivePushFile_find env repos modeCheck f (sha1 env wal) rds [] prior [] = Inl ArchiveDuplicateError"
    by (intro find_mismatch [of rd rds env repos f g]) auto
  then have "(\<exists>e. r = Inl e) \<and> repos' = repos"
    using assms(2,3) by (auto simp: archivePushFile_def split: sum.splits)
  then show "\<exists>e. r = Inl e" "repos' = repos" by simp_all
qed

lemma push_success_has_segment:
  assumes "push_env_ok env" "walIsSegment f" "repo_list_ok rds repos"
    "archivePushFile env (Some wal) headerCheck modeCheck pv sid f rds prior repos = (repos', Inr warns)"
    "rd \<in> set rds"
  shows "has_segment (repos' ! pushRepoIdx rd) (pushArchiveId rd) f (sha1 env wal)"
proof -
  obtain cs where cs: "length cs = length rds"
    "repos' = archivePushFile_put env wal True (segmentDestination env wal f) rds cs repos"
    "cs = map (needs_copy env repos f) rds"
    "\<forall>rd\<in>set rds. needs_copy env repos f rd \<or> has_segment (repos ! pushRepoIdx rd) (pushArchiveId rd) f (sha1 env wal)"
    using push_segment_result [OF assms(2,4)] by auto
  have ch: "set (chosen rds cs) = {rd \<in> set rds. needs_copy env repos f rd}"
    unfolding cs(3) chosen_def by (induction rds) auto
  have dist: "distinct (map pushRepoIdx (chosen rds cs))" "\<forall>rd\<in>set (chosen rds cs). pushRepoIdx rd < length repos"
    using assms(3) chosen_distinct ch by (auto simp: repo_list_ok_def)
  show ?thesis
  proof (cases "needs_copy env repos f rd")
    case True
    then have "rd \<in> set (chosen rds cs)" using ch assms(5) by simp
    from put_writes [OF this dist] show ?thesis
      using put_has_segment [OF assms(1,2)] True by (simp add: cs(2) put_chosen needs_copy_def)
  next
    case False
    have "repos' ! pushRepoIdx rd = repos ! pushRepoIdx rd"
    proof -
      have "pushRepoIdx rd \<notin> pushRepoIdx ` set (chosen rds cs)"
        using False assms(3,5) ch by (auto simp: repo_list_ok_def distinct_map inj_on_def)
      then show ?thesis by (simp add: cs(2) put_chosen put_other)
    qed
    then show ?thesis using cs(4) False assms(5) by auto
  qed
qed

text \<open>
  C25: A push that succeeds has archived the segment: without errors of earlier checks, every repository of the list
  holds exactly one file for the segment and its name carries the SHA-1 checksum of the WAL that was pushed.
\<close>

theorem archivePushFile_success:
  assumes "push_env_ok env" "walIsSegment f" "repo_list_ok rds repos"
    "archivePushFile env (Some wal) headerCheck modeCheck pv sid f rds prior repos = (repos', Inr warns)"
  shows "prior = [] \<and> (\<forall>rd\<in>set rds. \<exists>g. segmentFiles (repos' ! pushRepoIdx rd) (pushArchiveId rd) f = [g] \<and>
    take 40 (drop (length f + 1) g) = sha1 env wal)"
  using push_success_has_segment [OF assms] push_segment_result [OF assms(2,4)]
  unfolding has_segment_def by fastforce

section \<open>Pushes of other segments\<close>

lemma match_unique:
  assumes "walIsSegment f" "walIsSegment w"
    "regExpMatch (walSegmentExpression f) d" "regExpMatch (walSegmentExpression w) d"
  shows "f = w"
proof -
  have pre: "prefix (f @ ''-'') d" "prefix (w @ ''-'') d"
    using match_stem_dash [OF assms(3)] match_stem_dash [OF assms(4)] walIsSegment_stem(1) assms(1,2) by simp_all
  have shape: "length s = 24 \<or> length s = 32 \<and> s ! 24 = CHR ''.''" if seg: "walIsSegment s" for s
  proof -
    have len: "24 \<le> length s" and r: "drop 24 s = [] \<or> drop 24 s = WAL_SEGMENT_PARTIAL_EXT"
      using seg by (simp_all add: walIsSegment_def)
    from r show ?thesis
    proof
      assume "drop 24 s = WAL_SEGMENT_PARTIAL_EXT"
      moreover have "length s = 32"
      proof -
        have "length (drop 24 s) = 8" using \<open>drop 24 s = WAL_SEGMENT_PARTIAL_EXT\<close> by (simp add: WAL_SEGMENT_PARTIAL_EXT_def)
        then show ?thesis by simp
      qed
      moreover have "drop 24 s ! 0 = s ! 24" using len by simp
      ultimately show ?thesis by (simp add: WAL_SEGMENT_PARTIAL_EXT_def)
    qed (use len in simp)
  qed
  have at: "d ! length s = CHR ''-''" if "prefix (s @ ''-'') d" for s
    using that by (auto simp: prefix_def nth_append)
  have tk: "take (length s) d = s" if "prefix (s @ ''-'') d" for s
    using that by (auto simp: prefix_def)
  have no: False if "length a = 24" "length b = 32" "b ! 24 = CHR ''.''" "prefix (a @ ''-'') d" "prefix (b @ ''-'') d" for a b
  proof -
    have "b ! 24 = d ! 24" using tk [OF that(5)] that(2) nth_take [of 24 "length b" d] by simp
    then show False using at [OF that(4)] that(1,3) by simp
  qed
  have "length f = length w"
    using shape [OF assms(1)]
  proof
    assume f: "length f = 24"
    show ?thesis using shape [OF assms(2)]
    proof
      assume "length w = 32 \<and> w ! 24 = CHR ''.''"
      then show ?thesis using no [OF f _ _ pre] by blast
    qed (simp add: f)
  next
    assume f: "length f = 32 \<and> f ! 24 = CHR ''.''"
    show ?thesis using shape [OF assms(2)]
    proof
      assume w: "length w = 24"
      show ?thesis using no [OF w _ _ pre(2,1)] f by blast
    qed (simp add: f)
  qed
  then show ?thesis using tk [OF pre(1)] tk [OF pre(2)] by metis
qed

lemma segmentFiles_put_other:
  assumes "\<not> regExpMatch (walSegmentExpression w) d"
  shows "segmentFiles (storagePut fs (REPO_ARCHIVE @ [i, p, d]) c) archiveId w = segmentFiles fs archiveId w"
proof (rule sorted_distinct_set_unique)
  show "set (segmentFiles (storagePut fs (REPO_ARCHIVE @ [i, p, d]) c) archiveId w) = set (segmentFiles fs archiveId w)"
    using assms by (auto simp: set_segmentFiles)
qed (simp_all add: segmentFiles_def storageList_def)

text \<open>A push of one segment, whatever its outcome, leaves the files of every other segment as they are.\<close>

lemma push_other_segment:
  assumes "push_env_ok env" "walIsSegment f" "walIsSegment w" "f \<noteq> w" "repo_list_ok rds repos"
    "archivePushFile env wal headerCheck modeCheck pv sid f rds prior repos = (repos', r)"
  shows "segmentFiles (repos' ! i) archiveId w = segmentFiles (repos ! i) archiveId w"
    "length repos' = length repos"
proof -
  have no: "\<not> regExpMatch (walSegmentExpression w) (segmentDestination env x f)" for x
    using match_unique [OF assms(2,3)] destination_facts(1) [OF assms(1,2)] assms(4) by blast
  have "length repos' = length repos \<and> segmentFiles (repos' ! i) archiveId w = segmentFiles (repos ! i) archiveId w"
  proof (cases wal)
    case None
    then show ?thesis using assms(6) by (simp add: archivePushFile_def)
  next
    case (Some x)
    from push_segment_result [OF assms(2,6) [unfolded Some]] show ?thesis
    proof (elim disjE exE conjE)
      fix cs
      assume cs: "length cs = length rds"
        "repos' = archivePushFile_put env x True (segmentDestination env x f) rds cs repos"
      have ch: "distinct (map pushRepoIdx (chosen rds cs))" "\<forall>rd\<in>set (chosen rds cs). pushRepoIdx rd < length repos"
        using assms(5) chosen_distinct [of rds cs] by (auto simp: repo_list_ok_def chosen_def dest: set_zip_leftD)
      show ?thesis
      proof (cases "i \<in> pushRepoIdx ` set (chosen rds cs)")
        case True
        then obtain rd where rd: "rd \<in> set (chosen rds cs)" "i = pushRepoIdx rd" by blast
        show ?thesis
          using put_writes [OF rd(1) ch, of env x True "segmentDestination env x f"] no
          by (simp add: cs(2) put_chosen rd(2) destination_facts(2) [OF assms(1,2)] segmentFiles_put_other
              flip: length_put [of env x True "segmentDestination env x f" rds cs repos])
      next
        case False
        then show ?thesis using length_put by (simp add: cs(2) put_chosen put_other)
      qed
    qed simp
  qed
  then show "segmentFiles (repos' ! i) archiveId w = segmentFiles (repos ! i) archiveId w"
    "length repos' = length repos" by simp_all
qed

section \<open>Sample\<close>

definition sample_push_env :: PushEnv where
  "sample_push_env =
    \<lparr>sha1 = (\<lambda>w. replicate 40 (if w = ''wal'' then CHR ''a'' else CHR ''b'')), walHeader = (\<lambda>w. Inr (100000, 1)),
     compressExtPush = ''.gz'', encodeFile = (\<lambda>i b w. w), repoName = (\<lambda>i. ''repo''),
     findFault = (\<lambda>i. None), ioFault = (\<lambda>t i. None)\<rparr>"

definition sample_push_list :: "ArchivePushFileRepoData list" where
  "sample_push_list = [\<lparr>pushRepoIdx = 0, pushArchiveId = ''10-1''\<rparr>, \<lparr>pushRepoIdx = 1, pushArchiveId = ''10-1''\<rparr>]"

lemma sample_push_env_ok: "push_env_ok sample_push_env"
  by (simp add: push_env_ok_def sample_push_env_def compressExts_def list_all_iff)

definition sample_push :: "repo list \<times> (string list) res" where
  "sample_push = archivePushFile sample_push_env (Some ''wal'') True True 100000 1 ''000000010000000100000001''
     sample_push_list [] [[], []]"

lemma sample_push_result:
  "archivePushFile sample_push_env (Some ''wal'') True True 100000 1 ''000000010000000100000001''
     sample_push_list [] [[], []] = (fst sample_push, Inr [])"
proof -
  have "snd sample_push = Inr []" by code_simp
  then show ?thesis by (metis prod.collapse sample_push_def)
qed

theorem archivePushFile_success_witness:
  "\<exists>g. segmentFiles (fst sample_push ! 1) ''10-1'' ''000000010000000100000001'' = [g] \<and>
    take 40 (drop (length ''000000010000000100000001'' + 1) g) = replicate 40 (CHR ''a'')"
proof -
  have "walIsSegment ''000000010000000100000001''" "repo_list_ok sample_push_list [[], []]" by code_simp+
  from archivePushFile_success [OF sample_push_env_ok this sample_push_result]
  show ?thesis by (simp add: sample_push_list_def sample_push_env_def)
qed

text \<open>A second push of the segment, with other content.\<close>

definition sample_push_again :: "repo list \<times> (string list) res" where
  "sample_push_again = archivePushFile sample_push_env (Some ''other'') True True 100000 1 ''000000010000000100000001''
     sample_push_list [] (fst sample_push)"

theorem archivePushFile_never_overwrites_witness:
  "storageContent (fst sample_push_again ! 1) (REPO_ARCHIVE @ [''10-1'', ''0000000100000001'',
     ''000000010000000100000001-'' @ replicate 40 (CHR ''a'') @ ''.gz'']) = Some (FData ''wal'') \<and>
   fst sample_push_again = fst sample_push"
proof -
  have seg: "walIsSegment ''000000010000000100000001''" by code_simp
  have content: "storageContent (fst sample_push ! 1) (REPO_ARCHIVE @ [''10-1'', ''0000000100000001'',
     ''000000010000000100000001-'' @ replicate 40 (CHR ''a'') @ ''.gz'']) = Some (FData ''wal'')" by code_simp
  have files: "segmentFiles (fst sample_push ! 1) ''10-1'' ''000000010000000100000001'' =
     [''000000010000000100000001-'' @ replicate 40 (CHR ''a'') @ ''.gz'']" by code_simp
  have "archivePushFile sample_push_env (Some ''other'') True True 100000 1 ''000000010000000100000001''
     sample_push_list [] (fst sample_push) = (fst sample_push_again, snd sample_push_again)"
    by (simp add: sample_push_again_def)
  note never = archivePushFile_never_overwrites [OF sample_push_env_ok seg this]
  have "fst sample_push_again = fst sample_push"
    using never [THEN conjunct2, THEN bspec, of "\<lparr>pushRepoIdx = 1, pushArchiveId = ''10-1''\<rparr>"] files
    by (simp add: sample_push_list_def sample_push_env_def)
  then show ?thesis using never content by blast
qed

end
