(* ===== verification/ArchivePushCmd.thy ===== *)
theory ArchivePushCmd
  imports ArchivePush ArchivePushFile "HOL-Library.Multiset"
begin

text \<open>
  The archive-push command (\<^verbatim>\<open>src/src/command/archive/push/push.c\<close>): the check of the repositories, the
  asynchronous worker and the foreground process.

  The record \<open>PushCfg\<close> has what the command reads from outside: options, the WAL directory, \<^verbatim>\<open>pg_control\<close>, the
  repositories that cannot be opened, the order in which the parallel jobs complete, and the texts and codes of
  errors.  A job runs \<^verbatim>\<open>archivePushFile\<close> in a worker process; jobs for different files write different files, so a
  job takes effect at the point where it completes.
\<close>

section \<open>Definitions\<close>

record PushCfg =
  cfgQueueMax :: "u64 option"
  cfgHeaderCheck :: bool
  cfgModeCheck :: bool
  cfgStopTest :: "unit res"
  cfgArchiveStatus :: "string list option"
  cfgWalFileSize :: "string \<Rightarrow> u64 option"
  cfgWal :: "string \<Rightarrow> string option"
  cfgPgControl :: "(u32 \<times> u64) res"
  cfgRepoFault :: "nat \<Rightarrow> error option"
  cfgPushEnv :: "string \<Rightarrow> PushEnv"
  cfgJobOrder :: "string list \<Rightarrow> string list"
  cfgErrorCode :: "error \<Rightarrow> int"
  cfgErrorText :: "error \<Rightarrow> string"
  cfgSizeText :: "u64 \<Rightarrow> string"

definition archivePushDropWarning :: "PushCfg \<Rightarrow> string \<Rightarrow> u64 \<Rightarrow> string" where
  "archivePushDropWarning cfg walFile queueMax =
    ''dropped WAL file '' @ CHR 0x27 # walFile @ CHR 0x27 # '' because archive queue exceeded '' @ cfgSizeText cfg queueMax"

record ArchivePushCheckResult =
  checkPgVersion :: u32
  checkPgSystemId :: u64
  checkRepoList :: "ArchivePushFileRepoData list"
  checkErrorList :: repo_errors

text \<open>One repository of the loop: the archive id to use with version and system id, or the error that is caught.\<close>

definition archivePushCheck_repo ::
  "PushCfg \<Rightarrow> repo list \<Rightarrow> bool \<Rightarrow> nat \<Rightarrow> u32 \<Rightarrow> u64 \<Rightarrow> (string \<times> u32 \<times> u64) res" where
  "archivePushCheck_repo cfg repos pgPathSet idx pv sid =
    (case cfgRepoFault cfg idx of
       Some e \<Rightarrow> Inl e
     | None \<Rightarrow>
         bindR (infoArchiveLoadFile (repos ! idx) INFO_ARCHIVE_PATH_FILE) (\<lambda>info.
         bindR (infoPgArchiveId info (historyCurrent info)) (\<lambda>archiveId.
         bindR (infoPgData info (historyCurrent info)) (\<lambda>archiveInfo.
           if (pgPathSet \<or> idx > 0) \<and> (pv \<noteq> version archiveInfo \<or> sid \<noteq> systemId archiveInfo)
           then Inl ArchiveMismatchError
           else Inr (archiveId, version archiveInfo, systemId archiveInfo)))))"

fun archivePushCheck_loop ::
  "PushCfg \<Rightarrow> repo list \<Rightarrow> bool \<Rightarrow> nat list \<Rightarrow> ArchivePushCheckResult \<Rightarrow> ArchivePushCheckResult" where
  "archivePushCheck_loop cfg repos pgPathSet [] result = result"
| "archivePushCheck_loop cfg repos pgPathSet (idx # idxs) result =
    archivePushCheck_loop cfg repos pgPathSet idxs
      (case archivePushCheck_repo cfg repos pgPathSet idx (checkPgVersion result) (checkPgSystemId result) of
         Inl e \<Rightarrow> result\<lparr>checkErrorList := checkErrorList result @ [(idx, e)]\<rparr>
       | Inr (archiveId, pv, sid) \<Rightarrow>
           result\<lparr>checkPgVersion := pv, checkPgSystemId := sid,
             checkRepoList := checkRepoList result @ [\<lparr>pushRepoIdx = idx, pushArchiveId = archiveId\<rparr>]\<rparr>)"

definition archivePushCheck :: "PushCfg \<Rightarrow> repo list \<Rightarrow> bool \<Rightarrow> ArchivePushCheckResult res" where
  "archivePushCheck cfg repos pgPathSet =
    bindR (if pgPathSet then cfgPgControl cfg else Inr (0, 0)) (\<lambda>(pv, sid).
      let result = archivePushCheck_loop cfg repos pgPathSet [0 ..< length repos]
            \<lparr>checkPgVersion = pv, checkPgSystemId = sid, checkRepoList = [], checkErrorList = []\<rparr>
      in if checkRepoList result = [] then Inl RepoInvalidError else Inr result)"

text \<open>The worker: one finished job at a time, the status file is written when the job is done.\<close>

definition joinLines :: "string list \<Rightarrow> string" where
  "joinLines ls = (case ls of [] \<Rightarrow> [] | l # ls' \<Rightarrow> foldl (\<lambda>a b. a @ CHR 0x0A # b) l ls')"

fun archivePushAsync_jobs ::
  "PushCfg \<Rightarrow> ArchivePushCheckResult \<Rightarrow> string list \<Rightarrow> spool \<Rightarrow> repo list \<Rightarrow> spool \<times> repo list" where
  "archivePushAsync_jobs cfg info [] spool repos = (spool, repos)"
| "archivePushAsync_jobs cfg info (walFile # walFiles) spool repos =
    (case archivePushFile (cfgPushEnv cfg walFile) (cfgWal cfg walFile) (cfgHeaderCheck cfg) (cfgModeCheck cfg)
            (checkPgVersion info) (checkPgSystemId info) walFile (checkRepoList info) (checkErrorList info) repos of
       (repos', r) \<Rightarrow>
         archivePushAsync_jobs cfg info walFiles
           (case r of
              Inr fileWarnList \<Rightarrow>
                archiveAsyncStatusOkWrite archiveModePush walFile
                  (if fileWarnList = [] then None else Some (joinLines fileWarnList)) spool
            | Inl e \<Rightarrow>
                archiveAsyncStatusErrorWrite archiveModePush (Some walFile) (cfgErrorCode cfg e) (cfgErrorText cfg e) spool)
           repos')"

definition dropFiles :: "PushCfg \<Rightarrow> u64 \<Rightarrow> string list \<Rightarrow> spool \<Rightarrow> spool" where
  "dropFiles cfg queueMax walFiles spool =
    foldl (\<lambda>sp f. archiveAsyncStatusOkWrite archiveModePush f (Some (archivePushDropWarning cfg f queueMax)) sp) spool walFiles"

text \<open>The body of the \<^verbatim>\<open>TRY\<close> block.\<close>

definition archivePushAsync_try :: "PushCfg \<Rightarrow> spool \<Rightarrow> repo list \<Rightarrow> (spool \<times> repo list) \<times> unit res" where
  "archivePushAsync_try cfg spool repos =
    (case cfgStopTest cfg of
       Inl e \<Rightarrow> ((spool, repos), Inl e)
     | Inr _ \<Rightarrow>
         (case archivePushProcessList spool (cfgArchiveStatus cfg) of
            (spool, Inl e) \<Rightarrow> ((spool, repos), Inl e)
          | (spool, Inr walFileList) \<Rightarrow>
              if walFileList = [] then ((spool, repos), Inl AssertError)
              else
                (case (case cfgQueueMax cfg of
                         None \<Rightarrow> Inr False
                       | Some queueMax \<Rightarrow> archivePushDrop (cfgWalFileSize cfg) queueMax walFileList) of
                   Inl e \<Rightarrow> ((spool, repos), Inl e)
                 | Inr True \<Rightarrow> ((dropFiles cfg (the (cfgQueueMax cfg)) walFileList spool, repos), Inr ())
                 | Inr False \<Rightarrow>
                     (case archivePushCheck cfg repos True of
                        Inl e \<Rightarrow> ((spool, repos), Inl e)
                      | Inr info \<Rightarrow> (archivePushAsync_jobs cfg info (cfgJobOrder cfg walFileList) spool repos, Inr ())))))"

definition cmdArchivePushAsync :: "PushCfg \<Rightarrow> string list \<Rightarrow> spool \<Rightarrow> repo list \<Rightarrow> (spool \<times> repo list) \<times> unit res" where
  "cmdArchivePushAsync cfg commandParam spool repos =
    (if length commandParam \<noteq> 1 then ((spool, repos), Inl ParamRequiredError)
     else
       (case archivePushAsync_try cfg spool repos of
          ((spool, repos), Inl e) \<Rightarrow>
            ((archiveAsyncStatusErrorWrite archiveModePush None (cfgErrorCode cfg e) (cfgErrorText cfg e) spool, repos), Inl e)
        | r \<Rightarrow> r))"

text \<open>
  The foreground process in asynchronous mode.  Each round of its loop sees the spool as it is then and whether the
  lock could be acquired; there are as many rounds as \<^verbatim>\<open>waitMore\<close> allows.  What it does to the outside is an event.
\<close>

datatype PushEvent = ErrorClear string | AsyncExec string

fun archivePush_poll ::
  "string \<Rightarrow> string \<Rightarrow> (spool \<times> bool) list \<Rightarrow> bool \<Rightarrow> bool \<Rightarrow> PushEvent list \<times> bool msg_res" where
  "archivePush_poll path archiveFile [] forked throwOnError = ([], Inr False)"
| "archivePush_poll path archiveFile ((spool, lockAvailable) # rounds) forked throwOnError =
    (case archiveAsyncStatus spool archiveModePush archiveFile throwOnError True of
       Inl e \<Rightarrow> ([], Inl e)
     | Inr (True, _) \<Rightarrow> ([], Inr True)
     | Inr (False, _) \<Rightarrow>
         if \<not> forked \<and> lockAvailable then
           (case archivePush_poll path archiveFile rounds True True of
              (evs, r) \<Rightarrow> (ErrorClear archiveFile # AsyncExec path # evs, r))
         else archivePush_poll path archiveFile rounds forked True)"

definition archivePush_async ::
  "string \<Rightarrow> string \<Rightarrow> (spool \<times> bool) list \<Rightarrow> bool \<Rightarrow> PushEvent list \<times> unit msg_res" where
  "archivePush_async path archiveFile rounds pgPathSet =
    (if \<not> pgPathSet then ([], Inl (OptionRequiredError, ''archive-push command in async mode requires option pg1-path''))
     else
       (case archivePush_poll path archiveFile rounds False False of
          (evs, Inl e) \<Rightarrow> (evs, Inl e)
        | (evs, Inr True) \<Rightarrow> (evs, Inr ())
        | (evs, Inr False) \<Rightarrow> (evs, Inl (ArchiveTimeoutError, ''unable to push WAL file ''))))"

text \<open>The synchronous push.\<close>

definition archivePush_sync :: "PushCfg \<Rightarrow> bool \<Rightarrow> string \<Rightarrow> repo list \<Rightarrow> repo list \<times> (string list) res" where
  "archivePush_sync cfg pgPathSet archiveFile repos =
    (case (case cfgQueueMax cfg of
             None \<Rightarrow> Inr False
           | Some queueMax \<Rightarrow>
               bindR (archivePushReadyList (cfgArchiveStatus cfg)) (\<lambda>ready. archivePushDrop (cfgWalFileSize cfg) queueMax ready)) of
       Inl e \<Rightarrow> (repos, Inl e)
     | Inr True \<Rightarrow> (repos, Inr [archivePushDropWarning cfg archiveFile (the (cfgQueueMax cfg))])
     | Inr False \<Rightarrow>
         (case archivePushCheck cfg repos pgPathSet of
            Inl e \<Rightarrow> (repos, Inl e)
          | Inr info \<Rightarrow>
              archivePushFile (cfgPushEnv cfg archiveFile) (cfgWal cfg archiveFile) (cfgHeaderCheck cfg) (cfgModeCheck cfg)
                (checkPgVersion info) (checkPgSystemId info) archiveFile (checkRepoList info) (checkErrorList info) repos))"

section \<open>The check of the repositories\<close>

lemma check_loop_pg:
  "checkPgVersion (archivePushCheck_loop cfg repos True idxs result) = checkPgVersion result \<and>
    checkPgSystemId (archivePushCheck_loop cfg repos True idxs result) = checkPgSystemId result \<and>
    checkRepoList (archivePushCheck_loop cfg repos True idxs result) = checkRepoList result @
      concat (map (\<lambda>idx. case archivePushCheck_repo cfg repos True idx (checkPgVersion result) (checkPgSystemId result) of
        Inl e \<Rightarrow> [] | Inr (archiveId, pv, sid) \<Rightarrow> [\<lparr>pushRepoIdx = idx, pushArchiveId = archiveId\<rparr>]) idxs) \<and>
    checkErrorList (archivePushCheck_loop cfg repos True idxs result) = checkErrorList result @
      concat (map (\<lambda>idx. case archivePushCheck_repo cfg repos True idx (checkPgVersion result) (checkPgSystemId result) of
        Inl e \<Rightarrow> [(idx, e)] | Inr _ \<Rightarrow> []) idxs)"
proof (induction idxs arbitrary: result)
  case (Cons idx idxs)
  have same: "pv = checkPgVersion result \<and> sid = checkPgSystemId result"
    if "archivePushCheck_repo cfg repos True idx (checkPgVersion result) (checkPgSystemId result) = Inr (archiveId, pv, sid)"
    for archiveId pv sid
    using that by (auto simp: archivePushCheck_repo_def bindR_Inr_iff split: option.splits if_splits)
  show ?case
    using same Cons.IH by (auto split: sum.splits prod.splits)
qed simp

definition okRepos :: "(nat \<Rightarrow> (string \<times> u32 \<times> u64) res) \<Rightarrow> nat list \<Rightarrow> ArchivePushFileRepoData list" where
  "okRepos res idxs = concat (map (\<lambda>idx. case res idx of
     Inl e \<Rightarrow> [] | Inr (archiveId, pv, sid) \<Rightarrow> [\<lparr>pushRepoIdx = idx, pushArchiveId = archiveId\<rparr>]) idxs)"

definition failedRepos :: "(nat \<Rightarrow> (string \<times> u32 \<times> u64) res) \<Rightarrow> nat list \<Rightarrow> repo_errors" where
  "failedRepos res idxs = concat (map (\<lambda>idx. case res idx of Inl e \<Rightarrow> [(idx, e)] | Inr _ \<Rightarrow> []) idxs)"

lemma check_lists:
  assumes "archivePushCheck cfg repos True = Inr info"
  obtains pv sid where "cfgPgControl cfg = Inr (pv, sid)" "checkRepoList info \<noteq> []"
    "checkRepoList info = okRepos (\<lambda>idx. archivePushCheck_repo cfg repos True idx pv sid) [0 ..< length repos]"
    "checkErrorList info = failedRepos (\<lambda>idx. archivePushCheck_repo cfg repos True idx pv sid) [0 ..< length repos]"
proof -
  obtain pv sid where pg: "cfgPgControl cfg = Inr (pv, sid)" "checkRepoList info \<noteq> []"
    and info: "info = archivePushCheck_loop cfg repos True [0 ..< length repos]
      \<lparr>checkPgVersion = pv, checkPgSystemId = sid, checkRepoList = [], checkErrorList = []\<rparr>"
    using assms by (auto simp: archivePushCheck_def bindR_Inr_iff Let_def split: if_splits)
  then show ?thesis
    using check_loop_pg [of cfg repos "[0 ..< length repos]"
        "\<lparr>checkPgVersion = pv, checkPgSystemId = sid, checkRepoList = [], checkErrorList = []\<rparr>"]
    by (intro that [of pv sid]) (simp_all add: okRepos_def failedRepos_def)
qed

lemma check_result:
  assumes "archivePushCheck cfg repos True = Inr info"
  shows "repo_list_ok (checkRepoList info) repos" "checkRepoList info \<noteq> []"
    "checkErrorList info = [] \<Longrightarrow> map pushRepoIdx (checkRepoList info) = [0 ..< length repos]"
proof -
  obtain pv sid where pg: "cfgPgControl cfg = Inr (pv, sid)" and ne: "checkRepoList info \<noteq> []"
    and list: "checkRepoList info = okRepos (\<lambda>idx. archivePushCheck_repo cfg repos True idx pv sid) [0 ..< length repos]"
    and errs: "checkErrorList info = failedRepos (\<lambda>idx. archivePushCheck_repo cfg repos True idx pv sid) [0 ..< length repos]"
    by (rule check_lists [OF assms]) blast
  define res where "res = (\<lambda>idx. archivePushCheck_repo cfg repos True idx pv sid)"
  note list = list [folded res_def] and errs = errs [folded res_def]
  have idx: "map pushRepoIdx (okRepos res xs) = filter (\<lambda>i. \<exists>y. res i = Inr y) xs" for xs
    unfolding okRepos_def by (induction xs) (auto split: sum.splits prod.splits)
  show "checkRepoList info \<noteq> []" by (rule ne)
  have ids: "map pushRepoIdx (checkRepoList info) = filter (\<lambda>i. \<exists>y. res i = Inr y) [0 ..< length repos]"
    unfolding list idx ..
  have "distinct (map pushRepoIdx (checkRepoList info))" unfolding ids by simp
  moreover have "pushRepoIdx rd < length repos" if "rd \<in> set (checkRepoList info)" for rd
  proof -
    have "pushRepoIdx rd \<in> set (map pushRepoIdx (checkRepoList info))" using that by simp
    then show ?thesis unfolding ids by simp
  qed
  ultimately show "repo_list_ok (checkRepoList info) repos" by (simp add: repo_list_ok_def)
  show "map pushRepoIdx (checkRepoList info) = [0 ..< length repos]" if none: "checkErrorList info = []"
  proof -
    have "\<exists>y. res i = Inr y" if i: "i < length repos" for i
    proof (cases "res i")
      case (Inl e)
      then have "(i, e) \<in> set (checkErrorList info)" unfolding errs failedRepos_def using i by force
      then show ?thesis using none by simp
    qed auto
    then show ?thesis unfolding ids by (auto intro: filter_True)
  qed
qed

text \<open>
  What the check should give, said of the repositories alone.  The current history entry of a repository is at hand
  when the repository can be opened, its archive.info loads and has that entry.  A repository is valid for a version
  and system id when its entry has them; every other one has an error, a mismatch if the entry is at hand.
\<close>

definition repoCurrent :: "PushCfg \<Rightarrow> repo list \<Rightarrow> nat \<Rightarrow> InfoPgData res" where
  "repoCurrent cfg repos idx =
    (case cfgRepoFault cfg idx of
       Some e \<Rightarrow> Inl e
     | None \<Rightarrow> bindR (infoArchiveLoadFile (repos ! idx) INFO_ARCHIVE_PATH_FILE) infoPgDataCurrent)"

definition repoVerdict :: "PushCfg \<Rightarrow> repo list \<Rightarrow> u32 \<Rightarrow> u64 \<Rightarrow> nat \<Rightarrow> InfoPgData res" where
  "repoVerdict cfg repos pv sid idx =
    (case repoCurrent cfg repos idx of
       Inl e \<Rightarrow> Inl e
     | Inr d \<Rightarrow> if version d = pv \<and> systemId d = sid then Inr d else Inl ArchiveMismatchError)"

definition validRepo :: "PushCfg \<Rightarrow> repo list \<Rightarrow> u32 \<Rightarrow> u64 \<Rightarrow> nat \<Rightarrow> bool" where
  "validRepo cfg repos pv sid idx \<longleftrightarrow> \<not> isl (repoVerdict cfg repos pv sid idx)"

definition pushCheckSpec :: "PushCfg \<Rightarrow> repo list \<Rightarrow> u32 \<Rightarrow> u64 \<Rightarrow> ArchivePushCheckResult res" where
  "pushCheckSpec cfg repos pv sid =
    (let verdict = repoVerdict cfg repos pv sid;
         valid = filter (validRepo cfg repos pv sid) [0 ..< length repos];
         invalid = filter (\<lambda>idx. \<not> validRepo cfg repos pv sid idx) [0 ..< length repos]
     in if valid = [] then Inl RepoInvalidError
        else Inr \<lparr>checkPgVersion = pv, checkPgSystemId = sid,
          checkRepoList = map (\<lambda>idx. \<lparr>pushRepoIdx = idx, pushArchiveId =
            pgVersionToStr pv @ ''-'' @ fmt_u (unat (pgid (projr (verdict idx))))\<rparr>) valid,
          checkErrorList = map (\<lambda>idx. (idx, projl (verdict idx))) invalid\<rparr>)"

lemma check_repo_verdict:
  "archivePushCheck_repo cfg repos pgPathSet idx pv sid =
    (case (if pgPathSet \<or> idx > 0 then repoVerdict cfg repos pv sid idx else repoCurrent cfg repos idx) of
       Inl e \<Rightarrow> Inl e
     | Inr d \<Rightarrow> Inr (pgVersionToStr (version d) @ ''-'' @ fmt_u (unat (pgid d)), version d, systemId d))"
proof (cases "cfgRepoFault cfg idx")
  case None
  show ?thesis
  proof (cases "infoArchiveLoadFile (repos ! idx) INFO_ARCHIVE_PATH_FILE")
    case (Inr info)
    show ?thesis using None Inr
      by (cases "infoPgData info (historyCurrent info)")
         (auto simp: archivePushCheck_repo_def repoVerdict_def repoCurrent_def infoPgArchiveId_def infoPgDataCurrent_def)
  qed (use None in \<open>auto simp: archivePushCheck_repo_def repoVerdict_def repoCurrent_def\<close>)
qed (auto simp: archivePushCheck_repo_def repoVerdict_def repoCurrent_def)

lemma verdict_matches: "repoVerdict cfg repos pv sid idx = Inr d \<Longrightarrow> version d = pv \<and> systemId d = sid"
  by (auto simp: repoVerdict_def split: sum.splits if_splits)

lemma check_loop_spec:
  assumes "pgPathSet \<or> 0 \<notin> set idxs"
  shows "archivePushCheck_loop cfg repos pgPathSet idxs \<lparr>checkPgVersion = pv, checkPgSystemId = sid, checkRepoList = rds, checkErrorList = es\<rparr> =
    \<lparr>checkPgVersion = pv, checkPgSystemId = sid,
      checkRepoList = rds @ map (\<lambda>idx. \<lparr>pushRepoIdx = idx, pushArchiveId =
        pgVersionToStr pv @ ''-'' @ fmt_u (unat (pgid (projr (repoVerdict cfg repos pv sid idx))))\<rparr>)
          (filter (validRepo cfg repos pv sid) idxs),
      checkErrorList = es @ map (\<lambda>idx. (idx, projl (repoVerdict cfg repos pv sid idx))) (filter (\<lambda>idx. \<not> validRepo cfg repos pv sid idx) idxs)\<rparr>"
  using assms
proof (induction idxs arbitrary: rds es)
  case (Cons idx idxs)
  then have flag: "pgPathSet \<or> idx > 0" and rest: "pgPathSet \<or> 0 \<notin> set idxs" by auto
  note IH = Cons.IH [OF rest]
  show ?case
  proof (cases "repoVerdict cfg repos pv sid idx")
    case (Inl e)
    then show ?thesis using IH flag by (simp add: check_repo_verdict validRepo_def)
  next
    case (Inr d)
    then show ?thesis using IH flag verdict_matches [OF Inr] by (simp add: check_repo_verdict validRepo_def)
  qed
qed simp

text \<open>
  C36: The check of the repositories before a push.  With \<^verbatim>\<open>pg_control\<close> at hand each repository is judged by itself:
  the list to push to has, in order, exactly the valid repositories with the archive id of their current entry, all
  others are in the list of errors with what is wrong with them, and the check fails exactly when no repository is
  valid.  Without it the current entry of the first repository takes the place of \<^verbatim>\<open>pg_control\<close>; but when that entry
  is not at hand every other repository is compared with version and system id zero, and the check ends in
  \<^verbatim>\<open>RepoInvalidError\<close> whether the other repositories are valid and agree or not.
\<close>

theorem archivePushCheck_result:
  "(case cfgPgControl cfg of
      Inl e \<Rightarrow> archivePushCheck cfg repos True = Inl e
    | Inr (pv, sid) \<Rightarrow> archivePushCheck cfg repos True = pushCheckSpec cfg repos pv sid) \<and>
   (repos \<noteq> [] \<longrightarrow>
    (case repoCurrent cfg repos 0 of
       Inr d \<Rightarrow> archivePushCheck cfg repos False = pushCheckSpec cfg repos (version d) (systemId d)
     | Inl e \<Rightarrow> (\<forall>idx<length repos. \<forall>d. repoCurrent cfg repos idx = Inr d \<longrightarrow> version d \<noteq> 0) \<longrightarrow>
         archivePushCheck cfg repos False = Inl RepoInvalidError))"
proof (intro conjI impI)
  show "case cfgPgControl cfg of
      Inl e \<Rightarrow> archivePushCheck cfg repos True = Inl e
    | Inr (pv, sid) \<Rightarrow> archivePushCheck cfg repos True = pushCheckSpec cfg repos pv sid"
    by (auto simp: archivePushCheck_def pushCheckSpec_def check_loop_spec Let_def split: sum.splits prod.splits)
next
  assume "repos \<noteq> []"
  then have idxs: "[0 ..< length repos] = 0 # [Suc 0 ..< length repos]" by (simp add: upt_conv_Cons)
  have rest: "False \<or> 0 \<notin> set [Suc 0 ..< length repos]" by simp
  show "case repoCurrent cfg repos 0 of
       Inr d \<Rightarrow> archivePushCheck cfg repos False = pushCheckSpec cfg repos (version d) (systemId d)
     | Inl e \<Rightarrow> (\<forall>idx<length repos. \<forall>d. repoCurrent cfg repos idx = Inr d \<longrightarrow> version d \<noteq> 0) \<longrightarrow>
         archivePushCheck cfg repos False = Inl RepoInvalidError"
  proof (cases "repoCurrent cfg repos 0")
    case (Inl e)
    have "archivePushCheck cfg repos False = Inl RepoInvalidError"
      if "\<forall>idx<length repos. \<forall>d. repoCurrent cfg repos idx = Inr d \<longrightarrow> version d \<noteq> 0"
    proof -
      have "\<not> validRepo cfg repos 0 0 idx" if "idx < length repos" for idx
        using that \<open>\<forall>idx<length repos. _ idx\<close> by (auto simp: validRepo_def repoVerdict_def split: sum.splits)
      then have "filter (validRepo cfg repos 0 0) [Suc 0 ..< length repos] = []" by (simp add: filter_empty_conv)
      then show ?thesis
        using Inl by (simp add: archivePushCheck_def idxs check_repo_verdict check_loop_spec [OF rest] Let_def del: upt.simps)
    qed
    then show ?thesis using Inl by simp
  next
    case (Inr d)
    then have "repoVerdict cfg repos (version d) (systemId d) 0 = Inr d" by (simp add: repoVerdict_def)
    then have "archivePushCheck cfg repos False = pushCheckSpec cfg repos (version d) (systemId d)"
      using Inr by (simp add: archivePushCheck_def pushCheckSpec_def validRepo_def idxs check_repo_verdict
          check_loop_spec [OF rest] Let_def del: upt.simps)
    then show ?thesis using Inr by simp
  qed
qed

section \<open>The worker\<close>

definition push_cfg_ok :: "PushCfg \<Rightarrow> bool" where
  "push_cfg_ok cfg \<longleftrightarrow> (\<forall>f. push_env_ok (cfgPushEnv cfg f)) \<and> (\<forall>fs. mset (cfgJobOrder cfg fs) = mset fs)"

text \<open>The segment is in every repository of the list, with the checksum of the WAL that PostgreSQL has.\<close>

definition archived :: "PushCfg \<Rightarrow> ArchivePushFileRepoData list \<Rightarrow> repo list \<Rightarrow> string \<Rightarrow> bool" where
  "archived cfg rds repos w \<longleftrightarrow>
    (\<exists>wal. cfgWal cfg w = Some wal \<and>
      (\<forall>rd\<in>set rds. has_segment (repos ! pushRepoIdx rd) (pushArchiveId rd) w (sha1 (cfgPushEnv cfg w) wal)))"

lemma archived_cong:
  "(\<And>i archiveId. segmentFiles (repos' ! i) archiveId w = segmentFiles (repos ! i) archiveId w) \<Longrightarrow>
    archived cfg rds repos' w = archived cfg rds repos w"
  by (simp add: archived_def has_segment_def)

lemma out_queue: "archiveAsyncSpoolQueue archiveModePush = STORAGE_SPOOL_ARCHIVE_OUT"
  by (simp add: archiveAsyncSpoolQueue_def)

lemma push_job_archived:
  assumes "push_env_ok (cfgPushEnv cfg w)" "walIsSegment w" "repo_list_ok (checkRepoList info) repos"
    "archivePushFile (cfgPushEnv cfg w) (cfgWal cfg w) h m pv sid w (checkRepoList info) (checkErrorList info) repos = (repos', Inr warns)"
  shows "checkErrorList info = []" "archived cfg (checkRepoList info) repos' w"
proof -
  obtain wal where wal: "cfgWal cfg w = Some wal"
    using assms(4) by (cases "cfgWal cfg w") (auto simp: archivePushFile_def)
  note run = assms(4) [unfolded wal]
  show "checkErrorList info = []" using push_segment_result [OF assms(2) run] by auto
  show "archived cfg (checkRepoList info) repos' w"
    using push_success_has_segment [OF assms(1-3) run] wal by (auto simp: archived_def)
qed

lemma jobs_other:
  assumes "push_cfg_ok cfg" "\<forall>f\<in>set fs. walIsSegment f" "w \<notin> set fs" "walIsSegment w"
    "repo_list_ok (checkRepoList info) repos" "archivePushAsync_jobs cfg info fs spool repos = (spool', repos')"
  shows "segmentFiles (repos' ! i) archiveId w = segmentFiles (repos ! i) archiveId w"
  using assms(2,3,5,6)
proof (induction fs arbitrary: spool repos)
  case (Cons f fs)
  obtain repos1 r where push: "archivePushFile (cfgPushEnv cfg f) (cfgWal cfg f) (cfgHeaderCheck cfg) (cfgModeCheck cfg)
      (checkPgVersion info) (checkPgSystemId info) f (checkRepoList info) (checkErrorList info) repos = (repos1, r)" by fastforce
  have env: "push_env_ok (cfgPushEnv cfg f)" using assms(1) by (simp add: push_cfg_ok_def)
  have seg: "walIsSegment f" "f \<noteq> w" using Cons.prems(1,2) by auto
  note other = push_other_segment [OF env seg(1) assms(4) seg(2) Cons.prems(3) push]
  have "repo_list_ok (checkRepoList info) repos1" using Cons.prems(3) other(2) by (simp add: repo_list_ok_def)
  then show ?case using Cons.IH [of repos1] Cons.prems push other(1) by auto
qed simp

lemma jobs_archived:
  assumes "push_cfg_ok cfg" "distinct fs" "\<forall>f\<in>set fs. walIsSegment f" "repo_list_ok (checkRepoList info) repos"
    "archivePushAsync_jobs cfg info fs spool repos = (spool', repos')" "walIsSegment w"
    "\<not> storageExists spool [STORAGE_SPOOL_ARCHIVE_OUT, w @ STATUS_EXT_OK]"
    "storageExists spool' [STORAGE_SPOOL_ARCHIVE_OUT, w @ STATUS_EXT_OK]"
  shows "w \<in> set fs \<and> checkErrorList info = [] \<and> archived cfg (checkRepoList info) repos' w"
  using assms(2-5,7,8)
proof (induction fs arbitrary: spool repos)
  case (Cons f fs)
  obtain repos1 r where push: "archivePushFile (cfgPushEnv cfg f) (cfgWal cfg f) (cfgHeaderCheck cfg) (cfgModeCheck cfg)
      (checkPgVersion info) (checkPgSystemId info) f (checkRepoList info) (checkErrorList info) repos = (repos1, r)" by fastforce
  define spool1 where "spool1 = (case r of
      Inr fileWarnList \<Rightarrow> archiveAsyncStatusOkWrite archiveModePush f (if fileWarnList = [] then None else Some (joinLines fileWarnList)) spool
    | Inl e \<Rightarrow> archiveAsyncStatusErrorWrite archiveModePush (Some f) (cfgErrorCode cfg e) (cfgErrorText cfg e) spool)"
  have jobs: "archivePushAsync_jobs cfg info fs spool1 repos1 = (spool', repos')"
    using Cons.prems(4) push by (simp add: spool1_def)
  have env: "push_env_ok (cfgPushEnv cfg g)" for g using assms(1) by (simp add: push_cfg_ok_def)
  have seg: "walIsSegment f" "distinct fs" "f \<notin> set fs" "\<forall>g\<in>set fs. walIsSegment g" using Cons.prems(1,2) by simp_all
  have "length repos1 = length repos"
  proof -
    have "\<exists>x. walIsSegment x \<and> x \<noteq> f" by (intro exI [of _ "if f = ''000000010000000100000001'' then ''000000010000000100000002'' else ''000000010000000100000001''"]) (auto; code_simp)
    then show ?thesis using push_other_segment(2) [OF env seg(1) _ _ Cons.prems(3) push] by blast
  qed
  then have ok1: "repo_list_ok (checkRepoList info) repos1" using Cons.prems(3) by (simp add: repo_list_ok_def)
  show ?case
  proof (cases "storageExists spool1 [STORAGE_SPOOL_ARCHIVE_OUT, w @ STATUS_EXT_OK]")
    case False
    from Cons.IH [OF seg(2,4) ok1 jobs False Cons.prems(6)] show ?thesis by simp
  next
    case True
    then have w: "w = f" "\<exists>warns. r = Inr warns"
      using Cons.prems(5)
      by (auto simp: spool1_def archiveAsyncStatusOkWrite_def archiveAsyncStatusErrorWrite_def out_queue split: sum.splits)
    then obtain warns where r: "r = Inr warns" by blast
    have now: "checkErrorList info = []" "archived cfg (checkRepoList info) repos1 w"
      using push_job_archived [OF env _ Cons.prems(3)] push assms(6) unfolding r w(1) by blast+
    moreover have "archived cfg (checkRepoList info) repos' w = archived cfg (checkRepoList info) repos1 w"
      by (rule archived_cong) (rule jobs_other [OF assms(1) seg(4) _ assms(6) ok1 jobs], use w(1) seg(3) in simp)
    ultimately show ?thesis using w(1) by simp
  qed
qed simp

lemma drop_ok_content:
  "storageContent (dropFiles cfg q fs spool) [STORAGE_SPOOL_ARCHIVE_OUT, w @ STATUS_EXT_OK] =
    (if w \<in> set fs then Some (CHR ''0'' # CHR 0x0A # archivePushDropWarning cfg w q)
     else storageContent spool [STORAGE_SPOOL_ARCHIVE_OUT, w @ STATUS_EXT_OK])"
  unfolding dropFiles_def
  by (induction fs arbitrary: spool) (auto simp: archiveAsyncStatusOkWrite_def out_queue)

lemma error_write_ok [simp]:
  "storageContent (archiveAsyncStatusErrorWrite mode f code msg spool) [q, w @ STATUS_EXT_OK] =
    storageContent spool [q, w @ STATUS_EXT_OK]"
  by (auto simp: archiveAsyncStatusErrorWrite_def Let_def)

text \<open>
  C26: An ok file is only written for WAL that is safe.  When the worker ran for a queue of WAL segments and leaves an
  ok file for a segment that had none, then either the segment was dropped because the queue was too large, and the ok
  file carries that warning, or every configured repository holds exactly one file for the segment, with the checksum
  of the WAL that PostgreSQL has.
\<close>

theorem cmdArchivePushAsync_ok_archived:
  assumes "push_cfg_ok cfg" "spool_ok spool" "cfgArchiveStatus cfg = Some names" "distinct names"
    "prefix_free (stems STATUS_EXT_OK (storageListAll spool [STORAGE_SPOOL_ARCHIVE_OUT]))"
    "prefix_free (stems STATUS_EXT_READY names)" "\<forall>f. f @ STATUS_EXT_READY \<in> set names \<longrightarrow> walIsSegment f"
    "cmdArchivePushAsync cfg commandParam spool repos = ((spool', repos'), r)" "walIsSegment w"
    "\<not> storageExists spool [STORAGE_SPOOL_ARCHIVE_OUT, w @ STATUS_EXT_OK]"
    "storageExists spool' [STORAGE_SPOOL_ARCHIVE_OUT, w @ STATUS_EXT_OK]"
  shows "(\<exists>q. cfgQueueMax cfg = Some q \<and> storageContent spool' [STORAGE_SPOOL_ARCHIVE_OUT, w @ STATUS_EXT_OK] =
      Some (CHR ''0'' # CHR 0x0A # archivePushDropWarning cfg w q)) \<or>
    (\<exists>info. archivePushCheck cfg repos True = Inr info \<and>
      map pushRepoIdx (checkRepoList info) = [0 ..< length repos] \<and> archived cfg (checkRepoList info) repos' w)"
proof -
  obtain spool1 list where list: "archivePushProcessList spool (cfgArchiveStatus cfg) = (spool1, Inr list)"
    "sorted_wrt (<) list"
    "set list = {w. w @ STATUS_EXT_READY \<in> set names \<and> \<not> storageExists spool [STORAGE_SPOOL_ARCHIVE_OUT, w @ STATUS_EXT_OK]}"
    and content: "\<forall>f. storageContent spool1 [STORAGE_SPOOL_ARCHIVE_OUT, f] =
      (if \<exists>w. f = w @ STATUS_EXT_OK \<and> w @ STATUS_EXT_READY \<in> set names
       then storageContent spool [STORAGE_SPOOL_ARCHIVE_OUT, f] else None)"
    using processList_result [OF assms(5,6,4,2)] unfolding assms(3) by blast
  have none1: "storageContent spool1 [STORAGE_SPOOL_ARCHIVE_OUT, w @ STATUS_EXT_OK] = None"
    using content assms(10) by (auto simp: storageExists_get)
  have none0: "storageContent spool [STORAGE_SPOOL_ARCHIVE_OUT, w @ STATUS_EXT_OK] = None"
    using assms(10) by (simp add: storageExists_get)
  have ok: "storageContent spool' [STORAGE_SPOOL_ARCHIVE_OUT, w @ STATUS_EXT_OK] \<noteq> None"
    using assms(11) by (simp add: storageExists_get)
  obtain s2 repos2 r2 where body: "archivePushAsync_try cfg spool repos = ((s2, repos2), r2)" by (metis prod.exhaust)
  have s2: "storageContent s2 [STORAGE_SPOOL_ARCHIVE_OUT, w @ STATUS_EXT_OK] = storageContent spool' [STORAGE_SPOOL_ARCHIVE_OUT, w @ STATUS_EXT_OK]"
    "repos2 = repos'"
    using assms(8) body ok none0 by (auto simp: cmdArchivePushAsync_def split: if_splits sum.splits)
  define dr where "dr = (case cfgQueueMax cfg of None \<Rightarrow> Inr False | Some q \<Rightarrow> archivePushDrop (cfgWalFileSize cfg) q list)"
  have "(dr = Inr True \<and> s2 = dropFiles cfg (the (cfgQueueMax cfg)) list spool1) \<or>
    (\<exists>info. archivePushCheck cfg repos True = Inr info \<and>
      archivePushAsync_jobs cfg info (cfgJobOrder cfg list) spool1 repos = (s2, repos2))"
    using body s2(1) ok none0 none1 list(1)
    by (auto simp: archivePushAsync_try_def dr_def [symmetric] split: sum.splits if_splits bool.splits)
  then show ?thesis
  proof (elim disjE exE conjE)
    assume dr: "dr = Inr True" and s: "s2 = dropFiles cfg (the (cfgQueueMax cfg)) list spool1"
    then obtain q where q: "cfgQueueMax cfg = Some q" by (auto simp: dr_def split: option.splits)
    then show ?thesis using s2(1) s none1 ok drop_ok_content [of cfg q list spool1 w] by (auto split: if_splits)
  next
    fix info assume check: "archivePushCheck cfg repos True = Inr info"
      and jobs: "archivePushAsync_jobs cfg info (cfgJobOrder cfg list) spool1 repos = (s2, repos2)"
    have ms: "mset (cfgJobOrder cfg list) = mset list" using assms(1) by (simp add: push_cfg_ok_def)
    have "set (cfgJobOrder cfg list) = set list" by (rule mset_eq_setD [OF ms])
    then have segs: "\<forall>f\<in>set (cfgJobOrder cfg list). walIsSegment f" using list(3) assms(7) by auto
    have dist: "distinct (cfgJobOrder cfg list)"
      using list(2) mset_eq_imp_distinct_iff [OF ms] by (simp add: strict_sorted_iff)
    have "checkErrorList info = [] \<and> archived cfg (checkRepoList info) repos2 w"
      using jobs_archived [OF assms(1) dist segs check_result(1) [OF check] jobs assms(9)] none1 s2(1) ok
      by (simp add: storageExists_get)
    then show ?thesis using check check_result(3) [OF check] s2(2) by auto
  qed
qed

section \<open>The foreground process\<close>

text \<open>
  What the status files in the spool say about a WAL file.  An ok file counts before any error file and an error file
  of the segment before the global one.  A file that is not a code and a message is malformed; an empty error file is
  an assertion failure.
\<close>

datatype PushStatus = Pushed | Pending | Failed "error \<times> string" | Malformed "error \<times> string"

definition pushStatus :: "spool \<Rightarrow> string \<Rightarrow> PushStatus" where
  "pushStatus spool f =
    (case storageContent spool [STORAGE_SPOOL_ARCHIVE_OUT, f @ STATUS_EXT_OK] of
       Some content \<Rightarrow>
         (case statusContent (f @ STATUS_EXT_OK) content of Inl e \<Rightarrow> Malformed e | Inr _ \<Rightarrow> Pushed)
     | None \<Rightarrow>
         (let n = (if storageExists spool [STORAGE_SPOOL_ARCHIVE_OUT, f @ STATUS_EXT_ERROR] then f else STATUS_FILE_GLOBAL) @ STATUS_EXT_ERROR
          in case storageContent spool [STORAGE_SPOOL_ARCHIVE_OUT, n] of
               None \<Rightarrow> Pending
             | Some [] \<Rightarrow> Failed (AssertError, ''status file '' @ CHR 0x27 # n @ CHR 0x27 # '' has no content'')
             | Some content \<Rightarrow>
                 (case statusContent n content of
                    Inl e \<Rightarrow> Malformed e
                  | Inr (code, message) \<Rightarrow> Failed (ErrorCode code, the message))))"

text \<open>Which status ends the polling: an error does not in the first round, to give the worker a chance to fix it.\<close>

definition answers :: "bool \<Rightarrow> PushStatus \<Rightarrow> bool" where
  "answers first st = (case st of Pushed \<Rightarrow> True | Pending \<Rightarrow> False | Failed e \<Rightarrow> \<not> first | Malformed e \<Rightarrow> True)"

definition answerOf :: "PushStatus \<Rightarrow> bool msg_res" where
  "answerOf st = (case st of Pushed \<Rightarrow> Inr True | Pending \<Rightarrow> Inr False | Failed e \<Rightarrow> Inl e | Malformed e \<Rightarrow> Inl e)"

lemma archiveAsyncStatus_push:
  "case pushStatus spool f of
     Pushed \<Rightarrow> \<exists>w. archiveAsyncStatus spool archiveModePush f throw True = Inr (True, w)
   | Pending \<Rightarrow> archiveAsyncStatus spool archiveModePush f throw True = Inr (False, None)
   | Failed e \<Rightarrow> archiveAsyncStatus spool archiveModePush f throw True = (if throw then Inl e else Inr (False, None))
   | Malformed e \<Rightarrow> archiveAsyncStatus spool archiveModePush f throw True = Inl e"
proof (cases "storageContent spool [STORAGE_SPOOL_ARCHIVE_OUT, f @ STATUS_EXT_OK]")
  case (Some content)
  then show ?thesis
    using archiveAsyncStatus_ok [of spool archiveModePush f content throw True]
    by (auto simp: pushStatus_def out_queue split: sum.splits)
next
  case None
  define n where "n = (if storageExists spool [STORAGE_SPOOL_ARCHIVE_OUT, f @ STATUS_EXT_ERROR] then f else STATUS_FILE_GLOBAL) @ STATUS_EXT_ERROR"
  have n': "(if storageExists spool [STORAGE_SPOOL_ARCHIVE_OUT, f @ STATUS_EXT_ERROR] then f @ STATUS_EXT_ERROR
      else STATUS_FILE_GLOBAL @ STATUS_EXT_ERROR) = n" by (simp add: n_def)
  have no: "storageExists spool [STORAGE_SPOOL_ARCHIVE_OUT, f @ STATUS_EXT_OK] = False" using None by (simp add: storageExists_get)
  have empty: "statusContent n [] = Inr (0, None)" by (simp add: statusContent_def)
  show ?thesis
    unfolding pushStatus_def archiveAsyncStatus_def Let_def out_queue None n' no n_def [symmetric] if_False option.case
    by (cases "storageContent spool [STORAGE_SPOOL_ARCHIVE_OUT, n]"; cases "the (storageContent spool [STORAGE_SPOOL_ARCHIVE_OUT, n])";
        cases "statusContent n (the (storageContent spool [STORAGE_SPOOL_ARCHIVE_OUT, n]))")
       (simp_all add: empty split: prod.splits)
qed

lemma poll_round:
  "archivePush_poll path f ((spool, l) # rounds) forked throw =
    (if answers (\<not> throw) (pushStatus spool f) then ([], answerOf (pushStatus spool f))
     else case archivePush_poll path f rounds (forked \<or> l) True of
       (evs, r) \<Rightarrow> (if \<not> forked \<and> l then ErrorClear f # AsyncExec path # evs else evs, r))"
  using archiveAsyncStatus_push [of spool f throw]
  by (cases "pushStatus spool f") (auto simp: answers_def answerOf_def split: prod.splits)

text \<open>What happens on the way: the errors are cleared and the worker is started in the first round that has the lock.\<close>

definition pushEvents :: "string \<Rightarrow> string \<Rightarrow> (spool \<times> bool) list \<Rightarrow> PushEvent list" where
  "pushEvents path f rounds = (if \<exists>round\<in>set rounds. snd round then [ErrorClear f, AsyncExec path] else [])"

lemma poll_answer:
  assumes "i \<le> length rounds" "\<forall>j<i. \<not> answers (\<not> throw \<and> j = 0) (pushStatus (fst (rounds ! j)) f)"
    "i < length rounds \<Longrightarrow> answers (\<not> throw \<and> i = 0) (pushStatus (fst (rounds ! i)) f)"
  shows "archivePush_poll path f rounds forked throw =
    (if forked then [] else pushEvents path f (take i rounds),
     if i < length rounds then answerOf (pushStatus (fst (rounds ! i)) f) else Inr False)"
  using assms
proof (induction rounds arbitrary: i forked throw)
  case (Cons round rounds)
  obtain spool l where round: "round = (spool, l)" by fastforce
  show ?case
  proof (cases i)
    case 0
    then show ?thesis using Cons.prems(3) round by (simp add: poll_round pushEvents_def del: archivePush_poll.simps(2))
  next
    case (Suc k)
    have "\<not> answers (\<not> throw) (pushStatus spool f)" using Cons.prems(2) Suc round by force
    moreover have "archivePush_poll path f rounds (forked \<or> l) True =
      (if forked \<or> l then [] else pushEvents path f (take k rounds),
       if k < length rounds then answerOf (pushStatus (fst (rounds ! k)) f) else Inr False)"
    proof (rule Cons.IH)
      show "\<forall>j<k. \<not> answers (\<not> True \<and> j = 0) (pushStatus (fst (rounds ! j)) f)"
      proof (intro allI impI)
        fix j assume "j < k"
        then show "\<not> answers (\<not> True \<and> j = 0) (pushStatus (fst (rounds ! j)) f)"
          using Cons.prems(2) [rule_format, of "Suc j"] Suc by simp
      qed
    qed (use Cons.prems Suc in auto)
    ultimately show ?thesis
      using round Suc by (auto simp: poll_round pushEvents_def simp del: archivePush_poll.simps(2))
  qed
qed (simp add: pushEvents_def)

text \<open>
  C27: The answer to PostgreSQL.  The first round whose status files answer decides: an ok file is success, an error
  file (of the segment or global) is thrown with its code and message, except in the first round, where it is not
  looked at so that a new worker can fix it; a malformed status file is an error in every round.  Without such a round
  the command ends in a timeout error.  Whatever the answer, the errors are cleared and one worker is started exactly
  if the lock was available in a round before the answer.
\<close>

theorem archivePush_async_answer:
  assumes "i \<le> length rounds" "\<forall>j<i. \<not> answers (j = 0) (pushStatus (fst (rounds ! j)) f)"
    "i < length rounds \<longrightarrow> answers (i = 0) (pushStatus (fst (rounds ! i)) f)"
  shows "archivePush_async path f rounds True =
    (pushEvents path f (take i rounds),
     if i = length rounds then Inl (ArchiveTimeoutError, ''unable to push WAL file '')
     else case pushStatus (fst (rounds ! i)) f of
       Pushed \<Rightarrow> Inr ()
     | Failed e \<Rightarrow> Inl e
     | Malformed e \<Rightarrow> Inl e)"
proof -
  have poll: "archivePush_poll path f rounds False False =
    (pushEvents path f (take i rounds),
     if i < length rounds then answerOf (pushStatus (fst (rounds ! i)) f) else Inr False)"
    using poll_answer [of i rounds False f path False] assms by simp
  show ?thesis
  proof (cases "i = length rounds")
    case False
    then have "pushStatus (fst (rounds ! i)) f \<noteq> Pending" "i < length rounds" using assms by (auto simp: answers_def)
    then show ?thesis
      by (cases "pushStatus (fst (rounds ! i)) f") (simp_all add: archivePush_async_def poll answerOf_def)
  qed (simp add: archivePush_async_def poll)
qed

text \<open>
  An error file that is there in the first round is passed over while the worker is started and thrown when it is
  back in the second; an ok file in the second round is success; and when nothing is reported the command times out.
\<close>

theorem archivePush_async_answer_witness:
  "archivePush_async ''pg_wal'' ''0001'' [([([''out'', ''0001.error''], [CHR ''4'', CHR ''5'', CHR 0x0A, CHR ''x''])], True),
     ([([''out'', ''global.error''], [CHR ''4'', CHR ''5'', CHR 0x0A, CHR ''x''])], False)] True =
     ([ErrorClear ''0001'', AsyncExec ''pg_wal''], Inl (ErrorCode 45, ''x'')) \<and>
   archivePush_async ''pg_wal'' ''0001'' [([], True), ([([''out'', ''0001.ok''], [])], False)] True =
     ([ErrorClear ''0001'', AsyncExec ''pg_wal''], Inr ()) \<and>
   archivePush_async ''pg_wal'' ''0001'' [([], False), ([], False)] True =
     ([], Inl (ArchiveTimeoutError, ''unable to push WAL file ''))"
proof (intro conjI, goal_cases)
  let ?err = "[CHR ''4'', CHR ''5'', CHR 0x0A, CHR ''x'']"
  case 1
  have "pushStatus [([''out'', ''0001.error''], ?err)] ''0001'' = Failed (ErrorCode 45, ''x'')"
    "pushStatus [([''out'', ''global.error''], ?err)] ''0001'' = Failed (ErrorCode 45, ''x'')" by code_simp+
  then show ?case
    using archivePush_async_answer [of 1 "[([([''out'', ''0001.error''], ?err)], True), ([([''out'', ''global.error''], ?err)], False)]" "''0001''" "''pg_wal''"]
    by (simp add: answers_def pushEvents_def)
next
  case 2
  have "pushStatus [] ''0001'' = Pending" "pushStatus [([''out'', ''0001.ok''], [])] ''0001'' = Pushed" by code_simp+
  then show ?case
    using archivePush_async_answer [of 1 "[([], True), ([([''out'', ''0001.ok''], [])], False)]" "''0001''" "''pg_wal''"]
    by (simp add: answers_def pushEvents_def)
next
  case 3
  have "pushStatus [] ''0001'' = Pending" by code_simp
  then show ?case
    using archivePush_async_answer [of 2 "[([], False), ([], False)]" "''0001''" "''pg_wal''"]
    by (auto simp: answers_def pushEvents_def less_Suc_eq numeral_2_eq_2)
qed

section \<open>Sample\<close>

definition sample_repo0 :: repo where
  "sample_repo0 = [(INFO_ARCHIVE_PATH_FILE, FArchiveInfo
    \<lparr>history = [\<lparr>pgid = 1, systemId = 1, catalogVersion = 0, version = 100000, controlVersion = 0\<rparr>],
     pgType = infoPgArchive, historyCurrent = 0, infoPgCipherPass = None\<rparr>)]"

definition sample_cfg :: PushCfg where
  "sample_cfg = \<lparr>cfgQueueMax = None, cfgHeaderCheck = True, cfgModeCheck = True, cfgStopTest = Inr (),
     cfgArchiveStatus = Some [''000000010000000100000001.ready''], cfgWalFileSize = (\<lambda>f. Some 16), cfgWal = (\<lambda>f. Some ''wal''),
     cfgPgControl = Inr (100000, 1), cfgRepoFault = (\<lambda>i. None), cfgPushEnv = (\<lambda>f. sample_push_env), cfgJobOrder = (\<lambda>fs. fs),
     cfgErrorCode = (\<lambda>e. 1), cfgErrorText = (\<lambda>e. ''error''), cfgSizeText = (\<lambda>n. ''0B'')\<rparr>"

definition sample_async :: "(spool \<times> repo list) \<times> unit res" where
  "sample_async = cmdArchivePushAsync sample_cfg [''pg_wal''] [] [sample_repo0, sample_repo0]"

lemma sample_ready:
  "stems STATUS_EXT_READY [''000000010000000100000001.ready''] = {''000000010000000100000001''}"
proof -
  have "w @ ''.ready'' = ''000000010000000100000001'' @ ''.ready'' \<longleftrightarrow> w = ''000000010000000100000001''" for w
    by (simp only: append_same_eq)
  then show ?thesis by (simp add: stems_def STATUS_EXT_READY_def)
qed

theorem cmdArchivePushAsync_ok_archived_witness:
  "\<exists>info. archivePushCheck sample_cfg [sample_repo0, sample_repo0] True = Inr info \<and>
    archived sample_cfg (checkRepoList info) (snd (fst sample_async)) ''000000010000000100000001''"
proof -
  have segs: "\<forall>f. f @ STATUS_EXT_READY \<in> set [''000000010000000100000001.ready''] \<longrightarrow> walIsSegment f"
  proof (intro allI impI)
    fix f assume "f @ STATUS_EXT_READY \<in> set [''000000010000000100000001.ready'']"
    then have "f \<in> stems STATUS_EXT_READY [''000000010000000100000001.ready'']" by (simp add: stems_def)
    then have "f = ''000000010000000100000001''" unfolding sample_ready by simp
    moreover have "walIsSegment ''000000010000000100000001''" by code_simp
    ultimately show "walIsSegment f" by simp
  qed
  have cfg: "push_cfg_ok sample_cfg" "cfgArchiveStatus sample_cfg = Some [''000000010000000100000001.ready'']"
    "cfgQueueMax sample_cfg = None"
    using sample_push_env_ok by (simp_all add: push_cfg_ok_def sample_cfg_def)
  have pf: "prefix_free (stems STATUS_EXT_OK (storageListAll ([] :: spool) [STORAGE_SPOOL_ARCHIVE_OUT]))"
    "prefix_free (stems STATUS_EXT_READY [''000000010000000100000001.ready''])"
    unfolding sample_ready by (simp_all add: prefix_free_def stems_def storageListAll_def)
  have run: "cmdArchivePushAsync sample_cfg [''pg_wal''] [] [sample_repo0, sample_repo0] =
    ((fst (fst sample_async), snd (fst sample_async)), snd sample_async)" by (simp add: sample_async_def)
  have ok: "storageExists (fst (fst sample_async)) [STORAGE_SPOOL_ARCHIVE_OUT, ''000000010000000100000001'' @ STATUS_EXT_OK]"
    "walIsSegment ''000000010000000100000001''" by code_simp+
  show ?thesis
    using cmdArchivePushAsync_ok_archived [OF cfg(1) _ cfg(2) _ pf segs run ok(2) _ ok(1)]
    by (auto simp: cfg(3) spool_ok_def storageExists_def)
qed

text \<open>
  Of two repositories, the second of another cluster, the first is pushed to and the second has a mismatch.  Of two
  good repositories without \<^verbatim>\<open>pg_control\<close> none is found when the first cannot be opened.
\<close>

definition sample_repo1 :: repo where
  "sample_repo1 = [(INFO_ARCHIVE_PATH_FILE, FArchiveInfo
    \<lparr>history = [\<lparr>pgid = 1, systemId = 2, catalogVersion = 0, version = 100000, controlVersion = 0\<rparr>],
     pgType = infoPgArchive, historyCurrent = 0, infoPgCipherPass = None\<rparr>)]"

theorem archivePushCheck_result_witness:
  "archivePushCheck sample_cfg [sample_repo0, sample_repo1] True =
     Inr \<lparr>checkPgVersion = 100000, checkPgSystemId = 1, checkRepoList = [\<lparr>pushRepoIdx = 0, pushArchiveId = ''10-1''\<rparr>],
       checkErrorList = [(1, ArchiveMismatchError)]\<rparr> \<and>
   archivePushCheck (sample_cfg\<lparr>cfgRepoFault := (\<lambda>i. if i = 0 then Some FileOpenError else None)\<rparr>) [sample_repo0, sample_repo0] False =
     Inl RepoInvalidError"
proof
  have pg: "cfgPgControl sample_cfg = Inr (100000, 1)" by (simp add: sample_cfg_def)
  have "pushCheckSpec sample_cfg [sample_repo0, sample_repo1] 100000 1 =
     Inr \<lparr>checkPgVersion = 100000, checkPgSystemId = 1, checkRepoList = [\<lparr>pushRepoIdx = 0, pushArchiveId = ''10-1''\<rparr>],
       checkErrorList = [(1, ArchiveMismatchError)]\<rparr>" by code_simp
  then show "archivePushCheck sample_cfg [sample_repo0, sample_repo1] True =
     Inr \<lparr>checkPgVersion = 100000, checkPgSystemId = 1, checkRepoList = [\<lparr>pushRepoIdx = 0, pushArchiveId = ''10-1''\<rparr>],
       checkErrorList = [(1, ArchiveMismatchError)]\<rparr>"
    using archivePushCheck_result [of sample_cfg "[sample_repo0, sample_repo1]"] pg by simp
next
  let ?cfg = "sample_cfg\<lparr>cfgRepoFault := (\<lambda>i. if i = 0 then Some FileOpenError else None)\<rparr>"
  let ?d = "\<lparr>pgid = 1, systemId = 1, catalogVersion = 0, version = 100000, controlVersion = 0\<rparr>"
  have cur: "repoCurrent ?cfg [sample_repo0, sample_repo0] 0 = Inl FileOpenError"
    "repoCurrent ?cfg [sample_repo0, sample_repo0] 1 = Inr ?d" by code_simp+
  have "version d \<noteq> 0" if "idx < length [sample_repo0, sample_repo0]" "repoCurrent ?cfg [sample_repo0, sample_repo0] idx = Inr d" for idx d
  proof -
    have "idx = 0 \<or> idx = 1" using that(1) by auto
    then show ?thesis using that(2) cur by auto
  qed
  then show "archivePushCheck ?cfg [sample_repo0, sample_repo0] False = Inl RepoInvalidError"
    using archivePushCheck_result [of ?cfg "[sample_repo0, sample_repo0]"] cur(1) by auto
qed

end
