(* ===== verification/ArchiveGet.thy ===== *)
theory ArchiveGet
  imports ArchivePushFile
begin

text \<open>
  Finding archive files for archive-get: \<^verbatim>\<open>archiveGetFind\<close> and \<^verbatim>\<open>archiveGetCheck\<close> of
  \<^verbatim>\<open>src/src/command/archive/get/get.c\<close> and \<^verbatim>\<open>archiveGetFile\<close> of \<^verbatim>\<open>src/src/command/archive/get/file.c\<close>.

  A repository is its storage or the error that every access to it throws.  A warning is kept as the index of the
  repository with the error.
\<close>

section \<open>Definitions\<close>

type_synonym repo_access = "repo res"

record ArchiveGetFile =
  getFile :: string
  getRepoIdx :: nat
  getArchiveId :: string

record ArchiveFileMap =
  mapRequest :: string
  mapActualList :: "ArchiveGetFile list"
  mapWarnList :: repo_errors

record ArchiveGetCheckResult =
  getFileMapList :: "ArchiveFileMap list"
  getErrorType :: "error option"
  getErrorFile :: "string option"
  getErrorMatches :: "ArchiveGetFile list"   \<comment> \<open>the duplicates that the error message lists\<close>
  getWarnList :: repo_errors

record ArchiveGetFindCacheArchive =
  cacheArchiveId :: string
  cachePathList :: "(string \<times> string list) list"

record ArchiveGetFindCacheRepo =
  cacheRepoIdx :: nat
  cacheArchiveList :: "ArchiveGetFindCacheArchive list"
  cacheWarnList :: repo_errors

definition archiveGetErrorAdd :: "repo_errors \<Rightarrow> nat \<Rightarrow> error \<Rightarrow> repo_errors" where
  "archiveGetErrorAdd warnList repoIdx type =
    (if (repoIdx, type) \<in> set warnList then warnList else warnList @ [(repoIdx, type)])"

text \<open>\<^verbatim>\<open>"^%s[0-F]{8}-[0-f]{40}" COMPRESS_TYPE_REGEXP "{0,1}$"\<close> for a directory of the archive\<close>

definition archiveDirExpression :: "string \<Rightarrow> rx" where
  "archiveDirExpression path = rx_str path (RSeq (RTimes 8 (RRng CHR ''0'' CHR ''F'')) rx_hash_ext)"

text \<open>The search in one archive id: the cache afterwards and the files found.\<close>

definition archiveGetFind_archive ::
  "repo_access \<Rightarrow> string \<Rightarrow> bool \<Rightarrow> nat \<Rightarrow> ArchiveGetFindCacheArchive
    \<Rightarrow> ArchiveGetFindCacheArchive \<times> (ArchiveGetFile list) res" where
  "archiveGetFind_archive storage request single repoIdx cacheArchive =
    (let archiveId = cacheArchiveId cacheArchive;
         path = take 16 request;
         dir = REPO_ARCHIVE @ [archiveId, path];
         found = (\<lambda>segmentList. Inr (map (\<lambda>s.
           \<lparr>getFile = archiveId @ ''/'' @ path @ ''/'' @ s, getRepoIdx = repoIdx, getArchiveId = archiveId\<rparr>) segmentList))
     in if walIsSegment request then
          if single then
            (cacheArchive, bindR storage (\<lambda>st. found (storageList st dir (walSegmentExpression request))))
          else
            (case map_of (cachePathList cacheArchive) path of
               Some fileList \<Rightarrow> (cacheArchive, found (filter (prefix request) fileList))
             | None \<Rightarrow>
                 (case storage of
                    Inl e \<Rightarrow> (cacheArchive, Inl e)
                  | Inr st \<Rightarrow>
                      (let fileList = storageList st dir (archiveDirExpression path)
                       in (cacheArchive\<lparr>cachePathList := cachePathList cacheArchive @ [(path, fileList)]\<rparr>,
                           found (filter (prefix request) fileList)))))
        else
          (cacheArchive, bindR storage (\<lambda>st.
             Inr (if storageExists st (storageRepoPathExpression archiveId request)
                  then [\<lparr>getFile = archiveId @ ''/'' @ request, getRepoIdx = repoIdx, getArchiveId = archiveId\<rparr>]
                  else []))))"

text \<open>All archive ids of a repository; an error ends the loop but what was found before it stays.\<close>

fun archiveGetFind_archives ::
  "repo_access \<Rightarrow> string \<Rightarrow> bool \<Rightarrow> nat \<Rightarrow> ArchiveGetFindCacheArchive list
    \<Rightarrow> ArchiveGetFindCacheArchive list \<times> ArchiveGetFile list \<times> error option" where
  "archiveGetFind_archives storage request single repoIdx [] = ([], [], None)"
| "archiveGetFind_archives storage request single repoIdx (ca # cas) =
    (case archiveGetFind_archive storage request single repoIdx ca of
       (ca', Inl e) \<Rightarrow> (ca' # cas, [], Some e)
     | (ca', Inr files) \<Rightarrow>
         (case archiveGetFind_archives storage request single repoIdx cas of
            (cas', files', e) \<Rightarrow> (ca' # cas', files @ files', e)))"

text \<open>All repositories: the caches, the matches, the file warnings and the number of repositories with an error.\<close>

fun archiveGetFind_repos ::
  "repo_access list \<Rightarrow> string \<Rightarrow> bool \<Rightarrow> ArchiveGetFindCacheRepo list \<Rightarrow> repo_errors
    \<Rightarrow> ArchiveGetFindCacheRepo list \<times> ArchiveGetFile list \<times> repo_errors \<times> nat" where
  "archiveGetFind_repos repos request single [] fileWarnList = ([], [], fileWarnList, 0)"
| "archiveGetFind_repos repos request single (cr # crs) fileWarnList =
    (case archiveGetFind_archives (repos ! cacheRepoIdx cr) request single (cacheRepoIdx cr) (cacheArchiveList cr) of
       (cas, files, e) \<Rightarrow>
         (let cr' = cr\<lparr>cacheArchiveList := cas,
                cacheWarnList := (case e of None \<Rightarrow> cacheWarnList cr
                                  | Some e' \<Rightarrow> archiveGetErrorAdd (cacheWarnList cr) (cacheRepoIdx cr) e')\<rparr>;
              fileWarnList' = (case e of None \<Rightarrow> fileWarnList
                                 | Some e' \<Rightarrow> archiveGetErrorAdd fileWarnList (cacheRepoIdx cr) e')
          in case archiveGetFind_repos repos request single crs fileWarnList' of
               (crs', files', fileWarnList'', total') \<Rightarrow>
                 (cr' # crs', files @ files', fileWarnList'', (if e = None then 0 else 1) + total')))"

text \<open>\<^verbatim>\<open>strSubN(file, 25, 40)\<close>, which the code takes for the checksum.\<close>

definition matchHash :: "ArchiveGetFile \<Rightarrow> string" where
  "matchHash m = take 40 (drop 25 (getFile m))"

definition archiveGetFind ::
  "repo_access list \<Rightarrow> string \<Rightarrow> ArchiveGetCheckResult \<Rightarrow> ArchiveGetFindCacheRepo list \<Rightarrow> repo_errors \<Rightarrow> bool
    \<Rightarrow> bool \<times> ArchiveGetCheckResult \<times> ArchiveGetFindCacheRepo list" where
  "archiveGetFind repos request result caches warnList single =
    (case archiveGetFind_repos repos request single caches warnList of
       (caches', matchList, fileWarnList, repoErrorTotal) \<Rightarrow>
         if repoErrorTotal = length caches then
           (False, result\<lparr>getErrorType := Some RepoInvalidError, getErrorFile := Some request, getWarnList := fileWarnList\<rparr>,
            caches')
         else if matchList \<noteq> [] then
           if walIsSegment request \<and> length matchList > 1 \<and> length (remdups (map matchHash matchList)) > 1 then
             (False, result\<lparr>getErrorType := Some ArchiveDuplicateError, getErrorFile := Some request,
                getErrorMatches := sort_key getFile matchList, getWarnList := fileWarnList\<rparr>, caches')
           else
             (True, result\<lparr>getFileMapList := getFileMapList result @
                [\<lparr>mapRequest = request, mapActualList = matchList, mapWarnList = fileWarnList\<rparr>]\<rparr>, caches')
         else (False, result, caches'))"

text \<open>The loop over the requests of \<^verbatim>\<open>archiveGetCheck\<close>, which ends at the first file that is not found.\<close>

fun archiveGetCheck_requests ::
  "repo_access list \<Rightarrow> string list \<Rightarrow> ArchiveGetCheckResult \<Rightarrow> ArchiveGetFindCacheRepo list \<Rightarrow> repo_errors \<Rightarrow> bool
    \<Rightarrow> ArchiveGetCheckResult" where
  "archiveGetCheck_requests repos [] result caches warnList single = result"
| "archiveGetCheck_requests repos (request # requests) result caches warnList single =
    (case archiveGetFind repos request result caches warnList single of
       (True, result', caches') \<Rightarrow> archiveGetCheck_requests repos requests result' caches' warnList single
     | (False, result', _) \<Rightarrow> result')"

text \<open>
  The archive ids of a repository for the current cluster.  An archive id of the past is used only when its path
  exists.
\<close>

fun archiveGetCheck_ids :: "repo \<Rightarrow> InfoPg \<Rightarrow> u64 \<Rightarrow> u32 \<Rightarrow> nat list \<Rightarrow> (ArchiveGetFindCacheArchive list) res" where
  "archiveGetCheck_ids st info sid pv [] = Inr []"
| "archiveGetCheck_ids st info sid pv (pgIdx # pgIdxs) =
    bindR (infoPgData info pgIdx) (\<lambda>pgData.
      if systemId pgData = sid \<and> version pgData = pv then
        bindR (infoPgArchiveId info pgIdx) (\<lambda>archiveId.
        bindR (archiveGetCheck_ids st info sid pv pgIdxs) (\<lambda>rest.
          Inr (if pgIdx = 0 \<or> archiveId \<in> set (storageListAll st REPO_ARCHIVE)
               then \<lparr>cacheArchiveId = archiveId, cachePathList = []\<rparr> # rest else rest)))
      else archiveGetCheck_ids st info sid pv pgIdxs)"

definition archiveGetCheck_repo :: "repo_access \<Rightarrow> nat \<Rightarrow> u64 \<Rightarrow> u32 \<Rightarrow> ArchiveGetFindCacheRepo res" where
  "archiveGetCheck_repo storage repoIdx sid pv =
    bindR storage (\<lambda>st.
    bindR (infoArchiveLoadFile st INFO_ARCHIVE_PATH_FILE) (\<lambda>info.
    bindR (archiveGetCheck_ids st info sid pv [0 ..< infoPgDataTotal info]) (\<lambda>archiveList.
      if archiveList = [] then Inl ArchiveMismatchError
      else Inr \<lparr>cacheRepoIdx = repoIdx, cacheArchiveList = archiveList, cacheWarnList = []\<rparr>)))"

fun archiveGetCheck_repos ::
  "repo_access list \<Rightarrow> u64 \<Rightarrow> u32 \<Rightarrow> nat list \<Rightarrow> repo_errors \<Rightarrow> ArchiveGetFindCacheRepo list \<times> repo_errors" where
  "archiveGetCheck_repos repos sid pv [] warnList = ([], warnList)"
| "archiveGetCheck_repos repos sid pv (idx # idxs) warnList =
    (case archiveGetCheck_repo (repos ! idx) idx sid pv of
       Inl e \<Rightarrow> archiveGetCheck_repos repos sid pv idxs (archiveGetErrorAdd warnList idx e)
     | Inr cr \<Rightarrow> (case archiveGetCheck_repos repos sid pv idxs warnList of (crs, w) \<Rightarrow> (cr # crs, w)))"

record PgControlGet =
  pgcSystemId :: u64
  pgcVersion :: u32
  pgcCheckpointInvalid :: bool   \<comment> \<open>\<^verbatim>\<open>checkpoint == PG_CONTROL_CHECKPOINT_INVALID\<close>\<close>

text \<open>\<open>repoOption\<close> restricts the repositories to one; \<open>repoKey\<close> is \<^verbatim>\<open>cfgOptionGroupIdxToKey\<close>.\<close>

definition archiveGetCheck ::
  "repo_access list \<Rightarrow> (nat \<Rightarrow> nat) \<Rightarrow> nat option \<Rightarrow> PgControlGet res \<Rightarrow> bool \<Rightarrow> string list \<Rightarrow> ArchiveGetCheckResult res" where
  "archiveGetCheck repos repoKey repoOption pgControl backupLabelExists requests =
    bindR pgControl (\<lambda>controlInfo.
      if pgcCheckpointInvalid controlInfo \<and> \<not> backupLabelExists then Inl FormatError
      else
        (let result = \<lparr>getFileMapList = [], getErrorType = None, getErrorFile = None, getErrorMatches = [], getWarnList = []\<rparr>;
             idxs = filter (\<lambda>i. repoOption = None \<or> repoOption = Some (repoKey i)) [0 ..< length repos]
         in case archiveGetCheck_repos repos (pgcSystemId controlInfo) (pgcVersion controlInfo) idxs [] of
              (caches, warnList) \<Rightarrow>
                if caches = [] then Inr (result\<lparr>getErrorType := Some RepoInvalidError, getWarnList := warnList\<rparr>)
                else
                  (let result = archiveGetCheck_requests repos requests (result\<lparr>getWarnList := warnList\<rparr>) caches warnList
                         (length requests = 1)
                   in Inr (result\<lparr>getFileMapList := sort_key mapRequest (getFileMapList result)\<rparr>))))"

text \<open>
  \<^verbatim>\<open>archiveGetFile\<close>: copy from the first candidate that can be read.  \<open>readFile\<close> is the read, decryption and
  decompression of a repository file by the I/O filters.
\<close>

fun archiveGetFile_loop ::
  "(ArchiveGetFile \<Rightarrow> string res) \<Rightarrow> ArchiveGetFile list \<Rightarrow> nat \<Rightarrow> repo_errors \<Rightarrow> (nat \<times> string \<times> repo_errors) res" where
  "archiveGetFile_loop readFile [] actualIdx warnList = Inl FileReadError"
| "archiveGetFile_loop readFile (actual # actuals) actualIdx warnList =
    (case readFile actual of
       Inr content \<Rightarrow> Inr (actualIdx, content, warnList)
     | Inl e \<Rightarrow> archiveGetFile_loop readFile actuals (Suc actualIdx) (warnList @ [(getRepoIdx actual, e)]))"

definition archiveGetFile ::
  "(ArchiveGetFile \<Rightarrow> string res) \<Rightarrow> ArchiveGetFile list \<Rightarrow> (nat \<times> string \<times> repo_errors) res" where
  "archiveGetFile readFile actualList = archiveGetFile_loop readFile actualList 0 []"

section \<open>The cache\<close>

text \<open>A whole WAL segment, not a partial one: the only requests that come in lists.\<close>

definition plain_segment :: "string \<Rightarrow> bool" where
  "plain_segment r \<longleftrightarrow> length r = 24 \<and> list_all in_range_0_F r"

lemma plain_segment_wal:
  assumes "plain_segment r"
  shows "walIsSegment r" "segment_stem r = r"
proof -
  show "walIsSegment r" using assms by (simp add: plain_segment_def walIsSegment_def)
  then show "segment_stem r = r" by (rule walIsSegment_stem)
qed

lemma archiveDirExpression_match:
  "regExpMatch (archiveDirExpression p) f \<longleftrightarrow>
    prefix p f \<and> 8 \<le> length f - length p \<and> (\<forall>c\<in>set (take 8 (drop (length p) f)). CHR ''0'' \<le> c \<and> c \<le> CHR ''F'') \<and>
    hash_ext (drop (length p + 8) f)"
proof -
  let ?t = "drop (length p) f"
  have "rx_rests (RSeq (RTimes 8 (RRng CHR ''0'' CHR ''F'')) rx_hash_ext) ?t =
    concat (map (rx_rests rx_hash_ext) (rx_times (rx_rests (RRng CHR ''0'' CHR ''F'')) 8 ?t))" by simp
  also have "\<dots> = (if 8 \<le> length ?t \<and> (\<forall>c\<in>set (take 8 ?t). CHR ''0'' \<le> c \<and> c \<le> CHR ''F'')
      then rx_rests rx_hash_ext (drop 8 ?t) else [])"
    by (auto simp del: rx_rests.simps)
  finally show ?thesis
    using rx_rests_hash_ext [of "drop 8 ?t"]
    by (auto simp: regExpMatch_def archiveDirExpression_def rx_rests_str add.commute)
qed

lemma dir_then_prefix:
  assumes "plain_segment r"
  shows "regExpMatch (archiveDirExpression (take 16 r)) f \<and> prefix r f \<longleftrightarrow> regExpMatch (walSegmentExpression r) f"
proof (cases "prefix r f")
  case True
  then obtain t where f: "f = r @ t" by (auto simp: prefix_def)
  have len: "length r = 24" and rng: "\<forall>c\<in>set r. CHR ''0'' \<le> c \<and> c \<le> CHR ''F''"
    using assms by (simp_all add: plain_segment_def list_all_iff in_range_0_F_def)
  have "prefix (take 16 r) f" using f by (metis append_take_drop_id append.assoc prefixI)
  moreover have "take 8 (drop 16 f) = drop 16 r" using f len by simp
  ultimately show ?thesis
    using True f len rng plain_segment_wal(2) [OF assms]
    by (auto simp: archiveDirExpression_match walSegmentExpression_match dest: in_set_dropD)
next
  case False
  then show ?thesis by (simp add: walSegmentExpression_match plain_segment_wal [OF assms])
qed

lemma filter_dir_list:
  assumes "plain_segment r"
  shows "filter (prefix r) (storageList st dir (archiveDirExpression (take 16 r))) = storageList st dir (walSegmentExpression r)"
  unfolding storageList_def filter_filter
  by (rule filter_cong) (use dir_then_prefix [OF assms] in auto)

text \<open>What is cached is what the storage lists.\<close>

definition archive_valid :: "repo \<Rightarrow> ArchiveGetFindCacheArchive \<Rightarrow> bool" where
  "archive_valid st ca \<longleftrightarrow>
    (\<forall>(p, fl)\<in>set (cachePathList ca). fl = storageList st (REPO_ARCHIVE @ [cacheArchiveId ca, p]) (archiveDirExpression p))"

lemma archive_cached:
  assumes "plain_segment r" "archive_valid st ca"
  shows "snd (archiveGetFind_archive (Inr st) r False idx ca) = snd (archiveGetFind_archive (Inr st) r True idx ca)"
    "archive_valid st (fst (archiveGetFind_archive (Inr st) r False idx ca))"
    "cacheArchiveId (fst (archiveGetFind_archive (Inr st) r False idx ca)) = cacheArchiveId ca"
proof -
  have hit: "filter (prefix r) fl = storageList st (REPO_ARCHIVE @ [cacheArchiveId ca, take 16 r]) (walSegmentExpression r)"
    if "map_of (cachePathList ca) (take 16 r) = Some fl" for fl
  proof -
    have "fl = storageList st (REPO_ARCHIVE @ [cacheArchiveId ca, take 16 r]) (archiveDirExpression (take 16 r))"
      using assms(2) map_of_SomeD [OF that] by (auto simp: archive_valid_def)
    then show ?thesis by (simp only: filter_dir_list [OF assms(1)])
  qed
  show "snd (archiveGetFind_archive (Inr st) r False idx ca) = snd (archiveGetFind_archive (Inr st) r True idx ca)"
    by (cases "map_of (cachePathList ca) (take 16 r)")
      (simp_all add: archiveGetFind_archive_def Let_def plain_segment_wal [OF assms(1)] filter_dir_list [OF assms(1)] hit)
  show "archive_valid st (fst (archiveGetFind_archive (Inr st) r False idx ca))"
    using assms(2)
    by (auto simp: archiveGetFind_archive_def Let_def archive_valid_def split: option.splits)
  show "cacheArchiveId (fst (archiveGetFind_archive (Inr st) r False idx ca)) = cacheArchiveId ca"
    by (simp add: archiveGetFind_archive_def Let_def split: option.splits)
qed

text \<open>The part of a cache that a search for a single file uses.\<close>

definition repo_ids :: "ArchiveGetFindCacheRepo \<Rightarrow> nat \<times> string list" where
  "repo_ids cr = (cacheRepoIdx cr, map cacheArchiveId (cacheArchiveList cr))"

definition caches_valid :: "repo_access list \<Rightarrow> ArchiveGetFindCacheRepo list \<Rightarrow> bool" where
  "caches_valid repos caches \<longleftrightarrow>
    (\<forall>cr\<in>set caches. \<exists>st. repos ! cacheRepoIdx cr = Inr st \<and> (\<forall>ca\<in>set (cacheArchiveList cr). archive_valid st ca))"

lemma archives_cached:
  assumes "plain_segment r" "\<forall>ca\<in>set cas. archive_valid st ca"
    "map cacheArchiveId cas' = map cacheArchiveId cas"
    "archiveGetFind_archives (Inr st) r False idx cas = (cas1, files, e)"
    "archiveGetFind_archives (Inr st) r True idx cas' = (cas2, files', e')"
  shows "files' = files \<and> e = None \<and> e' = None \<and> (\<forall>ca\<in>set cas1. archive_valid st ca) \<and>
    map cacheArchiveId cas1 = map cacheArchiveId cas \<and> cas2 = cas'"
  using assms(2-5)
proof (induction cas arbitrary: cas' cas1 cas2 files files' e e')
  case (Cons ca cas)
  obtain ca' cas'' where c: "cas' = ca' # cas''" "cacheArchiveId ca' = cacheArchiveId ca"
    "map cacheArchiveId cas'' = map cacheArchiveId cas"
    using Cons.prems(2) by (cases cas') auto
  obtain ca1 where a1: "archiveGetFind_archive (Inr st) r False idx ca =
      (ca1, snd (archiveGetFind_archive (Inr st) r True idx ca))" "archive_valid st ca1" "cacheArchiveId ca1 = cacheArchiveId ca"
    using archive_cached [OF assms(1), of st ca idx] Cons.prems(1) by (metis list.set_intros(1) prod.collapse)
  obtain fl where fl: "snd (archiveGetFind_archive (Inr st) r True idx ca) = Inr fl"
    "archiveGetFind_archive (Inr st) r True idx ca' = (ca', Inr fl)"
    by (simp add: archiveGetFind_archive_def Let_def plain_segment_wal [OF assms(1)] c(2))
  obtain x1 y1 z1 where r1: "archiveGetFind_archives (Inr st) r False idx cas = (x1, y1, z1)" by (metis prod_cases3)
  obtain x2 y2 z2 where r2: "archiveGetFind_archives (Inr st) r True idx cas'' = (x2, y2, z2)" by (metis prod_cases3)
  have IH: "y2 = y1 \<and> z1 = None \<and> z2 = None \<and> (\<forall>ca\<in>set x1. archive_valid st ca) \<and>
    map cacheArchiveId x1 = map cacheArchiveId cas \<and> x2 = cas''"
    using Cons.IH [OF _ c(3) r1 r2] Cons.prems(1) by simp
  then show ?case using Cons.prems(3,4) a1 fl r1 r2 c by auto
qed simp

lemma repos_cached:
  assumes "plain_segment r" "caches_valid repos crs" "map repo_ids crs' = map repo_ids crs"
    "archiveGetFind_repos repos r False crs w = (x1, files, w1, n1)"
    "archiveGetFind_repos repos r True crs' w = (x2, files', w2, n2)"
  shows "files' = files \<and> w1 = w \<and> w2 = w \<and> n1 = 0 \<and> n2 = 0 \<and> caches_valid repos x1 \<and>
    map repo_ids x1 = map repo_ids crs \<and> map repo_ids x2 = map repo_ids crs"
  using assms(2-5)
proof (induction crs arbitrary: crs' x1 files w1 n1 x2 files' w2 n2)
  case Nil
  then show ?case by (simp add: caches_valid_def)
next
  case (Cons cr crs)
  obtain cr' crs'' where c: "crs' = cr' # crs''" "repo_ids cr' = repo_ids cr" "map repo_ids crs'' = map repo_ids crs"
    using Cons.prems(2) by (cases crs') auto
  obtain st where st: "repos ! cacheRepoIdx cr = Inr st" "\<forall>ca\<in>set (cacheArchiveList cr). archive_valid st ca"
    using Cons.prems(1) by (auto simp: caches_valid_def)
  have ids: "cacheRepoIdx cr' = cacheRepoIdx cr"
    "map cacheArchiveId (cacheArchiveList cr') = map cacheArchiveId (cacheArchiveList cr)"
    using c(2) by (simp_all add: repo_ids_def)
  obtain cas1 f1 e1 where a1: "archiveGetFind_archives (Inr st) r False (cacheRepoIdx cr) (cacheArchiveList cr) = (cas1, f1, e1)"
    by (metis prod_cases3)
  obtain cas2 f2 e2 where a2: "archiveGetFind_archives (Inr st) r True (cacheRepoIdx cr) (cacheArchiveList cr') = (cas2, f2, e2)"
    by (metis prod_cases3)
  note arch = archives_cached [OF assms(1) st(2) ids(2) a1 a2]
  obtain y1 g1 v1 m1 where r1: "archiveGetFind_repos repos r False crs w = (y1, g1, v1, m1)" by (metis prod_cases4)
  obtain y2 g2 v2 m2 where r2: "archiveGetFind_repos repos r True crs'' w = (y2, g2, v2, m2)" by (metis prod_cases4)
  have valid: "caches_valid repos crs" using Cons.prems(1) by (simp add: caches_valid_def)
  note IH = Cons.IH [OF valid c(3) r1 r2]
  have "x1 = cr\<lparr>cacheArchiveList := cas1\<rparr> # y1" "files = f1 @ g1" "w1 = v1" "n1 = m1"
    using Cons.prems(3) st(1) a1 r1 arch by simp_all
  moreover have "x2 = cr'\<lparr>cacheArchiveList := cas2\<rparr> # y2" "files' = f2 @ g2" "w2 = v2" "n2 = m2"
    using Cons.prems(4) st(1) a2 r2 arch c(1) ids(1) by simp_all
  ultimately show ?case using IH arch c(2) st(1) ids by (auto simp: caches_valid_def repo_ids_def)
qed

lemma find_cached:
  assumes "plain_segment r" "caches_valid repos crs" "map repo_ids crs' = map repo_ids crs"
    "archiveGetFind repos r result crs w False = (b1, res1, x1)" "archiveGetFind repos r result crs' w True = (b2, res2, x2)"
  shows "b2 = b1 \<and> res2 = res1 \<and> caches_valid repos x1 \<and> map repo_ids x2 = map repo_ids x1"
proof -
  obtain y1 g1 v1 m1 where r1: "archiveGetFind_repos repos r False crs w = (y1, g1, v1, m1)" by (metis prod_cases4)
  obtain y2 g2 v2 m2 where r2: "archiveGetFind_repos repos r True crs' w = (y2, g2, v2, m2)" by (metis prod_cases4)
  have "length crs' = length crs" using assms(3) by (metis length_map)
  then show ?thesis
    using repos_cached [OF assms(1-3) r1 r2] assms(4,5) r1 r2
    by (auto simp: archiveGetFind_def split: if_splits)
qed

lemma requests_cached:
  assumes "\<forall>r\<in>set rs. plain_segment r" "caches_valid repos crs" "map repo_ids crs' = map repo_ids crs"
  shows "archiveGetCheck_requests repos rs result crs w False = archiveGetCheck_requests repos rs result crs' w True"
  using assms
proof (induction rs arbitrary: result crs crs')
  case (Cons r rs)
  obtain b1 res1 x1 where f1: "archiveGetFind repos r result crs w False = (b1, res1, x1)" by (metis prod_cases3)
  obtain b2 res2 x2 where f2: "archiveGetFind repos r result crs' w True = (b2, res2, x2)" by (metis prod_cases3)
  have "b2 = b1 \<and> res2 = res1 \<and> caches_valid repos x1 \<and> map repo_ids x2 = map repo_ids x1"
    using find_cached [OF _ Cons.prems(2,3) f1 f2] Cons.prems(1) by simp
  then show ?case using Cons.IH [of x1 x2] Cons.prems(1) f1 f2 by (auto split: bool.splits)
qed simp

lemma check_ids_empty_cache:
  "archiveGetCheck_ids st info sid pv is = Inr cas \<Longrightarrow> ca \<in> set cas \<Longrightarrow> cachePathList ca = []"
  by (induction "is" arbitrary: cas) (auto simp: bindR_Inr_iff split: if_splits)

lemma check_repos_valid:
  assumes "archiveGetCheck_repos repos sid pv idxs w = (crs, w')"
  shows "caches_valid repos crs"
  using assms
proof (induction idxs arbitrary: w crs w')
  case (Cons idx idxs)
  show ?case
  proof (cases "archiveGetCheck_repo (repos ! idx) idx sid pv")
    case (Inl e)
    then show ?thesis using Cons by simp
  next
    case (Inr cr)
    obtain crs1 w1 where r: "archiveGetCheck_repos repos sid pv idxs w = (crs1, w1)" by fastforce
    then have "caches_valid repos crs1" by (rule Cons.IH)
    moreover have "crs = cr # crs1" using Cons.prems Inr r by simp
    moreover have "\<exists>st. repos ! cacheRepoIdx cr = Inr st \<and> (\<forall>ca\<in>set (cacheArchiveList cr). archive_valid st ca)"
      using Inr check_ids_empty_cache
      by (auto simp: archiveGetCheck_repo_def bindR_Inr_iff archive_valid_def split: if_splits)
    ultimately show ?thesis by (auto simp: caches_valid_def)
  qed
qed (simp add: caches_valid_def)

text \<open>
  C38: Looking up a list of WAL segments with cached directory listings gives the same file map, errors and warnings as
  listing the storage for each segment with its own expression.
\<close>

theorem archiveGetCheck_cache_equiv:
  assumes "\<forall>r\<in>set requests. plain_segment r"
    "archiveGetCheck_repos repos sid pv idxs [] = (caches, warnList)"
  shows "archiveGetCheck_requests repos requests result caches warnList False =
    archiveGetCheck_requests repos requests result caches warnList True"
  using requests_cached [OF assms(1) check_repos_valid [OF assms(2)]] by simp

definition sample_requests :: "string list" where
  "sample_requests = [''000000010000000100000001'', ''000000010000000100000002'', ''000000010000000100000003'']"

definition emptyGetResult :: ArchiveGetCheckResult where
  "emptyGetResult = \<lparr>getFileMapList = [], getErrorType = None, getErrorFile = None, getErrorMatches = [], getWarnList = []\<rparr>"

definition sample_get_repo :: repo where
  "sample_get_repo = (INFO_ARCHIVE_PATH_FILE, FArchiveInfo
    \<lparr>history = [\<lparr>pgid = 1, systemId = 1, catalogVersion = 0, version = 100000, controlVersion = 0\<rparr>],
     pgType = infoPgArchive, historyCurrent = 0, infoPgCipherPass = None\<rparr>) # map (\<lambda>(p, c). (p, FData [])) sample_archive"

theorem archiveGetCheck_cache_equiv_witness:
  "archiveGetCheck_requests [Inr sample_get_repo] sample_requests emptyGetResult
     (fst (archiveGetCheck_repos [Inr sample_get_repo] 1 100000 [0] [])) [] False =
   archiveGetCheck_requests [Inr sample_get_repo] sample_requests emptyGetResult
     (fst (archiveGetCheck_repos [Inr sample_get_repo] 1 100000 [0] [])) [] True"
proof (rule archiveGetCheck_cache_equiv)
  have "list_all plain_segment sample_requests" by code_simp
  then show "\<forall>r\<in>set sample_requests. plain_segment r" by (simp add: list_all_iff)
  have "snd (archiveGetCheck_repos [Inr sample_get_repo] 1 100000 [0] []) = []" by code_simp
  then show "archiveGetCheck_repos [Inr sample_get_repo] 1 100000 [0] [] =
    (fst (archiveGetCheck_repos [Inr sample_get_repo] 1 100000 [0] []), [])" by (metis prod.collapse)
qed

section \<open>Duplicates\<close>

text \<open>What the code compares of two files of a segment in one archive id.\<close>

lemma matchHash_same_archive:
  fixes i :: nat
  assumes "length r = 24" "length archiveId \<le> 22" "prefix (r @ ''-'') f1" "prefix (r @ ''-'') f2"
  defines "file \<equiv> \<lambda>f. \<lparr>getFile = archiveId @ ''/'' @ take 16 r @ ''/'' @ f, getRepoIdx = i, getArchiveId = archiveId\<rparr>"
  shows "matchHash (file f1) = matchHash (file f2) \<longleftrightarrow>
    take (22 - length archiveId) (drop 25 f1) = take (22 - length archiveId) (drop 25 f2)"
proof -
  define c where "c = archiveId @ ''/'' @ take 16 r @ ''/'' @ r @ ''-''"
  have len: "length c = length archiveId + 43" using assms(1) by (simp add: c_def)
  have "matchHash (file f) = drop 25 c @ take (22 - length archiveId) (drop 25 f)" if pre: "prefix (r @ ''-'') f" for f
  proof -
    obtain h where h: "f = r @ ''-'' @ h" using pre by (auto simp: prefix_def)
    have "getFile (file f) = c @ h" using h by (simp add: file_def c_def)
    moreover have "drop 25 f = h" using h assms(1) by simp
    moreover have "40 - length (drop 25 c) = 22 - length archiveId" using len by simp
    ultimately show ?thesis using len assms(2) by (simp add: matchHash_def)
  qed
  from this [OF assms(3)] this [OF assms(4)] show ?thesis by simp
qed

text \<open>
  When an archive holds two files for a segment, archive-get accepts them as copies exactly if the first
  \<open>22 - n\<close> digits of their checksums agree, where \<open>n\<close> is the length of the archive id: for \<^verbatim>\<open>10-1\<close> the first 18
  of 40.  The position in the file name that the code takes for the checksum does not account for the directory.
\<close>

theorem archiveGetFind_duplicate_digits:
  assumes "plain_segment r" "length archiveId \<le> 22"
    "storageList st (REPO_ARCHIVE @ [archiveId, take 16 r]) (walSegmentExpression r) = [f1, f2]"
  shows "fst (archiveGetFind [Inr st] r result
      [\<lparr>cacheRepoIdx = 0, cacheArchiveList = [\<lparr>cacheArchiveId = archiveId, cachePathList = []\<rparr>], cacheWarnList = []\<rparr>] [] True) \<longleftrightarrow>
    take (22 - length archiveId) (drop 25 f1) = take (22 - length archiveId) (drop 25 f2)"
proof -
  let ?file = "\<lambda>f. \<lparr>getFile = archiveId @ ''/'' @ take 16 r @ ''/'' @ f, getRepoIdx = 0, getArchiveId = archiveId\<rparr>"
  have match: "regExpMatch (walSegmentExpression r) f" if "f \<in> {f1, f2}" for f
  proof -
    have "f \<in> set (storageList st (REPO_ARCHIVE @ [archiveId, take 16 r]) (walSegmentExpression r))"
      using that assms(3) by auto
    then show ?thesis by (simp add: in_storageList)
  qed
  have pre: "prefix (r @ ''-'') f1" "prefix (r @ ''-'') f2"
    using match_stem_dash [OF match] plain_segment_wal(2) [OF assms(1)] by simp_all
  have "length r = 24" using assms(1) by (simp add: plain_segment_def)
  note same = matchHash_same_archive [OF this assms(2) pre, of 0]
  show ?thesis
    using same by (simp add: archiveGetFind_def archiveGetFind_archive_def Let_def plain_segment_wal [OF assms(1)] assms(3))
qed

definition sample_split :: repo where
  "sample_split = map (\<lambda>f. (REPO_ARCHIVE @ [''10-1'', ''0000000100000001'', f], FData []))
     [''000000010000000100000001-'' @ replicate 40 (CHR ''a''),
      ''000000010000000100000001-'' @ replicate 20 (CHR ''a'') @ replicate 20 (CHR ''b'')]"

theorem archiveGetFind_duplicate_digits_witness:
  "fst (archiveGetFind [Inr sample_split] ''000000010000000100000001'' emptyGetResult
      [\<lparr>cacheRepoIdx = 0, cacheArchiveList = [\<lparr>cacheArchiveId = ''10-1'', cachePathList = []\<rparr>], cacheWarnList = []\<rparr>] [] True)"
proof -
  have "plain_segment ''000000010000000100000001''" by code_simp
  moreover have "storageList sample_split (REPO_ARCHIVE @ [''10-1'', take 16 ''000000010000000100000001''])
      (walSegmentExpression ''000000010000000100000001'') =
    [''000000010000000100000001-'' @ replicate 40 (CHR ''a''),
     ''000000010000000100000001-'' @ replicate 20 (CHR ''a'') @ replicate 20 (CHR ''b'')]" by code_simp
  ultimately show ?thesis
    using archiveGetFind_duplicate_digits [of "''000000010000000100000001''" "''10-1''" sample_split _ _ emptyGetResult]
    by simp
qed

text \<open>Copies of one segment under archive ids of different length are taken for duplicates.\<close>

lemma archiveGetFind_false_duplicate:
  "let f = ''000000010000000100000001-'' @ replicate 40 (CHR ''a'');
       st = map (\<lambda>i. (REPO_ARCHIVE @ [i, ''0000000100000001'', f], FData [])) [''10-1'', ''10-10''];
       cache = \<lparr>cacheRepoIdx = 0, cacheArchiveList = map (\<lambda>i. \<lparr>cacheArchiveId = i, cachePathList = []\<rparr>) [''10-1'', ''10-10''],
         cacheWarnList = []\<rparr>
   in getErrorType (fst (snd (archiveGetFind [Inr st] ''000000010000000100000001'' emptyGetResult [cache] [] True))) =
     Some ArchiveDuplicateError"
  by code_simp

end
