(* ===== verification/ArchiveGetCmd.thy ===== *)
theory ArchiveGetCmd
  imports ArchiveGet ArchivePush "HOL-Library.Multiset"
begin

text \<open>
  The archive-get command (\<^verbatim>\<open>src/src/command/archive/get/get.c\<close>) in asynchronous mode: the queue of WAL segments in the
  spool, the worker and the foreground process.
\<close>

section \<open>Definitions\<close>

definition removeQueueFiles :: "spool \<Rightarrow> string list \<Rightarrow> spool" where
  "removeQueueFiles spool files = foldl (\<lambda>sp f. storageRemove sp [STORAGE_SPOOL_ARCHIVE_IN, f]) spool files"

text \<open>
  The spool after the queue was cleaned, and the segments to get.  The caller has created the queue path, so listing it
  does not fail.
\<close>

definition queueNeed :: "spool \<Rightarrow> string \<Rightarrow> bool \<Rightarrow> u64 \<Rightarrow> nat \<Rightarrow> (spool \<times> string list) res" where
  "queueNeed spool walSegment found queueSize walSegmentSize =
    bindR (if found then walSegmentNext walSegment walSegmentSize else Inr walSegment) (\<lambda>walSegmentFirst.
      let total = unat (ucast (queueSize div of_nat walSegmentSize) :: u32);
          walSegmentQueueTotal = (if total < 2 then 2 else total)
      in bindR (walSegmentRange walSegmentFirst walSegmentSize walSegmentQueueTotal) (\<lambda>range.
        let idealQueue = strLstSort range sortOrderAsc;
            actualQueue = strLstSort (storageListAll spool [STORAGE_SPOOL_ARCHIVE_IN]) sortOrderAsc;
            keepQueue = filter (\<lambda>f. f \<in> set idealQueue) actualQueue;
            removeQueue = filter (\<lambda>f. f \<notin> set idealQueue \<and>
              (\<not> suffix STATUS_EXT_OK f \<or> stripExt STATUS_EXT_OK f \<notin> set actualQueue)) actualQueue
        in Inr (removeQueueFiles spool removeQueue, filter (\<lambda>f. f \<notin> set keepQueue) idealQueue)))"

text \<open>
  The foreground process.  A round sees the spool as it is then and whether the lock could be acquired;
  \<open>getPgControl\<close> is the WAL segment size from the control file, or why it could not be read.  The result of the loop is
  whether the segment was found, or nothing when the time ran out.
\<close>

record GetCfg =
  getMissingRetry :: bool
  getQueueMax :: u64
  getPgControl :: "nat res"

datatype GetEvent = RemoveOk string | MoveSegment string | QueueClean spool | GetErrorClear string | GetAsyncExec "string list"

definition WAL_SEGMENT_REGEXP :: rx where
  "WAL_SEGMENT_REGEXP = RSeq (RTimes 24 (RRng CHR ''0'' CHR ''F'')) REnd"

text \<open>Evaluated when the segment was found and moved out of the spool: its size estimates the size of the queue.\<close>

definition queueFull :: "GetCfg \<Rightarrow> spool \<Rightarrow> string \<Rightarrow> bool" where
  "queueFull cfg spool walSegment =
    (let queue = storageList (storageRemove spool [STORAGE_SPOOL_ARCHIVE_IN, walSegment])
           [STORAGE_SPOOL_ARCHIVE_IN] WAL_SEGMENT_REGEXP;
         walSegmentSize = of_nat (length (case storageContent spool [STORAGE_SPOOL_ARCHIVE_IN, walSegment] of Some c \<Rightarrow> c | None \<Rightarrow> []))
     in queue \<noteq> [] \<and> of_nat (length queue) * walSegmentSize > getQueueMax cfg div 2)"

fun archiveGet_poll ::
  "GetCfg \<Rightarrow> string \<Rightarrow> (spool \<times> bool) list \<Rightarrow> bool \<Rightarrow> bool \<Rightarrow> GetEvent list \<times> (bool option) msg_res" where
  "archiveGet_poll cfg walSegment [] first forked = ([], Inr None)"
| "archiveGet_poll cfg walSegment ((spool, lockAvailable) # rounds) first forked =
    (let found = storageExists spool [STORAGE_SPOOL_ARCHIVE_IN, walSegment];
         missingRetry = (first \<and> getMissingRetry cfg)
     in case archiveAsyncStatus spool archiveModeGet walSegment (\<not> first) (found \<or> \<not> missingRetry) of
          Inl e \<Rightarrow> ([], Inl e)
        | Inr (ok, warning) \<Rightarrow>
            (let okEvent = (if ok then [RemoveOk walSegment] else []);
                 spool1 = (if ok then storageRemove spool [STORAGE_SPOOL_ARCHIVE_IN, walSegment @ STATUS_EXT_OK] else spool)
             in if ok \<and> \<not> found \<and> \<not> missingRetry then (okEvent, Inr (Some False))
                else
                  (let moveEvent = (if found then [MoveSegment walSegment] else []);
                       spool2 = (if found then storageRemove spool1 [STORAGE_SPOOL_ARCHIVE_IN, walSegment] else spool1);
                       fork = (\<not> forked \<and> (\<not> found \<or> \<not> queueFull cfg spool1 walSegment) \<and> lockAvailable)
                   in case (if fork then bindR (getPgControl cfg) (\<lambda>walSegmentSize.
                                           bindR (queueNeed spool2 walSegment found (getQueueMax cfg) walSegmentSize)
                                           (\<lambda>(sp, need). Inr [QueueClean sp, GetErrorClear walSegment, GetAsyncExec need]))
                            else Inr []) of
                        Inl e \<Rightarrow> (okEvent @ moveEvent, Inl (e, []))
                      | Inr forkEvent \<Rightarrow>
                          if found then (okEvent @ moveEvent @ forkEvent, Inr (Some True))
                          else
                            (case archiveGet_poll cfg walSegment rounds False (forked \<or> fork) of
                               (evs, r) \<Rightarrow> (okEvent @ moveEvent @ forkEvent @ evs, r)))))"

text \<open>The exit code: 0 when the segment was found, 1 when it is missing.\<close>

definition archiveGet_async :: "GetCfg \<Rightarrow> string \<Rightarrow> (spool \<times> bool) list \<Rightarrow> GetEvent list \<times> nat msg_res" where
  "archiveGet_async cfg walSegment rounds =
    (case archiveGet_poll cfg walSegment rounds True False of
       (evs, Inl e) \<Rightarrow> (evs, Inl e)
     | (evs, Inr (Some True)) \<Rightarrow> (evs, Inr 0)
     | (evs, Inr (Some False)) \<Rightarrow> (evs, Inr 1)
     | (evs, Inr None) \<Rightarrow> (evs, Inl (ArchiveTimeoutError, ''unable to get WAL file '' @ walSegment)))"

text \<open>
  The worker.  \<open>readFile\<close> reads a repository file through the filters; the texts and codes of errors and warnings are
  parameters.  The segment is first written under a temporary name and renamed after its ok file was written.
\<close>

record GetEnv =
  envReadFile :: "ArchiveGetFile \<Rightarrow> string res"
  envWarnText :: "repo_errors \<Rightarrow> string"
  envErrorCode :: "error \<Rightarrow> int"
  envErrorText :: "error \<Rightarrow> string"






text \<open>The synchronous get: the content for PostgreSQL, or nothing when the file is not in the archive.\<close>

definition archiveGet_sync :: "GetEnv \<Rightarrow> ArchiveGetCheckResult res \<Rightarrow> (string option) res" where
  "archiveGet_sync env check =
    bindR check (\<lambda>result.
      case getErrorType result of
        Some e \<Rightarrow> Inl e
      | None \<Rightarrow>
          (case getFileMapList result of
             [] \<Rightarrow> Inr None
           | fm # _ \<Rightarrow> bindR (archiveGetFile (envReadFile env) (mapActualList fm)) (\<lambda>(actualIdx, content, warns). Inr (Some content))))"

section \<open>The queue\<close>

lemma removeQueueFiles_content:
  "storageContent (removeQueueFiles spool files) p =
    (if \<exists>f\<in>set files. p = [STORAGE_SPOOL_ARCHIVE_IN, f] then None else storageContent spool p)"
  unfolding removeQueueFiles_def
  using storage.content_remove_all [of "\<lambda>f. [STORAGE_SPOOL_ARCHIVE_IN, f]" spool files p] by (auto simp: image_iff)

lemma removeQueueFiles_keeps:
  assumes "\<And>f. f \<in> set files \<longleftrightarrow> storageExists spool [STORAGE_SPOOL_ARCHIVE_IN, f] \<and> \<not> P f"
  shows "storageContent (removeQueueFiles spool files) [STORAGE_SPOOL_ARCHIVE_IN, f] =
    (if P f then storageContent spool [STORAGE_SPOOL_ARCHIVE_IN, f] else None)"
  using assms [of f] by (auto simp: removeQueueFiles_content storageExists_get)

lemma exts_not_Nil [simp]: "STATUS_EXT_OK \<noteq> []" "STATUS_EXT_ERROR \<noteq> []"
  by (simp_all add: spool_defs)


lemma segName_not_global: "segName t sz n \<noteq> STATUS_FILE_GLOBAL @ STATUS_EXT_ERROR"
proof
  assume "segName t sz n = STATUS_FILE_GLOBAL @ STATUS_EXT_ERROR"
  then have "length (segName t sz n) = length (STATUS_FILE_GLOBAL @ STATUS_EXT_ERROR)" by simp
  then show False by (simp add: segName_def walSegmentFmt_parts spool_defs)
qed

text \<open>The number of segments that the queue should hold, and these segments.\<close>

definition queueTotal :: "u64 \<Rightarrow> nat \<Rightarrow> nat" where
  "queueTotal queueSize walSegmentSize = max 2 (unat (ucast (queueSize div of_nat walSegmentSize) :: u32))"

definition queueWindow :: "u32 \<Rightarrow> nat \<Rightarrow> nat \<Rightarrow> bool \<Rightarrow> u64 \<Rightarrow> string set" where
  "queueWindow t sz n found queueSize =
    segName t sz ` (let first = (if found then Suc n else n) in {first ..< first + queueTotal queueSize sz})"

lemma queueNeed_eq:
  assumes "walSegmentSizeOk sz"
  shows "queueNeed spool (segName t sz n) found queueSize sz =
    (let idealQueue = sort (map (segName t sz)
           [if found then Suc n else n ..< (if found then Suc n else n) + queueTotal queueSize sz]);
         actualQueue = sort (storageListAll spool [STORAGE_SPOOL_ARCHIVE_IN])
     in Inr (removeQueueFiles spool (filter (\<lambda>f. f \<notin> set idealQueue \<and>
              (\<not> suffix STATUS_EXT_OK f \<or> stripExt STATUS_EXT_OK f \<notin> set actualQueue)) actualQueue),
             filter (\<lambda>f. f \<notin> set actualQueue) idealQueue))"
proof -
  let ?k = "if found then Suc n else n"
  let ?r = "map (segName t sz) [?k ..< ?k + queueTotal queueSize sz]"
  have first: "(if found then walSegmentNext (segName t sz n) sz else Inr (segName t sz n)) = Inr (segName t sz ?k)"
    by (simp add: walSegmentNext_segName [OF assms])
  have total: "(if unat (ucast (queueSize div of_nat sz) :: u32) < 2 then 2
      else unat (ucast (queueSize div of_nat sz) :: u32)) = queueTotal queueSize sz"
    by (simp add: queueTotal_def max_def)
  have range: "walSegmentRange (segName t sz ?k) sz (queueTotal queueSize sz) = Inr ?r"
    by (rule walSegmentRange_segName [OF assms]) (simp add: queueTotal_def)
  have need: "filter (\<lambda>f. f \<notin> set (filter (\<lambda>f. f \<in> set ideal) actual)) ideal = filter (\<lambda>f. f \<notin> set actual) ideal"
    for ideal actual :: "string list" by (rule filter_cong) auto
  show ?thesis
    unfolding queueNeed_def first bindR_simps(2) Let_def total range need
    by (simp add: strLstSort_def)
qed

text \<open>
  C32: The queue of archive-get.  The worker is asked for exactly the segments of the look-ahead window that are not
  in the spool, in order.  In the spool the segments of the window and the ok files beside a segment stay as they
  were; everything else is removed: segments outside the window, every error file, and also every ok file without
  its segment, which means that a segment does not exist.  The push queue is not touched.
\<close>

theorem queueNeed_result:
  assumes "walSegmentSizeOk sz" "spool_ok spool"
  shows "\<exists>spool' need. queueNeed spool (segName t sz n) found queueSize sz = Inr (spool', need) \<and>
    sorted need \<and>
    set need = {w \<in> queueWindow t sz n found queueSize. \<not> storageExists spool [STORAGE_SPOOL_ARCHIVE_IN, w]} \<and>
    (\<forall>f. storageContent spool' [STORAGE_SPOOL_ARCHIVE_IN, f] =
      (if f \<in> queueWindow t sz n found queueSize \<or>
          (\<exists>w. f = w @ STATUS_EXT_OK \<and> storageExists spool [STORAGE_SPOOL_ARCHIVE_IN, w])
       then storageContent spool [STORAGE_SPOOL_ARCHIVE_IN, f] else None)) \<and>
    (\<forall>f. storageContent spool' [STORAGE_SPOOL_ARCHIVE_OUT, f] = storageContent spool [STORAGE_SPOOL_ARCHIVE_OUT, f])"
proof -
  let ?ideal = "sort (map (segName t sz)
    [if found then Suc n else n ..< (if found then Suc n else n) + queueTotal queueSize sz])"
  let ?actual = "sort (storageListAll spool [STORAGE_SPOOL_ARCHIVE_IN])"
  let ?remove = "filter (\<lambda>f. f \<notin> set ?ideal \<and>
    (\<not> suffix STATUS_EXT_OK f \<or> stripExt STATUS_EXT_OK f \<notin> set ?actual)) ?actual"
  have ideal: "set ?ideal = queueWindow t sz n found queueSize" by (simp add: queueWindow_def Let_def)
  have actual: "f \<in> set ?actual \<longleftrightarrow> storageExists spool [STORAGE_SPOOL_ARCHIVE_IN, f]" for f
    using spool_ok_list [OF assms(2)] by simp
  have ok: "suffix STATUS_EXT_OK f \<and> storageExists spool [q, stripExt STATUS_EXT_OK f] \<longleftrightarrow>
      (\<exists>w. f = w @ STATUS_EXT_OK \<and> storageExists spool [q, w])" for q f
    by (metis stripExt_append stripExt_suffix suffixI)
  have removed: "f \<in> set ?remove \<longleftrightarrow> storageExists spool [STORAGE_SPOOL_ARCHIVE_IN, f] \<and>
      \<not> (f \<in> queueWindow t sz n found queueSize \<or>
        (\<exists>w. f = w @ STATUS_EXT_OK \<and> storageExists spool [STORAGE_SPOOL_ARCHIVE_IN, w]))" for f
    unfolding set_filter mem_Collect_eq ideal actual using ok [of f STORAGE_SPOOL_ARCHIVE_IN] by blast
  have gone: "storageContent (removeQueueFiles spool ?remove) [STORAGE_SPOOL_ARCHIVE_IN, f] =
      (if f \<in> queueWindow t sz n found queueSize \<or>
          (\<exists>w. f = w @ STATUS_EXT_OK \<and> storageExists spool [STORAGE_SPOOL_ARCHIVE_IN, w])
       then storageContent spool [STORAGE_SPOOL_ARCHIVE_IN, f] else None)" for f
    by (rule removeQueueFiles_keeps [OF removed])
  have out: "storageContent (removeQueueFiles spool ?remove) [STORAGE_SPOOL_ARCHIVE_OUT, f] =
      storageContent spool [STORAGE_SPOOL_ARCHIVE_OUT, f]" for f
    unfolding removeQueueFiles_content using queues_differ [symmetric] by simp
  have need: "sorted (filter (\<lambda>f. f \<notin> set ?actual) ?ideal)" by (simp add: sorted_filter [of "\<lambda>x. x", simplified])
  have set_need: "set (filter (\<lambda>f. f \<notin> set ?actual) ?ideal) =
      {w \<in> queueWindow t sz n found queueSize. \<not> storageExists spool [STORAGE_SPOOL_ARCHIVE_IN, w]}"
    unfolding set_filter ideal actual ..
  show ?thesis
    unfolding queueNeed_eq [OF assms(1)] Let_def using need set_need gone out by blast
qed

theorem queueNeed_result_witness:
  "\<exists>spool' need. queueNeed [([''in'', ''0000000100000000000000FF''], ''wal''), ([''in'', ''0000000100000000000000FE.ok''], [])]
     (segName 1 16777216 254) False 33554432 16777216 = Inr (spool', need) \<and>
   set need = {''0000000100000000000000FE''} \<and>
   storageContent spool' [''in'', ''0000000100000000000000FE.ok''] = None"
proof -
  let ?spool = "[([''in'', ''0000000100000000000000FF''], ''wal''), ([''in'', ''0000000100000000000000FE.ok''], [])]"
  have ok: "walSegmentSizeOk 16777216" "spool_ok ?spool" by (simp_all add: walSegmentSizeOk_def spool_ok_def)
  have "walSegmentFmt 1 0 254 = ''0000000100000000000000FE''" "walSegmentFmt 1 0 255 = ''0000000100000000000000FF''"
    by code_simp+
  then have names: "segName 1 16777216 254 = ''0000000100000000000000FE''" "segName 1 16777216 255 = ''0000000100000000000000FF''"
    by (simp_all add: segName_def segPer_def)
  have upto: "{254 ..< 256 :: nat} = {254, 255}" by auto
  have "queueTotal 33554432 16777216 = 2" by (simp add: queueTotal_def)
  then have window: "queueWindow 1 16777216 254 False 33554432 = {''0000000100000000000000FE'', ''0000000100000000000000FF''}"
    using names by (simp add: queueWindow_def upto)
  have inq: "STORAGE_SPOOL_ARCHIVE_IN = ''in''" "STATUS_EXT_OK = ''.ok''" by (simp_all add: spool_defs)
  have noext: "\<not> (\<exists>w. ''0000000100000000000000FE.ok'' = w @ ''.ok'' \<and> storageExists ?spool [''in'', w])"
  proof
    assume "\<exists>w. ''0000000100000000000000FE.ok'' = w @ ''.ok'' \<and> storageExists ?spool [''in'', w]"
    then obtain w where w: "''0000000100000000000000FE'' @ ''.ok'' = w @ ''.ok''" "storageExists ?spool [''in'', w]" by auto
    from w(1) have "w = ''0000000100000000000000FE''" using append_same_eq by blast
    then show False using w(2) by (simp add: storageExists_def)
  qed
  obtain spool' need where q: "queueNeed ?spool (segName 1 16777216 254) False 33554432 16777216 = Inr (spool', need)"
    "set need = {w \<in> queueWindow 1 16777216 254 False 33554432. \<not> storageExists ?spool [''in'', w]}"
    "\<forall>f. storageContent spool' [''in'', f] =
      (if f \<in> queueWindow 1 16777216 254 False 33554432 \<or> (\<exists>w. f = w @ ''.ok'' \<and> storageExists ?spool [''in'', w])
       then storageContent ?spool [''in'', f] else None)"
    using queueNeed_result [OF ok, of 1 254 False 33554432] unfolding inq by blast
  have "set need = {''0000000100000000000000FE''}" unfolding q(2) window by (auto simp: storageExists_def)
  moreover have "storageContent spool' [''in'', ''0000000100000000000000FE.ok''] = None"
    using q(3) [rule_format, of "''0000000100000000000000FE.ok''"] noext unfolding window by simp
  ultimately show ?thesis using q(1) by blast
qed

section \<open>The foreground process\<close>

definition execs :: "GetEvent list \<Rightarrow> nat" where
  "execs evs = length (filter (\<lambda>ev. case ev of GetAsyncExec _ \<Rightarrow> True | _ \<Rightarrow> False) evs)"

lemma execs_simps [simp]:
  "execs [] = 0" "execs (evs @ evs') = execs evs + execs evs'"
  "execs (RemoveOk x # evs) = execs evs" "execs (MoveSegment x # evs) = execs evs" "execs (QueueClean sp # evs) = execs evs"
  "execs (GetErrorClear x # evs) = execs evs" "execs (GetAsyncExec need # evs) = Suc (execs evs)"
  by (simp_all add: execs_def)

text \<open>The events of starting the worker in one round.\<close>

definition forkEvents :: "GetCfg \<Rightarrow> string \<Rightarrow> bool \<Rightarrow> bool \<Rightarrow> spool \<Rightarrow> (GetEvent list) res" where
  "forkEvents cfg walSegment found fork spool =
    (if fork then bindR (getPgControl cfg) (\<lambda>walSegmentSize.
                    bindR (queueNeed spool walSegment found (getQueueMax cfg) walSegmentSize)
                      (\<lambda>(sp, need). Inr [QueueClean sp, GetErrorClear walSegment, GetAsyncExec need]))
     else Inr [])"

lemma forkEvents_execs: "forkEvents cfg s found fork spool = Inr evs \<Longrightarrow> execs evs = (if fork then 1 else 0) \<and> MoveSegment x \<notin> set evs"
  by (auto simp: forkEvents_def res_simps split: if_splits)

text \<open>A round, by what it finds.\<close>

lemmas poll_round = archiveGet_poll.simps(2)

declare poll_round [simp del]

lemma poll_missing:
  assumes "\<not> storageExists spool [STORAGE_SPOOL_ARCHIVE_IN, s]"
    "archiveAsyncStatus spool archiveModeGet s (\<not> first) (\<not> (first \<and> getMissingRetry cfg)) = Inr (True, w)"
    "\<not> (first \<and> getMissingRetry cfg)"
  shows "archiveGet_poll cfg s ((spool, lockAvailable) # rounds) first forked = ([RemoveOk s], Inr (Some False))"
  using assms by (simp add: poll_round Let_def)

lemma poll_found:
  assumes "storageExists spool [STORAGE_SPOOL_ARCHIVE_IN, s]"
    "archiveAsyncStatus spool archiveModeGet s (\<not> first) True = Inr (ok, w)"
  obtains fork spool2 where "fork \<longrightarrow> \<not> forked \<and> lockAvailable"
    "archiveGet_poll cfg s ((spool, lockAvailable) # rounds) first forked =
      (case forkEvents cfg s True fork spool2 of
         Inl e \<Rightarrow> ((if ok then [RemoveOk s] else []) @ [MoveSegment s], Inl (e, []))
       | Inr evs \<Rightarrow> ((if ok then [RemoveOk s] else []) @ [MoveSegment s] @ evs, Inr (Some True)))"
proof
  let ?sp1 = "if ok then storageRemove spool [STORAGE_SPOOL_ARCHIVE_IN, s @ STATUS_EXT_OK] else spool"
  let ?fork = "\<not> forked \<and> \<not> queueFull cfg ?sp1 s \<and> lockAvailable"
  show "?fork \<longrightarrow> \<not> forked \<and> lockAvailable" by blast
  show "archiveGet_poll cfg s ((spool, lockAvailable) # rounds) first forked =
      (case forkEvents cfg s True ?fork (storageRemove ?sp1 [STORAGE_SPOOL_ARCHIVE_IN, s]) of
         Inl e \<Rightarrow> ((if ok then [RemoveOk s] else []) @ [MoveSegment s], Inl (e, []))
       | Inr evs \<Rightarrow> ((if ok then [RemoveOk s] else []) @ [MoveSegment s] @ evs, Inr (Some True)))"
    unfolding forkEvents_def using assms by (auto simp: poll_round Let_def split: sum.splits)
qed

lemma poll_wait:
  assumes "\<not> storageExists spool [STORAGE_SPOOL_ARCHIVE_IN, s]"
    "archiveAsyncStatus spool archiveModeGet s (\<not> first) (\<not> (first \<and> getMissingRetry cfg)) = Inr (ok, w)"
    "ok \<longrightarrow> first \<and> getMissingRetry cfg"
  shows "archiveGet_poll cfg s ((spool, lockAvailable) # rounds) first forked =
    (case forkEvents cfg s False (\<not> forked \<and> lockAvailable)
        (if ok then storageRemove spool [STORAGE_SPOOL_ARCHIVE_IN, s @ STATUS_EXT_OK] else spool) of
       Inl e \<Rightarrow> (if ok then [RemoveOk s] else [], Inl (e, []))
     | Inr evs \<Rightarrow> (case archiveGet_poll cfg s rounds False (forked \<or> lockAvailable) of
         (evs', r) \<Rightarrow> ((if ok then [RemoveOk s] else []) @ evs @ evs', r)))"
  unfolding forkEvents_def using assms by (auto simp: poll_round Let_def split: sum.splits)

text \<open>
  What the loop reports, from any of its states: \<open>Some True\<close> only for a segment that was in the spool and was moved,
  \<open>Some False\<close> only for an ok file without the segment.
\<close>

lemma poll_sound:
  "archiveGet_poll cfg s rounds first forked = (evs, r) \<Longrightarrow>
    (r = Inr (Some True) \<longrightarrow> MoveSegment s \<in> set evs \<and>
      (\<exists>i<length rounds. storageExists (fst (rounds ! i)) [STORAGE_SPOOL_ARCHIVE_IN, s])) \<and>
    (r = Inr (Some False) \<longrightarrow> MoveSegment s \<notin> set evs \<and>
      (\<exists>i<length rounds. storageExists (fst (rounds ! i)) [STORAGE_SPOOL_ARCHIVE_IN, s @ STATUS_EXT_OK] \<and>
        \<not> storageExists (fst (rounds ! i)) [STORAGE_SPOOL_ARCHIVE_IN, s] \<and> (i = 0 \<longrightarrow> \<not> (first \<and> getMissingRetry cfg)))) \<and>
    execs evs \<le> (if forked then 0 else 1)"
proof (induction rounds arbitrary: first forked evs r)
  case (Cons round rounds)
  obtain spool lock where round: "round = (spool, lock)" by (cases round)
  let ?found = "storageExists spool [STORAGE_SPOOL_ARCHIVE_IN, s]"
  let ?retry = "first \<and> getMissingRetry cfg"
  note poll = Cons.prems [unfolded round]
  show ?case
  proof (cases "archiveAsyncStatus spool archiveModeGet s (\<not> first) (?found \<or> \<not> ?retry)")
    case (Inl e)
    then show ?thesis using poll by (auto simp: poll_round Let_def)
  next
    case (Inr a)
    obtain ok w where a: "a = (ok, w)" by (cases a)
    have okFile: "storageExists spool [STORAGE_SPOOL_ARCHIVE_IN, s @ STATUS_EXT_OK]" if "ok"
      using Inr that by (auto simp: a dest: archiveAsyncStatus_ok_exists simp: archiveAsyncSpoolQueue_def)
    consider (found) "?found" | (missing) "\<not> ?found" "ok" "\<not> ?retry" | (wait) "\<not> ?found" "ok \<longrightarrow> ?retry" by blast
    then show ?thesis
    proof cases
      case found
      have "archiveAsyncStatus spool archiveModeGet s (\<not> first) True = Inr (ok, w)" using Inr found a by simp
      from poll_found [OF found this]
      obtain fork spool2 where fork: "fork \<longrightarrow> \<not> forked \<and> lock"
        and eq: "archiveGet_poll cfg s ((spool, lock) # rounds) first forked =
          (case forkEvents cfg s True fork spool2 of
             Inl e \<Rightarrow> ((if ok then [RemoveOk s] else []) @ [MoveSegment s], Inl (e, []))
           | Inr evs \<Rightarrow> ((if ok then [RemoveOk s] else []) @ [MoveSegment s] @ evs, Inr (Some True)))"
        by blast
      show ?thesis
      proof (cases "forkEvents cfg s True fork spool2")
        case Inl
        then show ?thesis using poll by (auto simp: eq)
      next
        case (Inr fevs)
        then show ?thesis using poll found fork forkEvents_execs [OF Inr] by (auto simp: eq round)
      qed
    next
      case missing
      then have "archiveGet_poll cfg s ((spool, lock) # rounds) first forked = ([RemoveOk s], Inr (Some False))"
        using Inr by (intro poll_missing) (simp_all add: a)
      then show ?thesis using poll missing okFile by (auto simp: round)
    next
      case wait
      have "archiveAsyncStatus spool archiveModeGet s (\<not> first) (\<not> ?retry) = Inr (ok, w)" using Inr wait(1) a by simp
      note eq = poll_wait [OF wait(1) this wait(2), of lock rounds forked]
      show ?thesis
      proof (cases "forkEvents cfg s False (\<not> forked \<and> lock)
          (if ok then storageRemove spool [STORAGE_SPOOL_ARCHIVE_IN, s @ STATUS_EXT_OK] else spool)")
        case (Inl e)
        then show ?thesis using poll by (auto simp: eq)
      next
        case (Inr fevs)
        obtain evs' where rest: "archiveGet_poll cfg s rounds False (forked \<or> lock) = (evs', r)"
          and evs: "evs = (if ok then [RemoveOk s] else []) @ fevs @ evs'"
          using poll by (auto simp: eq Inr split: prod.splits)
        note IH = Cons.IH [OF rest]
        have fev: "MoveSegment s \<notin> set fevs" "execs fevs = (if \<not> forked \<and> lock then 1 else 0)"
          using forkEvents_execs [OF Inr] by auto
        show ?thesis
        proof (intro conjI impI, goal_cases)
          case 1
          then show ?case using IH by (simp add: evs)
        next
          case 2
          then obtain i where "i < length rounds" "storageExists (fst (rounds ! i)) [STORAGE_SPOOL_ARCHIVE_IN, s]"
            using IH by blast
          then show ?case by (intro exI [of _ "Suc i"]) simp
        next
          case 3
          then show ?case using IH fev(1) by (simp add: evs)
        next
          case 4
          then obtain i where "i < length rounds" "storageExists (fst (rounds ! i)) [STORAGE_SPOOL_ARCHIVE_IN, s @ STATUS_EXT_OK]"
            "\<not> storageExists (fst (rounds ! i)) [STORAGE_SPOOL_ARCHIVE_IN, s]"
            using IH by blast
          then show ?case by (intro exI [of _ "Suc i"]) simp
        next
          case 5
          have "execs evs' \<le> (if forked \<or> lock then 0 else 1)" using IH by blast
          then show ?case using fev(2) by (auto simp: evs split: if_splits)
        qed
      qed
    qed
  qed
qed simp

text \<open>
  C29: The answer of archive-get is never wrong.  Exit code 0 is returned only when the segment was in the spool in
  some round and was moved to its destination; exit code 1, which tells PostgreSQL that the segment does not exist,
  only when an ok file was there without the segment, and with archive-missing-retry never by what the first round
  found; in that case no segment is moved.  At most one worker is started, and there is no other exit code.
\<close>

theorem archiveGet_async_sound:
  assumes "archiveGet_async cfg s rounds = (evs, r)"
  shows "(r = Inr 0 \<longrightarrow> MoveSegment s \<in> set evs \<and>
      (\<exists>i<length rounds. storageExists (fst (rounds ! i)) [STORAGE_SPOOL_ARCHIVE_IN, s])) \<and>
    (r = Inr 1 \<longrightarrow> MoveSegment s \<notin> set evs \<and>
      (\<exists>i<length rounds. storageExists (fst (rounds ! i)) [STORAGE_SPOOL_ARCHIVE_IN, s @ STATUS_EXT_OK] \<and>
        \<not> storageExists (fst (rounds ! i)) [STORAGE_SPOOL_ARCHIVE_IN, s] \<and> (i = 0 \<longrightarrow> \<not> getMissingRetry cfg))) \<and>
    execs evs \<le> 1 \<and> (\<forall>code. r = Inr code \<longrightarrow> code = 0 \<or> code = 1)"
proof -
  obtain evs' r' where poll: "archiveGet_poll cfg s rounds True False = (evs', r')" by (cases "archiveGet_poll cfg s rounds True False")
  have r: "evs = evs'" "r = Inr 0 \<longleftrightarrow> r' = Inr (Some True)" "r = Inr 1 \<longleftrightarrow> r' = Inr (Some False)"
    "r = Inr code \<Longrightarrow> code = 0 \<or> code = 1" for code
    using assms by (auto simp: archiveGet_async_def poll split: sum.splits option.splits bool.splits)
  show ?thesis using poll_sound [OF poll] r(4) unfolding r(1-3) by simp
qed

theorem archiveGet_async_sound_witness:
  "execs (fst (archiveGet_async \<lparr>getMissingRetry = True, getQueueMax = 0, getPgControl = Inr 16777216\<rparr>
      ''0000000100000000000000FE'' [([([''in'', ''0000000100000000000000FE.ok''], [])], True), ([], True)])) \<le> 1"
  using archiveGet_async_sound [OF prod.collapse [symmetric]] by blast

text \<open>Rounds that find nothing.\<close>

definition quiet :: "string \<Rightarrow> spool \<Rightarrow> bool" where
  "quiet s spool \<longleftrightarrow> (\<forall>f \<in> {s, s @ STATUS_EXT_OK, s @ STATUS_EXT_ERROR, STATUS_FILE_GLOBAL @ STATUS_EXT_ERROR}.
    \<not> storageExists spool [STORAGE_SPOOL_ARCHIVE_IN, f])"

lemma forkEvents_ok:
  assumes "walSegmentSizeOk sz" "getPgControl cfg = Inr sz"
  shows "\<exists>evs. forkEvents cfg (segName t sz n) found fork spool = Inr evs"
  using assms by (simp add: forkEvents_def queueNeed_eq Let_def)

lemma poll_quiet:
  assumes "walSegmentSizeOk sz" "getPgControl cfg = Inr sz" "s = segName t sz n" "\<forall>(spool, lock)\<in>set pre. quiet s spool"
  shows "\<exists>forked'. snd (archiveGet_poll cfg s (pre @ rounds) first forked) =
    snd (archiveGet_poll cfg s rounds (first \<and> pre = []) forked')"
  using assms(4)
proof (induction pre arbitrary: first forked)
  case (Cons round pre)
  obtain spool lock where round: "round = (spool, lock)" by (cases round)
  have q: "quiet s spool" using Cons.prems round by simp
  then have st: "archiveAsyncStatus spool archiveModeGet s throw warn = Inr (False, None)" for throw warn
    by (intro archiveAsyncStatus_none) (simp_all add: quiet_def archiveAsyncSpoolQueue_def)
  have miss: "\<not> storageExists spool [STORAGE_SPOOL_ARCHIVE_IN, s]" using q by (simp add: quiet_def)
  obtain evs where evs: "forkEvents cfg s False (\<not> forked \<and> lock) spool = Inr evs"
    using forkEvents_ok [OF assms(1,2)] assms(3) by blast
  have "snd (archiveGet_poll cfg s ((spool, lock) # pre @ rounds) first forked) =
      snd (archiveGet_poll cfg s (pre @ rounds) False (forked \<or> lock))"
    using poll_wait [OF miss st, where rounds = "pre @ rounds" and forked = forked and lockAvailable = lock
        and cfg = cfg and first = first] evs by (simp split: prod.splits)
  moreover obtain forked' where "snd (archiveGet_poll cfg s (pre @ rounds) False (forked \<or> lock)) =
      snd (archiveGet_poll cfg s rounds False forked')"
    using Cons.IH [of False "forked \<or> lock"] Cons.prems by auto
  ultimately show ?case by (auto simp: round)
qed auto

lemma archiveGet_async_snd:
  "snd (archiveGet_async cfg s rounds) =
    (case snd (archiveGet_poll cfg s rounds True False) of
       Inl e \<Rightarrow> Inl e
     | Inr (Some True) \<Rightarrow> Inr 0
     | Inr (Some False) \<Rightarrow> Inr 1
     | Inr None \<Rightarrow> Inl (ArchiveTimeoutError, ''unable to get WAL file '' @ s))"
  by (simp add: archiveGet_async_def split: prod.splits sum.splits option.splits bool.splits)

text \<open>
  C30: Archive-get finds a segment.  When the worker has put the segment into the spool after some rounds with no
  status file, and the control file can be read, the command moves it and returns 0; when the worker reports instead
  that the segment is missing, it returns 1; an error of the worker is thrown with its code and message; and when
  nothing happens in any round the command ends with a timeout.
\<close>

theorem archiveGet_async_finds:
  assumes "walSegmentSizeOk sz" "getPgControl cfg = Inr sz" "seg = segName t sz n"
    and "\<forall>(spool, lock)\<in>set pre. quiet seg spool" "quiet seg spool"
    and "- (2 ^ 31) \<le> code" "code < 2 ^ 31" "message \<noteq> []" "CHR 0x00 \<notin> set message"
  shows "snd (archiveGet_async cfg seg (pre @ (storagePut spool [STORAGE_SPOOL_ARCHIVE_IN, seg] wal, lock) # post)) = Inr 0 \<and>
    ((pre = [] \<longrightarrow> \<not> getMissingRetry cfg) \<longrightarrow>
      snd (archiveGet_async cfg seg (pre @ (archiveAsyncStatusOkWrite archiveModeGet seg None spool, lock) # post)) = Inr 1) \<and>
    (pre \<noteq> [] \<longrightarrow>
      snd (archiveGet_async cfg seg (pre @ (archiveAsyncStatusErrorWrite archiveModeGet (Some seg) code message spool, lock) # post))
        = Inl (ErrorCode code, strTrim message)) \<and>
    snd (archiveGet_async cfg seg pre) = Inl (ArchiveTimeoutError, ''unable to get WAL file '' @ seg)"
proof (intro conjI impI, goal_cases)
  note q = poll_quiet [OF assms(1-4)]
  case 1
  let ?sp = "storagePut spool [STORAGE_SPOOL_ARCHIVE_IN, seg] wal"
  obtain forked where eq: "snd (archiveGet_poll cfg seg (pre @ (?sp, lock) # post) True False) =
      snd (archiveGet_poll cfg seg ((?sp, lock) # post) (True \<and> pre = []) forked)" using q by blast
  have st: "archiveAsyncStatus ?sp archiveModeGet seg (\<not> (True \<and> pre = [])) True = Inr (False, None)"
    by (intro archiveAsyncStatus_none)
      (use assms(5) segName_not_global [symmetric, of t sz n] in
        \<open>simp_all add: quiet_def archiveAsyncSpoolQueue_def assms(3)\<close>)
  have found: "storageExists ?sp [STORAGE_SPOOL_ARCHIVE_IN, seg]" by simp
  obtain fork spool2 where "archiveGet_poll cfg seg ((?sp, lock) # post) (True \<and> pre = []) forked =
      (case forkEvents cfg seg True fork spool2 of
         Inl e \<Rightarrow> ((if False then [RemoveOk seg] else []) @ [MoveSegment seg], Inl (e, []))
       | Inr evs \<Rightarrow> ((if False then [RemoveOk seg] else []) @ [MoveSegment seg] @ evs, Inr (Some True)))"
    using poll_found [OF found st] by metis
  moreover obtain evs where "forkEvents cfg seg True fork spool2 = Inr evs"
    using forkEvents_ok [OF assms(1,2)] assms(3) by blast
  ultimately show ?case by (simp add: archiveGet_async_snd eq)
next
  case 2
  let ?sp = "archiveAsyncStatusOkWrite archiveModeGet seg None spool"
  obtain forked where eq: "snd (archiveGet_poll cfg seg (pre @ (?sp, lock) # post) True False) =
      snd (archiveGet_poll cfg seg ((?sp, lock) # post) (True \<and> pre = []) forked)"
    using poll_quiet [OF assms(1-4)] by blast
  have "\<not> storageExists ?sp [STORAGE_SPOOL_ARCHIVE_IN, seg]"
    using assms(5) by (simp add: archiveAsyncStatusOkWrite_def quiet_def)
  moreover have "archiveAsyncStatus ?sp archiveModeGet seg throw warn = Inr (True, None)" for throw warn
    by (simp add: archiveAsyncStatus_ok archiveAsyncStatusOkWrite_def statusContent_def)
  ultimately show ?case
    unfolding archiveGet_async_snd eq using 2 by (subst poll_missing) auto
next
  case 3
  let ?sp = "archiveAsyncStatusErrorWrite archiveModeGet (Some seg) code message spool"
  obtain forked where eq: "snd (archiveGet_poll cfg seg (pre @ (?sp, lock) # post) True False) =
      snd (archiveGet_poll cfg seg ((?sp, lock) # post) False forked)"
    using poll_quiet [OF assms(1-4), of "(?sp, lock) # post" True False] 3 by auto
  have "archiveAsyncStatus ?sp archiveModeGet seg True warn = Inl (ErrorCode code, strTrim message)" for warn
    using archiveAsyncStatus_error [of ?sp archiveModeGet seg seg "fmt_d code @ CHR 0x0A # message" code "strTrim message" True warn]
      statusContent_written [OF assms(6-9)] assms(5)
    by (simp add: archiveAsyncStatusErrorWrite_def quiet_def archiveAsyncSpoolQueue_def)
  then show ?case unfolding archiveGet_async_snd eq by (simp add: poll_round)
next
  case 4
  show ?case using poll_quiet [OF assms(1-4), of "[]" True False] by (auto simp: archiveGet_async_snd)
qed

theorem archiveGet_async_finds_witness:
  "snd (archiveGet_async \<lparr>getMissingRetry = True, getQueueMax = 0, getPgControl = Inr 16777216\<rparr>
      (segName 1 16777216 254) [([], True), ([([''in'', segName 1 16777216 254], ''wal'')], False)]) = Inr 0"
proof -
  have "walSegmentSizeOk 16777216" by (simp add: walSegmentSizeOk_def)
  moreover have "\<forall>(spool, lock)\<in>set [([], True)]. quiet (segName 1 16777216 254) spool" "quiet (segName 1 16777216 254) []"
    by (simp_all add: quiet_def storageExists_def)
  ultimately show ?thesis
    using archiveGet_async_finds [of 16777216 "\<lparr>getMissingRetry = True, getQueueMax = 0, getPgControl = Inr 16777216\<rparr>"
        "segName 1 16777216 254" 1 254 "[([], True)]" "[]" 45 "''x''" "''wal''" False "[]"]
    by (simp add: storagePut_def storageRemove_def STORAGE_SPOOL_ARCHIVE_IN_def)
qed

section \<open>The worker\<close>
















end
