(* ===== verification/ArchiveRoundTrip.thy ===== *)
theory ArchiveRoundTrip
  imports ArchivePushCmd ArchiveGetCmd
begin

text \<open>
  Archive-push and archive-get together: what a successful push of a segment leaves in the repositories, as the search
  of archive-get sees it, and the read of a repository file through the inverse of the filters of the push.
\<close>

section \<open>Reading a repository file\<close>

text \<open>
  \<^verbatim>\<open>storageNewReadP(storageRepoIdx(repoIdx), "<REPO:ARCHIVE>/" file)\<close> with the decrypt and decompress filters; \<open>decode\<close> is
  the inverse of the filters that the push applies.
\<close>

definition repoRead :: "(nat \<Rightarrow> string \<Rightarrow> string res) \<Rightarrow> repo list \<Rightarrow> ArchiveGetFile \<Rightarrow> string res" where
  "repoRead decode repos m =
    (case storageContent (repos ! getRepoIdx m) (REPO_ARCHIVE @ split_char CHR ''/'' (getFile m)) of
       Some (FData d) \<Rightarrow> decode (getRepoIdx m) d
     | _ \<Rightarrow> Inl FileMissingError)"

section \<open>After a push\<close>

lemma push_fresh:
  assumes "push_env_ok env" "walIsSegment f" "repo_list_ok rds repos"
    "archivePushFile env (Some wal) headerCheck modeCheck pv sid f rds prior repos = (repos', Inr warns)"
    "\<forall>rd\<in>set rds. segmentFiles (repos ! pushRepoIdx rd) (pushArchiveId rd) f = []" "rd \<in> set rds"
  shows "repos' ! pushRepoIdx rd = storagePut (repos ! pushRepoIdx rd)
      (REPO_ARCHIVE @ [pushArchiveId rd, take 16 f, segmentDestination env wal f])
      (FData (encodeFile env (pushRepoIdx rd) True wal))"
    "storageList (repos' ! pushRepoIdx rd) (REPO_ARCHIVE @ [pushArchiveId rd, take 16 f]) (walSegmentExpression f) =
      [segmentDestination env wal f]"
proof -
  obtain cs where cs: "repos' = archivePushFile_put env wal True (segmentDestination env wal f) rds cs repos"
    "cs = map (needs_copy env repos f) rds"
    "\<forall>rd\<in>set rds. needs_copy env repos f rd \<or> has_segment (repos ! pushRepoIdx rd) (pushArchiveId rd) f (sha1 env wal)"
    using push_segment_result [OF assms(2,4)] by auto
  have need: "needs_copy env repos f rd" if "rd \<in> set rds" for rd
    using cs(3) assms(5) that by (auto simp: has_segment_def)
  then have "cs = map (\<lambda>rd. True) rds" unfolding cs(2) by simp
  then have ch: "chosen rds cs = rds" unfolding chosen_def by (induction rds arbitrary: cs) auto
  show put: "repos' ! pushRepoIdx rd = storagePut (repos ! pushRepoIdx rd)
      (REPO_ARCHIVE @ [pushArchiveId rd, take 16 f, segmentDestination env wal f])
      (FData (encodeFile env (pushRepoIdx rd) True wal))"
    using put_writes [OF assms(6), of repos env wal True "segmentDestination env wal f"] assms(3)
    by (simp add: cs(1) put_chosen ch repo_list_ok_def destination_facts(2) [OF assms(1,2)])
  have "set (segmentFiles (repos' ! pushRepoIdx rd) (pushArchiveId rd) f) = {segmentDestination env wal f}"
    using assms(5,6) destination_facts(1) [OF assms(1,2)] set_segmentFiles [of "repos ! pushRepoIdx rd" "pushArchiveId rd" f]
    unfolding put by (auto simp: set_segmentFiles)
  then have "segmentFiles (repos' ! pushRepoIdx rd) (pushArchiveId rd) f = [segmentDestination env wal f]"
    by (rule distinct_singleton [OF distinct_segmentFiles])
  then show "storageList (repos' ! pushRepoIdx rd) (REPO_ARCHIVE @ [pushArchiveId rd, take 16 f]) (walSegmentExpression f) =
      [segmentDestination env wal f]"
    unfolding segmentFiles_def strLstSort_def
    by (metis SortOrder.simps(8) distinct_singleton distinct_storageListAll distinct_filter storageList_def set_sort list.set(1) list.set(2))
qed

section \<open>The search of archive-get\<close>

text \<open>The cache of archive-get for the repositories of a push, and the matches it finds.\<close>

definition getCache :: "ArchivePushFileRepoData \<Rightarrow> ArchiveGetFindCacheRepo" where
  "getCache rd = \<lparr>cacheRepoIdx = pushRepoIdx rd,
     cacheArchiveList = [\<lparr>cacheArchiveId = pushArchiveId rd, cachePathList = []\<rparr>], cacheWarnList = []\<rparr>"

definition getMatch :: "string \<Rightarrow> string \<Rightarrow> ArchivePushFileRepoData \<Rightarrow> ArchiveGetFile" where
  "getMatch f file rd = \<lparr>getFile = pushArchiveId rd @ ''/'' @ take 16 f @ ''/'' @ file, getRepoIdx = pushRepoIdx rd,
     getArchiveId = pushArchiveId rd\<rparr>"

lemma find_repos_match:
  assumes "walIsSegment f" "\<forall>rd\<in>set rds. pushRepoIdx rd < length repos \<and>
    storageList (repos ! pushRepoIdx rd) (REPO_ARCHIVE @ [pushArchiveId rd, take 16 f]) (walSegmentExpression f) = [file]"
  shows "archiveGetFind_repos (map Inr repos) f True (map getCache rds) w = (map getCache rds, map (getMatch f file) rds, w, 0)"
  using assms(2)
  by (induction rds) (simp_all add: getCache_def getMatch_def archiveGetFind_archive_def Let_def assms(1))

lemma match_hash_same:
  assumes "length (pushArchiveId rd) = n" "length (pushArchiveId rd') = n" "n \<le> 25"
  shows "matchHash (getMatch f file rd) = matchHash (getMatch f file rd')"
  using assms by (simp add: matchHash_def getMatch_def)

lemma remdups_constant:
  assumes "xs \<noteq> []" "\<And>x. x \<in> set xs \<Longrightarrow> x = c"
  shows "length (remdups xs) = 1"
proof -
  have "set xs = {c}" using assms by (cases xs) auto
  then show ?thesis by (simp add: length_remdups_card_conv)
qed

lemma find_pushed:
  assumes "walIsSegment f" "rds \<noteq> []" "\<forall>rd\<in>set rds. length (pushArchiveId rd) = n" "n \<le> 25"
    "\<forall>rd\<in>set rds. pushRepoIdx rd < length repos \<and>
      storageList (repos ! pushRepoIdx rd) (REPO_ARCHIVE @ [pushArchiveId rd, take 16 f]) (walSegmentExpression f) = [file]"
  shows "archiveGetFind (map Inr repos) f emptyGetResult (map getCache rds) [] True =
    (True, emptyGetResult\<lparr>getFileMapList := [\<lparr>mapRequest = f, mapActualList = map (getMatch f file) rds, mapWarnList = []\<rparr>]\<rparr>,
     map getCache rds)"
proof -
  have "matchHash (getMatch f file rd) = matchHash (getMatch f file (hd rds))" if "rd \<in> set rds" for rd
    by (rule match_hash_same [where n = n]) (use assms(2-4) that in auto)
  then have same: "map (matchHash \<circ> getMatch f file) rds = map (\<lambda>_. matchHash (getMatch f file (hd rds))) rds"
    unfolding map_eq_conv comp_def by blast
  have "length (remdups (map (matchHash \<circ> getMatch f file) rds)) = 1"
    unfolding same by (rule remdups_constant [where c = "matchHash (getMatch f file (hd rds))"]) (use assms(2) in auto)
  then show ?thesis
    using assms(2) by (simp add: archiveGetFind_def find_repos_match [OF assms(1,5)] emptyGetResult_def)
qed

section \<open>Reading back\<close>

lemma no_slash:
  assumes "push_env_ok env" "walIsSegment f"
  shows "CHR ''/'' \<notin> set f" "CHR ''/'' \<notin> set (segmentDestination env wal f)"
proof -
  have "CHR ''/'' \<notin> set (take 24 f)" "CHR ''/'' \<notin> set (drop 24 f)"
    using assms(2) by (auto simp: walIsSegment_def list_all_iff in_range_0_F_def WAL_SEGMENT_PARTIAL_EXT_def)
  then show f: "CHR ''/'' \<notin> set f" by (metis Un_iff append_take_drop_id set_append)
  have "CHR ''/'' \<notin> set (sha1 env wal)"
  proof
    assume "CHR ''/'' \<in> set (sha1 env wal)"
    moreover have "list_all (\<lambda>c. CHR ''0'' \<le> c \<and> c \<le> CHR ''f'') (sha1 env wal)" using assms(1) by (simp add: push_env_ok_def)
    ultimately have "CHR ''0'' \<le> CHR ''/''" by (auto simp: list_all_iff)
    then show False by simp
  qed
  moreover have "CHR ''/'' \<notin> set (compressExtPush env)"
    using assms(1) by (auto simp: push_env_ok_def compressExts_def)
  ultimately show "CHR ''/'' \<notin> set (segmentDestination env wal f)" using f by (simp add: segmentDestination_def)
qed

lemma repoRead_pushed:
  assumes "push_env_ok env" "walIsSegment f" "CHR ''/'' \<notin> set (pushArchiveId rd)"
    "repos ! pushRepoIdx rd = storagePut fs (REPO_ARCHIVE @ [pushArchiveId rd, take 16 f, segmentDestination env wal f])
      (FData (encodeFile env (pushRepoIdx rd) True wal))"
    "decode (pushRepoIdx rd) (encodeFile env (pushRepoIdx rd) True wal) = Inr wal"
  shows "repoRead decode repos (getMatch f (segmentDestination env wal f) rd) = Inr wal"
proof -
  have "CHR ''/'' \<notin> set (take 16 f)" using no_slash(1) [OF assms(1,2)] by (meson in_set_takeD)
  then have "split_char CHR ''/'' (pushArchiveId rd @ ''/'' @ take 16 f @ ''/'' @ segmentDestination env wal f) =
      [pushArchiveId rd, take 16 f, segmentDestination env wal f]"
    using assms(3) no_slash(2) [OF assms(1,2), of wal] by (simp add: split_char_append split_char_no_delim)
  then show ?thesis using assms(4,5) by (simp add: repoRead_def getMatch_def)
qed

end
