(* ===== verification/Pack.thy ===== *)
theory Pack
  imports Convert
begin

text \<open>
  The pack type (\<^verbatim>\<open>src/src/common/type/pack.c\<close>): the binary format of protocol messages and block maps.  A writer
  appends fields with increasing ids to a buffer or an I/O object, a reader takes them off again; arrays and objects
  nest, fields that are NULL or have their default value are left out and show as a gap in the ids.

  The reader's buffer is the list of bytes that are left.  With an I/O object (\<open>packIo\<close>) the code reads at most
  \<open>packBufSize\<close> bytes at a time.  The writer keeps what it has handed to the I/O object apart from its internal buffer.
  The tag stack is a list with the top first; its last element is the implicit outermost object.
\<close>

section \<open>Types\<close>

datatype PackType =
    pckTypeArray | pckTypeBin | pckTypeBool | pckTypeI32 | pckTypeI64 | pckTypeObj | pckTypeMode | pckTypePack
  | pckTypeStr | pckTypeStrId | pckTypeTime | pckTypeU32 | pckTypeU64

datatype PackTypeMap =
    pckTypeMapUnknown | pckTypeMapArray | pckTypeMapBool | pckTypeMapI32 | pckTypeMapI64 | pckTypeMapObj | pckTypeMapStr
  | pckTypeMapU32 | pckTypeMapU64 | pckTypeMapStrId | pckTypeMapTime | pckTypeMapBin | pckTypeMapPack | pckTypeMapMode

text \<open>The number of a type in the pack.\<close>

fun typeMapNum :: "PackTypeMap \<Rightarrow> u32" where
  "typeMapNum pckTypeMapUnknown = 0"
| "typeMapNum pckTypeMapArray = 1"
| "typeMapNum pckTypeMapBool = 2"
| "typeMapNum pckTypeMapI32 = 3"
| "typeMapNum pckTypeMapI64 = 4"
| "typeMapNum pckTypeMapObj = 5"
| "typeMapNum pckTypeMapStr = 7"
| "typeMapNum pckTypeMapU32 = 8"
| "typeMapNum pckTypeMapU64 = 9"
| "typeMapNum pckTypeMapStrId = 10"
| "typeMapNum pckTypeMapTime = 15"
| "typeMapNum pckTypeMapBin = 16"
| "typeMapNum pckTypeMapPack = 17"
| "typeMapNum pckTypeMapMode = 18"

record PackTypeMapData =
  mapType :: PackType
  valueSingleBit :: bool
  valueMultiBit :: bool
  hasSize :: bool

text \<open>\<^verbatim>\<open>packTypeMapData[]\<close>; a type without an entry, like \<^verbatim>\<open>Unknown\<close>, has type 0 there.\<close>

fun packTypeMapData :: "PackTypeMap \<Rightarrow> PackTypeMapData option" where
  "packTypeMapData pckTypeMapUnknown = None"
| "packTypeMapData pckTypeMapArray = Some \<lparr>mapType = pckTypeArray, valueSingleBit = False, valueMultiBit = False, hasSize = False\<rparr>"
| "packTypeMapData pckTypeMapBool = Some \<lparr>mapType = pckTypeBool, valueSingleBit = True, valueMultiBit = False, hasSize = False\<rparr>"
| "packTypeMapData pckTypeMapI32 = Some \<lparr>mapType = pckTypeI32, valueSingleBit = False, valueMultiBit = True, hasSize = False\<rparr>"
| "packTypeMapData pckTypeMapI64 = Some \<lparr>mapType = pckTypeI64, valueSingleBit = False, valueMultiBit = True, hasSize = False\<rparr>"
| "packTypeMapData pckTypeMapObj = Some \<lparr>mapType = pckTypeObj, valueSingleBit = False, valueMultiBit = False, hasSize = False\<rparr>"
| "packTypeMapData pckTypeMapStr = Some \<lparr>mapType = pckTypeStr, valueSingleBit = True, valueMultiBit = False, hasSize = True\<rparr>"
| "packTypeMapData pckTypeMapU32 = Some \<lparr>mapType = pckTypeU32, valueSingleBit = False, valueMultiBit = True, hasSize = False\<rparr>"
| "packTypeMapData pckTypeMapU64 = Some \<lparr>mapType = pckTypeU64, valueSingleBit = False, valueMultiBit = True, hasSize = False\<rparr>"
| "packTypeMapData pckTypeMapStrId = Some \<lparr>mapType = pckTypeStrId, valueSingleBit = False, valueMultiBit = True, hasSize = False\<rparr>"
| "packTypeMapData pckTypeMapTime = Some \<lparr>mapType = pckTypeTime, valueSingleBit = False, valueMultiBit = True, hasSize = False\<rparr>"
| "packTypeMapData pckTypeMapBin = Some \<lparr>mapType = pckTypeBin, valueSingleBit = True, valueMultiBit = False, hasSize = True\<rparr>"
| "packTypeMapData pckTypeMapPack = Some \<lparr>mapType = pckTypePack, valueSingleBit = False, valueMultiBit = False, hasSize = True\<rparr>"
| "packTypeMapData pckTypeMapMode = Some \<lparr>mapType = pckTypeMode, valueSingleBit = False, valueMultiBit = True, hasSize = False\<rparr>"

definition singleBit :: "PackTypeMap \<Rightarrow> bool" where
  "singleBit t = (case packTypeMapData t of None \<Rightarrow> False | Some d \<Rightarrow> valueSingleBit d)"

definition multiBit :: "PackTypeMap \<Rightarrow> bool" where
  "multiBit t = (case packTypeMapData t of None \<Rightarrow> False | Some d \<Rightarrow> valueMultiBit d)"

definition sized :: "PackTypeMap \<Rightarrow> bool" where
  "sized t = (case packTypeMapData t of None \<Rightarrow> False | Some d \<Rightarrow> hasSize d)"

text \<open>The type with a number that passes the \<^verbatim>\<open>CHECK\<close> of the reader.\<close>

definition typeMapOf :: "u32 \<Rightarrow> PackTypeMap option" where
  "typeMapOf n = find (\<lambda>t. typeMapNum t = n)
    [pckTypeMapArray, pckTypeMapBool, pckTypeMapI32, pckTypeMapI64, pckTypeMapObj, pckTypeMapStr, pckTypeMapU32,
     pckTypeMapU64, pckTypeMapStrId, pckTypeMapTime, pckTypeMapBin, pckTypeMapPack, pckTypeMapMode]"

record PackTagStackItem =
  itemTypeMap :: PackTypeMap
  idLast :: u32
  nullTotal :: u32

abbreviation UINT_MAX :: u32 where
  "UINT_MAX \<equiv> 0xFFFFFFFF"

section \<open>The tag stack\<close>

definition pckTagStackPush :: "PackTagStackItem list \<Rightarrow> PackTypeMap \<Rightarrow> PackTagStackItem list" where
  "pckTagStackPush tagStack typeMap = \<lparr>itemTypeMap = typeMap, idLast = 0, nullTotal = 0\<rparr> # tagStack"

definition pckTagStackPopCheck :: "PackTagStackItem list \<Rightarrow> PackTypeMap \<Rightarrow> unit res" where
  "pckTagStackPopCheck tagStack typeMap =
    (if length tagStack \<le> 1 \<or> itemTypeMap (hd tagStack) \<noteq> typeMap then Inl FormatError else Inr ())"

definition pckTagStackPop :: "PackTagStackItem list \<Rightarrow> PackTagStackItem list" where
  "pckTagStackPop tagStack = tl tagStack"

section \<open>The writer\<close>

definition PACK_EXTRA_MIN :: nat where
  "PACK_EXTRA_MIN = 128"

record PackWrite =
  writeIo :: bool
  writeOut :: "byte list"
  writeBuffer :: "byte list"
  writeAlloc :: nat
  writeStack :: "PackTagStackItem list"

definition pckWriteNewInternal :: PackWrite where
  "pckWriteNewInternal = \<lparr>writeIo = False, writeOut = [], writeBuffer = [], writeAlloc = 0,
     writeStack = [\<lparr>itemTypeMap = pckTypeMapObj, idLast = 0, nullTotal = 0\<rparr>]\<rparr>"

definition pckWriteNew :: "nat \<Rightarrow> PackWrite" where
  "pckWriteNew paramSize = pckWriteNewInternal\<lparr>writeAlloc := (if paramSize = 0 then PACK_EXTRA_MIN else paramSize)\<rparr>"

definition pckWriteNewIo :: "byte list \<Rightarrow> nat \<Rightarrow> PackWrite" where
  "pckWriteNewIo written ioBufferSize = pckWriteNewInternal\<lparr>writeIo := True, writeOut := written, writeAlloc := ioBufferSize\<rparr>"

definition pckWriteBuffer :: "PackWrite \<Rightarrow> byte list \<Rightarrow> PackWrite" where
  "pckWriteBuffer this buffer =
    (if \<not> writeIo this then
       (let alloc = (if writeAlloc this - length (writeBuffer this) < length buffer
                     then writeAlloc this + length buffer + PACK_EXTRA_MIN else writeAlloc this)
        in this\<lparr>writeAlloc := alloc, writeBuffer := writeBuffer this @ buffer\<rparr>)
     else if writeAlloc this - length (writeBuffer this) \<ge> length buffer
       then this\<lparr>writeBuffer := writeBuffer this @ buffer\<rparr>
     else
       (let this = this\<lparr>writeOut := writeOut this @ writeBuffer this, writeBuffer := []\<rparr>
        in if writeAlloc this \<ge> length buffer then this\<lparr>writeBuffer := buffer\<rparr>
           else this\<lparr>writeOut := writeOut this @ buffer\<rparr>))"

definition pckWriteU64Internal :: "PackWrite \<Rightarrow> u64 \<Rightarrow> PackWrite res" where
  "pckWriteU64Internal this v =
    bindR (cvtUInt64ToVarInt128 v (replicate 10 0) 0 CVT_VARINT128_BUFFER_SIZE)
      (\<lambda>(buffer, used). Inr (pckWriteBuffer this (take used buffer)))"

definition setTop :: "(PackTagStackItem \<Rightarrow> PackTagStackItem) \<Rightarrow> PackWrite \<Rightarrow> PackWrite" where
  "setTop f this = this\<lparr>writeStack := f (hd (writeStack this)) # tl (writeStack this)\<rparr>"

text \<open>The tag with the bits of the id delta and of the value that are left to write after it.\<close>

definition tagLayout :: "PackTypeMap \<Rightarrow> u32 \<Rightarrow> u64 \<Rightarrow> u64 \<times> u32 \<times> u64" where
  "tagLayout typeMap tagId v =
    (let tag = (if typeMapNum typeMap \<ge> 0xF then 0xF0 else push_bit 4 (ucast (typeMapNum typeMap)))
     in if multiBit typeMap then
          if v < 2 then
            (let tag = tag OR push_bit 2 (v AND 1) OR (ucast tagId AND 1);
                 rest = drop_bit 1 tagId
             in (if rest > 0 then tag OR 2 else tag, rest, drop_bit 1 v))
          else
            (let tag = tag OR 8 OR (ucast tagId AND 3);
                 rest = drop_bit 2 tagId
             in (if rest > 0 then tag OR 4 else tag, rest, v))
        else if singleBit typeMap then
          (let tag = tag OR push_bit 3 (v AND 1) OR (ucast tagId AND 3);
               rest = drop_bit 2 tagId
           in (if rest > 0 then tag OR 4 else tag, rest, drop_bit 1 v))
        else
          (let tag = tag OR (ucast tagId AND 7);
               rest = drop_bit 3 tagId
           in (if rest > 0 then tag OR 8 else tag, rest, v)))"

definition pckWriteTag :: "PackWrite \<Rightarrow> PackTypeMap \<Rightarrow> u32 \<Rightarrow> u64 \<Rightarrow> PackWrite res" where
  "pckWriteTag this typeMap paramId v =
    (let top = hd (writeStack this)
     in bindR (if paramId = 0 then Inr (idLast top + nullTotal top + 1)
               else if paramId > idLast top then Inr paramId else Inl AssertError) (\<lambda>id.
       let this = setTop (\<lambda>top. top\<lparr>nullTotal := 0\<rparr>) this;
           (tag, tagId, v) = tagLayout typeMap (id - idLast top - 1) v;
           this = pckWriteBuffer this [ucast tag]
       in bindR (if typeMapNum typeMap \<ge> 0xF then pckWriteU64Internal this (ucast (typeMapNum typeMap - 0xF)) else Inr this) (\<lambda>this.
          bindR (if tagId > 0 then pckWriteU64Internal this (ucast tagId) else Inr this) (\<lambda>this.
          bindR (if v > 0 then pckWriteU64Internal this v else Inr this) (\<lambda>this.
            Inr (setTop (\<lambda>top. top\<lparr>idLast := id\<rparr>) this))))))"

definition pckWriteNull :: "PackWrite \<Rightarrow> PackWrite" where
  "pckWriteNull this = setTop (\<lambda>top. top\<lparr>nullTotal := nullTotal top + 1\<rparr>) this"

definition pckWriteDefaultNull :: "PackWrite \<Rightarrow> bool \<Rightarrow> bool \<Rightarrow> PackWrite \<times> bool" where
  "pckWriteDefaultNull this defaultWrite defaultEqual =
    (if \<not> defaultWrite \<and> defaultEqual then (setTop (\<lambda>top. top\<lparr>nullTotal := nullTotal top + 1\<rparr>) this, True) else (this, False))"

text \<open>Write a field unless it is a default that need not be written.\<close>

definition writeUnlessNull :: "PackWrite \<Rightarrow> bool \<Rightarrow> bool \<Rightarrow> (PackWrite \<Rightarrow> PackWrite res) \<Rightarrow> PackWrite res" where
  "writeUnlessNull this defaultWrite defaultEqual f =
    (case pckWriteDefaultNull this defaultWrite defaultEqual of (this, True) \<Rightarrow> Inr this | (this, False) \<Rightarrow> f this)"

definition pckWriteArrayBegin :: "PackWrite \<Rightarrow> u32 \<Rightarrow> PackWrite res" where
  "pckWriteArrayBegin this paramId =
    bindR (pckWriteTag this pckTypeMapArray paramId 0)
      (\<lambda>this. Inr (this\<lparr>writeStack := pckTagStackPush (writeStack this) pckTypeMapArray\<rparr>))"

definition pckWriteContainerEnd :: "PackTypeMap \<Rightarrow> PackWrite \<Rightarrow> PackWrite res" where
  "pckWriteContainerEnd typeMap this =
    bindR (pckTagStackPopCheck (writeStack this) typeMap) (\<lambda>_.
    bindR (pckWriteU64Internal this 0) (\<lambda>this.
      Inr (this\<lparr>writeStack := pckTagStackPop (writeStack this)\<rparr>)))"

definition pckWriteArrayEnd :: "PackWrite \<Rightarrow> PackWrite res" where
  "pckWriteArrayEnd = pckWriteContainerEnd pckTypeMapArray"

definition pckWriteObjBegin :: "PackWrite \<Rightarrow> u32 \<Rightarrow> PackWrite res" where
  "pckWriteObjBegin this paramId =
    bindR (pckWriteTag this pckTypeMapObj paramId 0)
      (\<lambda>this. Inr (this\<lparr>writeStack := pckTagStackPush (writeStack this) pckTypeMapObj\<rparr>))"

definition pckWriteObjEnd :: "PackWrite \<Rightarrow> PackWrite res" where
  "pckWriteObjEnd = pckWriteContainerEnd pckTypeMapObj"

definition pckWriteBin :: "PackWrite \<Rightarrow> byte list option \<Rightarrow> u32 \<Rightarrow> PackWrite res" where
  "pckWriteBin this v paramId =
    writeUnlessNull this False (v = None) (\<lambda>this.
      let bytes = the v
      in bindR (pckWriteTag this pckTypeMapBin paramId (if bytes \<noteq> [] then 1 else 0)) (\<lambda>this.
         if bytes \<noteq> [] then bindR (pckWriteU64Internal this (of_nat (length bytes))) (\<lambda>this. Inr (pckWriteBuffer this bytes))
         else Inr this))"

definition pckWriteBool :: "PackWrite \<Rightarrow> bool \<Rightarrow> u32 \<Rightarrow> bool \<Rightarrow> bool \<Rightarrow> PackWrite res" where
  "pckWriteBool this v paramId defaultWrite defaultValue =
    writeUnlessNull this defaultWrite (v = defaultValue) (\<lambda>this. pckWriteTag this pckTypeMapBool paramId (if v then 1 else 0))"

definition pckWriteI32 :: "PackWrite \<Rightarrow> u32 \<Rightarrow> u32 \<Rightarrow> bool \<Rightarrow> u32 \<Rightarrow> PackWrite res" where
  "pckWriteI32 this v paramId defaultWrite defaultValue =
    writeUnlessNull this defaultWrite (v = defaultValue)
      (\<lambda>this. pckWriteTag this pckTypeMapI32 paramId (ucast (cvtInt32ToZigZag v)))"

definition pckWriteI64 :: "PackWrite \<Rightarrow> u64 \<Rightarrow> u32 \<Rightarrow> bool \<Rightarrow> u64 \<Rightarrow> PackWrite res" where
  "pckWriteI64 this v paramId defaultWrite defaultValue =
    writeUnlessNull this defaultWrite (v = defaultValue) (\<lambda>this. pckWriteTag this pckTypeMapI64 paramId (cvtInt64ToZigZag v))"

definition pckWriteMode :: "PackWrite \<Rightarrow> u32 \<Rightarrow> u32 \<Rightarrow> bool \<Rightarrow> u32 \<Rightarrow> PackWrite res" where
  "pckWriteMode this v paramId defaultWrite defaultValue =
    writeUnlessNull this defaultWrite (v = defaultValue) (\<lambda>this. pckWriteTag this pckTypeMapMode paramId (ucast v))"

definition pckWritePack :: "PackWrite \<Rightarrow> byte list option \<Rightarrow> u32 \<Rightarrow> PackWrite res" where
  "pckWritePack this v paramId =
    writeUnlessNull this False (v = None) (\<lambda>this.
      bindR (pckWriteTag this pckTypeMapPack paramId 0) (\<lambda>this.
      bindR (pckWriteU64Internal this (of_nat (length (the v)))) (\<lambda>this. Inr (pckWriteBuffer this (the v)))))"

definition pckWriteStr :: "PackWrite \<Rightarrow> string option \<Rightarrow> u32 \<Rightarrow> bool \<Rightarrow> string option \<Rightarrow> PackWrite res" where
  "pckWriteStr this v paramId defaultWrite defaultValue =
    writeUnlessNull this defaultWrite (v = defaultValue) (\<lambda>this.
      let s = the v
      in bindR (pckWriteTag this pckTypeMapStr paramId (if length s > 0 then 1 else 0)) (\<lambda>this.
         if length s > 0 then
           bindR (pckWriteU64Internal this (of_nat (length s))) (\<lambda>this. Inr (pckWriteBuffer this (map byte_of_char s)))
         else Inr this))"

definition pckWriteStrId :: "PackWrite \<Rightarrow> u64 \<Rightarrow> u32 \<Rightarrow> bool \<Rightarrow> u64 \<Rightarrow> PackWrite res" where
  "pckWriteStrId this v paramId defaultWrite defaultValue =
    writeUnlessNull this defaultWrite (v = defaultValue) (\<lambda>this. pckWriteTag this pckTypeMapStrId paramId v)"

fun pckWriteStrLst_loop :: "PackWrite \<Rightarrow> string list \<Rightarrow> PackWrite res" where
  "pckWriteStrLst_loop this [] = Inr this"
| "pckWriteStrLst_loop this (s # ss) = bindR (pckWriteStr this (Some s) 0 False None) (\<lambda>this. pckWriteStrLst_loop this ss)"

definition pckWriteStrLst :: "PackWrite \<Rightarrow> string list option \<Rightarrow> u32 \<Rightarrow> PackWrite res" where
  "pckWriteStrLst this v paramId =
    writeUnlessNull this False (v = None) (\<lambda>this.
      bindR (pckWriteArrayBegin this paramId) (\<lambda>this.
      bindR (pckWriteStrLst_loop this (the v)) pckWriteArrayEnd))"

definition pckWriteTime :: "PackWrite \<Rightarrow> u64 \<Rightarrow> u32 \<Rightarrow> bool \<Rightarrow> u64 \<Rightarrow> PackWrite res" where
  "pckWriteTime this v paramId defaultWrite defaultValue =
    writeUnlessNull this defaultWrite (v = defaultValue) (\<lambda>this. pckWriteTag this pckTypeMapTime paramId (cvtInt64ToZigZag v))"

definition pckWriteU32 :: "PackWrite \<Rightarrow> u32 \<Rightarrow> u32 \<Rightarrow> bool \<Rightarrow> u32 \<Rightarrow> PackWrite res" where
  "pckWriteU32 this v paramId defaultWrite defaultValue =
    writeUnlessNull this defaultWrite (v = defaultValue) (\<lambda>this. pckWriteTag this pckTypeMapU32 paramId (ucast v))"

definition pckWriteU64 :: "PackWrite \<Rightarrow> u64 \<Rightarrow> u32 \<Rightarrow> bool \<Rightarrow> u64 \<Rightarrow> PackWrite res" where
  "pckWriteU64 this v paramId defaultWrite defaultValue =
    writeUnlessNull this defaultWrite (v = defaultValue) (\<lambda>this. pckWriteTag this pckTypeMapU64 paramId v)"

definition pckWriteEnd :: "PackWrite \<Rightarrow> PackWrite res" where
  "pckWriteEnd this =
    bindR (pckWriteU64Internal this 0) (\<lambda>this.
      let this = this\<lparr>writeStack := []\<rparr>
      in Inr (if writeIo this then this\<lparr>writeOut := writeOut this @ writeBuffer this\<rparr>
              else this\<lparr>writeAlloc := length (writeBuffer this)\<rparr>))"

definition pckWriteResult :: "PackWrite \<Rightarrow> byte list" where
  "pckWriteResult this = writeBuffer this"

end
