(* ===== verification/PackReader.thy ===== *)
theory PackReader
  imports Pack
begin

text \<open>
  The reader of packs (\<^verbatim>\<open>src/src/common/type/pack.c\<close>), with the reads of every type.  Reading ahead of the field that was
  asked for, skipping fields, and gaps for fields that were not written are in \<open>pckReadTag\<close>.
\<close>

section \<open>Bytes\<close>

record PackRead =
  packIo :: bool
  packBufSize :: nat
  packRest :: "byte list"
  tagNextId :: u32
  tagNextTypeMap :: PackTypeMap
  tagNextValue :: u64
  tagNextSize :: u64
  readStack :: "PackTagStackItem list"

definition pckReadNewInternal :: PackRead where
  "pckReadNewInternal = \<lparr>packIo = False, packBufSize = 0, packRest = [], tagNextId = 0, tagNextTypeMap = pckTypeMapUnknown,
     tagNextValue = 0, tagNextSize = 0, readStack = [\<lparr>itemTypeMap = pckTypeMapObj, idLast = 0, nullTotal = 0\<rparr>]\<rparr>"

definition pckReadNewIo :: "byte list \<Rightarrow> nat \<Rightarrow> PackRead" where
  "pckReadNewIo input ioBufferSize = pckReadNewInternal\<lparr>packIo := True, packBufSize := ioBufferSize, packRest := input\<rparr>"

definition pckReadNewC :: "byte list \<Rightarrow> PackRead" where
  "pckReadNewC buffer = pckReadNewInternal\<lparr>packRest := buffer\<rparr>"

definition pckReadNew :: "byte list option \<Rightarrow> PackRead option" where
  "pckReadNew pack = map_option pckReadNewC pack"

text \<open>How many of the bytes asked for can be taken now.\<close>

definition pckReadBuffer :: "PackRead \<Rightarrow> nat \<Rightarrow> nat res" where
  "pckReadBuffer this sz =
    (if \<not> packIo this \<and> length (packRest this) \<ge> sz \<or> sz = 0 then Inr sz
     else
       (let remaining = (if packIo this then min (length (packRest this)) (min sz (packBufSize this)) else length (packRest this))
        in if remaining < 1 then Inl FormatError else Inr (min remaining sz)))"

lemma pckReadBuffer_pos: "pckReadBuffer this sz = Inr n \<Longrightarrow> 0 < sz \<Longrightarrow> 0 < n \<and> n \<le> sz \<and> n \<le> length (packRest this)"
  by (auto simp: pckReadBuffer_def Let_def split: if_splits)

text \<open>The loops that read a number of bytes in chunks.\<close>

function pckReadChunks :: "PackRead \<Rightarrow> nat \<Rightarrow> byte list \<Rightarrow> (byte list \<times> PackRead) res" where
  "pckReadChunks this sz result =
    (if sz = 0 then Inr (result, this)
     else bindR (pckReadBuffer this sz) (\<lambda>n.
       pckReadChunks (this\<lparr>packRest := drop n (packRest this)\<rparr>) (sz - n) (result @ take n (packRest this))))"
  by pat_completeness auto
termination
  by (relation "measure (\<lambda>(this, sz, result). sz)") (auto dest: pckReadBuffer_pos)

declare pckReadChunks.simps [simp del]

definition pckReadConsumeBuffer :: "PackRead \<Rightarrow> PackRead res" where
  "pckReadConsumeBuffer this =
    bindR (pckReadChunks this (unat (tagNextSize this)) []) (\<lambda>(_, this). Inr (this\<lparr>tagNextSize := 0\<rparr>))"

definition pckReadU64Internal :: "PackRead \<Rightarrow> (u64 \<times> PackRead) res" where
  "pckReadU64Internal this =
    (if packIo this then bindR (ioReadVarIntU64 (packRest this)) (\<lambda>(v, rest). Inr (v, this\<lparr>packRest := rest\<rparr>))
     else bindR (cvtUInt64FromVarInt128 (packRest this) 0 (length (packRest this)))
       (\<lambda>(v, bufferPos). Inr (v, this\<lparr>packRest := drop bufferPos (packRest this)\<rparr>)))"

section \<open>Tags\<close>

text \<open>The id delta: the low order bits from the tag and, when the tag says so, the high order bits after it.\<close>

definition readIdDelta :: "PackRead \<Rightarrow> u32 \<Rightarrow> bool \<Rightarrow> nat \<Rightarrow> PackRead res" where
  "readIdDelta this low high n =
    (if high then bindR (pckReadU64Internal this) (\<lambda>(v, this). Inr (this\<lparr>tagNextId := low OR push_bit n (ucast v)\<rparr>))
     else Inr (this\<lparr>tagNextId := low\<rparr>))"

text \<open>The type, from the high order bits of the tag or, when it does not fit there, from the bytes after it.\<close>

definition readTagType :: "u32 \<Rightarrow> PackRead \<Rightarrow> (PackTypeMap \<times> PackRead) res" where
  "readTagType tag this =
    bindR (if drop_bit 4 tag = 0xF then bindR (pckReadU64Internal this) (\<lambda>(v, this). Inr (ucast v + 0xF, this))
           else Inr (drop_bit 4 tag, this)) (\<lambda>(num, this).
      case typeMapOf num of None \<Rightarrow> Inl FormatError | Some typeMap \<Rightarrow> Inr (typeMap, this))"

text \<open>The id delta and the value, from the low order bits of the tag and from the bytes after it.\<close>

definition readTagBits :: "PackTypeMap \<Rightarrow> u32 \<Rightarrow> PackRead \<Rightarrow> PackRead res" where
  "readTagBits typeMap tag this =
    (if multiBit typeMap then
       if tag AND 8 \<noteq> 0 then
         bindR (readIdDelta this (tag AND 3) (tag AND 4 \<noteq> 0) 2) (\<lambda>this.
         bindR (pckReadU64Internal this) (\<lambda>(v, this). Inr (this\<lparr>tagNextValue := v\<rparr>)))
       else
         bindR (readIdDelta this (tag AND 1) (tag AND 2 \<noteq> 0) 1) (\<lambda>this.
           Inr (this\<lparr>tagNextValue := ucast (drop_bit 2 tag AND 3)\<rparr>))
     else if singleBit typeMap then
       bindR (readIdDelta this (tag AND 3) (tag AND 4 \<noteq> 0) 2) (\<lambda>this.
         Inr (this\<lparr>tagNextValue := ucast (drop_bit 3 tag AND 1)\<rparr>))
     else
       bindR (readIdDelta this (tag AND 7) (tag AND 8 \<noteq> 0) 3) (\<lambda>this.
         Inr (this\<lparr>tagNextValue := 0\<rparr>)))"

definition pckReadTagNext :: "PackRead \<Rightarrow> (bool \<times> PackRead) res" where
  "pckReadTagNext this =
    bindR (pckReadBuffer this 1) (\<lambda>_.
      let tag = (ucast (hd (packRest this)) :: u32);
          this = this\<lparr>packRest := tl (packRest this)\<rparr>
      in if tag = 0 then Inr (False, this\<lparr>tagNextId := UINT_MAX\<rparr>)
         else
           bindR (readTagType tag this) (\<lambda>(typeMap, this).
           bindR (readTagBits typeMap tag this) (\<lambda>this.
             let this = this\<lparr>tagNextTypeMap := typeMap, tagNextId := tagNextId this + (idLast (hd (readStack this)) + 1)\<rparr>
             in if sized typeMap \<and> (tagNextValue this > 0 \<or> \<not> singleBit typeMap)
                then bindR (pckReadU64Internal this) (\<lambda>(v, this). Inr (True, this\<lparr>tagNextSize := v\<rparr>))
                else Inr (True, this\<lparr>tagNextSize := 0\<rparr>))))"

definition setIdLast :: "u32 \<Rightarrow> PackRead \<Rightarrow> PackRead" where
  "setIdLast i this = this\<lparr>readStack := (hd (readStack this))\<lparr>idLast := i\<rparr> # tl (readStack this)\<rparr>"

text \<open>Reading never puts bytes back, and a tag takes at least one byte.\<close>

lemma setIdLast_rest [simp]: "packRest (setIdLast i this) = packRest this"
  by (simp add: setIdLast_def)

lemma pckReadU64Internal_rest: "pckReadU64Internal this = Inr (v, this') \<Longrightarrow> length (packRest this') \<le> length (packRest this)"
  by (auto simp: pckReadU64Internal_def ioReadVarIntU64_def res_simps split: if_splits dest: ioReadVarIntU64_loop_suffix)

lemma readIdDelta_rest: "readIdDelta this low high n = Inr this' \<Longrightarrow> length (packRest this') \<le> length (packRest this)"
  by (auto simp: readIdDelta_def res_simps split: if_splits dest: pckReadU64Internal_rest)

lemma readTagType_rest: "readTagType tag this = Inr (t, this') \<Longrightarrow> length (packRest this') \<le> length (packRest this)"
  by (auto simp: readTagType_def res_simps split: if_splits option.splits dest: pckReadU64Internal_rest)

lemma readTagBits_rest: "readTagBits t tag this = Inr this' \<Longrightarrow> length (packRest this') \<le> length (packRest this)"
  by (auto simp: readTagBits_def res_simps split: if_splits dest!: pckReadU64Internal_rest readIdDelta_rest)

lemma pckReadTagNext_rest:
  assumes "pckReadTagNext this = Inr (b, this')"
  shows "length (packRest this') < length (packRest this)"
proof -
  obtain n where "pckReadBuffer this 1 = Inr n" using assms by (auto simp: pckReadTagNext_def res_simps)
  then have pos: "0 < length (packRest this)" using pckReadBuffer_pos by fastforce
  have "length (packRest this') \<le> length (tl (packRest this))"
    using assms unfolding pckReadTagNext_def Let_def
    by (auto simp: res_simps split: if_splits option.splits prod.splits
        dest!: pckReadU64Internal_rest readTagType_rest readTagBits_rest)
  then show ?thesis using pos by (cases "packRest this") auto
qed

lemma pckReadChunks_rest:
  "pckReadChunks this sz result = Inr (bytes, this') \<Longrightarrow> length (packRest this') \<le> length (packRest this)"
proof (induction this sz result rule: pckReadChunks.induct)
  case (1 this sz result)
  show ?case
  proof (cases "sz = 0")
    case True
    then show ?thesis using "1.prems" by (simp add: pckReadChunks.simps)
  next
    case False
    then obtain n where n: "pckReadBuffer this sz = Inr n"
      "pckReadChunks (this\<lparr>packRest := drop n (packRest this)\<rparr>) (sz - n) (result @ take n (packRest this)) = Inr (bytes, this')"
      using "1.prems" by (subst (asm) pckReadChunks.simps) (auto simp: res_simps)
    show ?thesis using "1.IH" [OF False n(1) n(2)] by simp
  qed
qed

lemma pckReadConsumeBuffer_rest:
  "pckReadConsumeBuffer this = Inr this' \<Longrightarrow> length (packRest this') \<le> length (packRest this)"
  by (auto simp: pckReadConsumeBuffer_def res_simps dest!: pckReadChunks_rest)

text \<open>
  The search loop of \<^verbatim>\<open>pckReadTag\<close>.  Every iteration takes a tag off the input or uses up the one that was read ahead.
\<close>

function pckReadTag_loop :: "PackRead \<Rightarrow> u32 \<Rightarrow> PackTypeMap \<Rightarrow> bool \<Rightarrow> (u64 \<times> PackRead) res" where
  "pckReadTag_loop this fid typeMap peek =
    bindR (if tagNextId this = 0 then bindR (pckReadTagNext this) (\<lambda>(_, this). Inr this) else Inr this) (\<lambda>next.
      if fid < tagNextId next then Inr (tagNextValue next, next)
      else if fid = tagNextId next then
        if peek then Inr (tagNextValue next, next)
        else if tagNextTypeMap next \<noteq> typeMap then Inl FormatError
        else Inr (tagNextValue next, (setIdLast (tagNextId next) next)\<lparr>tagNextId := 0\<rparr>)
      else
        bindR (pckReadConsumeBuffer next) (\<lambda>skipped.
          pckReadTag_loop ((setIdLast (tagNextId skipped) skipped)\<lparr>tagNextId := 0\<rparr>) fid typeMap peek))"
  by pat_completeness auto
termination
proof (relation "measure (\<lambda>(this, fid, typeMap, peek). 2 * length (packRest this) + (if tagNextId this = 0 then 0 else 1))", goal_cases)
  case (2 this fid typeMap peek "next" skipped)
  have "length (packRest skipped) \<le> length (packRest next)" using pckReadConsumeBuffer_rest 2(4) by blast
  moreover have "if tagNextId this = 0 then length (packRest next) < length (packRest this) else next = this"
    using 2(1) pckReadTagNext_rest by (auto simp: res_simps split: if_splits)
  ultimately show ?case by (auto split: if_splits)
qed simp

declare pckReadTag_loop.simps [simp del]

definition pckReadTag :: "PackRead \<Rightarrow> u32 \<Rightarrow> PackTypeMap \<Rightarrow> bool \<Rightarrow> (u32 \<times> u64 \<times> PackRead) res" where
  "pckReadTag this fid typeMap peek =
    bindR (if fid = 0 then Inr (idLast (hd (readStack this)) + 1)
           else if fid \<le> idLast (hd (readStack this)) then Inl FormatError else Inr fid) (\<lambda>fid.
    bindR (pckReadTag_loop this fid typeMap peek) (\<lambda>(v, this). Inr (fid, v, this)))"

section \<open>Fields\<close>

definition pckReadNext :: "PackRead \<Rightarrow> (bool \<times> PackRead) res" where
  "pckReadNext this = pckReadTagNext this"

definition pckReadConsume :: "PackRead \<Rightarrow> PackRead res" where
  "pckReadConsume this =
    bindR (pckReadTag this 0 pckTypeMapUnknown True) (\<lambda>(fid, _, this).
    bindR (pckReadTag this fid (tagNextTypeMap this) False) (\<lambda>(_, _, this).
      pckReadConsumeBuffer this))"

definition pckReadId :: "PackRead \<Rightarrow> u32" where
  "pckReadId this = tagNextId this"

definition pckReadSize :: "PackRead \<Rightarrow> u64" where
  "pckReadSize this = tagNextSize this"

definition pckReadBufPtr :: "PackRead \<Rightarrow> byte list" where
  "pckReadBufPtr this = packRest this"

definition pckReadType :: "PackRead \<Rightarrow> PackType option" where
  "pckReadType this = map_option mapType (packTypeMapData (tagNextTypeMap this))"

definition pckReadNullInternal :: "PackRead \<Rightarrow> u32 \<Rightarrow> (bool \<times> u32 \<times> PackRead) res" where
  "pckReadNullInternal this fid =
    bindR (pckReadTag this fid pckTypeMapUnknown True) (\<lambda>(fid, _, this).
      Inr (if fid < tagNextId this then (True, fid, setIdLast fid this) else (False, fid, this)))"

definition pckReadNull :: "PackRead \<Rightarrow> u32 \<Rightarrow> (bool \<times> PackRead) res" where
  "pckReadNull this paramId = bindR (pckReadNullInternal this paramId) (\<lambda>(null, _, this). Inr (null, this))"

text \<open>A field with a default: what the reads of the single types have in common.\<close>

definition readUnlessNull :: "PackRead \<Rightarrow> u32 \<Rightarrow> 'a \<Rightarrow> (PackRead \<Rightarrow> u32 \<Rightarrow> ('a \<times> PackRead) res) \<Rightarrow> ('a \<times> PackRead) res" where
  "readUnlessNull this paramId defaultValue f =
    bindR (pckReadNullInternal this paramId) (\<lambda>(null, fid, this). if null then Inr (defaultValue, this) else f this fid)"

definition readValue :: "PackTypeMap \<Rightarrow> (u64 \<Rightarrow> 'a) \<Rightarrow> PackRead \<Rightarrow> u32 \<Rightarrow> ('a \<times> PackRead) res" where
  "readValue typeMap convert this fid = bindR (pckReadTag this fid typeMap False) (\<lambda>(_, v, this). Inr (convert v, this))"

definition pckReadContainerBegin :: "PackTypeMap \<Rightarrow> PackRead \<Rightarrow> u32 \<Rightarrow> PackRead res" where
  "pckReadContainerBegin typeMap this paramId =
    bindR (pckReadTag this paramId typeMap False) (\<lambda>(_, _, this).
      Inr (this\<lparr>readStack := pckTagStackPush (readStack this) typeMap\<rparr>))"

definition pckReadContainerEnd :: "PackTypeMap \<Rightarrow> PackRead \<Rightarrow> PackRead res" where
  "pckReadContainerEnd typeMap this =
    bindR (pckTagStackPopCheck (readStack this) typeMap) (\<lambda>_.
    bindR (pckReadTag this (UINT_MAX - 1) pckTypeMapUnknown True) (\<lambda>(_, _, this).
      Inr (this\<lparr>readStack := pckTagStackPop (readStack this), tagNextId := 0\<rparr>)))"

definition pckReadArrayBegin :: "PackRead \<Rightarrow> u32 \<Rightarrow> PackRead res" where
  "pckReadArrayBegin = pckReadContainerBegin pckTypeMapArray"

definition pckReadArrayEnd :: "PackRead \<Rightarrow> PackRead res" where
  "pckReadArrayEnd = pckReadContainerEnd pckTypeMapArray"

definition pckReadObjBegin :: "PackRead \<Rightarrow> u32 \<Rightarrow> PackRead res" where
  "pckReadObjBegin = pckReadContainerBegin pckTypeMapObj"

definition pckReadObjEnd :: "PackRead \<Rightarrow> PackRead res" where
  "pckReadObjEnd = pckReadContainerEnd pckTypeMapObj"

definition pckReadBin :: "PackRead \<Rightarrow> u32 \<Rightarrow> (byte list option \<times> PackRead) res" where
  "pckReadBin this paramId =
    readUnlessNull this paramId None (\<lambda>this fid.
      bindR (pckReadTag this fid pckTypeMapBin False) (\<lambda>(_, v, this).
        if v \<noteq> 0 then
          bindR (pckReadChunks this (unat (tagNextSize this)) []) (\<lambda>(bytes, this). Inr (Some bytes, this))
        else Inr (Some [], this)))"

definition pckReadBool :: "PackRead \<Rightarrow> u32 \<Rightarrow> bool \<Rightarrow> (bool \<times> PackRead) res" where
  "pckReadBool this paramId defaultValue = readUnlessNull this paramId defaultValue (readValue pckTypeMapBool (\<lambda>v. v \<noteq> 0))"

definition pckReadI32 :: "PackRead \<Rightarrow> u32 \<Rightarrow> u32 \<Rightarrow> (u32 \<times> PackRead) res" where
  "pckReadI32 this paramId defaultValue =
    readUnlessNull this paramId defaultValue (readValue pckTypeMapI32 (\<lambda>v. cvtInt32FromZigZag (ucast v)))"

definition pckReadI64 :: "PackRead \<Rightarrow> u32 \<Rightarrow> u64 \<Rightarrow> (u64 \<times> PackRead) res" where
  "pckReadI64 this paramId defaultValue = readUnlessNull this paramId defaultValue (readValue pckTypeMapI64 cvtInt64FromZigZag)"

definition pckReadMode :: "PackRead \<Rightarrow> u32 \<Rightarrow> u32 \<Rightarrow> (u32 \<times> PackRead) res" where
  "pckReadMode this paramId defaultValue = readUnlessNull this paramId defaultValue (readValue pckTypeMapMode ucast)"

definition pckReadPack :: "PackRead \<Rightarrow> u32 \<Rightarrow> (byte list option \<times> PackRead) res" where
  "pckReadPack this paramId =
    readUnlessNull this paramId None (\<lambda>this fid.
      bindR (pckReadTag this fid pckTypeMapPack False) (\<lambda>(_, _, this).
      bindR (pckReadChunks this (unat (tagNextSize this)) []) (\<lambda>(bytes, this). Inr (Some bytes, this))))"

definition pckReadPackRead :: "PackRead \<Rightarrow> u32 \<Rightarrow> (PackRead option \<times> PackRead) res" where
  "pckReadPackRead this paramId = bindR (pckReadPack this paramId) (\<lambda>(pack, this). Inr (pckReadNew pack, this))"

definition pckReadPackReadConst :: "PackRead \<Rightarrow> u32 \<Rightarrow> (PackRead option \<times> PackRead) res" where
  "pckReadPackReadConst this paramId =
    readUnlessNull this paramId None (\<lambda>this fid.
      bindR (pckReadTag this fid pckTypeMapPack False) (\<lambda>(_, _, this).
      let result = pckReadNewC (take (unat (tagNextSize this)) (packRest this))
      in bindR (pckReadConsumeBuffer this) (\<lambda>this. Inr (Some result, this))))"

definition char_of_byte :: "byte \<Rightarrow> char" where
  "char_of_byte b = char_of (unat b)"

definition pckReadStr :: "PackRead \<Rightarrow> u32 \<Rightarrow> string option \<Rightarrow> (string option \<times> PackRead) res" where
  "pckReadStr this paramId defaultValue =
    readUnlessNull this paramId defaultValue (\<lambda>this fid.
      bindR (pckReadTag this fid pckTypeMapStr False) (\<lambda>(_, v, this).
        if v \<noteq> 0 then
          bindR (pckReadChunks this (unat (tagNextSize this)) []) (\<lambda>(bytes, this). Inr (Some (map char_of_byte bytes), this))
        else Inr (Some [], this)))"

definition pckReadStrId :: "PackRead \<Rightarrow> u32 \<Rightarrow> u64 \<Rightarrow> (u64 \<times> PackRead) res" where
  "pckReadStrId this paramId defaultValue = readUnlessNull this paramId defaultValue (readValue pckTypeMapStrId (\<lambda>v. v))"

definition pckReadTime :: "PackRead \<Rightarrow> u32 \<Rightarrow> u64 \<Rightarrow> (u64 \<times> PackRead) res" where
  "pckReadTime this paramId defaultValue = readUnlessNull this paramId defaultValue (readValue pckTypeMapTime cvtInt64FromZigZag)"

definition pckReadU32 :: "PackRead \<Rightarrow> u32 \<Rightarrow> u32 \<Rightarrow> (u32 \<times> PackRead) res" where
  "pckReadU32 this paramId defaultValue = readUnlessNull this paramId defaultValue (readValue pckTypeMapU32 ucast)"

definition pckReadU64 :: "PackRead \<Rightarrow> u32 \<Rightarrow> u64 \<Rightarrow> (u64 \<times> PackRead) res" where
  "pckReadU64 this paramId defaultValue = readUnlessNull this paramId defaultValue (readValue pckTypeMapU64 (\<lambda>v. v))"

text \<open>The loop of \<^verbatim>\<open>pckReadStrLst\<close> ends at the first missing field.\<close>

partial_function (option) pckReadStrLst_loop ::
  "PackRead \<Rightarrow> string option list \<Rightarrow> ((string option list \<times> PackRead) res) option" where
  "pckReadStrLst_loop this result =
    (case pckReadNull this 0 of
       Inl e \<Rightarrow> Some (Inl e)
     | Inr (null, this) \<Rightarrow>
         if null then Some (Inr (result, this))
         else
           (case pckReadStr this 0 None of
              Inl e \<Rightarrow> Some (Inl e)
            | Inr (s, this) \<Rightarrow> pckReadStrLst_loop this (result @ [s])))"

definition pckReadStrLst :: "PackRead \<Rightarrow> u32 \<Rightarrow> (((string option list) option \<times> PackRead) res) option" where
  "pckReadStrLst this paramId =
    (case pckReadNullInternal this paramId of
       Inl e \<Rightarrow> Some (Inl e)
     | Inr (null, fid, this) \<Rightarrow>
         if null then Some (Inr (None, this))
         else
           (case pckReadArrayBegin this fid of
              Inl e \<Rightarrow> Some (Inl e)
            | Inr this \<Rightarrow>
                map_option (\<lambda>r. bindR r (\<lambda>(ss, this). bindR (pckReadArrayEnd this) (\<lambda>this. Inr (Some ss, this))))
                  (pckReadStrLst_loop this [])))"

definition pckReadEnd :: "PackRead \<Rightarrow> PackRead res" where
  "pckReadEnd this =
    (if length (readStack this) > 1 then Inl FormatError
     else bindR (pckReadTag this (UINT_MAX - 1) pckTypeMapUnknown True) (\<lambda>(_, _, this). Inr (this\<lparr>readStack := []\<rparr>)))"

end
