(* ===== verification/PackTag.thy ===== *)
theory PackTag
  imports PackReader
begin

text \<open>
  Tags of the pack format: what the writer appends for a field, and that the reader gets the same field back.
\<close>

section \<open>Bits of a tag\<close>

lemma nibble_and:
  fixes x lo :: u64 and k :: u32
  assumes "take_bit 4 k = k"
  shows "(ucast (ucast (push_bit 4 x OR lo) :: byte) :: u32) AND k = ucast lo AND k"
proof (rule bit_word_eqI)
  fix n assume "n < LENGTH(32)"
  have "bit k n \<Longrightarrow> n < 4" using assms by (metis bit_take_bit_iff)
  then show "bit ((ucast (ucast (push_bit 4 x OR lo) :: byte) :: u32) AND k) n = bit (ucast lo AND k) n"
    by (auto simp: bit_simps)
qed

lemma nibble_shift:
  fixes x lo :: u64
  assumes "take_bit 4 lo = lo" "take_bit 4 x = x"
  shows "drop_bit 4 (ucast (ucast (push_bit 4 x OR lo) :: byte) :: u32) = ucast x"
proof (rule bit_word_eqI)
  fix n assume "n < LENGTH(32)"
  have lo: "bit lo m \<Longrightarrow> m < 4" and x: "bit x m \<Longrightarrow> m < 4" for m using assms by (metis bit_take_bit_iff)+
  show "bit (drop_bit 4 (ucast (ucast (push_bit 4 x OR lo) :: byte) :: u32)) n = bit (ucast x :: u32) n"
    by (auto simp: bit_simps dest: lo x)
qed

lemma nibble_shift_and:
  fixes x lo :: u64 and k :: u32
  assumes "take_bit (4 - m) k = k" "m \<le> 4"
  shows "drop_bit m (ucast (ucast (push_bit 4 x OR lo) :: byte) :: u32) AND k = drop_bit m (ucast lo) AND k"
proof (rule bit_word_eqI)
  fix n assume "n < LENGTH(32)"
  have "bit k n \<Longrightarrow> n < 4 - m" using assms by (metis bit_take_bit_iff)
  then show "bit (drop_bit m (ucast (ucast (push_bit 4 x OR lo) :: byte) :: u32) AND k) n = bit (drop_bit m (ucast lo) AND k) n"
    by (auto simp: bit_simps)
qed

lemma split_bits: "(v AND mask n) OR push_bit n (drop_bit n v) = (v :: 'a::len word)"
proof (rule bit_word_eqI)
  fix m assume "m < LENGTH('a)"
  then show "bit ((v AND mask n) OR push_bit n (drop_bit n v)) m = bit v m"
    by (cases "m < n") (auto simp: bit_simps)
qed

definition tagHigh :: "PackTypeMap \<Rightarrow> u64" where
  "tagHigh t = (if typeMapNum t \<ge> 0xF then 0xF else ucast (typeMapNum t))"

lemma tagHigh_push: "(if typeMapNum t \<ge> 0xF then 0xF0 else push_bit 4 (ucast (typeMapNum t))) = push_bit 4 (tagHigh t)"
  by (simp add: tagHigh_def)

lemma tagHigh_small: "take_bit 4 (tagHigh t) = tagHigh t"
  by (cases t) (simp_all add: tagHigh_def)

lemma tagHigh_number:
  "t \<noteq> pckTypeMapUnknown \<Longrightarrow> (ucast (tagHigh t) :: u32) \<noteq> 0"
  "(ucast (tagHigh t) :: u32) = 0xF \<longleftrightarrow> typeMapNum t \<ge> 0xF"
  "\<not> typeMapNum t \<ge> 0xF \<Longrightarrow> (ucast (tagHigh t) :: u32) = typeMapNum t"
  "(ucast (ucast (typeMapNum t - 0xF) :: u64) :: u32) + 0xF = typeMapNum t"
  by (cases t; simp add: tagHigh_def)+

lemma typeMapOf_num: "t \<noteq> pckTypeMapUnknown \<Longrightarrow> typeMapOf (typeMapNum t) = Some t"
  by (cases t) (simp_all add: typeMapOf_def)

section \<open>Bytes of a tag\<close>

definition tag_bytes :: "PackTypeMap \<Rightarrow> u32 \<Rightarrow> u64 \<Rightarrow> byte list" where
  "tag_bytes t delta v =
    (case tagLayout t delta v of (tag, tagId, v') \<Rightarrow>
       [ucast tag] @ (if typeMapNum t \<ge> 0xF then varint_bytes (ucast (typeMapNum t - 0xF)) else []) @
       (if tagId > 0 then varint_bytes (ucast tagId) else []) @ (if v' > 0 then varint_bytes v' else []))"

text \<open>The bytes a writer has produced, wherever they are.\<close>

definition packBytes :: "PackWrite \<Rightarrow> byte list" where
  "packBytes pw = writeOut pw @ writeBuffer pw"

lemma packBytes_buffer [simp]: "packBytes (pckWriteBuffer pw b) = packBytes pw @ b"
  by (simp add: packBytes_def pckWriteBuffer_def Let_def)

lemma writeStack_buffer [simp]: "writeStack (pckWriteBuffer pw b) = writeStack pw"
  by (simp add: pckWriteBuffer_def Let_def)

lemma packBytes_setTop [simp]: "packBytes (setTop f pw) = packBytes pw"
  by (simp add: packBytes_def setTop_def)

lemma writeStack_setTop [simp]: "writeStack (setTop f pw) = f (hd (writeStack pw)) # tl (writeStack pw)"
  by (simp add: setTop_def)

lemma pckWriteU64Internal_eq: "pckWriteU64Internal pw v = Inr (pckWriteBuffer pw (varint_bytes v))"
  using varint_bytes_length [of v] by (simp add: pckWriteU64Internal_def cvtUInt64ToVarInt128_bytes)

section \<open>Reading a tag\<close>

lemma pckReadU64Internal_bytes:
  assumes "packRest r = varint_bytes v @ rest"
  shows "pckReadU64Internal r = Inr (v, r\<lparr>packRest := rest\<rparr>)"
  using cvtUInt64FromVarInt128_bytes [of 0 "packRest r" v rest] assms
  by (simp add: pckReadU64Internal_def varint_simps)

lemma ucast_up_down [simp]: "(ucast (ucast (x :: u32) :: u64) :: u32) = x"
  by (rule bit_word_eqI) (simp add: bit_simps)

lemma readIdDelta_bytes:
  assumes "packRest r = (if drop_bit n d > 0 then varint_bytes (ucast (drop_bit n d)) else []) @ rest"
    and "low = d AND mask n" and "high \<longleftrightarrow> drop_bit n d > 0"
  shows "readIdDelta r low high n = Inr (r\<lparr>packRest := rest, tagNextId := d\<rparr>)"
proof (cases "drop_bit n d > 0")
  case True
  then show ?thesis using assms split_bits [of d n]
    by (simp add: readIdDelta_def pckReadU64Internal_bytes)
next
  case False
  then have "drop_bit n d = 0" by (simp add: word_gt_0)
  then have "d AND mask n = d" using split_bits [of d n] by simp
  then show ?thesis using False assms by (simp add: readIdDelta_def)
qed

text \<open>The parts of the first byte of a tag.\<close>

definition tagByte :: "u64 \<Rightarrow> u64 \<Rightarrow> byte" where
  "tagByte h lo = ucast (push_bit 4 h OR lo)"

lemma tagByte_and: "take_bit 4 k = k \<Longrightarrow> (ucast (tagByte h lo) :: u32) AND k = ucast lo AND k"
  unfolding tagByte_def by (rule nibble_and)

lemma tagByte_shift_and: "take_bit (4 - m) k = k \<Longrightarrow> m \<le> 4 \<Longrightarrow> drop_bit m (ucast (tagByte h lo) :: u32) AND k = drop_bit m (ucast lo) AND k"
  unfolding tagByte_def by (rule nibble_shift_and)

lemma tagByte_type:
  assumes "take_bit 4 lo = lo"
  shows "drop_bit 4 (ucast (tagByte (tagHigh t) lo) :: u32) = ucast (tagHigh t)"
  unfolding tagByte_def by (rule nibble_shift [OF assms tagHigh_small])

lemma tagByte_nonzero:
  assumes "take_bit 4 lo = lo" "t \<noteq> pckTypeMapUnknown"
  shows "(ucast (tagByte (tagHigh t) lo) :: u32) \<noteq> 0"
  using tagByte_type [OF assms(1), of t] tagHigh_number(1) [OF assms(2)] by (metis drop_bit_of_0)

lemma word_less_two: "(v :: u64) < 2 \<Longrightarrow> v = 0 \<or> v = 1"
  by (auto simp: word_less_nat_alt word_unat_eq_iff)

lemma tagLayout_multi:
  assumes "multiBit t"
  shows "v < 2 \<Longrightarrow> tagLayout t d v = (push_bit 4 (tagHigh t) OR (push_bit 2 v OR (ucast (d AND 1) OR (if drop_bit 1 d > 0 then 2 else 0))), drop_bit 1 d, 0)"
    and "\<not> v < 2 \<Longrightarrow> tagLayout t d v = (push_bit 4 (tagHigh t) OR (8 OR (ucast (d AND mask 2) OR (if drop_bit 2 d > 0 then 4 else 0))), drop_bit 2 d, v)"
proof -
  assume "v < 2"
  then have "v = 0 \<or> v = 1" by (rule word_less_two) 
  then show "tagLayout t d v = (push_bit 4 (tagHigh t) OR (push_bit 2 v OR (ucast (d AND 1) OR (if drop_bit 1 d > 0 then 2 else 0))), drop_bit 1 d, 0)"
    using assms by (auto simp add: tagLayout_def tagHigh_push Let_def unsigned_and_eq or.assoc)
next
  assume "\<not> v < 2"
  then show "tagLayout t d v = (push_bit 4 (tagHigh t) OR (8 OR (ucast (d AND mask 2) OR (if drop_bit 2 d > 0 then 4 else 0))), drop_bit 2 d, v)"
    using assms by (simp add: tagLayout_def tagHigh_push Let_def unsigned_and_eq or.assoc mask_eq_exp_minus_1)
qed

lemma tagLayout_single:
  assumes "singleBit t" "\<not> multiBit t" "v < 2"
  shows "tagLayout t d v = (push_bit 4 (tagHigh t) OR (push_bit 3 v OR (ucast (d AND mask 2) OR (if drop_bit 2 d > 0 then 4 else 0))), drop_bit 2 d, 0)"
proof -
  have "v = 0 \<or> v = 1" using assms(3) by (rule word_less_two) 
  then show ?thesis using assms by (auto simp add: tagLayout_def tagHigh_push Let_def unsigned_and_eq or.assoc mask_eq_exp_minus_1)
qed

lemma tagLayout_none:
  assumes "\<not> singleBit t" "\<not> multiBit t"
  shows "tagLayout t d 0 = (push_bit 4 (tagHigh t) OR (ucast (d AND mask 3) OR (if drop_bit 3 d > 0 then 8 else 0)), drop_bit 3 d, 0)"
  using assms by (simp add: tagLayout_def tagHigh_push Let_def unsigned_and_eq or.assoc mask_eq_exp_minus_1)

definition readyIo :: "PackRead \<Rightarrow> bool" where
  "readyIo r \<longleftrightarrow> (packIo r \<longrightarrow> 0 < packBufSize r)"

lemma pckReadBuffer_one: "readyIo r \<Longrightarrow> packRest r \<noteq> [] \<Longrightarrow> pckReadBuffer r 1 = Inr 1"
  by (cases "packRest r") (auto simp: readyIo_def pckReadBuffer_def Let_def)

text \<open>The values that a tag of a type can carry.\<close>

definition tagValueOk :: "PackTypeMap \<Rightarrow> u64 \<Rightarrow> bool" where
  "tagValueOk t v \<longleftrightarrow> multiBit t \<or> (if singleBit t then v < 2 else v = 0)"

definition sizeWritten :: "PackTypeMap \<Rightarrow> u64 \<Rightarrow> bool" where
  "sizeWritten t v \<longleftrightarrow> sized t \<and> (v > 0 \<or> \<not> singleBit t)"


definition typeBytes :: "PackTypeMap \<Rightarrow> byte list" where
  "typeBytes t = (if typeMapNum t \<ge> 0xF then varint_bytes (ucast (typeMapNum t - 0xF)) else [])"

definition deltaBytes :: "nat \<Rightarrow> u32 \<Rightarrow> byte list" where
  "deltaBytes n d = (if drop_bit n d > 0 then varint_bytes (ucast (drop_bit n d)) else [])"

lemma readIdDelta_deltaBytes:
  assumes "packRest r = deltaBytes n d @ rest" and "low = d AND mask n" and "high \<longleftrightarrow> drop_bit n d > 0"
  shows "readIdDelta r low high n = Inr (r\<lparr>packRest := rest, tagNextId := d\<rparr>)"
  by (rule readIdDelta_bytes [OF _ assms(2,3)]) (simp add: assms(1) deltaBytes_def)

lemma readTagType_bytes:
  assumes "take_bit 4 lo = lo" "t \<noteq> pckTypeMapUnknown" "packRest r = typeBytes t @ rest"
  shows "readTagType (ucast (tagByte (tagHigh t) lo)) r = Inr (t, r\<lparr>packRest := rest\<rparr>)"
proof (cases "typeMapNum t \<ge> 0xF")
  case True
  then show ?thesis
    using assms(3) tagHigh_number(2) [of t]
    by (simp add: readTagType_def tagByte_type [OF assms(1)] typeBytes_def pckReadU64Internal_bytes typeMapOf_num [OF assms(2)])
next
  case False
  then have "typeMapOf (ucast (tagHigh t)) = Some t" using typeMapOf_num [OF assms(2)] tagHigh_number(3) by metis
  then show ?thesis using False assms(3) tagHigh_number(2) [of t]
    by (simp add: readTagType_def tagByte_type [OF assms(1)] typeBytes_def)
qed

text \<open>The low order bits of the first byte, and what follows the type.\<close>

definition tagLow :: "PackTypeMap \<Rightarrow> u32 \<Rightarrow> u64 \<Rightarrow> u64" where
  "tagLow t d v =
    (if multiBit t then
       if v < 2 then push_bit 2 v OR (ucast (d AND 1) OR (if drop_bit 1 d > 0 then 2 else 0))
       else 8 OR (ucast (d AND mask 2) OR (if drop_bit 2 d > 0 then 4 else 0))
     else if singleBit t then push_bit 3 v OR (ucast (d AND mask 2) OR (if drop_bit 2 d > 0 then 4 else 0))
     else ucast (d AND mask 3) OR (if drop_bit 3 d > 0 then 8 else 0))"

definition tagTail :: "PackTypeMap \<Rightarrow> u32 \<Rightarrow> u64 \<Rightarrow> byte list" where
  "tagTail t d v =
    (if multiBit t then if v < 2 then deltaBytes 1 d else deltaBytes 2 d @ varint_bytes v
     else if singleBit t then deltaBytes 2 d else deltaBytes 3 d)"

lemma tag_bytes_parts:
  assumes "tagValueOk t v"
  shows "tag_bytes t d v = tagByte (tagHigh t) (tagLow t d v) # typeBytes t @ tagTail t d v"
  using assms tagLayout_multi [of t v d] tagLayout_single [of t v d] tagLayout_none [of t d]
  by (auto simp: tag_bytes_def tagByte_def tagLow_def tagTail_def typeBytes_def deltaBytes_def tagValueOk_def word_gt_0
      split: if_splits)

lemma take_bit_delta: "n \<le> 4 \<Longrightarrow> take_bit 4 (ucast (d AND mask n :: u32) :: u64) = ucast (d AND mask n)"
  by (rule bit_word_eqI) (auto simp: bit_simps)

lemma tagLow_small: "tagValueOk t v \<Longrightarrow> take_bit 4 (tagLow t d v) = tagLow t d v"
  unfolding tagLow_def tagValueOk_def
  by (auto simp: take_bit_or take_bit_delta take_bit_delta [of 1, simplified] dest!: word_less_two)

text \<open>What the reader takes out of the low order bits.\<close>

lemma tagLow_delta:
  fixes hi :: u64 and d :: u32
  assumes "k \<le> 3" "take_bit (Suc k) hi = 0" "take_bit 4 hi = hi"
  defines "lo \<equiv> (ucast (hi OR (ucast (d AND mask k :: u32) OR (if drop_bit k d > 0 then push_bit k 1 else 0))) :: u32)"
  shows "lo AND mask k = d AND mask k"
    and "lo AND push_bit k 1 \<noteq> 0 \<longleftrightarrow> drop_bit k d > 0"
    and "drop_bit (Suc k) lo = ucast (drop_bit (Suc k) hi)"
proof -
  have hi: "bit hi n \<Longrightarrow> Suc k \<le> n" for n
    using assms(2) by (metis bit_take_bit_iff bit_0_eq bot_apply bot_bool_def not_less_eq_eq less_Suc_eq_le not_less)
  have hi4: "bit hi n \<Longrightarrow> n < 4" for n
    using assms(3) by (metis bit_take_bit_iff)
  show "lo AND mask k = d AND mask k"
    unfolding lo_def by (rule bit_word_eqI) (use assms(1) in \<open>auto simp: bit_simps dest: hi\<close>)
  have "bit lo k \<longleftrightarrow> drop_bit k d > 0"
    unfolding lo_def using assms(1) by (auto simp: bit_simps dest: hi)
  then show "lo AND push_bit k 1 \<noteq> 0 \<longleftrightarrow> drop_bit k d > 0"
    by (simp add: and_exp_eq_0_iff_not_bit push_bit_eq_mult)
  show "drop_bit (Suc k) lo = ucast (drop_bit (Suc k) hi)"
    unfolding lo_def by (rule bit_word_eqI) (use assms(1) in \<open>auto simp: bit_simps dest: hi4\<close>)
qed


lemma and_eight: "(x :: u32) AND 8 \<noteq> 0 \<longleftrightarrow> bit x 3"
  using and_exp_eq_0_iff_not_bit [of x 3] by simp

lemma readTagBits_small:
  assumes "packRest r = tagTail t d v @ rest" "multiBit t" "v < 2"
  shows "readTagBits t (ucast (tagByte h (tagLow t d v))) r = Inr (r\<lparr>packRest := rest, tagNextId := d, tagNextValue := v\<rparr>)"
proof -
  let ?lo = "ucast (tagLow t d v) :: u32"
  have lo: "tagLow t d v = push_bit 2 v OR (ucast (d AND mask 1) OR (if drop_bit 1 d > 0 then push_bit 1 1 else 0))"
    using assms(2-) by (simp add: tagLow_def)
  have v: "v = 0 \<or> v = 1" using assms(3) by (rule word_less_two)
  note * = tagLow_delta [of 1 "push_bit 2 v" d, folded lo]
  have 1: "?lo AND 1 = d AND 1" "?lo AND 2 \<noteq> 0 \<longleftrightarrow> drop_bit 1 d > 0" "drop_bit 2 ?lo = ucast v"
    using * v by (auto simp: numeral_2_eq_2 [symmetric])
  have 2: "?lo AND 8 = 0" "(ucast (drop_bit 2 ?lo AND 3 :: u32) :: u64) = v"
    using 1(3) v and_eight [of ?lo] bit_drop_bit_eq [of 2 ?lo, THEN fun_cong, of 1] by auto
  show ?thesis
    using assms 1 2
    by (simp add: readTagBits_def tagByte_and tagByte_shift_and tagTail_def readIdDelta_deltaBytes)
qed

lemma readTagBits_large:
  assumes "packRest r = tagTail t d v @ rest" "multiBit t" "\<not> v < 2"
  shows "readTagBits t (ucast (tagByte h (tagLow t d v))) r = Inr (r\<lparr>packRest := rest, tagNextId := d, tagNextValue := v\<rparr>)"
proof -
  let ?lo = "ucast (tagLow t d v) :: u32"
  have lo: "tagLow t d v = 8 OR (ucast (d AND mask 2) OR (if drop_bit 2 d > 0 then push_bit 2 1 else 0))"
    using assms(2-) by (simp add: tagLow_def)
  note * = tagLow_delta [of 2 8 d, folded lo]
  have 1: "?lo AND 3 = d AND mask 2" "?lo AND 4 \<noteq> 0 \<longleftrightarrow> drop_bit 2 d > 0" "?lo AND 8 \<noteq> 0"
    using * and_eight [of ?lo] bit_drop_bit_eq [of 3 ?lo, THEN fun_cong, of 0] by (auto simp: mask_eq_exp_minus_1)
  show ?thesis
    using assms 1
    by (simp add: readTagBits_def tagByte_and tagTail_def readIdDelta_deltaBytes pckReadU64Internal_bytes)
qed

lemma readTagBits_single:
  assumes "packRest r = tagTail t d v @ rest" "\<not> multiBit t" "singleBit t" "v < 2"
  shows "readTagBits t (ucast (tagByte h (tagLow t d v))) r = Inr (r\<lparr>packRest := rest, tagNextId := d, tagNextValue := v\<rparr>)"
proof -
  let ?lo = "ucast (tagLow t d v) :: u32"
  have lo: "tagLow t d v = push_bit 3 v OR (ucast (d AND mask 2) OR (if drop_bit 2 d > 0 then push_bit 2 1 else 0))"
    using assms(2-) by (simp add: tagLow_def)
  have v: "v = 0 \<or> v = 1" using assms(4) by (rule word_less_two)
  note * = tagLow_delta [of 2 "push_bit 3 v" d, folded lo]
  have 1: "?lo AND 3 = d AND mask 2" "?lo AND 4 \<noteq> 0 \<longleftrightarrow> drop_bit 2 d > 0"
    "(ucast (drop_bit 3 ?lo AND 1 :: u32) :: u64) = v"
    using * v by (auto simp: mask_eq_exp_minus_1)
  show ?thesis
    using assms 1
    by (simp add: readTagBits_def tagByte_and tagByte_shift_and tagTail_def readIdDelta_deltaBytes)
qed

lemma readTagBits_none:
  assumes "packRest r = tagTail t d v @ rest" "\<not> multiBit t" "\<not> singleBit t" "v = 0"
  shows "readTagBits t (ucast (tagByte h (tagLow t d v))) r = Inr (r\<lparr>packRest := rest, tagNextId := d, tagNextValue := v\<rparr>)"
proof -
  let ?lo = "ucast (tagLow t d v) :: u32"
  have lo: "tagLow t d v = 0 OR (ucast (d AND mask 3) OR (if drop_bit 3 d > 0 then push_bit 3 1 else 0))"
    using assms(2-) by (simp add: tagLow_def)
  note * = tagLow_delta [of 3 0 d, folded lo]
  have 1: "?lo AND 7 = d AND mask 3" "?lo AND 8 \<noteq> 0 \<longleftrightarrow> drop_bit 3 d > 0"
    using * by (auto simp: mask_eq_exp_minus_1)
  show ?thesis
    using assms 1
    by (simp add: readTagBits_def tagByte_and tagTail_def readIdDelta_deltaBytes)
qed

lemma readTagBits_bytes:
  assumes "tagValueOk t v" "packRest r = tagTail t d v @ rest"
  shows "readTagBits t (ucast (tagByte h (tagLow t d v))) r = Inr (r\<lparr>packRest := rest, tagNextId := d, tagNextValue := v\<rparr>)"
  using assms readTagBits_small readTagBits_large readTagBits_single readTagBits_none
  by (cases "multiBit t"; cases "singleBit t"; cases "v < 2") (auto simp: tagValueOk_def)

text \<open>
  The size that follows the tag of a string, a binary or a pack, and then the tag that the reader gets from what the writer
  wrote for a field.
\<close>

definition sizeBytes :: "PackTypeMap \<Rightarrow> u64 \<Rightarrow> u64 \<Rightarrow> byte list" where
  "sizeBytes t v sz = (if sizeWritten t v then varint_bytes sz else [])"

lemma pckReadTagNext_bytes:
  assumes "readyIo r" "t \<noteq> pckTypeMapUnknown" "tagValueOk t v"
    and "packRest r = tag_bytes t d v @ sizeBytes t v sz @ rest" and "sizeWritten t v \<or> sz = 0"
  shows "pckReadTagNext r = Inr (True, r\<lparr>packRest := rest, tagNextId := d + (idLast (hd (readStack r)) + 1),
    tagNextTypeMap := t, tagNextValue := v, tagNextSize := sz\<rparr>)"
proof -
  note parts = tag_bytes_parts [OF assms(3)] and small = tagLow_small [OF assms(3)]
  have one: "pckReadBuffer r (Suc 0) = Inr 1" using pckReadBuffer_one [OF assms(1)] assms(4) parts by simp
  let ?tag = "tagByte (tagHigh t) (tagLow t d v)"
  let ?r1 = "r\<lparr>packRest := typeBytes t @ tagTail t d v @ sizeBytes t v sz @ rest\<rparr>"
  let ?r2 = "r\<lparr>packRest := tagTail t d v @ sizeBytes t v sz @ rest\<rparr>"
  have 1: "readTagType (ucast ?tag) ?r1 = Inr (t, ?r2)"
    using readTagType_bytes [OF small assms(2), where r = ?r1] by simp
  have 2: "readTagBits t (ucast ?tag) ?r2 = Inr (r\<lparr>packRest := sizeBytes t v sz @ rest, tagNextId := d, tagNextValue := v\<rparr>)"
    using readTagBits_bytes [OF assms(3), where r = ?r2] by simp
  let ?r3 = "r\<lparr>packRest := sizeBytes t v sz @ rest, tagNextValue := v, tagNextTypeMap := t,
    tagNextId := d + (idLast (hd (readStack r)) + 1)\<rparr>"
  have "pckReadTagNext r =
    (if sizeWritten t v then bindR (pckReadU64Internal ?r3) (\<lambda>(v, r). Inr (True, r\<lparr>tagNextSize := v\<rparr>))
     else Inr (True, ?r3\<lparr>tagNextSize := 0\<rparr>))"
    using assms(4) tagByte_nonzero [OF small assms(2)]
    by (simp add: pckReadTagNext_def one Let_def parts 1 2 sizeWritten_def cong: if_cong)
  then show ?thesis using assms(5) by (auto simp: sizeBytes_def pckReadU64Internal_bytes)
qed

lemma pckReadTagNext_end:
  assumes "readyIo r" "packRest r = 0 # rest"
  shows "pckReadTagNext r = Inr (False, r\<lparr>packRest := rest, tagNextId := UINT_MAX\<rparr>)"
  using pckReadBuffer_one [OF assms(1)] assms(2) by (simp add: pckReadTagNext_def Let_def)

lemma pckReadChunks_bytes:
  assumes "readyIo r" "packRest r = bytes @ rest" "length bytes = sz"
  shows "pckReadChunks r sz acc = Inr (acc @ bytes, r\<lparr>packRest := rest\<rparr>)"
  using assms
proof (induction r sz acc arbitrary: bytes rule: pckReadChunks.induct)
  case (1 r sz acc)
  show ?case
  proof (cases "sz = 0")
    case True
    then show ?thesis using "1.prems" by (simp add: pckReadChunks.simps)
  next
    case False
    have "\<exists>n. pckReadBuffer r sz = Inr n \<and> n \<le> sz"
      using "1.prems" False by (auto simp: pckReadBuffer_def Let_def readyIo_def min_def split: if_splits)
    then obtain n where n: "pckReadBuffer r sz = Inr n" "n \<le> sz" by blast
    have take: "take n (packRest r) = take n bytes" "drop n (packRest r) = drop n bytes @ rest"
      using "1.prems" n(2) by simp_all
    have "pckReadChunks (r\<lparr>packRest := drop n (packRest r)\<rparr>) (sz - n) (acc @ take n (packRest r)) =
      Inr ((acc @ take n (packRest r)) @ drop n bytes, r\<lparr>packRest := drop n (packRest r)\<rparr>\<lparr>packRest := rest\<rparr>)"
      by (rule "1.IH" [OF False n(1)]) (use "1.prems" n(2) take in \<open>auto simp: readyIo_def\<close>)
    then show ?thesis using False n(1) take by (subst pckReadChunks.simps) simp
  qed
qed

end
