(* ===== verification/PackFields.thy ===== *)
theory PackFields
  imports PackTag
begin

text \<open>
  Sequences of writes to a pack (\<^verbatim>\<open>src/src/common/type/pack.c\<close>) with automatic field ids, the reads that belong to them, and
  the bytes that the writes produce.
\<close>

section \<open>Fields\<close>

text \<open>A field as the caller of a write passes it: the value with the parameters \<open>defaultWrite\<close> and \<open>defaultValue\<close>.\<close>

datatype leaf =
    LNull
  | LBool bool bool bool
  | LI32 u32 bool u32
  | LI64 u64 bool u64
  | LMode u32 bool u32
  | LU32 u32 bool u32
  | LU64 u64 bool u64
  | LStrId u64 bool u64
  | LTime u64 bool u64
  | LStr "string option" bool "string option"
  | LBin "byte list option"
  | LPack "byte list option"

datatype field = Leaf leaf | Arr "field list" | Obj "field list"

fun writeLeaf :: "PackWrite \<Rightarrow> leaf \<Rightarrow> PackWrite res" where
  "writeLeaf pw LNull = Inr (pckWriteNull pw)"
| "writeLeaf pw (LBool v w d) = pckWriteBool pw v 0 w d"
| "writeLeaf pw (LI32 v w d) = pckWriteI32 pw v 0 w d"
| "writeLeaf pw (LI64 v w d) = pckWriteI64 pw v 0 w d"
| "writeLeaf pw (LMode v w d) = pckWriteMode pw v 0 w d"
| "writeLeaf pw (LU32 v w d) = pckWriteU32 pw v 0 w d"
| "writeLeaf pw (LU64 v w d) = pckWriteU64 pw v 0 w d"
| "writeLeaf pw (LStrId v w d) = pckWriteStrId pw v 0 w d"
| "writeLeaf pw (LTime v w d) = pckWriteTime pw v 0 w d"
| "writeLeaf pw (LStr v w d) = pckWriteStr pw v 0 w d"
| "writeLeaf pw (LBin v) = pckWriteBin pw v 0"
| "writeLeaf pw (LPack v) = pckWritePack pw v 0"

text \<open>The read that belongs to a write: it has the same type and default, and gives the value it finds.\<close>

definition gets :: "('a \<Rightarrow> leaf) \<Rightarrow> ('a \<times> PackRead) res \<Rightarrow> (leaf \<times> PackRead) res" where
  "gets f m = bindR m (\<lambda>(v, r). Inr (f v, r))"

fun readLeaf :: "leaf \<Rightarrow> PackRead \<Rightarrow> (leaf \<times> PackRead) res" where
  "readLeaf LNull r = bindR (pckReadNull r 0) (\<lambda>(null, r). if null then Inr (LNull, r) else Inl FormatError)"
| "readLeaf (LBool _ w d) r = gets (\<lambda>v. LBool v w d) (pckReadBool r 0 d)"
| "readLeaf (LI32 _ w d) r = gets (\<lambda>v. LI32 v w d) (pckReadI32 r 0 d)"
| "readLeaf (LI64 _ w d) r = gets (\<lambda>v. LI64 v w d) (pckReadI64 r 0 d)"
| "readLeaf (LMode _ w d) r = gets (\<lambda>v. LMode v w d) (pckReadMode r 0 d)"
| "readLeaf (LU32 _ w d) r = gets (\<lambda>v. LU32 v w d) (pckReadU32 r 0 d)"
| "readLeaf (LU64 _ w d) r = gets (\<lambda>v. LU64 v w d) (pckReadU64 r 0 d)"
| "readLeaf (LStrId _ w d) r = gets (\<lambda>v. LStrId v w d) (pckReadStrId r 0 d)"
| "readLeaf (LTime _ w d) r = gets (\<lambda>v. LTime v w d) (pckReadTime r 0 d)"
| "readLeaf (LStr _ w d) r = gets (\<lambda>v. LStr v w d) (pckReadStr r 0 d)"
| "readLeaf (LBin _) r = gets LBin (pckReadBin r 0)"
| "readLeaf (LPack _) r = gets LPack (pckReadPack r 0)"

fun writeFields :: "PackWrite \<Rightarrow> field list \<Rightarrow> PackWrite res" where
  "writeFields pw [] = Inr pw"
| "writeFields pw (Leaf l # fs) = bindR (writeLeaf pw l) (\<lambda>pw. writeFields pw fs)"
| "writeFields pw (Arr gs # fs) =
    bindR (pckWriteArrayBegin pw 0) (\<lambda>pw. bindR (writeFields pw gs) (\<lambda>pw.
    bindR (pckWriteArrayEnd pw) (\<lambda>pw. writeFields pw fs)))"
| "writeFields pw (Obj gs # fs) =
    bindR (pckWriteObjBegin pw 0) (\<lambda>pw. bindR (writeFields pw gs) (\<lambda>pw.
    bindR (pckWriteObjEnd pw) (\<lambda>pw. writeFields pw fs)))"

fun readFields :: "field list \<Rightarrow> PackRead \<Rightarrow> (field list \<times> PackRead) res" where
  "readFields [] r = Inr ([], r)"
| "readFields (Leaf l # fs) r =
    bindR (readLeaf l r) (\<lambda>(l, r). bindR (readFields fs r) (\<lambda>(fs, r). Inr (Leaf l # fs, r)))"
| "readFields (Arr gs # fs) r =
    bindR (pckReadArrayBegin r 0) (\<lambda>r. bindR (readFields gs r) (\<lambda>(gs, r). bindR (pckReadArrayEnd r) (\<lambda>r.
    bindR (readFields fs r) (\<lambda>(fs, r). Inr (Arr gs # fs, r)))))"
| "readFields (Obj gs # fs) r =
    bindR (pckReadObjBegin r 0) (\<lambda>r. bindR (readFields gs r) (\<lambda>(gs, r). bindR (pckReadObjEnd r) (\<lambda>r.
    bindR (readFields fs r) (\<lambda>(fs, r). Inr (Obj gs # fs, r)))))"

section \<open>The bytes of a field\<close>

text \<open>Whether a field is left out, and otherwise its type, the value in its tag, and the bytes after the size.\<close>

fun leafNull :: "leaf \<Rightarrow> bool" where
  "leafNull LNull \<longleftrightarrow> True"
| "leafNull (LBool v w d) \<longleftrightarrow> \<not> w \<and> v = d"
| "leafNull (LI32 v w d) \<longleftrightarrow> \<not> w \<and> v = d"
| "leafNull (LI64 v w d) \<longleftrightarrow> \<not> w \<and> v = d"
| "leafNull (LMode v w d) \<longleftrightarrow> \<not> w \<and> v = d"
| "leafNull (LU32 v w d) \<longleftrightarrow> \<not> w \<and> v = d"
| "leafNull (LU64 v w d) \<longleftrightarrow> \<not> w \<and> v = d"
| "leafNull (LStrId v w d) \<longleftrightarrow> \<not> w \<and> v = d"
| "leafNull (LTime v w d) \<longleftrightarrow> \<not> w \<and> v = d"
| "leafNull (LStr v w d) \<longleftrightarrow> \<not> w \<and> v = d"
| "leafNull (LBin v) \<longleftrightarrow> v = None"
| "leafNull (LPack v) \<longleftrightarrow> v = None"

fun leafType :: "leaf \<Rightarrow> PackTypeMap" where
  "leafType LNull = pckTypeMapUnknown"
| "leafType (LBool _ _ _) = pckTypeMapBool"
| "leafType (LI32 _ _ _) = pckTypeMapI32"
| "leafType (LI64 _ _ _) = pckTypeMapI64"
| "leafType (LMode _ _ _) = pckTypeMapMode"
| "leafType (LU32 _ _ _) = pckTypeMapU32"
| "leafType (LU64 _ _ _) = pckTypeMapU64"
| "leafType (LStrId _ _ _) = pckTypeMapStrId"
| "leafType (LTime _ _ _) = pckTypeMapTime"
| "leafType (LStr _ _ _) = pckTypeMapStr"
| "leafType (LBin _) = pckTypeMapBin"
| "leafType (LPack _) = pckTypeMapPack"

fun leafPayload :: "leaf \<Rightarrow> byte list" where
  "leafPayload (LStr (Some s) _ _) = map byte_of_char s"
| "leafPayload (LBin (Some b)) = b"
| "leafPayload (LPack (Some b)) = b"
| "leafPayload _ = []"

fun leafValue :: "leaf \<Rightarrow> u64" where
  "leafValue (LBool v _ _) = (if v then 1 else 0)"
| "leafValue (LI32 v _ _) = ucast (cvtInt32ToZigZag v)"
| "leafValue (LI64 v _ _) = cvtInt64ToZigZag v"
| "leafValue (LMode v _ _) = ucast v"
| "leafValue (LU32 v _ _) = ucast v"
| "leafValue (LU64 v _ _) = v"
| "leafValue (LStrId v _ _) = v"
| "leafValue (LTime v _ _) = cvtInt64ToZigZag v"
| "leafValue (LStr (Some s) _ _) = (if s \<noteq> [] then 1 else 0)"
| "leafValue (LBin (Some b)) = (if b \<noteq> [] then 1 else 0)"
| "leafValue _ = 0"

definition leafSize :: "leaf \<Rightarrow> u64" where
  "leafSize l = of_nat (length (leafPayload l))"

definition leafBytes :: "u32 \<Rightarrow> leaf \<Rightarrow> byte list" where
  "leafBytes d l = tag_bytes (leafType l) d (leafValue l) @ sizeBytes (leafType l) (leafValue l) (leafSize l) @ leafPayload l"

text \<open>A string that is written must not be NULL, and a size must fit.\<close>

fun leafOk :: "leaf \<Rightarrow> bool" where
  "leafOk (LStr None w d) \<longleftrightarrow> \<not> w \<and> d = None"
| "leafOk l \<longleftrightarrow> length (leafPayload l) < 2 ^ 64"

text \<open>The bytes of the fields of a container and its end, with \<open>n\<close> missing fields before the first one.\<close>

fun enc :: "nat \<Rightarrow> field list \<Rightarrow> byte list" where
  "enc n [] = [0]"
| "enc n (Leaf l # fs) = (if leafNull l then enc (n + 1) fs else leafBytes (of_nat n) l @ enc 0 fs)"
| "enc n (Arr gs # fs) = tag_bytes pckTypeMapArray (of_nat n) 0 @ enc 0 gs @ enc 0 fs"
| "enc n (Obj gs # fs) = tag_bytes pckTypeMapObj (of_nat n) 0 @ enc 0 gs @ enc 0 fs"

fun fieldsOk :: "field list \<Rightarrow> bool" where
  "fieldsOk [] \<longleftrightarrow> True"
| "fieldsOk (Leaf l # fs) \<longleftrightarrow> leafOk l \<and> fieldsOk fs"
| "fieldsOk (Arr gs # fs) \<longleftrightarrow> length gs < 2 ^ 32 - 2 \<and> fieldsOk gs \<and> fieldsOk fs"
| "fieldsOk (Obj gs # fs) \<longleftrightarrow> length gs < 2 ^ 32 - 2 \<and> fieldsOk gs \<and> fieldsOk fs"

section \<open>Writing\<close>

lemma leafType_facts:
  "\<not> leafNull l \<Longrightarrow> leafType l \<noteq> pckTypeMapUnknown"
  "leafOk l \<Longrightarrow> tagValueOk (leafType l) (leafValue l)"
  "leafOk l \<Longrightarrow> \<not> leafNull l \<Longrightarrow> sizeWritten (leafType l) (leafValue l) \<or> leafPayload l = []"
  by (cases l rule: leafValue.cases; simp add: tagValueOk_def multiBit_def singleBit_def sizeWritten_def sized_def)+


text \<open>A writer that has appended bytes and has the stack \<open>st\<close> now; a writer without I/O object never hands bytes over.\<close>

definition wrote :: "PackWrite \<Rightarrow> byte list \<Rightarrow> PackTagStackItem list \<Rightarrow> PackWrite \<Rightarrow> bool" where
  "wrote pw bs st pw' \<longleftrightarrow> packBytes pw' = packBytes pw @ bs \<and> writeStack pw' = st \<and> writeIo pw' = writeIo pw \<and>
    (writeIo pw \<or> writeOut pw' = writeOut pw)"

lemma wrote_trans [trans]: "wrote pw bs st pw1 \<Longrightarrow> wrote pw1 cs st' pw2 \<Longrightarrow> wrote pw (bs @ cs) st' pw2"
  by (auto simp: wrote_def)

lemma wrote_stack: "wrote pw bs st pw' \<Longrightarrow> writeStack pw' = st"
  by (simp add: wrote_def)

lemma wrote_buffer: "wrote pw bs (writeStack pw) (pckWriteBuffer pw bs)"
  by (simp add: wrote_def pckWriteBuffer_def Let_def packBytes_def)

lemma wrote_setTop: "wrote pw [] (f (hd (writeStack pw)) # tl (writeStack pw)) (setTop f pw)"
  by (simp add: wrote_def setTop_def packBytes_def)

lemma wrote_newStack: "wrote pw [] st (pw\<lparr>writeStack := st\<rparr>)"
  by (simp add: wrote_def packBytes_def)

definition nextTop :: "PackTagStackItem \<Rightarrow> PackTagStackItem" where
  "nextTop item = item\<lparr>idLast := idLast item + nullTotal item + 1, nullTotal := 0\<rparr>"

lemma writeIo_simps [simp]:
  "writeIo (pckWriteBuffer pw bs) = writeIo pw" "\<not> writeIo pw \<Longrightarrow> writeOut (pckWriteBuffer pw bs) = writeOut pw"
  "writeIo (setTop f pw) = writeIo pw" "writeOut (setTop f pw) = writeOut pw"
  by (simp_all add: pckWriteBuffer_def setTop_def Let_def)

lemma pckWriteTag_wrote:
  "\<exists>pw'. pckWriteTag pw t 0 v = Inr pw' \<and>
    wrote pw (tag_bytes t (nullTotal (hd (writeStack pw))) v) (nextTop (hd (writeStack pw)) # tl (writeStack pw)) pw'"
  by (cases "writeIo pw")
    (simp_all add: pckWriteTag_def Let_def pckWriteU64Internal_eq tag_bytes_def wrote_def nextTop_def split: prod.split)

definition wroteField :: "PackWrite \<Rightarrow> bool \<Rightarrow> (u32 \<Rightarrow> byte list) \<Rightarrow> PackWrite \<Rightarrow> bool" where
  "wroteField pw null bytes pw' \<longleftrightarrow>
    (let top = hd (writeStack pw)
     in if null then wrote pw [] (top\<lparr>nullTotal := nullTotal top + 1\<rparr> # tl (writeStack pw)) pw'
        else wrote pw (bytes (nullTotal top)) (nextTop top # tl (writeStack pw)) pw')"

lemma writeUnlessNull_wrote:
  assumes "w \<or> \<not> eq \<Longrightarrow> \<exists>pw'. f pw = Inr pw' \<and> wrote pw (bytes (nullTotal (hd (writeStack pw)))) (nextTop (hd (writeStack pw)) # tl (writeStack pw)) pw'"
  shows "\<exists>pw'. writeUnlessNull pw w eq f = Inr pw' \<and> wroteField pw (\<not> w \<and> eq) bytes pw'"
  using assms wrote_setTop [of pw "\<lambda>top. top\<lparr>nullTotal := nullTotal top + 1\<rparr>"]
  by (auto simp: writeUnlessNull_def pckWriteDefaultNull_def wroteField_def Let_def)

lemma writeSized_wrote:
  "\<exists>pw'. bindR (pckWriteTag pw t 0 v) (\<lambda>pw. if b then bindR (pckWriteU64Internal pw n) (\<lambda>pw. Inr (pckWriteBuffer pw bs)) else Inr pw) = Inr pw' \<and>
    wrote pw (tag_bytes t (nullTotal (hd (writeStack pw))) v @ (if b then varint_bytes n @ bs else [])) (nextTop (hd (writeStack pw)) # tl (writeStack pw)) pw'"
proof -
  let ?st = "nextTop (hd (writeStack pw)) # tl (writeStack pw)"
  obtain pw1 where 1: "pckWriteTag pw t 0 v = Inr pw1" "wrote pw (tag_bytes t (nullTotal (hd (writeStack pw))) v) ?st pw1"
    using pckWriteTag_wrote by blast
  have "wrote pw1 (varint_bytes n @ bs) ?st (pckWriteBuffer (pckWriteBuffer pw1 (varint_bytes n)) bs)"
    using wrote_trans [OF wrote_buffer [of pw1 "varint_bytes n"] wrote_buffer] wrote_stack [OF 1(2)] by simp
  then show ?thesis using 1 wrote_trans [OF 1(2)] by (auto simp: pckWriteU64Internal_eq)
qed


lemma leafBytes_value:
  "leafBytes d (LBool v w e) = tag_bytes pckTypeMapBool d (if v then 1 else 0)"
  "leafBytes d (LI32 i w j) = tag_bytes pckTypeMapI32 d (ucast (cvtInt32ToZigZag i))"
  "leafBytes d (LI64 x w y) = tag_bytes pckTypeMapI64 d (cvtInt64ToZigZag x)"
  "leafBytes d (LMode i w j) = tag_bytes pckTypeMapMode d (ucast i)"
  "leafBytes d (LU32 i w j) = tag_bytes pckTypeMapU32 d (ucast i)"
  "leafBytes d (LU64 x w y) = tag_bytes pckTypeMapU64 d x"
  "leafBytes d (LStrId x w y) = tag_bytes pckTypeMapStrId d x"
  "leafBytes d (LTime x w y) = tag_bytes pckTypeMapTime d (cvtInt64ToZigZag x)"
  by (simp_all add: leafBytes_def sizeBytes_def sizeWritten_def sized_def)

lemma leafBytes_sized:
  "leafBytes d (LStr (Some s) w e) = tag_bytes pckTypeMapStr d (if length s > 0 then 1 else 0) @
     (if length s > 0 then varint_bytes (of_nat (length s)) @ map byte_of_char s else [])"
  "leafBytes d (LBin (Some b)) = tag_bytes pckTypeMapBin d (if b \<noteq> [] then 1 else 0) @
     (if b \<noteq> [] then varint_bytes (of_nat (length b)) @ b else [])"
  "leafBytes d (LPack (Some b)) = tag_bytes pckTypeMapPack d 0 @ (if True then varint_bytes (of_nat (length b)) @ b else [])"
  by (simp_all add: leafBytes_def leafSize_def sizeBytes_def sizeWritten_def sized_def singleBit_def)

lemma writeLeaf_none:
  "leafOk (LStr None w e) \<Longrightarrow> writeLeaf pw (LStr None w e) = writeLeaf pw LNull"
  "writeLeaf pw (LBin None) = writeLeaf pw LNull"
  "writeLeaf pw (LPack None) = writeLeaf pw LNull"
  by (simp_all add: pckWriteStr_def pckWriteBin_def pckWritePack_def writeUnlessNull_def pckWriteDefaultNull_def pckWriteNull_def)

lemma writeLNull_wrote: "\<exists>pw'. writeLeaf pw LNull = Inr pw' \<and> wroteField pw True bytes pw'"
  using wrote_setTop by (simp add: pckWriteNull_def wroteField_def Let_def)

lemma writeLeaf_wrote:
  assumes "leafOk l"
  shows "\<exists>pw'. writeLeaf pw l = Inr pw' \<and> wroteField pw (leafNull l) (\<lambda>d. leafBytes d l) pw'"
proof -
  have tag: "\<exists>pw'. writeUnlessNull pw w eq (\<lambda>pw. pckWriteTag pw t 0 v) = Inr pw' \<and> wroteField pw (\<not> w \<and> eq) (\<lambda>d. tag_bytes t d v) pw'"
    for w eq t v by (rule writeUnlessNull_wrote) (rule pckWriteTag_wrote)
  have sized: "\<exists>pw'. writeUnlessNull pw w eq (\<lambda>pw. bindR (pckWriteTag pw t 0 v) (\<lambda>pw.
      if b then bindR (pckWriteU64Internal pw n) (\<lambda>pw. Inr (pckWriteBuffer pw bs)) else Inr pw)) = Inr pw' \<and>
      wroteField pw (\<not> w \<and> eq) (\<lambda>d. tag_bytes t d v @ (if b then varint_bytes n @ bs else [])) pw'"
    for w eq t v b n bs by (rule writeUnlessNull_wrote) (rule writeSized_wrote)
  show ?thesis
  proof (cases l)
    case LNull
    then show ?thesis using writeLNull_wrote by simp
  next
    case (LStr v w d)
    then show ?thesis
    proof (cases v)
      case None
      then show ?thesis using LStr assms writeLNull_wrote writeLeaf_none(1) [of w d] by simp
    next
      case (Some s)
      show ?thesis unfolding LStr Some writeLeaf.simps leafNull.simps leafBytes_sized pckWriteStr_def Let_def option.sel
        by (rule sized)
    qed
  next
    case (LBin v)
    then show ?thesis
    proof (cases v)
      case None
      then show ?thesis using LBin writeLNull_wrote writeLeaf_none(2) by simp
    next
      case (Some b)
      show ?thesis using sized [of False False]
        unfolding LBin Some leafBytes_sized pckWriteBin_def Let_def option.sel by (simp add: pckWriteBin_def)
    qed
  next
    case (LPack v)
    then show ?thesis
    proof (cases v)
      case None
      then show ?thesis using LPack writeLNull_wrote writeLeaf_none(3) by simp
    next
      case (Some b)
      show ?thesis using sized [of False False pckTypeMapPack 0 True]
        unfolding LPack Some leafBytes_sized by (simp add: pckWritePack_def)
    qed
  qed (simp_all only: writeLeaf.simps leafNull.simps leafBytes_value pckWriteBool_def pckWriteI32_def pckWriteI64_def pckWriteMode_def
      pckWriteU32_def pckWriteU64_def pckWriteStrId_def pckWriteTime_def tag)
qed


lemma containerBegin_wrote:
  assumes "writeStack pw = item # S"
  shows "\<exists>pw'. bindR (pckWriteTag pw t 0 0) (\<lambda>pw. Inr (pw\<lparr>writeStack := pckTagStackPush (writeStack pw) t'\<rparr>)) = Inr pw' \<and>
    wrote pw (tag_bytes t (nullTotal item) 0) (\<lparr>itemTypeMap = t', idLast = 0, nullTotal = 0\<rparr> # nextTop item # S) pw'"
proof -
  obtain pw1 where "pckWriteTag pw t 0 0 = Inr pw1" "wrote pw (tag_bytes t (nullTotal item) 0) (nextTop item # S) pw1"
    using pckWriteTag_wrote [of pw t 0] assms by auto
  then show ?thesis by (simp add: wrote_def pckTagStackPush_def packBytes_def)
qed

lemma containerEnd_wrote:
  assumes "writeStack pw = item # S" "itemTypeMap item = t" "S \<noteq> []"
  shows "\<exists>pw'. pckWriteContainerEnd t pw = Inr pw' \<and> wrote pw [0] S pw'"
proof -
  have "wrote pw [0] S ((pckWriteBuffer pw [0])\<lparr>writeStack := S\<rparr>)"
    using wrote_trans [OF wrote_buffer wrote_newStack] by fastforce
  then show ?thesis using assms
    by (simp add: pckWriteContainerEnd_def pckTagStackPopCheck_def pckTagStackPop_def pckWriteU64Internal_eq varint_simps)
qed

text \<open>The fields of a container up to its end.\<close>

definition wroteFields :: "PackWrite \<Rightarrow> byte list \<Rightarrow> PackTagStackItem \<Rightarrow> PackTagStackItem list \<Rightarrow> PackWrite \<Rightarrow> bool" where
  "wroteFields pw bs item S pw' \<longleftrightarrow>
    (\<exists>bs' item'. bs = bs' @ [0] \<and> itemTypeMap item' = itemTypeMap item \<and> wrote pw bs' (item' # S) pw')"

lemma wroteFields_prepend:
  "wrote pw bs (item1 # S) pw1 \<Longrightarrow> wroteFields pw1 cs item1 S pw' \<Longrightarrow> itemTypeMap item1 = itemTypeMap item \<Longrightarrow>
    wroteFields pw (bs @ cs) item S pw'"
  unfolding wroteFields_def by (metis append.assoc wrote_trans)

definition containerBegin :: "PackTypeMap \<Rightarrow> PackWrite \<Rightarrow> PackWrite res" where
  "containerBegin t pw = bindR (pckWriteTag pw t 0 0) (\<lambda>pw. Inr (pw\<lparr>writeStack := pckTagStackPush (writeStack pw) t\<rparr>))"

lemma writeContainer_wrote:
  assumes inner: "\<And>pw item S. writeStack pw = item # S \<Longrightarrow> nullTotal item = 0 \<Longrightarrow>
      \<exists>pw'. writeFields pw gs = Inr pw' \<and> wroteFields pw (enc 0 gs) item S pw'"
    and st: "writeStack pw = item # S"
  shows "\<exists>pw1 pw2 pw3. containerBegin t pw = Inr pw1 \<and> writeFields pw1 gs = Inr pw2 \<and> pckWriteContainerEnd t pw2 = Inr pw3 \<and>
    wrote pw (tag_bytes t (nullTotal item) 0 @ enc 0 gs) (nextTop item # S) pw3"
proof -
  let ?new = "\<lparr>itemTypeMap = t, idLast = 0, nullTotal = 0\<rparr>"
  obtain pw1 where 1: "containerBegin t pw = Inr pw1" "wrote pw (tag_bytes t (nullTotal item) 0) (?new # nextTop item # S) pw1"
    using containerBegin_wrote [OF st] unfolding containerBegin_def by blast
  obtain pw2 where 2: "writeFields pw1 gs = Inr pw2" "wroteFields pw1 (enc 0 gs) ?new (nextTop item # S) pw2"
    using inner [OF wrote_stack [OF 1(2)]] by auto
  obtain bs item' where bs: "enc 0 gs = bs @ [0]" "itemTypeMap item' = t" "wrote pw1 bs (item' # nextTop item # S) pw2"
    using 2(2) by (auto simp: wroteFields_def)
  obtain pw3 where 3: "pckWriteContainerEnd t pw2 = Inr pw3" "wrote pw2 [0] (nextTop item # S) pw3"
    using containerEnd_wrote [OF wrote_stack [OF bs(3)] bs(2)] by auto
  have "wrote pw (tag_bytes t (nullTotal item) 0 @ bs @ [0]) (nextTop item # S) pw3"
    using wrote_trans [OF 1(2) wrote_trans [OF bs(3) 3(2)]] .
  then show ?thesis using 1(1) 2(1) 3(1) bs(1) by auto
qed

lemma writeFields_wrote:
  assumes "fieldsOk fs" "writeStack pw = item # S" "nullTotal item = of_nat n"
  shows "\<exists>pw'. writeFields pw fs = Inr pw' \<and> wroteFields pw (enc n fs) item S pw'"
  using assms
proof (induction n fs arbitrary: pw item S rule: enc.induct)
  case (1 n)
  then show ?case by (auto simp: wroteFields_def wrote_def)
next
  case (2 n l fs)
  then obtain pw1 where 1: "writeLeaf pw l = Inr pw1" "wroteField pw (leafNull l) (\<lambda>d. leafBytes d l) pw1"
    using writeLeaf_wrote by force
  show ?case
  proof (cases "leafNull l")
    case True
    let ?item = "item\<lparr>nullTotal := nullTotal item + 1\<rparr>"
    have w: "wrote pw [] (?item # S) pw1" using 1(2) True 2(4) by (simp add: wroteField_def)
    obtain pw2 where "writeFields pw1 fs = Inr pw2" "wroteFields pw1 (enc (n + 1) fs) ?item S pw2"
      using 2(1) [OF True, where pw = pw1 and item = ?item and S = S] 2(3,5) wrote_stack [OF w] by auto
    then show ?thesis using wroteFields_prepend [OF w, where item = item] True 1(1) by auto
  next
    case False
    have w: "wrote pw (leafBytes (of_nat n) l) (nextTop item # S) pw1" using 1(2) False 2(4,5) by (simp add: wroteField_def)
    obtain pw2 where "writeFields pw1 fs = Inr pw2" "wroteFields pw1 (enc 0 fs) (nextTop item) S pw2"
      using 2(2) [OF False, where pw = pw1 and item = "nextTop item" and S = S] 2(3) wrote_stack [OF w] by (auto simp: nextTop_def)
    then show ?thesis using wroteFields_prepend [OF w, where item = item] False 1(1) by (auto simp: nextTop_def)
  qed
next
  case (3 n gs fs)
  obtain pw1 pw2 pw3 where 1: "containerBegin pckTypeMapArray pw = Inr pw1" "writeFields pw1 gs = Inr pw2"
    "pckWriteContainerEnd pckTypeMapArray pw2 = Inr pw3"
    and w: "wrote pw (tag_bytes pckTypeMapArray (nullTotal item) 0 @ enc 0 gs) (nextTop item # S) pw3"
    using writeContainer_wrote [OF 3(1) 3(4), of pckTypeMapArray] 3(3) by auto
  obtain pw4 where "writeFields pw3 fs = Inr pw4" "wroteFields pw3 (enc 0 fs) (nextTop item) S pw4"
    using 3(2) [where pw = pw3 and item = "nextTop item" and S = S] 3(3) wrote_stack [OF w] by (auto simp: nextTop_def)
  then show ?case using wroteFields_prepend [OF w, where item = item] 1 3(5)
    by (auto simp: nextTop_def pckWriteArrayBegin_def containerBegin_def pckWriteArrayEnd_def)
next
  case (4 n gs fs)
  obtain pw1 pw2 pw3 where 1: "containerBegin pckTypeMapObj pw = Inr pw1" "writeFields pw1 gs = Inr pw2"
    "pckWriteContainerEnd pckTypeMapObj pw2 = Inr pw3"
    and w: "wrote pw (tag_bytes pckTypeMapObj (nullTotal item) 0 @ enc 0 gs) (nextTop item # S) pw3"
    using writeContainer_wrote [OF 4(1) 4(4), of pckTypeMapObj] 4(3) by auto
  obtain pw4 where "writeFields pw3 fs = Inr pw4" "wroteFields pw3 (enc 0 fs) (nextTop item) S pw4"
    using 4(2) [where pw = pw3 and item = "nextTop item" and S = S] 4(3) wrote_stack [OF w] by (auto simp: nextTop_def)
  then show ?case using wroteFields_prepend [OF w, where item = item] 1 4(5)
    by (auto simp: nextTop_def pckWriteObjBegin_def containerBegin_def pckWriteObjEnd_def)
qed

end
