(* ===== verification/PackRoundTrip.thy ===== *)
theory PackRoundTrip
  imports PackFields
begin

text \<open>
  Reading a pack (\<^verbatim>\<open>src/src/common/type/pack.c\<close>) gives back what was written: the position of a reader between two fields,
  with or without the next tag read ahead, single fields, containers, whole packs, string lists, and that packs are typed.
\<close>

lemma char_of_byte_of_char [simp]: "char_of_byte (byte_of_char c) = c"
  by (simp add: char_of_byte_def byte_of_char_def unat_of_nat)

section \<open>Reading a field that has been looked at\<close>

text \<open>A reader whose last id is \<open>k\<close> and that has the next tag.\<close>

definition looked :: "PackRead \<Rightarrow> u32 \<Rightarrow> bool" where
  "looked r k \<longleftrightarrow> readStack r \<noteq> [] \<and> idLast (hd (readStack r)) = k \<and> k < k + 1 \<and> k + 1 \<le> tagNextId r"

definition taken :: "u32 \<Rightarrow> byte list \<Rightarrow> PackRead \<Rightarrow> PackRead" where
  "taken k rest r = (setIdLast k r)\<lparr>tagNextId := 0, packRest := rest\<rparr>"

lemma looked_nonzero: "looked r k \<Longrightarrow> tagNextId r \<noteq> 0"
  by (auto simp: looked_def)

lemma pckReadTag_peek:
  assumes "looked r k" "fid = 0 \<or> fid = k + 1"
  shows "pckReadTag r fid t True = Inr (k + 1, tagNextValue r, r)"
proof -
  have "pckReadTag_loop r (k + 1) t True = Inr (tagNextValue r, r)"
    using assms(1) looked_nonzero [OF assms(1)] by (subst pckReadTag_loop.simps) (auto simp: looked_def)
  then show ?thesis using assms by (auto simp: pckReadTag_def looked_def)
qed

lemma pckReadTag_take:
  assumes "looked r k" "fid = 0 \<or> fid = k + 1" "tagNextId r = k + 1" "tagNextTypeMap r = t"
  shows "pckReadTag r fid t False = Inr (k + 1, tagNextValue r, taken (k + 1) (packRest r) r)"
proof -
  have "pckReadTag_loop r (k + 1) t False = Inr (tagNextValue r, taken (k + 1) (packRest r) r)"
    using assms looked_nonzero [OF assms(1)] by (subst pckReadTag_loop.simps) (auto simp: looked_def taken_def setIdLast_def)
  then show ?thesis using assms by (auto simp: pckReadTag_def looked_def)
qed

lemma pckReadNullInternal_looked:
  assumes "looked r k"
  shows "pckReadNullInternal r 0 = Inr (if k + 1 < tagNextId r then (True, k + 1, setIdLast (k + 1) r) else (False, k + 1, r))"
  by (simp add: pckReadNullInternal_def pckReadTag_peek [OF assms])

lemma readUnlessNull_looked:
  assumes "looked r k"
  shows "readUnlessNull r 0 d f = (if k + 1 < tagNextId r then Inr (d, setIdLast (k + 1) r) else f r (k + 1))"
  by (simp add: readUnlessNull_def pckReadNullInternal_looked [OF assms])

lemma readLeaf_null:
  assumes "looked r k" "k + 1 < tagNextId r" "leafNull l"
  shows "readLeaf l r = Inr (l, setIdLast (k + 1) r)"
  using assms(2,3)
  by (cases l) (auto simp: gets_def pckReadNull_def pckReadNullInternal_looked [OF assms(1)] readUnlessNull_looked [OF assms(1)]
      pckReadBool_def pckReadI32_def pckReadI64_def pckReadMode_def pckReadU32_def pckReadU64_def pckReadStrId_def pckReadTime_def
      pckReadStr_def pckReadBin_def pckReadPack_def)


lemma pckReadChunks_taken:
  assumes "readyIo r" "packRest r = bytes @ rest" "tagNextSize r = of_nat (length bytes)" "length bytes < 2 ^ 64"
  shows "pckReadChunks (taken k (packRest r) r) (unat (tagNextSize (taken k (packRest r) r))) [] = Inr (bytes, taken k rest r)"
proof -
  have "unat (tagNextSize r) = length bytes" using assms(3,4) by (simp add: unat_of_nat)
  moreover have "readyIo (taken k (packRest r) r)" using assms(1) by (simp add: readyIo_def taken_def setIdLast_def)
  ultimately show ?thesis
    using pckReadChunks_bytes [of "taken k (packRest r) r" bytes rest "length bytes" "[]"] assms(2)
    by (simp add: taken_def setIdLast_def)
qed

lemma readLeaf_value:
  assumes "looked r k" "tagNextId r = k + 1" "\<not> leafNull l" "leafOk l" "readyIo r"
    and "tagNextTypeMap r = leafType l" "tagNextValue r = leafValue l" "tagNextSize r = leafSize l" "packRest r = leafPayload l @ rest"
  shows "readLeaf l r = Inr (l, taken (k + 1) rest r)"
proof -
  have rest: "taken (k + 1) (packRest r) r = taken (k + 1) rest r" if "leafPayload l = []" using that assms(9) by simp
  have take: "pckReadTag r (k + 1) (leafType l) False = Inr (k + 1, leafValue l, taken (k + 1) (packRest r) r)"
    using pckReadTag_take [OF assms(1) _ assms(2,6)] assms(7) by simp
  have chunks: "length (leafPayload l) < 2 ^ 64 \<Longrightarrow>
    pckReadChunks (taken (k + 1) (packRest r) r) (unat (tagNextSize (taken (k + 1) (packRest r) r))) [] = Inr (leafPayload l, taken (k + 1) rest r)"
    using pckReadChunks_taken [OF assms(5,9)] assms(8) by (simp add: leafSize_def)
  show ?thesis
    using take rest chunks assms(2,3,4)
    by (cases l rule: leafValue.cases)
      (auto simp: gets_def readUnlessNull_looked [OF assms(1)] readValue_def comp_def
      pckReadBool_def pckReadI32_def pckReadI64_def pckReadMode_def pckReadU32_def pckReadU64_def pckReadStrId_def pckReadTime_def
      pckReadStr_def pckReadBin_def pckReadPack_def)
qed

section \<open>Positions of a reader\<close>

text \<open>
  A reader between two fields of a container of type \<open>t\<close>: \<open>L\<close> is the id of the last field that is in the pack, and \<open>n\<close>
  missing fields were read since.  With \<open>n > 0\<close> the next tag has been read ahead.
\<close>

definition before :: "PackTypeMap \<Rightarrow> nat \<Rightarrow> byte list \<Rightarrow> PackTagStackItem list \<Rightarrow> PackRead \<Rightarrow> bool" where
  "before t L bs S r \<longleftrightarrow> readyIo r \<and> tagNextId r = 0 \<and> packRest r = bs \<and>
    readStack r = \<lparr>itemTypeMap = t, idLast = of_nat L, nullTotal = 0\<rparr> # S"

definition between :: "PackTypeMap \<Rightarrow> nat \<Rightarrow> nat \<Rightarrow> byte list \<Rightarrow> PackTagStackItem list \<Rightarrow> PackRead \<Rightarrow> bool" where
  "between t L n bs S r \<longleftrightarrow>
    (\<exists>r0. before t L bs S r0 \<and>
      (if n = 0 then r = r0 else \<exists>b r1. pckReadTagNext r0 = Inr (b, r1) \<and> r = setIdLast (of_nat (L + n)) r1))"

lemma unat_tag_id: "L + n + 1 < 2 ^ 32 \<Longrightarrow> unat ((of_nat n :: u32) + (of_nat L + 1)) = L + n + 1"
proof -
  assume *: "L + n + 1 < 2 ^ 32"
  have "(of_nat n :: u32) + (of_nat L + 1) = of_nat (L + n + 1)" by simp
  then show ?thesis using * by (simp only: unat_of_nat) simp
qed

lemma id_plus_one: "k + 1 < 2 ^ 32 \<Longrightarrow> unat (of_nat k :: u32) = k \<and> unat ((of_nat k :: u32) + 1) = k + 1"
  using unat_tag_id [of k 0] by (simp add: unat_of_nat)

lemma leaf_next:
  assumes "before t L (leafBytes (of_nat n) l @ bs) S r0" "leafOk l" "\<not> leafNull l"
  shows "pckReadTagNext r0 = Inr (True, r0\<lparr>packRest := leafPayload l @ bs, tagNextId := of_nat n + (of_nat L + 1),
    tagNextTypeMap := leafType l, tagNextValue := leafValue l, tagNextSize := leafSize l\<rparr>)"
  using pckReadTagNext_bytes [of r0 "leafType l" "leafValue l" "of_nat n" "leafSize l" "leafPayload l @ bs"] assms
    leafType_facts [of l] by (auto simp: before_def leafBytes_def leafSize_def)

lemma container_next:
  assumes "before t L (tag_bytes c (of_nat n) 0 @ bs) S r0" "c = pckTypeMapArray \<or> c = pckTypeMapObj"
  shows "pckReadTagNext r0 = Inr (True, r0\<lparr>packRest := bs, tagNextId := of_nat n + (of_nat L + 1),
    tagNextTypeMap := c, tagNextValue := 0, tagNextSize := 0\<rparr>)"
  using pckReadTagNext_bytes [of r0 c 0 "of_nat n" 0 bs] assms
  by (auto simp: before_def sizeBytes_def sizeWritten_def sized_def tagValueOk_def singleBit_def)

lemma enc_next:
  assumes "before t L (enc n fs @ rest) S r0" "fieldsOk fs" "L + n + length fs < 2 ^ 32 - 2"
  shows "\<exists>b r1. pckReadTagNext r0 = Inr (b, r1) \<and> readStack r1 = readStack r0 \<and> L + n < unat (tagNextId r1)"
  using assms
proof (induction n fs rule: enc.induct)
  case (1 n)
  then show ?case using pckReadTagNext_end [of r0 rest] by (auto simp: before_def)
next
  case (2 n l fs)
  show ?case
  proof (cases "leafNull l")
    case True
    then show ?thesis using 2(1) [OF True] 2(3-) by fastforce
  next
    case False
    then show ?thesis using leaf_next [of t L n l "enc 0 fs @ rest" S r0] 2(3-) unat_tag_id [of L n] by auto
  qed
next
  case (3 n gs fs)
  then show ?case using container_next [of t L pckTypeMapArray n "enc 0 gs @ enc 0 fs @ rest" S r0] unat_tag_id [of L n] by auto
next
  case (4 n gs fs)
  then show ?case using container_next [of t L pckTypeMapObj n "enc 0 gs @ enc 0 fs @ rest" S r0] unat_tag_id [of L n] by auto
qed

text \<open>Whether the next tag has been read ahead makes no difference to a read.\<close>

lemma between_looked:
  assumes "between t L n bs S r" and "L + n + 1 < 2 ^ 32"
    and "\<And>r0. before t L bs S r0 \<Longrightarrow> \<exists>b. pckReadTagNext r0 = Inr (b, nx r0) \<and> readStack (nx r0) = readStack r0 \<and> L + n < unat (tagNextId (nx r0))"
  obtains r0 where "before t L bs S r0" "looked (setIdLast (of_nat (L + n)) (nx r0)) (of_nat (L + n))"
    "\<And>fid tm pk. pckReadTag r fid tm pk = pckReadTag (setIdLast (of_nat (L + n)) (nx r0)) fid tm pk"
proof -
  obtain r0 where r0: "before t L bs S r0"
    and r: "if n = 0 then r = r0 else \<exists>b r1. pckReadTagNext r0 = Inr (b, r1) \<and> r = setIdLast (of_nat (L + n)) r1"
    using assms(1) by (auto simp: between_def)
  obtain b where nx: "pckReadTagNext r0 = Inr (b, nx r0)" "readStack (nx r0) = readStack r0" "L + n < unat (tagNextId (nx r0))"
    using assms(3) [OF r0] by blast
  let ?p = "setIdLast (of_nat (L + n)) (nx r0)"
  have looked: "looked ?p (of_nat (L + n))"
    using nx(3) id_plus_one [OF assms(2)] by (simp add: looked_def setIdLast_def word_less_nat_alt word_le_nat_alt del: of_nat_add)
  have "pckReadTag r fid tm pk = pckReadTag ?p fid tm pk" for fid tm pk
  proof (cases "n = 0")
    case True
    have p: "?p = nx r0" using True nx(2) r0 by (simp add: setIdLast_def before_def)
    have "pckReadTag_loop r0 f tm pk = pckReadTag_loop (nx r0) f tm pk" for f
      using nx(1) r0 looked_nonzero [OF looked] unfolding before_def p
      by (subst (1 2) pckReadTag_loop.simps) simp
    then show ?thesis using True r nx(2) p by (simp add: pckReadTag_def)
  next
    case False
    then show ?thesis using r nx(1) by simp
  qed
  then show thesis using that r0 looked by blast
qed


lemma readLeaf_cong:
  assumes "\<And>fid tm pk. pckReadTag r fid tm pk = pckReadTag p fid tm pk"
  shows "readLeaf l r = readLeaf l p"
  by (cases l) (simp_all add: gets_def readUnlessNull_def pckReadNull_def pckReadNullInternal_def assms
      pckReadBool_def pckReadI32_def pckReadI64_def pckReadMode_def pckReadU32_def pckReadU64_def pckReadStrId_def pckReadTime_def
      pckReadStr_def pckReadBin_def pckReadPack_def)

lemma readLeaf_null_between:
  assumes "between t L n (enc (n + 1) fs @ rest) S r" "fieldsOk fs" "L + n + 1 + length fs < 2 ^ 32 - 2" "leafNull l"
  shows "\<exists>r'. readLeaf l r = Inr (l, r') \<and> between t L (n + 1) (enc (n + 1) fs @ rest) S r'"
proof -
  define nx where "nx r0 = snd (projr (pckReadTagNext r0))" for r0
  have nx: "\<exists>b. pckReadTagNext r0 = Inr (b, nx r0) \<and> readStack (nx r0) = readStack r0 \<and> L + (n + 1) < unat (tagNextId (nx r0))"
    if "before t L (enc (n + 1) fs @ rest) S r0" for r0
    using enc_next [OF that assms(2)] assms(3) by (auto simp: nx_def)
  have less: "L + n + 1 < 2 ^ 32" using assms(3) by simp
  have nx': "\<exists>b. pckReadTagNext r0 = Inr (b, nx r0) \<and> readStack (nx r0) = readStack r0 \<and> L + n < unat (tagNextId (nx r0))"
    if "before t L (enc (n + 1) fs @ rest) S r0" for r0
    using nx [OF that] by auto
  obtain r0 where r0: "before t L (enc (n + 1) fs @ rest) S r0"
    and looked: "looked (setIdLast (of_nat (L + n)) (nx r0)) (of_nat (L + n))"
    and eq: "\<And>fid tm pk. pckReadTag r fid tm pk = pckReadTag (setIdLast (of_nat (L + n)) (nx r0)) fid tm pk"
    by (rule between_looked [OF assms(1) less nx']) auto
  have lt: "(of_nat (L + n) :: u32) + 1 < tagNextId (setIdLast (of_nat (L + n)) (nx r0))"
    using nx [OF r0] id_plus_one [of "L + n"] assms(3) by (simp add: setIdLast_def word_less_nat_alt del: of_nat_add)
  have "readLeaf l r = Inr (l, setIdLast (of_nat (L + n) + 1) (setIdLast (of_nat (L + n)) (nx r0)))"
    using readLeaf_cong [OF eq] readLeaf_null [OF looked lt assms(4)] by simp
  moreover have "setIdLast (of_nat (L + n) + 1) (setIdLast (of_nat (L + n)) (nx r0)) = setIdLast (of_nat (L + (n + 1))) (nx r0)"
    by (simp add: setIdLast_def)
  ultimately show ?thesis using r0 nx [OF r0] by (auto simp: between_def)
qed

lemma before_between: "before t L bs S r \<Longrightarrow> between t L 0 bs S r"
  by (auto simp: between_def)

lemma readLeaf_value_between:
  assumes "between t L n (leafBytes (of_nat n) l @ bs) S r" "leafOk l" "\<not> leafNull l" "L + n + 1 < 2 ^ 32"
  shows "\<exists>r'. readLeaf l r = Inr (l, r') \<and> between t (L + n + 1) 0 bs S r'"
proof -
  define nx where "nx r0 = r0\<lparr>packRest := leafPayload l @ bs, tagNextId := of_nat n + (of_nat L + 1),
    tagNextTypeMap := leafType l, tagNextValue := leafValue l, tagNextSize := leafSize l\<rparr>" for r0 :: PackRead
  obtain r0 where r0: "before t L (leafBytes (of_nat n) l @ bs) S r0"
    and looked: "looked (setIdLast (of_nat (L + n)) (nx r0)) (of_nat (L + n))"
    and eq: "\<And>fid tm pk. pckReadTag r fid tm pk = pckReadTag (setIdLast (of_nat (L + n)) (nx r0)) fid tm pk"
    by (rule between_looked [OF assms(1,4), of nx]) (use leaf_next assms(2,3) unat_tag_id [OF assms(4)] in \<open>auto simp: nx_def\<close>)
  let ?p = "setIdLast (of_nat (L + n)) (nx r0)"
  have "readLeaf l ?p = Inr (l, taken (of_nat (L + n) + 1) bs ?p)"
    by (rule readLeaf_value [OF looked _ assms(3,2)]) (use r0 in \<open>simp_all add: nx_def setIdLast_def readyIo_def before_def\<close>)
  moreover have "before t (L + n + 1) bs S (taken (of_nat (L + n) + 1) bs ?p)"
    using r0 by (simp add: before_def taken_def setIdLast_def nx_def readyIo_def)
  ultimately show ?thesis using readLeaf_cong [OF eq] before_between by metis
qed

lemma containerBegin_between:
  assumes "between t L n (tag_bytes c (of_nat n) 0 @ bs) S r" "c = pckTypeMapArray \<or> c = pckTypeMapObj" "L + n + 1 < 2 ^ 32"
  shows "\<exists>r'. pckReadContainerBegin c r 0 = Inr r' \<and>
    between c 0 0 bs (\<lparr>itemTypeMap = t, idLast = of_nat (L + n + 1), nullTotal = 0\<rparr> # S) r'"
proof -
  define nx where "nx r0 = r0\<lparr>packRest := bs, tagNextId := of_nat n + (of_nat L + 1),
    tagNextTypeMap := c, tagNextValue := 0, tagNextSize := 0\<rparr>" for r0 :: PackRead
  obtain r0 where r0: "before t L (tag_bytes c (of_nat n) 0 @ bs) S r0"
    and looked: "looked (setIdLast (of_nat (L + n)) (nx r0)) (of_nat (L + n))"
    and eq: "\<And>fid tm pk. pckReadTag r fid tm pk = pckReadTag (setIdLast (of_nat (L + n)) (nx r0)) fid tm pk"
    by (rule between_looked [OF assms(1,3), of nx]) (use container_next assms(2) unat_tag_id [OF assms(3)] in \<open>auto simp: nx_def\<close>)
  let ?p = "setIdLast (of_nat (L + n)) (nx r0)"
  have "pckReadTag ?p 0 c False = Inr (of_nat (L + n) + 1, tagNextValue ?p, taken (of_nat (L + n) + 1) (packRest ?p) ?p)"
    by (rule pckReadTag_take [OF looked]) (simp_all add: nx_def setIdLast_def)
  then show ?thesis using r0 eq
    by (auto simp: pckReadContainerBegin_def taken_def setIdLast_def nx_def pckTagStackPush_def before_def readyIo_def intro!: before_between)
qed

lemma end_between:
  assumes "between t L n (0 # rest) S r" "L + n < 2 ^ 32 - 2"
  shows "\<exists>r' item v. pckReadTag r (UINT_MAX - 1) pckTypeMapUnknown True = Inr (UINT_MAX - 1, v, r') \<and>
    readyIo r' \<and> packRest r' = rest \<and> readStack r' = item # S"
proof -
  define nx where "nx r0 = r0\<lparr>packRest := rest, tagNextId := UINT_MAX\<rparr>" for r0 :: PackRead
  have less: "L + n + 1 < 2 ^ 32" using assms(2) by simp
  obtain r0 where r0: "before t L (0 # rest) S r0"
    and looked: "looked (setIdLast (of_nat (L + n)) (nx r0)) (of_nat (L + n))"
    and eq: "\<And>fid tm pk. pckReadTag r fid tm pk = pckReadTag (setIdLast (of_nat (L + n)) (nx r0)) fid tm pk"
    by (rule between_looked [OF assms(1) less, of nx])
      (use pckReadTagNext_end assms(2) in \<open>auto simp: nx_def before_def\<close>)
  let ?p = "setIdLast (of_nat (L + n)) (nx r0)"
  have k: "(of_nat (L + n) :: u32) < UINT_MAX - 1"
    using assms(2) id_plus_one [OF less] by (simp add: word_less_nat_alt del: of_nat_add)
  have "pckReadTag_loop ?p (UINT_MAX - 1) pckTypeMapUnknown True = Inr (tagNextValue ?p, ?p)"
    by (subst pckReadTag_loop.simps) (simp add: nx_def setIdLast_def)
  moreover have "idLast (hd (readStack ?p)) = of_nat (L + n)" by (simp add: setIdLast_def)
  ultimately have "pckReadTag ?p (UINT_MAX - 1) pckTypeMapUnknown True = Inr (UINT_MAX - 1, tagNextValue ?p, ?p)"
    using k by (simp add: pckReadTag_def not_le)
  then show ?thesis using eq r0 by (auto simp: setIdLast_def nx_def before_def readyIo_def)
qed


text \<open>A container: what its fields leave is the end, and reading that gives back the parent's position.\<close>

definition readsFields :: "field list \<Rightarrow> bool" where
  "readsFields fs \<longleftrightarrow>
    (\<forall>t L n rest S r. between t L n (enc n fs @ rest) S r \<and> L + n + length fs < 2 ^ 32 - 2 \<longrightarrow>
      (\<exists>r' L' n'. readFields fs r = Inr (fs, r') \<and> between t L' n' (0 # rest) S r' \<and> L' + n' < 2 ^ 32 - 2))"

lemma containerEnd_between:
  assumes "between c L n (0 # rest) (\<lparr>itemTypeMap = t, idLast = of_nat K, nullTotal = 0\<rparr> # S) r" "L + n < 2 ^ 32 - 2"
  shows "\<exists>r'. pckReadContainerEnd c r = Inr r' \<and> between t K 0 rest S r'"
proof -
  have pop: "pckTagStackPopCheck (readStack r) c = Inr ()"
  proof (cases "n = 0")
    case True
    then show ?thesis using assms(1) by (auto simp: between_def before_def pckTagStackPopCheck_def)
  next
    case False
    then obtain r0 where r0: "before c L (0 # rest) (\<lparr>itemTypeMap = t, idLast = of_nat K, nullTotal = 0\<rparr> # S) r0"
      and "\<exists>b r1. pckReadTagNext r0 = Inr (b, r1) \<and> r = setIdLast (of_nat (L + n)) r1"
      using assms(1) by (auto simp: between_def)
    then show ?thesis using pckReadTagNext_end [of r0 rest]
      by (auto simp: before_def setIdLast_def pckTagStackPopCheck_def)
  qed
  show ?thesis using end_between [OF assms] pop
    by (auto simp: pckReadContainerEnd_def pckTagStackPop_def before_def readyIo_def intro!: before_between)
qed

lemma readContainer_between:
  assumes "readsFields gs" "length gs < 2 ^ 32 - 2" "c = pckTypeMapArray \<or> c = pckTypeMapObj"
    and "between t L n (tag_bytes c (of_nat n) 0 @ enc 0 gs @ bs) S r" "L + n + 1 < 2 ^ 32"
  shows "\<exists>r1 r2 r3. pckReadContainerBegin c r 0 = Inr r1 \<and> readFields gs r1 = Inr (gs, r2) \<and> pckReadContainerEnd c r2 = Inr r3 \<and>
    between t (L + n + 1) 0 bs S r3"
proof -
  let ?S = "\<lparr>itemTypeMap = t, idLast = of_nat (L + n + 1), nullTotal = 0\<rparr> # S"
  obtain r1 where 1: "pckReadContainerBegin c r 0 = Inr r1" "between c 0 0 (enc 0 gs @ bs) ?S r1"
    using containerBegin_between [OF assms(4,3,5)] by blast
  obtain r2 L' n' where 2: "readFields gs r1 = Inr (gs, r2)" "between c L' n' (0 # bs) ?S r2" "L' + n' < 2 ^ 32 - 2"
    using assms(1,2) 1(2) unfolding readsFields_def by (metis add_0)
  show ?thesis using 1(1) 2(1) containerEnd_between [OF 2(2,3)] by blast
qed

lemma readsFieldsD:
  assumes "readsFields fs" "between t L n (enc n fs @ rest) S r" "L + n + length fs < 2 ^ 32 - 2"
  obtains r' L' n' where "readFields fs r = Inr (fs, r')" "between t L' n' (0 # rest) S r'" "L' + n' < 2 ^ 32 - 2"
  using assms unfolding readsFields_def by blast

lemma readFields_leaf:
  assumes "readsFields fs" "leafOk l" "fieldsOk fs" and r: "between t L n (enc n (Leaf l # fs) @ rest) S r"
    and len: "L + n + Suc (length fs) < 2 ^ 32 - 2"
  shows "\<exists>r' L' n'. readFields (Leaf l # fs) r = Inr (Leaf l # fs, r') \<and> between t L' n' (0 # rest) S r' \<and> L' + n' < 2 ^ 32 - 2"
proof -
  obtain r1 L1 n1 where 1: "readLeaf l r = Inr (l, r1)" "between t L1 n1 (enc n1 fs @ rest) S r1" "L1 + n1 = L + n + 1"
  proof (cases "leafNull l")
    case True
    then have "between t L n (enc (n + 1) fs @ rest) S r" using r by simp
    from readLeaf_null_between [OF this assms(3) _ True] show thesis using that [of _ L "n + 1"] len by auto
  next
    case False
    then have "between t L n (leafBytes (of_nat n) l @ (enc 0 fs @ rest)) S r" using r by simp
    from readLeaf_value_between [OF this assms(2) False] show thesis using that [of _ "L + n + 1" 0] len by auto
  qed
  obtain r2 L2 n2 where "readFields fs r1 = Inr (fs, r2)" "between t L2 n2 (0 # rest) S r2" "L2 + n2 < 2 ^ 32 - 2"
    by (rule readsFieldsD [OF assms(1) 1(2)]) (use 1(3) len in auto)
  then show ?thesis using 1(1) by auto
qed

lemma readFields_container:
  assumes "readsFields gs" "readsFields fs" "length gs < 2 ^ 32 - 2" "c = pckTypeMapArray \<or> c = pckTypeMapObj"
    and "between t L n (tag_bytes c (of_nat n) 0 @ enc 0 gs @ enc 0 fs @ rest) S r" "L + n + Suc (length fs) < 2 ^ 32 - 2"
  shows "\<exists>r' L' n'. bindR (pckReadContainerBegin c r 0) (\<lambda>r. bindR (readFields gs r) (\<lambda>(gs, r). bindR (pckReadContainerEnd c r) (\<lambda>r.
      bindR (readFields fs r) (\<lambda>(fs, r). Inr (K gs # fs, r))))) = Inr (K gs # fs, r') \<and>
    between t L' n' (0 # rest) S r' \<and> L' + n' < 2 ^ 32 - 2"
proof -
  have "L + n + 1 < 2 ^ 32" using assms(6) by simp
  from readContainer_between [OF assms(1,3,4,5) this]
  obtain r1 r2 r3 where 1: "pckReadContainerBegin c r 0 = Inr r1" "readFields gs r1 = Inr (gs, r2)" "pckReadContainerEnd c r2 = Inr r3"
    and b: "between t (L + n + 1) 0 (enc 0 fs @ rest) S r3" by blast
  obtain r4 L4 n4 where "readFields fs r3 = Inr (fs, r4)" "between t L4 n4 (0 # rest) S r4" "L4 + n4 < 2 ^ 32 - 2"
    by (rule readsFieldsD [OF assms(2) b]) (use assms(6) in auto)
  then show ?thesis using 1 by auto
qed

lemma fieldsOk_reads: "fieldsOk fs \<Longrightarrow> readsFields fs"
proof (induction fs rule: fieldsOk.induct)
  case 1
  show ?case by (auto simp: readsFields_def)
next
  case (2 l fs)
  then show ?case using readFields_leaf by (auto simp: readsFields_def simp del: readFields.simps enc.simps)
next
  case (3 gs fs)
  then have "length gs < 2 ^ 32 - 2" "readsFields gs" "readsFields fs" by simp_all
  then show ?case unfolding readsFields_def [of "Arr gs # fs"] readFields.simps pckReadArrayBegin_def pckReadArrayEnd_def
    using readFields_container [of gs fs pckTypeMapArray _ _ _ _ _ _ Arr] by auto
next
  case (4 gs fs)
  then have "length gs < 2 ^ 32 - 2" "readsFields gs" "readsFields fs" by simp_all
  then show ?case unfolding readsFields_def [of "Obj gs # fs"] readFields.simps pckReadObjBegin_def pckReadObjEnd_def
    using readFields_container [of gs fs pckTypeMapObj _ _ _ _ _ _ Obj] by auto
qed

section \<open>Whole packs\<close>

definition writePack :: "PackWrite \<Rightarrow> field list \<Rightarrow> PackWrite res" where
  "writePack pw fs = bindR (writeFields pw fs) pckWriteEnd"

definition readPack :: "field list \<Rightarrow> PackRead \<Rightarrow> (field list \<times> PackRead) res" where
  "readPack fs r = bindR (readFields fs r) (\<lambda>(fs, r). bindR (pckReadEnd r) (\<lambda>r. Inr (fs, r)))"

lemma writePack_bytes:
  assumes "fieldsOk fs"
  shows "\<exists>pw. writePack (pckWriteNew sz) fs = Inr pw \<and> pckWriteResult pw = enc 0 fs"
    and "\<exists>pw. writePack (pckWriteNewIo output sz) fs = Inr pw \<and> writeOut pw = output @ enc 0 fs"
proof -
  have *: "\<exists>pw'. writeFields pw fs = Inr pw' \<and> (\<exists>bs. enc 0 fs = bs @ [0] \<and> packBytes pw' = packBytes pw @ bs) \<and>
      writeIo pw' = writeIo pw \<and> (writeIo pw \<or> writeOut pw' = writeOut pw)"
    if "writeStack pw = [\<lparr>itemTypeMap = pckTypeMapObj, idLast = 0, nullTotal = 0\<rparr>]" for pw
    using writeFields_wrote [OF assms that, of 0] by (auto simp: wroteFields_def wrote_def)
  show "\<exists>pw. writePack (pckWriteNew sz) fs = Inr pw \<and> pckWriteResult pw = enc 0 fs"
    using * [of "pckWriteNew sz"]
    by (auto simp: writePack_def pckWriteEnd_def pckWriteU64Internal_eq varint_simps Let_def pckWriteResult_def packBytes_def
        pckWriteNew_def pckWriteNewInternal_def pckWriteBuffer_def)
  obtain pw bs where pw: "writeFields (pckWriteNewIo output sz) fs = Inr pw" "enc 0 fs = bs @ [0]" "packBytes pw = output @ bs" "writeIo pw"
    using * [of "pckWriteNewIo output sz"] by (auto simp: pckWriteNewIo_def pckWriteNewInternal_def packBytes_def)
  then show "\<exists>pw. writePack (pckWriteNewIo output sz) fs = Inr pw \<and> writeOut pw = output @ enc 0 fs"
    using packBytes_buffer [of pw "[0]"]
    by (simp add: writePack_def pckWriteEnd_def pckWriteU64Internal_eq varint_simps Let_def packBytes_def)
qed

lemma readPack_enc:
  assumes "fieldsOk fs" "length fs < 2 ^ 32 - 2"
    and "readStack r = [\<lparr>itemTypeMap = pckTypeMapObj, idLast = 0, nullTotal = 0\<rparr>]" "tagNextId r = 0" "packRest r = enc 0 fs @ rest" "readyIo r"
  shows "\<exists>r'. readPack fs r = Inr (fs, r') \<and> packRest r' = rest"
proof -
  have b: "between pckTypeMapObj 0 0 (enc 0 fs @ rest) [] r" by (rule before_between) (use assms in \<open>simp add: before_def\<close>)
  obtain r1 L n where 1: "readFields fs r = Inr (fs, r1)" "between pckTypeMapObj L n (0 # rest) [] r1" "L + n < 2 ^ 32 - 2"
    by (rule readsFieldsD [OF fieldsOk_reads [OF assms(1)] b]) (use assms(2) in auto)
  have st: "length (readStack r1) = 1"
  proof (cases "n = 0")
    case True
    then show ?thesis using 1(2) by (auto simp: between_def before_def)
  next
    case False
    then show ?thesis using 1(2) pckReadTagNext_end by (fastforce simp: between_def before_def setIdLast_def)
  qed
  then show ?thesis using 1(1) end_between [OF 1(2,3)] by (auto simp: readPack_def pckReadEnd_def)
qed

section \<open>String lists\<close>

definition strField :: "string \<Rightarrow> field" where
  "strField s = Leaf (LStr (Some s) False None)"

lemma pckWriteStrLst_loop_fields: "pckWriteStrLst_loop pw ss = writeFields pw (map strField ss)"
  by (induction ss arbitrary: pw) (simp_all add: strField_def)

lemma bindR_Inr_right: "bindR m Inr = m"
  by (cases m) simp_all

lemma pckWriteStrLst_fields: "pckWriteStrLst pw (Some ss) 0 = writeFields pw [Arr (map strField ss)]"
  by (simp add: pckWriteStrLst_def writeUnlessNull_def pckWriteDefaultNull_def pckWriteStrLst_loop_fields bindR_Inr_right)

lemma fieldsOk_strings: "\<forall>s\<in>set ss. length s < 2 ^ 64 \<Longrightarrow> fieldsOk (map strField ss)"
  by (induction ss) (simp_all add: strField_def)

lemma present_between:
  assumes "between t L n bs S r" "L + n + 1 < 2 ^ 32"
    and "\<And>r0. before t L bs S r0 \<Longrightarrow> \<exists>b. pckReadTagNext r0 = Inr (b, nx r0) \<and> readStack (nx r0) = readStack r0 \<and>
      tagNextId (nx r0) = of_nat n + (of_nat L + 1)"
  obtains p where "pckReadNullInternal r 0 = Inr (False, of_nat (L + n) + 1, p)" "looked p (of_nat (L + n))"
    "tagNextId p = of_nat (L + n) + 1" "\<exists>r0. p = setIdLast (of_nat (L + n)) (nx r0)"
    "\<And>fid tm pk. pckReadTag r fid tm pk = pckReadTag p fid tm pk"
proof -
  have nx: "\<exists>b. pckReadTagNext r0 = Inr (b, nx r0) \<and> readStack (nx r0) = readStack r0 \<and> L + n < unat (tagNextId (nx r0))"
    if "before t L bs S r0" for r0
    using assms(3) [OF that] unat_tag_id [OF assms(2)] by auto
  obtain r0 where r0: "before t L bs S r0"
    and looked: "looked (setIdLast (of_nat (L + n)) (nx r0)) (of_nat (L + n))"
    and eq: "\<And>fid tm pk. pckReadTag r fid tm pk = pckReadTag (setIdLast (of_nat (L + n)) (nx r0)) fid tm pk"
    by (rule between_looked [OF assms(1,2) nx]) auto
  let ?p = "setIdLast (of_nat (L + n)) (nx r0)"
  have tid: "tagNextId ?p = of_nat (L + n) + 1" using assms(3) [OF r0] by (auto simp: setIdLast_def)
  have "pckReadNullInternal r 0 = Inr (False, of_nat (L + n) + 1, ?p)"
    using pckReadNullInternal_looked [OF looked] tid by (simp add: pckReadNullInternal_def eq)
  then show thesis using that looked tid eq by blast
qed

lemma present_leaf:
  assumes "between t L n (leafBytes (of_nat n) l @ bs) S r" "leafOk l" "\<not> leafNull l" "L + n + 1 < 2 ^ 32"
  obtains p where "pckReadNullInternal r 0 = Inr (False, of_nat (L + n) + 1, p)" "looked p (of_nat (L + n))"
    "tagNextId p = of_nat (L + n) + 1" "tagNextTypeMap p = leafType l"
    "\<And>fid tm pk. pckReadTag r fid tm pk = pckReadTag p fid tm pk"
proof -
  define nx where "nx r0 = r0\<lparr>packRest := leafPayload l @ bs, tagNextId := of_nat n + (of_nat L + 1),
    tagNextTypeMap := leafType l, tagNextValue := leafValue l, tagNextSize := leafSize l\<rparr>" for r0 :: PackRead
  have nx: "\<exists>b. pckReadTagNext r0 = Inr (b, nx r0) \<and> readStack (nx r0) = readStack r0 \<and> tagNextId (nx r0) = of_nat n + (of_nat L + 1)"
    if "before t L (leafBytes (of_nat n) l @ bs) S r0" for r0
    using leaf_next [OF that assms(2,3)] by (auto simp: nx_def)
  obtain p where p: "pckReadNullInternal r 0 = Inr (False, of_nat (L + n) + 1, p)" "looked p (of_nat (L + n))"
    "tagNextId p = of_nat (L + n) + 1" "\<exists>r0. p = setIdLast (of_nat (L + n)) (nx r0)"
    "\<And>fid tm pk. pckReadTag r fid tm pk = pckReadTag p fid tm pk"
    by (rule present_between [OF assms(1,4) nx]) auto
  moreover have "tagNextTypeMap p = leafType l" using p(4) by (auto simp: nx_def setIdLast_def)
  ultimately show thesis using that by blast
qed

lemma present_container:
  assumes "between t L n (tag_bytes c (of_nat n) 0 @ bs) S r" "c = pckTypeMapArray \<or> c = pckTypeMapObj" "L + n + 1 < 2 ^ 32"
  obtains p where "pckReadNullInternal r 0 = Inr (False, of_nat (L + n) + 1, p)" "looked p (of_nat (L + n))"
    "\<And>fid tm pk. pckReadTag r fid tm pk = pckReadTag p fid tm pk"
proof -
  define nx where "nx r0 = r0\<lparr>packRest := bs, tagNextId := of_nat n + (of_nat L + 1),
    tagNextTypeMap := c, tagNextValue := 0, tagNextSize := 0\<rparr>" for r0 :: PackRead
  have nx: "\<exists>b. pckReadTagNext r0 = Inr (b, nx r0) \<and> readStack (nx r0) = readStack r0 \<and> tagNextId (nx r0) = of_nat n + (of_nat L + 1)"
    if "before t L (tag_bytes c (of_nat n) 0 @ bs) S r0" for r0
    using container_next [OF that assms(2)] by (auto simp: nx_def)
  show thesis by (rule present_between [OF assms(1,3) nx]) (use that in auto)
qed

lemma pckReadStr_cong:
  assumes "\<And>fid tm pk. pckReadTag r fid tm pk = pckReadTag p fid tm pk"
  shows "pckReadStr r 0 d = pckReadStr p 0 d"
  by (simp add: pckReadStr_def readUnlessNull_def pckReadNullInternal_def assms)

lemma pckReadStrLst_loop_enc:
  assumes "\<forall>s\<in>set ss. length s < 2 ^ 64" "L + length ss < 2 ^ 32 - 4"
    and "between c L 0 (enc 0 (map strField ss) @ rest) S r"
  shows "\<exists>r' L'. pckReadStrLst_loop r acc = Some (Inr (acc @ map Some ss, r')) \<and> between c L' 1 (0 # rest) S r' \<and> L' + 1 < 2 ^ 32 - 2"
  using assms
proof (induction ss arbitrary: L r acc)
  case Nil
  then obtain r' where "readLeaf LNull r = Inr (LNull, r')" "between c L 1 (0 # rest) S r'"
    using readLeaf_null_between [of c L 0 "[]" rest S r LNull] by auto
  then show ?case using Nil
    by (subst pckReadStrLst_loop.simps) (auto simp: res_simps split: if_splits)
next
  case (Cons s ss)
  let ?l = "LStr (Some s) False None"
  have b: "between c L 0 (leafBytes (of_nat 0) ?l @ (enc 0 (map strField ss) @ rest)) S r"
    using Cons.prems(3) by (simp add: strField_def [of s])
  have ok: "leafOk ?l" "\<not> leafNull ?l" "L + 0 + 1 < 2 ^ 32" using Cons.prems by auto
  obtain r1 where 1: "readLeaf ?l r = Inr (?l, r1)" "between c (L + 1) 0 (enc 0 (map strField ss) @ rest) S r1"
    using readLeaf_value_between [OF b ok] by auto
  obtain p where p: "pckReadNullInternal r 0 = Inr (False, of_nat (L + 0) + 1, p)"
    "\<And>fid tm pk. pckReadTag r fid tm pk = pckReadTag p fid tm pk"
    by (rule present_leaf [OF b ok]) auto
  have str: "pckReadStr p 0 None = Inr (Some s, r1)"
    using 1(1) pckReadStr_cong [of p r None] p(2) by (auto simp: gets_def res_simps)
  obtain r' L' where "pckReadStrLst_loop r1 (acc @ [Some s]) = Some (Inr (acc @ map Some (s # ss), r'))"
    "between c L' 1 (0 # rest) S r'" "L' + 1 < 2 ^ 32 - 2"
    using Cons.IH [OF _ _ 1(2), of "acc @ [Some s]"] Cons.prems(1,2) by auto
  then show ?case using p(1) str by (subst pckReadStrLst_loop.simps) (auto simp: pckReadNull_def)
qed

lemma pckReadStrLst_enc:
  assumes "\<forall>s\<in>set ss. length s < 2 ^ 64" "length ss < 2 ^ 32 - 4"
    and "between t L n (tag_bytes pckTypeMapArray (of_nat n) 0 @ enc 0 (map strField ss) @ bs) S r" "L + n + 1 < 2 ^ 32"
  shows "\<exists>r'. pckReadStrLst r 0 = Some (Inr (Some (map Some ss), r')) \<and> between t (L + n + 1) 0 bs S r'"
proof -
  let ?S = "\<lparr>itemTypeMap = t, idLast = of_nat (L + n + 1), nullTotal = 0\<rparr> # S"
  obtain p where p: "pckReadNullInternal r 0 = Inr (False, of_nat (L + n) + 1, p)" "looked p (of_nat (L + n))"
    and eq: "\<And>fid tm pk. pckReadTag r fid tm pk = pckReadTag p fid tm pk"
    by (rule present_container [OF assms(3) _ assms(4)]) auto
  obtain r1 where 1: "pckReadContainerBegin pckTypeMapArray r 0 = Inr r1" "between pckTypeMapArray 0 0 (enc 0 (map strField ss) @ bs) ?S r1"
    using containerBegin_between [OF assms(3) _ assms(4)] by auto
  have "pckReadTag p (of_nat (L + n) + 1) tm pk = pckReadTag p 0 tm pk" for tm pk
    using p(2) by (auto simp: pckReadTag_def looked_def)
  then have begin': "pckReadArrayBegin p (of_nat (L + n) + 1) = Inr r1"
    using 1(1) by (simp add: pckReadArrayBegin_def pckReadContainerBegin_def eq)
  obtain r2 L2 where 2: "pckReadStrLst_loop r1 [] = Some (Inr (map Some ss, r2))" "between pckTypeMapArray L2 1 (0 # bs) ?S r2" "L2 + 1 < 2 ^ 32 - 2"
    using pckReadStrLst_loop_enc [OF assms(1) _ 1(2), of "[]"] assms(2) by auto
  obtain r3 where "pckReadContainerEnd pckTypeMapArray r2 = Inr r3" "between t (L + n + 1) 0 bs S r3"
    using containerEnd_between [OF 2(2,3)] by blast
  then show ?thesis using p(1) begin' 2(1) by (simp add: pckReadStrLst_def pckReadArrayEnd_def)
qed



text \<open>
  Two limits of the format's implementation.  Skipping a container by asking for a later field does not skip what the
  container holds: here the only element of the array is taken for field 2.  And an explicit id is checked against the last
  id that was written, not against the missing fields that came after it.
\<close>

lemma pckReadTag_skips_into_container:
  "bindR (writePack (pckWriteNew 0) [Arr [Leaf (LU64 3 False 0)], Leaf (LU64 5 False 0)])
     (\<lambda>pw. bindR (pckReadU64 (pckReadNewC (pckWriteResult pw)) 2 0) (\<lambda>(v, _). Inr v)) = Inr 3"
  by code_simp

lemma pckWriteTag_id_after_nulls:
  "bindR (pckWriteU64 (pckWriteNull (pckWriteNull (pckWriteNew 0))) 5 1 False 0) (\<lambda>pw. Inr (packBytes pw)) = Inr (tag_bytes pckTypeMapU64 0 5)"
  by code_simp

section \<open>Properties\<close>

text \<open>
  C33: what is written with the write functions of the pack type, for any nesting of arrays and objects, with fields left out
  because they are NULL or have their default, is what the corresponding read functions return, and both sides end without
  an error.  A pack in memory and one on an I/O object have the same bytes, whatever the buffer sizes; reading from an I/O
  object leaves what follows the pack.
\<close>

theorem pack_roundtrip:
  assumes "fieldsOk fs" "length fs < 2 ^ 32 - 2" "0 < bufSize"
  shows "\<exists>pw pwIo r rIo.
    writePack (pckWriteNew sz) fs = Inr pw \<and> writePack (pckWriteNewIo output szIo) fs = Inr pwIo \<and>
    writeOut pwIo = output @ pckWriteResult pw \<and>
    readPack fs (pckReadNewC (pckWriteResult pw)) = Inr (fs, r) \<and> packRest r = [] \<and>
    readPack fs (pckReadNewIo (pckWriteResult pw @ rest) bufSize) = Inr (fs, rIo) \<and> packRest rIo = rest"
proof -
  obtain pw pwIo where w: "writePack (pckWriteNew sz) fs = Inr pw" "pckWriteResult pw = enc 0 fs"
    "writePack (pckWriteNewIo output szIo) fs = Inr pwIo" "writeOut pwIo = output @ enc 0 fs"
    using writePack_bytes [OF assms(1)] by blast
  have "\<exists>r. readPack fs (pckReadNewC (enc 0 fs)) = Inr (fs, r) \<and> packRest r = []"
    by (rule readPack_enc [OF assms(1,2)]) (simp_all add: pckReadNewC_def pckReadNewInternal_def readyIo_def)
  moreover have "\<exists>r. readPack fs (pckReadNewIo (enc 0 fs @ rest) bufSize) = Inr (fs, r) \<and> packRest r = rest"
    by (rule readPack_enc [OF assms(1,2)]) (use assms(3) in \<open>simp_all add: pckReadNewIo_def pckReadNewInternal_def readyIo_def\<close>)
  ultimately show ?thesis using w by auto
qed

theorem pack_roundtrip_witness:
  "\<exists>pw pwIo r rIo.
    writePack (pckWriteNew 0) [Leaf (LU64 77 False 0), Leaf (LI32 (- 1) False (- 1)), Arr [Leaf LNull, Obj [Leaf (LStr (Some ''a'') False None)]]] = Inr pw \<and>
    writePack (pckWriteNewIo [9] 2) [Leaf (LU64 77 False 0), Leaf (LI32 (- 1) False (- 1)), Arr [Leaf LNull, Obj [Leaf (LStr (Some ''a'') False None)]]] = Inr pwIo \<and>
    writeOut pwIo = [9] @ pckWriteResult pw \<and>
    readPack [Leaf (LU64 77 False 0), Leaf (LI32 (- 1) False (- 1)), Arr [Leaf LNull, Obj [Leaf (LStr (Some ''a'') False None)]]] (pckReadNewC (pckWriteResult pw)) =
      Inr ([Leaf (LU64 77 False 0), Leaf (LI32 (- 1) False (- 1)), Arr [Leaf LNull, Obj [Leaf (LStr (Some ''a'') False None)]]], r) \<and> packRest r = [] \<and>
    readPack [Leaf (LU64 77 False 0), Leaf (LI32 (- 1) False (- 1)), Arr [Leaf LNull, Obj [Leaf (LStr (Some ''a'') False None)]]] (pckReadNewIo (pckWriteResult pw @ [7]) 1) =
      Inr ([Leaf (LU64 77 False 0), Leaf (LI32 (- 1) False (- 1)), Arr [Leaf LNull, Obj [Leaf (LStr (Some ''a'') False None)]]], rIo) \<and> packRest rIo = [7]"
  by (rule pack_roundtrip) simp_all

text \<open>
  A string list that was written is read back, and the read of it ends: its loop stops at the end of the array, before
  which every string is found.
\<close>

theorem pckStrLst_roundtrip:
  assumes "\<forall>s\<in>set ss. length s < 2 ^ 64" "length ss < 2 ^ 32 - 4"
  shows "\<exists>pw r r'. bindR (pckWriteStrLst (pckWriteNew sz) (Some ss) 0) pckWriteEnd = Inr pw \<and>
    pckReadStrLst (pckReadNewC (pckWriteResult pw)) 0 = Some (Inr (Some (map Some ss), r)) \<and> pckReadEnd r = Inr r' \<and> packRest r' = []"
proof -
  let ?fs = "[Arr (map strField ss)]"
  have ok: "fieldsOk ?fs" using fieldsOk_strings [OF assms(1)] assms(2) by simp
  obtain pw where pw: "writePack (pckWriteNew sz) ?fs = Inr pw" "pckWriteResult pw = enc 0 ?fs"
    using writePack_bytes(1) [OF ok] by blast
  have b: "between pckTypeMapObj 0 0 (tag_bytes pckTypeMapArray (of_nat 0) 0 @ enc 0 (map strField ss) @ [0]) [] (pckReadNewC (enc 0 ?fs))"
    by (rule before_between) (simp add: before_def pckReadNewC_def pckReadNewInternal_def readyIo_def)
  obtain r where r: "pckReadStrLst (pckReadNewC (enc 0 ?fs)) 0 = Some (Inr (Some (map Some ss), r))"
    "between pckTypeMapObj (0 + 0 + 1) 0 (0 # []) [] r"
    using pckReadStrLst_enc [OF assms b] by auto
  moreover have "length (readStack r) = 1" using r(2) by (auto simp: between_def before_def)
  moreover have "bindR (pckWriteStrLst (pckWriteNew sz) (Some ss) 0) pckWriteEnd = Inr pw"
    using pw(1) by (simp only: writePack_def pckWriteStrLst_fields)
  ultimately show ?thesis using pw(2) end_between [OF r(2)] by (auto simp: pckReadEnd_def)
qed

theorem pckStrLst_roundtrip_witness:
  "\<exists>pw r r'. bindR (pckWriteStrLst (pckWriteNew 0) (Some [''ab'', [], ''c'']) 0) pckWriteEnd = Inr pw \<and>
    pckReadStrLst (pckReadNewC (pckWriteResult pw)) 0 = Some (Inr (Some (map Some [''ab'', [], ''c'']), r)) \<and>
    pckReadEnd r = Inr r' \<and> packRest r' = []"
  by (rule pckStrLst_roundtrip) simp_all




end
