(* ===== verification/Encode.thy ===== *)
theory Encode
  imports CLib
begin

text \<open>
  Encoding of binary data as text (\<^verbatim>\<open>src/src/common/encode.c\<close>): base64, base64 for URLs, and hexadecimal.  A string is the
  characters before the terminating zero.

  The lookup tables of the decoders have 256 entries and are indexed with \<^verbatim>\<open>(int)source[idx]\<close>.  Where \<^verbatim>\<open>char\<close> is signed, as
  on the platforms the program is built for by default, a character from 128 on is a negative index: this is
  \<open>UndefinedBehavior\<close>.
\<close>

section \<open>Base64\<close>

definition encodeBase64Lookup :: string where
  "encodeBase64Lookup = ''ABCDEFGHIJKLMNOPQRSTUVWXYZabcdefghijklmnopqrstuvwxyz0123456789+/''"

text \<open>The loop takes three bytes at a time.\<close>

fun encodeToStrBase64 :: "byte list \<Rightarrow> string" where
  "encodeToStrBase64 [] = []"
| "encodeToStrBase64 [a] =
    [encodeBase64Lookup ! unat (drop_bit 2 a), encodeBase64Lookup ! unat (push_bit 4 (a AND 0x03)), CHR ''='', CHR ''='']"
| "encodeToStrBase64 [a, b] =
    [encodeBase64Lookup ! unat (drop_bit 2 a),
     encodeBase64Lookup ! unat (push_bit 4 (a AND 0x03) OR drop_bit 4 (b AND 0xf0)),
     encodeBase64Lookup ! unat (push_bit 2 (b AND 0x0f)), CHR ''='']"
| "encodeToStrBase64 (a # b # c # source) =
    [encodeBase64Lookup ! unat (drop_bit 2 a),
     encodeBase64Lookup ! unat (push_bit 4 (a AND 0x03) OR drop_bit 4 (b AND 0xf0)),
     encodeBase64Lookup ! unat (push_bit 2 (b AND 0x0f) OR drop_bit 6 (c AND 0xc0)),
     encodeBase64Lookup ! unat (c AND 0x3f)] @ encodeToStrBase64 source"

definition encodeToStrSizeBase64 :: "nat \<Rightarrow> nat" where
  "encodeToStrSizeBase64 sourceSize = (sourceSize + 2) div 3 * 4"

text \<open>The lookup table; \<open>None\<close> is \<^verbatim>\<open>-1\<close>.\<close>

definition decodeBase64Lookup :: "char \<Rightarrow> byte option" where
  "decodeBase64Lookup c =
    (let n = of_char c :: nat
     in if 65 \<le> n \<and> n \<le> 90 then Some (of_nat (n - 65))
        else if 97 \<le> n \<and> n \<le> 122 then Some (of_nat (n - 71))
        else if 48 \<le> n \<and> n \<le> 57 then Some (of_nat (n + 4))
        else if n = 43 then Some 62
        else if n = 47 then Some 63
        else None)"

definition isAscii :: "char \<Rightarrow> bool" where
  "isAscii c \<longleftrightarrow> (of_char c :: nat) < 128"

text \<open>The check of one character at an index of a source of the given size, of which the last character is given.\<close>

definition validateBase64_char :: "nat \<Rightarrow> char \<Rightarrow> nat \<Rightarrow> char \<Rightarrow> unit res" where
  "validateBase64_char sourceSize lastChar sourceIdx c =
    (if c = CHR ''='' then
       if sourceIdx < sourceSize - 2 then Inl FormatError
       else if sourceIdx = sourceSize - 2 \<and> lastChar \<noteq> CHR ''='' then Inl FormatError
       else Inr ()
     else if \<not> isAscii c then Inl UndefinedBehavior
     else if decodeBase64Lookup c = None then Inl FormatError
     else Inr ())"

fun validateBase64_loop :: "nat \<Rightarrow> char \<Rightarrow> nat \<Rightarrow> string \<Rightarrow> unit res" where
  "validateBase64_loop sourceSize lastChar sourceIdx [] = Inr ()"
| "validateBase64_loop sourceSize lastChar sourceIdx (c # cs) =
    bindR (validateBase64_char sourceSize lastChar sourceIdx c)
      (\<lambda>_. validateBase64_loop sourceSize lastChar (sourceIdx + 1) cs)"

definition decodeToBinValidateBase64 :: "string \<Rightarrow> unit res" where
  "decodeToBinValidateBase64 source =
    (if length source mod 4 \<noteq> 0 then Inl FormatError
     else validateBase64_loop (length source) (last source) 0 source)"

definition value64 :: "char \<Rightarrow> byte" where
  "value64 c = (case decodeBase64Lookup c of None \<Rightarrow> - 1 | Some v \<Rightarrow> v)"

fun decodeBase64_loop :: "string \<Rightarrow> byte list" where
  "decodeBase64_loop (p # q # r # s # source) =
    [push_bit 2 (value64 p) OR drop_bit 4 (value64 q)] @
    (if r \<noteq> CHR ''='' then [push_bit 4 (value64 q) OR drop_bit 2 (value64 r)] else []) @
    (if s \<noteq> CHR ''='' then [(push_bit 6 (value64 r) AND 0xc0) OR value64 s] else []) @
    decodeBase64_loop source"
| "decodeBase64_loop _ = []"

definition decodeToBinBase64 :: "string \<Rightarrow> (byte list) res" where
  "decodeToBinBase64 source = bindR (decodeToBinValidateBase64 source) (\<lambda>_. Inr (decodeBase64_loop source))"

text \<open>For an empty source the last character is read before the start of the string.\<close>

definition decodeToBinSizeBase64 :: "string \<Rightarrow> nat res" where
  "decodeToBinSizeBase64 source =
    bindR (decodeToBinValidateBase64 source) (\<lambda>_.
      if source = [] then Inl UndefinedBehavior
      else
        let destinationSize = length source div 4 * 3
        in Inr (if last source = CHR ''='' then
                  if source ! (length source - 2) = CHR ''='' then destinationSize - 2 else destinationSize - 1
                else destinationSize))"

section \<open>Base64 for URLs\<close>

definition encodeBase64LookupUrl :: string where
  "encodeBase64LookupUrl = ''ABCDEFGHIJKLMNOPQRSTUVWXYZabcdefghijklmnopqrstuvwxyz0123456789-_''"

fun encodeToStrBase64Url :: "byte list \<Rightarrow> string" where
  "encodeToStrBase64Url [] = []"
| "encodeToStrBase64Url [a] =
    [encodeBase64LookupUrl ! unat (drop_bit 2 a), encodeBase64LookupUrl ! unat (push_bit 4 (a AND 0x03))]"
| "encodeToStrBase64Url [a, b] =
    [encodeBase64LookupUrl ! unat (drop_bit 2 a),
     encodeBase64LookupUrl ! unat (push_bit 4 (a AND 0x03) OR drop_bit 4 (b AND 0xf0)),
     encodeBase64LookupUrl ! unat (push_bit 2 (b AND 0x0f))]"
| "encodeToStrBase64Url (a # b # c # source) =
    [encodeBase64LookupUrl ! unat (drop_bit 2 a),
     encodeBase64LookupUrl ! unat (push_bit 4 (a AND 0x03) OR drop_bit 4 (b AND 0xf0)),
     encodeBase64LookupUrl ! unat (push_bit 2 (b AND 0x0f) OR drop_bit 6 (c AND 0xc0)),
     encodeBase64LookupUrl ! unat (c AND 0x3f)] @ encodeToStrBase64Url source"

definition encodeToStrSizeBase64Url :: "nat \<Rightarrow> nat" where
  "encodeToStrSizeBase64Url sourceSize =
    sourceSize div 3 * 4 + (if sourceSize mod 3 = 0 then 0 else sourceSize mod 3 + 1)"

section \<open>Hexadecimal\<close>

text \<open>Entry \<open>2 * b\<close> of the table is the first of the two digits of \<open>b\<close>.\<close>

definition hexDigit :: "byte \<Rightarrow> char" where
  "hexDigit n = ''0123456789abcdef'' ! unat n"

definition encodeHexLookup :: "byte \<Rightarrow> string" where
  "encodeHexLookup b = [hexDigit (drop_bit 4 b), hexDigit (b AND 0x0f)]"

definition encodeToStrHex :: "byte list \<Rightarrow> string" where
  "encodeToStrHex source = concat (map encodeHexLookup source)"

definition encodeToStrSizeHex :: "nat \<Rightarrow> nat" where
  "encodeToStrSizeHex sourceSize = sourceSize * 2"

definition decodeHexLookup :: "char \<Rightarrow> byte option" where
  "decodeHexLookup c =
    (let n = of_char c :: nat
     in if 48 \<le> n \<and> n \<le> 57 then Some (of_nat (n - 48))
        else if 65 \<le> n \<and> n \<le> 70 then Some (of_nat (n - 55))
        else if 97 \<le> n \<and> n \<le> 102 then Some (of_nat (n - 87))
        else None)"

fun validateHex_loop :: "string \<Rightarrow> unit res" where
  "validateHex_loop [] = Inr ()"
| "validateHex_loop (c # cs) =
    (if \<not> isAscii c then Inl UndefinedBehavior
     else if decodeHexLookup c = None then Inl FormatError
     else validateHex_loop cs)"

definition decodeToBinValidateHex :: "string \<Rightarrow> unit res" where
  "decodeToBinValidateHex source = (if length source mod 2 \<noteq> 0 then Inl FormatError else validateHex_loop source)"

definition valueHex :: "char \<Rightarrow> byte" where
  "valueHex c = (case decodeHexLookup c of None \<Rightarrow> - 1 | Some v \<Rightarrow> v)"

fun decodeHex_loop :: "string \<Rightarrow> byte list" where
  "decodeHex_loop (p # q # source) = (push_bit 4 (valueHex p) OR valueHex q) # decodeHex_loop source"
| "decodeHex_loop _ = []"

definition decodeToBinHex :: "string \<Rightarrow> (byte list) res" where
  "decodeToBinHex source = bindR (decodeToBinValidateHex source) (\<lambda>_. Inr (decodeHex_loop source))"

definition decodeToBinSizeHex :: "string \<Rightarrow> nat res" where
  "decodeToBinSizeHex source = bindR (decodeToBinValidateHex source) (\<lambda>_. Inr (length source div 2))"

section \<open>Encoding types\<close>

datatype EncodingType = encodingBase64 | encodingBase64Url | encodingHex

definition encodeToStr :: "EncodingType \<Rightarrow> byte list \<Rightarrow> string" where
  "encodeToStr type source =
    (case type of
       encodingBase64 \<Rightarrow> encodeToStrBase64 source
     | encodingBase64Url \<Rightarrow> encodeToStrBase64Url source
     | encodingHex \<Rightarrow> encodeToStrHex source)"

definition encodeToStrSize :: "EncodingType \<Rightarrow> nat \<Rightarrow> nat" where
  "encodeToStrSize type sourceSize =
    (case type of
       encodingBase64 \<Rightarrow> encodeToStrSizeBase64 sourceSize
     | encodingBase64Url \<Rightarrow> encodeToStrSizeBase64Url sourceSize
     | encodingHex \<Rightarrow> encodeToStrSizeHex sourceSize)"

text \<open>Without assertions, decoding of base64 for URLs leaves the destination as it was.\<close>

definition decodeToBin :: "EncodingType \<Rightarrow> string \<Rightarrow> byte list \<Rightarrow> (byte list) res" where
  "decodeToBin type source destination =
    (case type of
       encodingBase64 \<Rightarrow> decodeToBinBase64 source
     | encodingBase64Url \<Rightarrow> Inr destination
     | encodingHex \<Rightarrow> decodeToBinHex source)"

definition SIZE_MAX :: nat where
  "SIZE_MAX = 2 ^ 64 - 1"

definition decodeToBinSize :: "EncodingType \<Rightarrow> string \<Rightarrow> nat res" where
  "decodeToBinSize type source =
    (case type of
       encodingBase64 \<Rightarrow> decodeToBinSizeBase64 source
     | encodingBase64Url \<Rightarrow> Inr SIZE_MAX
     | encodingHex \<Rightarrow> decodeToBinSizeHex source)"

text \<open>\<^verbatim>\<open>bufNewDecode\<close> allocates the size and decodes into it.\<close>

definition bufNewDecode :: "EncodingType \<Rightarrow> string \<Rightarrow> (byte list) res" where
  "bufNewDecode type s = bindR (decodeToBinSize type s) (\<lambda>sz. decodeToBin type s (replicate sz 0))"

section \<open>Lookups\<close>

lemma base64_lookup_all:
  "list_all2 (\<lambda>v c. decodeBase64Lookup c = Some v \<and> isAscii c \<and> c \<noteq> CHR ''='') (map of_nat [0..<64]) encodeBase64Lookup"
  by (simp add: encodeBase64Lookup_def decodeBase64Lookup_def isAscii_def upt_rec)

lemma less_bits_iff: "(v :: byte) < 64 \<longleftrightarrow> take_bit 6 v = v" "v < 16 \<longleftrightarrow> take_bit 4 v = v"
  by (simp_all add: word_less_nat_alt word_unat_eq_iff unsigned_take_bit_eq take_bit_nat_eq_self_iff)

lemma base64_lookup:
  assumes "take_bit 6 v = (v :: byte)"
  shows "decodeBase64Lookup (encodeBase64Lookup ! unat v) = Some v" "isAscii (encodeBase64Lookup ! unat v)"
    "encodeBase64Lookup ! unat v \<noteq> CHR ''=''" "value64 (encodeBase64Lookup ! unat v) = v"
proof -
  have "unat v < 64" using assms less_bits_iff(1) by (simp add: word_less_nat_alt)
  then have "decodeBase64Lookup (encodeBase64Lookup ! unat v) = Some v \<and> isAscii (encodeBase64Lookup ! unat v) \<and>
    encodeBase64Lookup ! unat v \<noteq> CHR ''=''"
    using list_all2_nthD [OF base64_lookup_all, of "unat v"] by simp
  then show "decodeBase64Lookup (encodeBase64Lookup ! unat v) = Some v" "isAscii (encodeBase64Lookup ! unat v)"
    "encodeBase64Lookup ! unat v \<noteq> CHR ''=''" "value64 (encodeBase64Lookup ! unat v) = v"
    by (simp_all add: value64_def)
qed

lemma hex_lookup_all:
  "list_all2 (\<lambda>v c. decodeHexLookup c = Some v \<and> isAscii c) (map of_nat [0..<16]) ''0123456789abcdef''"
  by (simp add: decodeHexLookup_def isAscii_def upt_rec)

lemma hex_lookup:
  assumes "take_bit 4 v = (v :: byte)"
  shows "decodeHexLookup (hexDigit v) = Some v" "isAscii (hexDigit v)" "valueHex (hexDigit v) = v"
proof -
  have "unat v < 16" using assms less_bits_iff(2) by (simp add: word_less_nat_alt)
  then have "decodeHexLookup (hexDigit v) = Some v \<and> isAscii (hexDigit v)"
    using list_all2_nthD [OF hex_lookup_all, of "unat v"] by (simp add: hexDigit_def)
  then show "decodeHexLookup (hexDigit v) = Some v" "isAscii (hexDigit v)" "valueHex (hexDigit v) = v"
    by (simp_all add: valueHex_def)
qed

section \<open>Groups of bits\<close>

lemma byte_masks: "(0x03 :: byte) = mask 2" "(0x0f :: byte) = mask 4" "(0x3f :: byte) = mask 6" "(0xf0 :: byte) = NOT (mask 4)"
  "(0xc0 :: byte) = NOT (mask 6)"
  by (simp_all add: mask_eq_exp_minus_1)

lemma less_8_cases:
  assumes "(n :: nat) < 8" "P 0" "P 1" "P 2" "P 3" "P 4" "P 5" "P 6" "P 7"
  shows "P n"
proof -
  consider "n = 0" | "n = 1" | "n = 2" | "n = 3" | "n = 4" | "n = 5" | "n = 6" | "n = 7" using assms(1) by linarith
  then show ?thesis by cases (use assms in simp_all)
qed

lemma byte_eqI:
  assumes "bit x 0 = bit y 0" "bit x 1 = bit y 1" "bit x 2 = bit y 2" "bit x 3 = bit y 3" "bit x 4 = bit y 4"
    "bit x 5 = bit y 5" "bit x 6 = bit y 6" "bit x 7 = bit y 7"
  shows "x = (y :: byte)"
  by (rule bit_word_eqI, rule less_8_cases) (use assms in simp_all)

lemma bit_byte_high: "8 \<le> n \<Longrightarrow> \<not> bit (x :: byte) n"
  using bit_imp_le_length [of x n] by auto

lemma six_bits:
  fixes a b c :: byte
  shows "take_bit 6 (drop_bit 2 a) = drop_bit 2 a" "take_bit 6 (push_bit 4 (a AND 0x03)) = push_bit 4 (a AND 0x03)"
    "take_bit 6 (push_bit 4 (a AND 0x03) OR drop_bit 4 (b AND 0xf0)) = push_bit 4 (a AND 0x03) OR drop_bit 4 (b AND 0xf0)"
    "take_bit 6 (push_bit 2 (b AND 0x0f)) = push_bit 2 (b AND 0x0f)"
    "take_bit 6 (push_bit 2 (b AND 0x0f) OR drop_bit 6 (c AND 0xc0)) = push_bit 2 (b AND 0x0f) OR drop_bit 6 (c AND 0xc0)"
    "take_bit 6 (c AND 0x3f) = c AND 0x3f"
    "take_bit 4 (drop_bit 4 a) = drop_bit 4 a" "take_bit 4 (a AND 0x0f) = a AND 0x0f"
  unfolding byte_masks by (rule byte_eqI; simp add: bit_simps bit_byte_high)+

lemma regroup:
  fixes a b c :: byte
  shows "push_bit 2 (drop_bit 2 a) OR drop_bit 4 (push_bit 4 (a AND 0x03)) = a"
    "push_bit 2 (drop_bit 2 a) OR drop_bit 4 (push_bit 4 (a AND 0x03) OR drop_bit 4 (b AND 0xf0)) = a"
    "push_bit 4 (push_bit 4 (a AND 0x03) OR drop_bit 4 (b AND 0xf0)) OR drop_bit 2 (push_bit 2 (b AND 0x0f)) = b"
    "push_bit 4 (push_bit 4 (a AND 0x03) OR drop_bit 4 (b AND 0xf0)) OR
      drop_bit 2 (push_bit 2 (b AND 0x0f) OR drop_bit 6 (c AND 0xc0)) = b"
    "(push_bit 6 (push_bit 2 (b AND 0x0f) OR drop_bit 6 (c AND 0xc0)) AND 0xc0) OR (c AND 0x3f) = c"
    "push_bit 4 (drop_bit 4 a) OR (a AND 0x0f) = a"
  unfolding byte_masks by (rule byte_eqI; simp add: bit_simps bit_byte_high numeral_2_eq_2 [symmetric])+

section \<open>Round trips\<close>

lemmas base64_chars = base64_lookup [OF six_bits(1)] base64_lookup [OF six_bits(2)] base64_lookup [OF six_bits(3)]
  base64_lookup [OF six_bits(4)] base64_lookup [OF six_bits(5)] base64_lookup [OF six_bits(6)]

lemma decodeBase64_loop_encode: "decodeBase64_loop (encodeToStrBase64 source) = source"
  by (induction source rule: encodeToStrBase64.induct)
    (simp_all only: encodeToStrBase64.simps append.simps decodeBase64_loop.simps base64_chars regroup if_True if_False simp_thms
      not_False_eq_True)

lemma length_encodeToStrBase64: "length (encodeToStrBase64 source) = encodeToStrSizeBase64 (length source)"
proof (induction source rule: encodeToStrBase64.induct)
  case (4 a b c source)
  have "(length source + 3 + 2) div 3 = (length source + 2) div 3 + 1" by linarith
  then show ?case using 4 by (simp add: encodeToStrSizeBase64_def)
qed (simp_all add: encodeToStrSizeBase64_def)

lemma length_encodeToStrBase64Url: "length (encodeToStrBase64Url source) = encodeToStrSizeBase64Url (length source)"
proof (induction source rule: encodeToStrBase64Url.induct)
  case (4 a b c source)
  have "(3 + length source) div 3 = length source div 3 + 1" "(3 + length source) mod 3 = length source mod 3" by simp_all
  then show ?case using 4 unfolding encodeToStrSizeBase64Url_def by (simp add: eval_nat_numeral(3) [symmetric])
qed (simp_all add: encodeToStrSizeBase64Url_def)

lemma length_encodeToStrHex: "length (encodeToStrHex source) = encodeToStrSizeHex (length source)"
  by (induction source) (simp_all add: encodeToStrHex_def encodeToStrSizeHex_def encodeHexLookup_def)

lemma validateBase64_char_plain:
  "decodeBase64Lookup c = Some v \<Longrightarrow> isAscii c \<Longrightarrow> c \<noteq> CHR ''='' \<Longrightarrow> validateBase64_char n l i c = Inr ()"
  by (simp add: validateBase64_char_def)

lemma validateBase64_char_pad: "n = i + 1 \<and> 0 < i \<or> l = CHR ''='' \<and> n = i + 2 \<Longrightarrow> validateBase64_char n l i (CHR ''='') = Inr ()"
  by (auto simp: validateBase64_char_def)

lemmas validate_chars = validateBase64_char_plain [OF base64_lookup(1-3) [OF six_bits(1)]]
  validateBase64_char_plain [OF base64_lookup(1-3) [OF six_bits(2)]] validateBase64_char_plain [OF base64_lookup(1-3) [OF six_bits(3)]]
  validateBase64_char_plain [OF base64_lookup(1-3) [OF six_bits(4)]] validateBase64_char_plain [OF base64_lookup(1-3) [OF six_bits(5)]]
  validateBase64_char_plain [OF base64_lookup(1-3) [OF six_bits(6)]]

lemma encodeToStrBase64_eq_Nil: "encodeToStrBase64 source = [] \<longleftrightarrow> source = []"
  by (cases source rule: encodeToStrBase64.cases) simp_all

lemma validateBase64_loop_encode:
  "i + length (encodeToStrBase64 source) = n \<Longrightarrow> source = [] \<or> l = last (encodeToStrBase64 source) \<Longrightarrow>
    validateBase64_loop n l i (encodeToStrBase64 source) = Inr ()"
proof (induction source arbitrary: i rule: encodeToStrBase64.induct)
  case (2 a)
  then have "l = CHR ''=''" "n = i + 4" by simp_all
  then have "validateBase64_char n l (i + 1 + 1) CHR ''='' = Inr ()" "validateBase64_char n l (i + 1 + 1 + 1) CHR ''='' = Inr ()"
    by (simp_all add: validateBase64_char_pad)
  then show ?case by (simp only: encodeToStrBase64.simps validateBase64_loop.simps validate_chars bindR_simps)
next
  case (3 a b)
  then have "validateBase64_char n l (i + 1 + 1 + 1) CHR ''='' = Inr ()" by (simp add: validateBase64_char_pad)
  then show ?case by (simp only: encodeToStrBase64.simps validateBase64_loop.simps validate_chars bindR_simps)
next
  case (4 a b c source)
  have "validateBase64_loop n l (i + 1 + 1 + 1 + 1) (encodeToStrBase64 source) = Inr ()"
    by (rule 4(1)) (use 4(2,3) in \<open>auto simp: encodeToStrBase64_eq_Nil\<close>)
  then show ?case by (simp only: encodeToStrBase64.simps append.simps validateBase64_loop.simps validate_chars bindR_simps)
qed simp

lemma decodeToBinBase64_encode: "decodeToBinBase64 (encodeToStrBase64 source) = Inr source"
proof -
  have "length (encodeToStrBase64 source) mod 4 = 0" by (simp add: length_encodeToStrBase64 encodeToStrSizeBase64_def)
  then have "decodeToBinValidateBase64 (encodeToStrBase64 source) = Inr ()"
    unfolding decodeToBinValidateBase64_def by (simp add: validateBase64_loop_encode)
  then show ?thesis by (simp add: decodeToBinBase64_def decodeBase64_loop_encode)
qed

lemma hex_loops_encode:
  "validateHex_loop (encodeHexLookup b @ cs) = validateHex_loop cs" "decodeHex_loop (encodeHexLookup b @ cs) = b # decodeHex_loop cs"
proof -
  note digits = hex_lookup [OF six_bits(7), of b] hex_lookup [OF six_bits(8), of b]
  show "validateHex_loop (encodeHexLookup b @ cs) = validateHex_loop cs"
    by (simp only: encodeHexLookup_def append.simps validateHex_loop.simps digits option.distinct simp_thms if_False)
  show "decodeHex_loop (encodeHexLookup b @ cs) = b # decodeHex_loop cs"
    by (simp only: encodeHexLookup_def append.simps decodeHex_loop.simps digits regroup)
qed

lemma decodeToBinHex_encode: "decodeToBinHex (encodeToStrHex source) = Inr source"
proof -
  have "validateHex_loop (encodeToStrHex source) = Inr ()" "decodeHex_loop (encodeToStrHex source) = source"
    by (induction source) (simp_all add: encodeToStrHex_def hex_loops_encode)
  then show ?thesis
    by (simp add: decodeToBinHex_def decodeToBinValidateHex_def length_encodeToStrHex encodeToStrSizeHex_def)
qed

section \<open>The size of the destination\<close>

text \<open>A string that passes validation has no padding before its last two characters.\<close>

lemma validateBase64_char_pad_iff:
  "validateBase64_char n l i (CHR ''='') = Inr () \<longleftrightarrow> \<not> i < n - 2 \<and> (i = n - 2 \<longrightarrow> l = CHR ''='')"
  by (simp add: validateBase64_char_def)

lemma mod_0_ge: "n mod 4 = 0 \<Longrightarrow> n \<noteq> 0 \<Longrightarrow> 4 \<le> (n :: nat)"
  by (metis mod_less not_less)

lemma length_decodeBase64_loop:
  "validateBase64_loop n (last source) i source = Inr () \<Longrightarrow> i + length source = n \<Longrightarrow> length source mod 4 = 0 \<Longrightarrow> source \<noteq> [] \<Longrightarrow>
    length (decodeBase64_loop source) =
      length source div 4 * 3 -
        (if last source = CHR ''='' then if source ! (length source - 2) = CHR ''='' then 2 else 1 else 0)"
proof (induction source arbitrary: i rule: decodeBase64_loop.induct)
  case (1 p q r s source)
  let ?l = "last (p # q # r # s # source)"
  have chars: "validateBase64_char n ?l (i + 2) r = Inr ()" "validateBase64_char n ?l (i + 3) s = Inr ()"
    "validateBase64_loop n ?l (i + 4) source = Inr ()"
    using 1(2) by (auto simp: bindR_Inr_iff eval_nat_numeral)
  show ?case
  proof (cases "source = []")
    case True
    then have "r = CHR ''='' \<longrightarrow> s = CHR ''=''" using chars(1) 1(3) by (auto simp: validateBase64_char_pad_iff)
    then show ?thesis using True by auto
  next
    case False
    have "length (p # q # r # s # source) = length source + 4" by simp
    then have len0: "length source mod 4 = 0" using 1(4) by (metis mod_add_self2)
    have len: "4 \<le> length source" by (rule mod_0_ge [OF len0]) (use False in simp)
    then have "r \<noteq> CHR ''=''" "s \<noteq> CHR ''=''"
      using chars(1,2) 1(3) by (auto simp: validateBase64_char_pad_iff)
    moreover have "(p # q # r # s # source) ! (length source + 2) = source ! (length source - 2)"
      using len by (auto simp: nth_Cons' numeral_2_eq_2)
    moreover have "length (decodeBase64_loop source) = length source div 4 * 3 -
        (if last source = CHR ''='' then if source ! (length source - 2) = CHR ''='' then 2 else 1 else 0)"
      using 1(1) [of "i + 4"] chars(3) 1(3) len0 False by simp
    moreover have "1 \<le> length source div 4" using len by (simp add: less_eq_div_iff_mult_less_eq)
    moreover have "(4 + length source) div 4 = length source div 4 + 1" by simp
    ultimately show ?thesis using False by simp linarith
  qed
qed auto

lemma decodeToBinBase64_size:
  assumes "decodeToBinBase64 source = Inr destination" "source \<noteq> []"
  shows "decodeToBinSizeBase64 source = Inr (length destination)"
proof -
  have valid: "decodeToBinValidateBase64 source = Inr ()" and destination: "destination = decodeBase64_loop source"
    using assms(1) by (auto simp: decodeToBinBase64_def bindR_Inr_iff)
  then have "validateBase64_loop (length source) (last source) 0 source = Inr ()" "length source mod 4 = 0"
    by (auto simp: decodeToBinValidateBase64_def split: if_splits)
  from length_decodeBase64_loop [OF this(1) _ this(2) assms(2)] show ?thesis
    using valid assms(2) destination by (auto simp: decodeToBinSizeBase64_def Let_def)
qed

lemma length_decodeHex_loop: "length (decodeHex_loop source) = length source div 2"
  by (induction source rule: decodeHex_loop.induct) simp_all

lemma decodeToBin_size:
  assumes "decodeToBin type source d = Inr destination" "type \<noteq> encodingBase64Url" "type = encodingBase64 \<longrightarrow> source \<noteq> []"
  shows "decodeToBinSize type source = Inr (length destination)"
  using assms decodeToBinBase64_size
  by (cases type) (auto simp: decodeToBin_def decodeToBinSize_def decodeToBinHex_def decodeToBinSizeHex_def bindR_Inr_iff length_decodeHex_loop)

lemma length_encodeToStr: "length (encodeToStr type source) = encodeToStrSize type (length source)"
  by (cases type) (simp_all add: encodeToStr_def encodeToStrSize_def length_encodeToStrBase64 length_encodeToStrBase64Url length_encodeToStrHex)

lemma decodeToBin_encode:
  "type \<noteq> encodingBase64Url \<Longrightarrow> decodeToBin type (encodeToStr type source) d = Inr source"
  by (cases type) (simp_all add: decodeToBin_def encodeToStr_def decodeToBinBase64_encode decodeToBinHex_encode)

section \<open>Properties\<close>

text \<open>
  C22: What is written as base64 or hexadecimal text has the size that was computed for it and is read back as it was, into a
  buffer allocated with the size computed from the text.
\<close>

theorem encode_roundtrip:
  assumes "type = encodingBase64 \<and> source \<noteq> [] \<or> type = encodingHex"
  shows "length (encodeToStr type source) = encodeToStrSize type (length source) \<and>
    decodeToBinSize type (encodeToStr type source) = Inr (length source) \<and>
    bufNewDecode type (encodeToStr type source) = Inr source"
proof -
  have type: "type \<noteq> encodingBase64Url" using assms by auto
  have "type = encodingBase64 \<longrightarrow> encodeToStr type source \<noteq> []"
    using assms by (auto simp: encodeToStr_def encodeToStrBase64_eq_Nil)
  then have "decodeToBinSize type (encodeToStr type source) = Inr (length source)"
    using decodeToBin_size [OF decodeToBin_encode type] type by blast
  then show ?thesis by (simp add: length_encodeToStr bufNewDecode_def decodeToBin_encode [OF type])
qed

theorem encode_roundtrip_witness:
  "bufNewDecode encodingBase64 (encodeToStr encodingBase64 [0x68, 0x69]) = Inr [0x68, 0x69]"
  using encode_roundtrip [of encodingBase64 "[0x68, 0x69]"] by simp

text \<open>
  C23: Whatever the text is, when decoding succeeds, the bytes that are written are exactly as many as the size that the caller
  allocated for them: no input writes past the end of the destination.
\<close>

theorem decodeToBin_fits:
  assumes "decodeToBin type source d = Inr destination" "type \<noteq> encodingBase64Url" "type = encodingBase64 \<longrightarrow> source \<noteq> []"
  shows "decodeToBinSize type source = Inr (length destination)"
  by (rule decodeToBin_size [OF assms])

theorem decodeToBin_fits_witness:
  "decodeToBin encodingBase64 ''aGk='' [] = Inr [0x68, 0x69] \<and> decodeToBinSize encodingBase64 ''aGk='' = Inr 2"
proof -
  have "decodeToBin encodingBase64 ''aGk='' [] = Inr [0x68, 0x69]" by code_simp
  with decodeToBin_fits [OF this] show ?thesis by simp
qed

end
