(* ===== verification/VerifyRange.thy ===== *)
theory VerifyRange
  imports Wal
begin

text \<open>
  The WAL ranges of the verify command (\<^verbatim>\<open>src/src/command/verify/verify.c\<close>): the ranges of consecutive segments that are in an
  archive, without the segments that are there more than once, and the files that failed verification in the range they
  belong to.
\<close>

section \<open>Definitions\<close>

datatype VerifyResult = verifyOk | verifyFileMissing | verifyChecksumMismatch | verifySizeInvalid | verifyOtherError

record VerifyInvalidFile =
  invalidFileName :: string
  invalidReason :: VerifyResult

record VerifyWalRange =
  rangeStop :: string
  rangeStart :: string
  rangeInvalid :: "VerifyInvalidFile list"

definition verifyInvalidFileAdd :: "VerifyInvalidFile list \<Rightarrow> VerifyResult \<Rightarrow> string \<Rightarrow> VerifyInvalidFile list" where
  "verifyInvalidFileAdd invalidFileList reason fileName =
    invalidFileList @ [\<lparr>invalidFileName = fileName, invalidReason = reason\<rparr>]"

abbreviation WAL_SEGMENT_NAME_SIZE :: nat where
  "WAL_SEGMENT_NAME_SIZE \<equiv> 24"

definition walSegmentOf :: "string \<Rightarrow> string" where
  "walSegmentOf fileName = take WAL_SEGMENT_NAME_SIZE fileName"

text \<open>
  The loop of \<^verbatim>\<open>verifyCreateArchiveIdRange\<close>: \<open>kept\<close> are the files before \<^verbatim>\<open>walFileIdx\<close>, \<open>rest\<close> those from there on; \<open>cur\<close>
  says that \<^verbatim>\<open>walRange\<close> is set, and then it points to the last range.
\<close>

definition extendRange :: "string \<Rightarrow> bool \<Rightarrow> VerifyWalRange list \<Rightarrow> VerifyWalRange list" where
  "extendRange walSegment new ranges =
    (if new then ranges @ [\<lparr>rangeStop = walSegment, rangeStart = walSegment, rangeInvalid = []\<rparr>]
     else butlast ranges @ [(last ranges)\<lparr>rangeStop := walSegment\<rparr>])"

definition startsRange :: "nat \<Rightarrow> bool \<Rightarrow> VerifyWalRange list \<Rightarrow> string \<Rightarrow> bool res" where
  "startsRange sz cur ranges walSegment =
    (if \<not> cur then Inr True
     else bindR (walSegmentNext (rangeStop (last ranges)) sz) (\<lambda>n. Inr (n \<noteq> walSegment)))"

function verifyCreateArchiveIdRange_loop ::
  "nat \<Rightarrow> bool \<Rightarrow> VerifyWalRange list \<Rightarrow> string list \<Rightarrow> string list \<Rightarrow> nat \<Rightarrow> (VerifyWalRange list \<times> string list \<times> nat) res" where
  "verifyCreateArchiveIdRange_loop sz cur ranges kept [] jobErrorTotal = Inr (ranges, kept, jobErrorTotal)"
| "verifyCreateArchiveIdRange_loop sz cur ranges kept (f # fs) jobErrorTotal =
    (if fs \<noteq> [] \<and> walSegmentOf f = walSegmentOf (hd fs)
     then verifyCreateArchiveIdRange_loop sz cur ranges kept (dropWhile (\<lambda>g. walSegmentOf f = walSegmentOf g) (f # fs)) (jobErrorTotal + 1)
     else bindR (startsRange sz cur ranges (walSegmentOf f)) (\<lambda>new.
       verifyCreateArchiveIdRange_loop sz True (extendRange (walSegmentOf f) new ranges) (kept @ [f]) fs jobErrorTotal))"
  by pat_completeness auto
termination
  by (relation "measure (\<lambda>(sz, cur, ranges, kept, rest, err). length rest)")
    (auto intro: le_imp_less_Suc length_dropWhile_le)

definition verifyCreateArchiveIdRange ::
  "nat \<Rightarrow> VerifyWalRange list \<Rightarrow> string list \<Rightarrow> nat \<Rightarrow> (VerifyWalRange list \<times> string list \<times> nat) res" where
  "verifyCreateArchiveIdRange sz ranges walFileList jobErrorTotal =
    verifyCreateArchiveIdRange_loop sz
      (ranges \<noteq> [] \<and> take 8 (rangeStop (last ranges)) = take 8 (walSegmentOf (hd walFileList)))
      ranges [] walFileList jobErrorTotal"

fun verifyAddInvalidWalFile :: "VerifyWalRange list \<Rightarrow> VerifyResult \<Rightarrow> string \<Rightarrow> string \<Rightarrow> VerifyWalRange list" where
  "verifyAddInvalidWalFile [] fileResult fileName walSegment = []"
| "verifyAddInvalidWalFile (r # rs) fileResult fileName walSegment =
    (if rangeStop r \<ge> walSegment then r\<lparr>rangeInvalid := verifyInvalidFileAdd (rangeInvalid r) fileResult fileName\<rparr> # rs
     else r # verifyAddInvalidWalFile rs fileResult fileName walSegment)"

section \<open>What a list of ranges says\<close>

text \<open>The segments of a range are consecutive, and the next range does not start where the one before it ends.\<close>

fun consecutive :: "nat \<Rightarrow> string list \<Rightarrow> bool" where
  "consecutive sz (s # t # ss) \<longleftrightarrow> walSegmentNext s sz = Inr t \<and> consecutive sz (t # ss)"
| "consecutive sz _ \<longleftrightarrow> True"

fun gaps :: "nat \<Rightarrow> string list list \<Rightarrow> bool" where
  "gaps sz (p # q # ps) \<longleftrightarrow> walSegmentNext (last p) sz \<noteq> Inr (hd q) \<and> gaps sz (q # ps)"
| "gaps sz _ \<longleftrightarrow> True"

definition rangeOf :: "nat \<Rightarrow> string list \<Rightarrow> VerifyWalRange \<Rightarrow> bool" where
  "rangeOf sz p r \<longleftrightarrow> p \<noteq> [] \<and> consecutive sz p \<and> rangeStart r = hd p \<and> rangeStop r = last p"

definition rangesOf :: "nat \<Rightarrow> string list \<Rightarrow> VerifyWalRange list \<Rightarrow> bool" where
  "rangesOf sz segs ranges \<longleftrightarrow> (\<exists>ps. concat ps = segs \<and> list_all2 (rangeOf sz) ps ranges \<and> gaps sz ps)"

text \<open>The files whose segment is not in the list a second time.\<close>

definition onlyOnce :: "string list \<Rightarrow> string list" where
  "onlyOnce files = filter (\<lambda>f. length (filter (\<lambda>g. walSegmentOf g = walSegmentOf f) files) = 1) files"

lemma consecutive_append:
  "p \<noteq> [] \<Longrightarrow> consecutive sz (p @ [s]) \<longleftrightarrow> consecutive sz p \<and> walSegmentNext (last p) sz = Inr s"
  by (induction sz p rule: consecutive.induct) auto

lemma gaps_append:
  "gaps sz (ps @ [q]) \<longleftrightarrow> gaps sz ps \<and> (ps = [] \<or> walSegmentNext (last (last ps)) sz \<noteq> Inr (hd q))"
  by (induction sz ps rule: gaps.induct) auto

lemma rangesOf_snoc:
  assumes "rangesOf sz segs ranges" "ranges \<noteq> []"
  obtains qs p rs r where "ranges = rs @ [r]" "concat qs @ p = segs" "list_all2 (rangeOf sz) qs rs" "rangeOf sz p r"
    "gaps sz (qs @ [p])"
proof -
  obtain ps where ps: "concat ps = segs" "list_all2 (rangeOf sz) ps ranges" "gaps sz ps"
    using assms(1) by (auto simp: rangesOf_def)
  obtain rs r where r: "ranges = rs @ [r]" using assms(2) by (metis append_butlast_last_id)
  obtain qs p where "ps = qs @ [p]" "list_all2 (rangeOf sz) qs rs" "rangeOf sz p r"
    using ps(2) unfolding r by (auto simp: list_all2_append2 list_all2_Cons2)
  then show thesis using that r ps by simp
qed

lemma rangesOf_new:
  assumes "rangesOf sz segs ranges" "ranges = [] \<or> walSegmentNext (rangeStop (last ranges)) sz \<noteq> Inr s"
  shows "rangesOf sz (segs @ [s]) (extendRange s True ranges)"
proof (cases "ranges = []")
  case True
  then have "segs = []" using assms(1) by (auto simp: rangesOf_def)
  then show ?thesis using True
    by (auto simp: rangesOf_def extendRange_def rangeOf_def intro!: exI [of _ "[[s]]"])
next
  case False
  obtain qs p rs r where *: "ranges = rs @ [r]" "concat qs @ p = segs" "list_all2 (rangeOf sz) qs rs" "rangeOf sz p r" "gaps sz (qs @ [p])"
    by (rule rangesOf_snoc [OF assms(1) False])
  have "gaps sz (qs @ [p, [s]])" using gaps_append [of sz "qs @ [p]" "[s]"] * assms(2) by (auto simp: rangeOf_def)
  moreover have "list_all2 (rangeOf sz) (qs @ [p, [s]]) (extendRange s True ranges)"
    using * by (auto simp: extendRange_def rangeOf_def intro!: list_all2_appendI)
  ultimately show ?thesis using *(2) unfolding rangesOf_def by (intro exI [of _ "qs @ [p, [s]]"]) auto
qed

lemma rangesOf_extend:
  assumes "rangesOf sz segs ranges" "ranges \<noteq> []" "walSegmentNext (rangeStop (last ranges)) sz = Inr s"
  shows "rangesOf sz (segs @ [s]) (extendRange s False ranges)"
proof -
  obtain qs p rs r where *: "ranges = rs @ [r]" "concat qs @ p = segs" "list_all2 (rangeOf sz) qs rs" "rangeOf sz p r" "gaps sz (qs @ [p])"
    by (rule rangesOf_snoc [OF assms(1,2)])
  have "rangeOf sz (p @ [s]) (r\<lparr>rangeStop := s\<rparr>)"
    using *(1,4) assms(3) by (auto simp: rangeOf_def consecutive_append)
  moreover have "gaps sz (qs @ [p @ [s]])" using *(4,5) by (auto simp: gaps_append rangeOf_def)
  ultimately show ?thesis using * unfolding rangesOf_def
    by (intro exI [of _ "qs @ [p @ [s]]"]) (auto simp: extendRange_def intro!: list_all2_appendI)
qed

text \<open>Segment names with hexadecimal digits, as PostgreSQL makes them.\<close>

definition hexSegment :: "string \<Rightarrow> bool" where
  "hexSegment s \<longleftrightarrow> (\<exists>t a b. s = walSegmentFmt t a b)"

lemma hexSegment_next:
  assumes "hexSegment s"
  obtains n where "walSegmentNext s sz = Inr n" "hexSegment n" "take 8 n = take 8 s" "length n = 24"
proof -
  obtain t a b where s: "s = walSegmentFmt t a b" using assms by (auto simp: hexSegment_def)
  let ?n = "if unat (b + 1) > 4294967295 div sz then walSegmentFmt t (a + 1) 0 else walSegmentFmt t a (b + 1)"
  have "walSegmentNext s sz = Inr ?n" using walSegmentNext_fmt s by simp
  moreover have "hexSegment ?n" by (auto simp: hexSegment_def)
  moreover have "take 8 ?n = take 8 s" "length ?n = 24" by (simp_all add: s wal_simps)
  ultimately show thesis using that by blast
qed

lemma dropWhile_same:
  assumes "sorted (map walSegmentOf (f # fs))"
  shows "dropWhile (\<lambda>g. walSegmentOf f = walSegmentOf g) (f # fs) = filter (\<lambda>g. walSegmentOf f \<noteq> walSegmentOf g) (f # fs)"
  using assms
proof (induction fs)
  case (Cons g gs)
  show ?case
  proof (cases "walSegmentOf f = walSegmentOf g")
    case True
    then show ?thesis using Cons by auto
  next
    case False
    then have "filter (\<lambda>h. walSegmentOf f \<noteq> walSegmentOf h) gs = gs"
      using Cons.prems by (force simp: filter_id_conv)
    then show ?thesis using False by simp
  qed
qed simp

lemma onlyOnce_dup:
  assumes "\<exists>g\<in>set fs. walSegmentOf g = walSegmentOf f"
  shows "onlyOnce (f # fs) = onlyOnce (filter (\<lambda>g. walSegmentOf f \<noteq> walSegmentOf g) (f # fs))"
proof -
  obtain g where g: "g \<in> set fs" "walSegmentOf g = walSegmentOf f" using assms by blast
  have twice: "length (filter (\<lambda>g. walSegmentOf g = walSegmentOf h) (f # fs)) \<noteq> 1" if "walSegmentOf h = walSegmentOf f" for h
  proof -
    have "g \<in> set (filter (\<lambda>g. walSegmentOf g = walSegmentOf h) fs)" using g that by simp
    then have "0 < length (filter (\<lambda>g. walSegmentOf g = walSegmentOf h) fs)" by (metis length_pos_if_in_set)
    then show ?thesis using that by simp
  qed
  have same: "length (filter (\<lambda>g. walSegmentOf g = walSegmentOf h) (filter (\<lambda>g. walSegmentOf f \<noteq> walSegmentOf g) (f # fs))) =
      length (filter (\<lambda>g. walSegmentOf g = walSegmentOf h) (f # fs))" if "walSegmentOf h \<noteq> walSegmentOf f" for h
    using that by (auto simp: filter_filter intro!: arg_cong [where f = length] filter_cong)
  let ?once = "\<lambda>files h. length (filter (\<lambda>g. walSegmentOf g = walSegmentOf h) files) = 1"
  have "?once (f # fs) h \<longleftrightarrow> walSegmentOf f \<noteq> walSegmentOf h \<and> ?once (filter (\<lambda>g. walSegmentOf f \<noteq> walSegmentOf g) (f # fs)) h" for h
    using twice [of h] same [of h] by (cases "walSegmentOf h = walSegmentOf f") (simp_all del: filter.simps)
  then show ?thesis unfolding onlyOnce_def filter_filter [of _ _ "f # fs"]
    by (intro filter_cong [OF refl]) blast
qed

lemma onlyOnce_single:
  assumes "\<forall>g\<in>set fs. walSegmentOf g \<noteq> walSegmentOf f"
  shows "onlyOnce (f # fs) = f # onlyOnce fs"
proof -
  have 1: "filter (\<lambda>g. walSegmentOf g = walSegmentOf f) fs = []" using assms by (simp add: filter_empty_conv)
  have "filter (\<lambda>h. length (filter (\<lambda>g. walSegmentOf g = walSegmentOf h) (f # fs)) = 1) fs = onlyOnce fs"
    unfolding onlyOnce_def by (rule filter_cong [OF refl]) (use assms in auto)
  then show ?thesis unfolding onlyOnce_def using 1 by simp
qed

definition duplicates :: "string list \<Rightarrow> string set" where
  "duplicates files = walSegmentOf ` (set files - set (onlyOnce files))"

lemma duplicates_step:
  "\<exists>g\<in>set fs. walSegmentOf g = walSegmentOf f \<Longrightarrow>
    duplicates (f # fs) = insert (walSegmentOf f) (duplicates (filter (\<lambda>g. walSegmentOf f \<noteq> walSegmentOf g) (f # fs)))"
  "\<forall>g\<in>set fs. walSegmentOf g \<noteq> walSegmentOf f \<Longrightarrow> duplicates (f # fs) = duplicates fs"
proof -
  assume dup: "\<exists>g\<in>set fs. walSegmentOf g = walSegmentOf f"
  let ?fs = "filter (\<lambda>g. walSegmentOf f \<noteq> walSegmentOf g) (f # fs)"
  have sub: "set (onlyOnce ?fs) \<subseteq> set ?fs" by (auto simp: onlyOnce_def)
  show "duplicates (f # fs) = insert (walSegmentOf f) (duplicates ?fs)"
    unfolding duplicates_def onlyOnce_dup [OF dup] using sub by auto
next
  assume "\<forall>g\<in>set fs. walSegmentOf g \<noteq> walSegmentOf f"
  moreover from this have "f \<notin> set fs" by blast
  ultimately show "duplicates (f # fs) = duplicates fs" by (auto simp: duplicates_def onlyOnce_single)
qed

lemma sorted_dup_iff:
  assumes "sorted (map walSegmentOf (f # fs))"
  shows "(\<exists>g\<in>set fs. walSegmentOf g = walSegmentOf f) \<longleftrightarrow> fs \<noteq> [] \<and> walSegmentOf f = walSegmentOf (hd fs)"
proof (cases fs)
  case (Cons g gs)
  have "walSegmentOf f = walSegmentOf g" if "h \<in> set fs" "walSegmentOf h = walSegmentOf f" for h
    using assms that Cons by (auto intro: antisym)
  then show ?thesis using Cons by auto
qed simp

definition rangeReady :: "nat \<Rightarrow> bool \<Rightarrow> VerifyWalRange list \<Rightarrow> string list \<Rightarrow> bool" where
  "rangeReady sz cur ranges rest \<longleftrightarrow>
    (if cur then ranges \<noteq> [] \<and> hexSegment (rangeStop (last ranges))
     else ranges = [] \<or> (\<forall>f\<in>set rest. walSegmentNext (rangeStop (last ranges)) sz \<noteq> Inr (walSegmentOf f)))"

lemma startsRange_extends:
  assumes "rangeReady sz cur ranges (f # fs)" "rangesOf sz segs ranges" "hexSegment (walSegmentOf f)"
  shows "\<exists>new. startsRange sz cur ranges (walSegmentOf f) = Inr new \<and>
    rangesOf sz (segs @ [walSegmentOf f]) (extendRange (walSegmentOf f) new ranges) \<and>
    rangeReady sz True (extendRange (walSegmentOf f) new ranges) fs"
proof (cases cur)
  case False
  then have "startsRange sz cur ranges (walSegmentOf f) = Inr True" by (simp add: startsRange_def)
  moreover have "rangesOf sz (segs @ [walSegmentOf f]) (extendRange (walSegmentOf f) True ranges)"
    by (rule rangesOf_new [OF assms(2)]) (use assms(1) False in \<open>auto simp: rangeReady_def\<close>)
  moreover have "rangeReady sz True (extendRange (walSegmentOf f) True ranges) fs"
    using assms(3) by (simp add: rangeReady_def extendRange_def)
  ultimately show ?thesis by blast
next
  case True
  then obtain n where n: "walSegmentNext (rangeStop (last ranges)) sz = Inr n" "ranges \<noteq> []"
    using assms(1) hexSegment_next [of "rangeStop (last ranges)" sz] by (auto simp: rangeReady_def)
  have starts: "startsRange sz cur ranges (walSegmentOf f) = Inr (n \<noteq> walSegmentOf f)" using True n(1) by (simp add: startsRange_def)
  have "rangesOf sz (segs @ [walSegmentOf f]) (extendRange (walSegmentOf f) (n \<noteq> walSegmentOf f) ranges)"
    using rangesOf_new [OF assms(2)] rangesOf_extend [OF assms(2) n(2)] n(1) by (cases "n = walSegmentOf f") simp_all
  moreover have "rangeReady sz True (extendRange (walSegmentOf f) (n \<noteq> walSegmentOf f) ranges) fs"
    using assms(3) by (simp add: rangeReady_def extendRange_def)
  ultimately show ?thesis using starts by blast
qed

lemma verifyCreateArchiveIdRange_loop_correct:
  assumes "sorted (map walSegmentOf rest)" "\<forall>f\<in>set rest. hexSegment (walSegmentOf f)"
    and "rangeReady sz cur ranges rest" "rangesOf sz segs ranges"
  shows "\<exists>ranges'. verifyCreateArchiveIdRange_loop sz cur ranges kept rest err =
      Inr (ranges', kept @ onlyOnce rest, err + card (duplicates rest)) \<and>
    rangesOf sz (segs @ map walSegmentOf (onlyOnce rest)) ranges'"
  using assms
proof (induction sz cur ranges kept rest err arbitrary: segs rule: verifyCreateArchiveIdRange_loop.induct)
  case (1 sz cur ranges kept err)
  then show ?case by (simp add: onlyOnce_def duplicates_def)
next
  case (2 sz cur ranges kept f fs err)
  show ?case
  proof (cases "fs \<noteq> [] \<and> walSegmentOf f = walSegmentOf (hd fs)")
    case True
    have dup: "\<exists>g\<in>set fs. walSegmentOf g = walSegmentOf f" using sorted_dup_iff [OF 2(3)] True by blast
    let ?fs = "filter (\<lambda>g. walSegmentOf f \<noteq> walSegmentOf g) (f # fs)"
    have drop: "dropWhile (\<lambda>g. walSegmentOf f = walSegmentOf g) (f # fs) = ?fs" by (rule dropWhile_same [OF 2(3)])
    have "walSegmentOf f \<notin> duplicates ?fs" by (auto simp: duplicates_def)
    then have card: "card (duplicates (f # fs)) = Suc (card (duplicates ?fs))"
      using duplicates_step(1) [OF dup] by (simp add: duplicates_def)
    have "sorted (map walSegmentOf ?fs)" by (rule sorted_filter [OF 2(3)])
    moreover have "rangeReady sz cur ranges ?fs" using 2(5) by (auto simp: rangeReady_def split: if_splits)
    ultimately obtain ranges' where
      "verifyCreateArchiveIdRange_loop sz cur ranges kept ?fs (err + 1) = Inr (ranges', kept @ onlyOnce ?fs, err + 1 + card (duplicates ?fs))"
      "rangesOf sz (segs @ map walSegmentOf (onlyOnce ?fs)) ranges'"
      using 2(1) [OF True, of segs] 2(4,6) unfolding drop by auto
    then show ?thesis using True drop onlyOnce_dup [OF dup] card by (auto simp: add.assoc)
  next
    case False
    have single: "\<forall>g\<in>set fs. walSegmentOf g \<noteq> walSegmentOf f" using sorted_dup_iff [OF 2(3)] False by blast
    obtain new where new: "startsRange sz cur ranges (walSegmentOf f) = Inr new"
      "rangesOf sz (segs @ [walSegmentOf f]) (extendRange (walSegmentOf f) new ranges)"
      "rangeReady sz True (extendRange (walSegmentOf f) new ranges) fs"
      using startsRange_extends [OF 2(5,6)] 2(4) by auto
    show ?thesis using 2(2) [OF False new(1) _ _ new(3,2)] 2(3,4) new(1) False
      by (auto simp: onlyOnce_single [OF single] duplicates_step(2) [OF single])
  qed
qed

lemma sorted_bounds:
  assumes "sorted xs" "x \<in> set xs"
  shows "hd xs \<le> x" "x \<le> last xs"
  using assms by (induction xs) auto

text \<open>A segment of the archive is in the range that an invalid file of it is added to.\<close>

lemma verifyAddInvalidWalFile_range:
  assumes "list_all2 (rangeOf sz) ps ranges" "sorted (concat ps)" "distinct (concat ps)" "s \<in> set (concat ps)"
  shows "\<exists>i<length ranges. s \<in> set (ps ! i) \<and> rangeStart (ranges ! i) \<le> s \<and> s \<le> rangeStop (ranges ! i) \<and>
    verifyAddInvalidWalFile ranges r f s =
      ranges[i := (ranges ! i)\<lparr>rangeInvalid := rangeInvalid (ranges ! i) @ [\<lparr>invalidFileName = f, invalidReason = r\<rparr>]\<rparr>]"
  using assms
proof (induction rule: list_all2_induct)
  case (Cons p ps q ranges)
  have q: "p \<noteq> []" "rangeStart q = hd p" "rangeStop q = last p" using Cons.hyps(1) by (auto simp: rangeOf_def)
  show ?case
  proof (cases "s \<in> set p")
    case True
    have "sorted p" using Cons.prems(1) by (simp add: sorted_append)
    then show ?thesis using True q sorted_bounds [of p s]
      by (intro exI [of _ 0]) (simp add: verifyInvalidFileAdd_def)
  next
    case False
    then have "s \<in> set (concat ps)" using Cons.prems(3) by simp
    moreover from this have "last p \<le> s" "last p \<noteq> s" using Cons.prems(1) q(1) False by (auto simp: sorted_append)
    ultimately obtain i where "i < length ranges" "s \<in> set (ps ! i)" "rangeStart (ranges ! i) \<le> s" "s \<le> rangeStop (ranges ! i)"
      "verifyAddInvalidWalFile ranges r f s =
        ranges[i := (ranges ! i)\<lparr>rangeInvalid := rangeInvalid (ranges ! i) @ [\<lparr>invalidFileName = f, invalidReason = r\<rparr>]\<rparr>]"
      using Cons.IH Cons.prems by (auto simp: sorted_append)
    then show ?thesis using \<open>last p \<le> s\<close> \<open>last p \<noteq> s\<close> q by (intro exI [of _ "Suc i"]) simp
  qed
qed simp

section \<open>Properties\<close>

lemma gap_other_timeline:
  assumes "hexSegment stop" "take 8 stop \<noteq> take 8 s"
  shows "walSegmentNext stop sz \<noteq> Inr s"
proof -
  obtain n where "walSegmentNext stop sz = Inr n" "take 8 n = take 8 stop" by (rule hexSegment_next [OF assms(1)]) auto
  then show ?thesis using assms(2) by auto
qed

text \<open>
  C21: For the sorted files of one WAL path, the files of segments that are there more than once are taken off the list and
  counted as one error per segment, and the ranges are extended to the ranges of consecutive segments of everything
  seen so far: in a range each segment is followed by the next one, between two ranges there is a gap, and together
  they are exactly the segments in order.
\<close>

theorem verifyCreateArchiveIdRange_correct:
  assumes "sorted (map walSegmentOf files)" "files \<noteq> []" "\<forall>f\<in>set files. hexSegment (walSegmentOf f)"
    and "\<forall>f\<in>set files. take 8 (walSegmentOf f) = take 8 (walSegmentOf (hd files))"
    and "rangesOf sz segs ranges" "ranges \<noteq> [] \<longrightarrow> hexSegment (rangeStop (last ranges))"
  shows "\<exists>ranges'. verifyCreateArchiveIdRange sz ranges files err =
      Inr (ranges', onlyOnce files, err + card (duplicates files)) \<and>
    rangesOf sz (segs @ map walSegmentOf (onlyOnce files)) ranges'"
proof -
  let ?cur = "ranges \<noteq> [] \<and> take 8 (rangeStop (last ranges)) = take 8 (walSegmentOf (hd files))"
  have "walSegmentNext (rangeStop (last ranges)) sz \<noteq> Inr (walSegmentOf f)" if "\<not> ?cur" "ranges \<noteq> []" "f \<in> set files" for f
    by (rule gap_other_timeline) (use that assms(4,6) in auto)
  then have "rangeReady sz ?cur ranges files" using assms(6) by (auto simp: rangeReady_def)
  from verifyCreateArchiveIdRange_loop_correct [OF assms(1,3) this assms(5), of "[]" err] show ?thesis
    unfolding verifyCreateArchiveIdRange_def by simp
qed

theorem verifyCreateArchiveIdRange_correct_witness:
  "\<exists>ranges. verifyCreateArchiveIdRange 0x1000000 [] [walSegmentFmt 1 0 1 @ ''-a'', walSegmentFmt 1 0 2 @ ''-a'', walSegmentFmt 1 0 2 @ ''-b'',
      walSegmentFmt 1 0 3 @ ''-a''] 0 = Inr (ranges, [walSegmentFmt 1 0 1 @ ''-a'', walSegmentFmt 1 0 3 @ ''-a''], 1) \<and>
    rangesOf 0x1000000 [walSegmentFmt 1 0 1, walSegmentFmt 1 0 3] ranges"
proof -
  let ?files = "[walSegmentFmt 1 0 1 @ ''-a'', walSegmentFmt 1 0 2 @ ''-a'', walSegmentFmt 1 0 2 @ ''-b'', walSegmentFmt 1 0 3 @ ''-a'']"
  have names: "walSegmentFmt 1 0 1 = ''000000010000000000000001''" "walSegmentFmt 1 0 2 = ''000000010000000000000002''"
    "walSegmentFmt 1 0 3 = ''000000010000000000000003''" by code_simp+
  have once: "onlyOnce ?files = [walSegmentFmt 1 0 1 @ ''-a'', walSegmentFmt 1 0 3 @ ''-a'']"
    by (simp add: onlyOnce_def walSegmentOf_def names)
  then have "duplicates ?files = walSegmentOf ` {walSegmentFmt 1 0 2 @ ''-a'', walSegmentFmt 1 0 2 @ ''-b''}"
    unfolding duplicates_def by (intro arg_cong [where f = "image walSegmentOf"]) (auto simp: names)
  then have "duplicates ?files = {walSegmentFmt 1 0 2}" by (simp add: walSegmentOf_def wal_simps)
  moreover have "sorted (map walSegmentOf ?files)" by (simp add: walSegmentOf_def names)
  moreover have "\<forall>f\<in>set ?files. hexSegment (walSegmentOf f)"
    by (auto simp: hexSegment_def walSegmentOf_def wal_simps)
  moreover have "rangesOf 0x1000000 [] []" by (auto simp: rangesOf_def)
  ultimately show ?thesis
    using verifyCreateArchiveIdRange_correct [where files = ?files and sz = "0x1000000" and segs = "[]" and ranges = "[]" and err = 0] once by (simp add: walSegmentOf_def wal_simps)
qed

text \<open>
  A WAL file that fails verification is added to the list of invalid files of exactly the range that has its segment, and
  no other range changes.
\<close>

theorem verifyAddInvalidWalFile_correct:
  assumes "rangesOf sz segs ranges" "sorted segs" "distinct segs" "s \<in> set segs"
  shows "\<exists>i p. i < length ranges \<and> rangeOf sz p (ranges ! i) \<and> s \<in> set p \<and> set p \<subseteq> set segs \<and>
    verifyAddInvalidWalFile ranges r f s =
      ranges[i := (ranges ! i)\<lparr>rangeInvalid := rangeInvalid (ranges ! i) @ [\<lparr>invalidFileName = f, invalidReason = r\<rparr>]\<rparr>]"
proof -
  obtain ps where ps: "concat ps = segs" "list_all2 (rangeOf sz) ps ranges" using assms(1) by (auto simp: rangesOf_def)
  obtain i where i: "i < length ranges" "s \<in> set (ps ! i)" "verifyAddInvalidWalFile ranges r f s =
      ranges[i := (ranges ! i)\<lparr>rangeInvalid := rangeInvalid (ranges ! i) @ [\<lparr>invalidFileName = f, invalidReason = r\<rparr>]\<rparr>]"
    using verifyAddInvalidWalFile_range [OF ps(2)] assms(2-4) ps(1) by blast
  moreover have "rangeOf sz (ps ! i) (ranges ! i)" using list_all2_nthD2 [OF ps(2) i(1)] .
  moreover have "ps ! i \<in> set ps" using i(1) list_all2_lengthD [OF ps(2)] by simp
  then have "set (ps ! i) \<subseteq> set segs" using ps(1) by auto
  ultimately show ?thesis by blast
qed

theorem verifyAddInvalidWalFile_correct_witness:
  "\<exists>i p. i < length [\<lparr>rangeStop = ''a'', rangeStart = ''a'', rangeInvalid = []\<rparr>] \<and> ''a'' \<in> set p \<and>
    verifyAddInvalidWalFile [\<lparr>rangeStop = ''a'', rangeStart = ''a'', rangeInvalid = []\<rparr>] verifyChecksumMismatch ''a-x'' ''a'' =
      [\<lparr>rangeStop = ''a'', rangeStart = ''a'', rangeInvalid = []\<rparr>][i := \<lparr>rangeStop = ''a'', rangeStart = ''a'',
        rangeInvalid = [\<lparr>invalidFileName = ''a-x'', invalidReason = verifyChecksumMismatch\<rparr>]\<rparr>]"
proof -
  have "rangesOf 1 [''a''] [\<lparr>rangeStop = ''a'', rangeStart = ''a'', rangeInvalid = []\<rparr>]"
    by (auto simp: rangesOf_def rangeOf_def intro!: exI [of _ "[[''a'']]"])
  from verifyAddInvalidWalFile_correct [OF this, of "''a''" verifyChecksumMismatch "''a-x''"] show ?thesis by auto
qed

end
