(* ===== verification/VerifyFile.thy ===== *)
theory VerifyFile
  imports VerifyRange Encode InfoArchive PackRoundTrip
begin

text \<open>
  Verification of one file (\<^verbatim>\<open>src/src/command/verify/file.c\<close>), as a worker does it for a message of the main process
  (\<^verbatim>\<open>src/src/command/verify/protocol.c\<close>), and the message (\<^verbatim>\<open>verifyArchive\<close> and \<^verbatim>\<open>verifyBackup\<close> of
  \<^verbatim>\<open>src/src/command/verify/verify.c\<close>).

  Decryption (OpenSSL), decompression (the compression libraries), the hash, the bytes of an info file and the parser of
  the header of a WAL file (\<^verbatim>\<open>postgres/interface\<close>, with the tables that the build generates) are parameters.
\<close>

section \<open>Paths\<close>

definition STORAGE_REPO_ARCHIVE :: string where
  "STORAGE_REPO_ARCHIVE = ''<REPO:ARCHIVE>''"

definition STORAGE_REPO_BACKUP :: string where
  "STORAGE_REPO_BACKUP = ''<REPO:BACKUP>''"

text \<open>
  \<^verbatim>\<open>storageRepoPathExpression\<close> below the path of the stanza, which is the root of the model: a path below the archive that has
  only the archive id and the WAL file gets the directory of the segment.
\<close>

definition repoPathExpression :: "string \<Rightarrow> string list \<Rightarrow> path res" where
  "repoPathExpression expression pathSplit =
    (if expression = STORAGE_REPO_ARCHIVE then
       case pathSplit of
         [archiveId, file] \<Rightarrow>
           if regExpMatch (RTimes 24 (RRng CHR ''0'' CHR ''F'')) file then Inr (REPO_ARCHIVE @ [archiveId, take 16 file, file])
           else Inr (REPO_ARCHIVE @ pathSplit)
       | _ \<Rightarrow> Inr (REPO_ARCHIVE @ pathSplit)
     else if expression = STORAGE_REPO_BACKUP then Inr (REPO_BACKUP @ pathSplit)
     else Inl AssertError)"

definition repoPath :: "string \<Rightarrow> path res" where
  "repoPath s = (case split_char CHR ''/'' s of [] \<Rightarrow> Inl AssertError | expression # pathSplit \<Rightarrow> repoPathExpression expression pathSplit)"

section \<open>The file\<close>

record VerifyEnv =
  envRepo :: repo
  envBytes :: "content \<Rightarrow> byte list"
  envDecrypt :: "string \<Rightarrow> byte list \<Rightarrow> (byte list) res"
  envDecompress :: "CompressType \<Rightarrow> byte list \<Rightarrow> (byte list) res"
  envSha1 :: "byte list \<Rightarrow> byte list"
  envWalInfo :: "path \<Rightarrow> string option \<Rightarrow> (nat \<times> u32) res"

definition contentBytes :: "VerifyEnv \<Rightarrow> content \<Rightarrow> byte list" where
  "contentBytes env c = (case c of FData s \<Rightarrow> map byte_of_char s | _ \<Rightarrow> envBytes env c)"

definition readPart :: "u64 \<Rightarrow> u64 option \<Rightarrow> byte list \<Rightarrow> byte list" where
  "readPart offset limit bytes =
    (case limit of None \<Rightarrow> drop (unat offset) bytes | Some l \<Rightarrow> take (unat l) (drop (unat offset) bytes))"

definition verifyFile ::
  "VerifyEnv \<Rightarrow> string \<Rightarrow> u64 \<Rightarrow> u64 option \<Rightarrow> CompressType \<Rightarrow> byte list \<Rightarrow> u64 \<Rightarrow> string option \<Rightarrow> VerifyResult res" where
  "verifyFile env filePathName offset limit compressType fileChecksum sz cipherPass =
    bindR (repoPath filePathName) (\<lambda>p.
      case storageContent (envRepo env) p of
        None \<Rightarrow> Inr verifyFileMissing
      | Some c \<Rightarrow>
          let bytes = readPart offset limit (contentBytes env c)
          in bindR (case cipherPass of None \<Rightarrow> Inr bytes | Some pass \<Rightarrow> envDecrypt env pass bytes) (\<lambda>bytes.
             bindR (if compressType \<noteq> compressTypeNone then envDecompress env compressType bytes else Inr bytes) (\<lambda>bytes.
               Inr (if fileChecksum \<noteq> envSha1 env bytes then verifyChecksumMismatch
                    else if sz \<noteq> of_nat (length bytes) then verifySizeInvalid
                    else verifyOk))))"

section \<open>The message\<close>

text \<open>Offset and size are sent for a file that is part of a bundle.\<close>

record VerifyParam =
  paramFilePathName :: string
  paramBundle :: "(u64 \<times> u64) option"
  paramCompressType :: CompressType
  paramChecksum :: "byte list"
  paramSize :: u64
  paramCipherPass :: "string option"

definition compressTypeNum :: "CompressType \<Rightarrow> u32" where
  "compressTypeNum t =
    (case t of compressTypeNone \<Rightarrow> 0 | compressTypeBz2 \<Rightarrow> 1 | compressTypeGz \<Rightarrow> 2 | compressTypeLz4 \<Rightarrow> 3 | compressTypeZst \<Rightarrow> 4 | compressTypeXz \<Rightarrow> 5)"

definition verifyFileParam :: "VerifyParam \<Rightarrow> (byte list) res" where
  "verifyFileParam p =
    bindR (pckWriteStr (pckWriteNew 1024) (Some (paramFilePathName p)) 0 False None) (\<lambda>pw.
    bindR (case paramBundle p of
             None \<Rightarrow> pckWriteBool pw False 0 False False
           | Some (offset, sz) \<Rightarrow>
               bindR (pckWriteBool pw True 0 False False) (\<lambda>pw.
               bindR (pckWriteU64 pw offset 0 False 0) (\<lambda>pw. pckWriteU64 pw sz 0 False 0))) (\<lambda>pw.
    bindR (pckWriteU32 pw (compressTypeNum (paramCompressType p)) 0 False 0) (\<lambda>pw.
    bindR (pckWriteBin pw (Some (paramChecksum p)) 0) (\<lambda>pw.
    bindR (pckWriteU64 pw (paramSize p) 0 False 0) (\<lambda>pw.
    bindR (pckWriteStr pw (paramCipherPass p) 0 False None) (\<lambda>pw.
    bindR (pckWriteEnd pw) (\<lambda>pw. Inr (pckWriteResult pw))))))))"

definition verifyResultNum :: "VerifyResult \<Rightarrow> u32" where
  "verifyResultNum r =
    (case r of verifyOk \<Rightarrow> 0 | verifyFileMissing \<Rightarrow> 1 | verifyChecksumMismatch \<Rightarrow> 2 | verifySizeInvalid \<Rightarrow> 3 | verifyOtherError \<Rightarrow> 4)"

text \<open>A number that is not a compression type is an index outside of the table of the filters.\<close>

definition compressTypeOf :: "u32 \<Rightarrow> CompressType res" where
  "compressTypeOf n = (case find (\<lambda>t. compressTypeNum t = n) compressTypes of None \<Rightarrow> Inl UndefinedBehavior | Some t \<Rightarrow> Inr t)"

definition notNull :: "'a option \<Rightarrow> 'a res" where
  "notNull v = (case v of None \<Rightarrow> Inl UndefinedBehavior | Some x \<Rightarrow> Inr x)"

definition verifyFileProtocol :: "VerifyEnv \<Rightarrow> byte list \<Rightarrow> u32 res" where
  "verifyFileProtocol env param =
    bindR (pckReadStr (pckReadNewC param) 0 None) (\<lambda>(filePathName, r).
    bindR (pckReadBool r 0 False) (\<lambda>(bundle, r).
    bindR (if bundle then
             bindR (pckReadU64 r 0 0) (\<lambda>(offset, r). bindR (pckReadU64 r 0 0) (\<lambda>(limit, r). Inr (offset, Some limit, r)))
           else Inr (0, None, r)) (\<lambda>(offset, limit, r).
    bindR (pckReadU32 r 0 0) (\<lambda>(compressType, r).
    bindR (pckReadBin r 0) (\<lambda>(fileChecksum, r).
    bindR (pckReadU64 r 0 0) (\<lambda>(sz, r).
    bindR (pckReadStr r 0 None) (\<lambda>(cipherPass, r).
    bindR (notNull filePathName) (\<lambda>filePathName.
    bindR (compressTypeOf compressType) (\<lambda>compressType.
    bindR (notNull fileChecksum) (\<lambda>fileChecksum.
    bindR (verifyFile env filePathName offset limit compressType fileChecksum sz cipherPass) (\<lambda>result.
      Inr (verifyResultNum result))))))))))))"

section \<open>The worker gets what was sent\<close>

definition verifyFileOf :: "VerifyEnv \<Rightarrow> VerifyParam \<Rightarrow> VerifyResult res" where
  "verifyFileOf env p =
    verifyFile env (paramFilePathName p) (case paramBundle p of None \<Rightarrow> 0 | Some (offset, sz) \<Rightarrow> offset)
      (case paramBundle p of None \<Rightarrow> None | Some (offset, sz) \<Rightarrow> Some sz)
      (paramCompressType p) (paramChecksum p) (paramSize p) (paramCipherPass p)"

definition paramOk :: "VerifyParam \<Rightarrow> bool" where
  "paramOk p \<longleftrightarrow> length (paramFilePathName p) < 2 ^ 64 \<and> length (paramChecksum p) < 2 ^ 64 \<and>
    (case paramCipherPass p of None \<Rightarrow> True | Some s \<Rightarrow> length s < 2 ^ 64)"

definition paramFields :: "VerifyParam \<Rightarrow> field list" where
  "paramFields p =
    Leaf (LStr (Some (paramFilePathName p)) False None) #
    (case paramBundle p of
       None \<Rightarrow> [Leaf (LBool False False False)]
     | Some (offset, sz) \<Rightarrow> [Leaf (LBool True False False), Leaf (LU64 offset False 0), Leaf (LU64 sz False 0)]) @
    [Leaf (LU32 (compressTypeNum (paramCompressType p)) False 0), Leaf (LBin (Some (paramChecksum p))), Leaf (LU64 (paramSize p) False 0),
     Leaf (LStr (paramCipherPass p) False None)]"

lemma paramFields_ok: "paramOk p \<Longrightarrow> fieldsOk (paramFields p) \<and> length (paramFields p) < 2 ^ 32 - 2"
  by (auto simp: paramFields_def paramOk_def split: option.splits)

lemma verifyFileParam_fields: "verifyFileParam p = bindR (writePack (pckWriteNew 1024) (paramFields p)) (\<lambda>pw. Inr (pckWriteResult pw))"
  by (auto simp: verifyFileParam_def paramFields_def writePack_def bindR_def split: option.splits sum.splits)

lemma readPack_paramFields:
  assumes "paramOk p"
  shows "\<exists>bytes r. verifyFileParam p = Inr bytes \<and> readFields (paramFields p) (pckReadNewC bytes) = Inr (paramFields p, r)"
proof -
  obtain pw where pw: "writePack (pckWriteNew 1024) (paramFields p) = Inr pw" "pckWriteResult pw = enc 0 (paramFields p)"
    using writePack_bytes(1) paramFields_ok [OF assms] by blast
  have "\<exists>r. readPack (paramFields p) (pckReadNewC (enc 0 (paramFields p))) = Inr (paramFields p, r) \<and> packRest r = []"
    by (rule readPack_enc) (use paramFields_ok [OF assms] in \<open>simp_all add: pckReadNewC_def pckReadNewInternal_def readyIo_def\<close>)
  then show ?thesis using pw by (auto simp: verifyFileParam_fields readPack_def bindR_Inr_iff)
qed

lemma compressTypeOf_num [simp]: "compressTypeOf (compressTypeNum t) = Inr t"
  by (cases t) (simp_all add: compressTypeOf_def compressTypes_def compressTypeNum_def)

lemma verifyFileProtocol_param:
  assumes "paramOk p"
  shows "\<exists>bytes. verifyFileParam p = Inr bytes \<and>
    verifyFileProtocol env bytes = bindR (verifyFileOf env p) (\<lambda>result. Inr (verifyResultNum result))"
proof -
  obtain bytes r where *: "verifyFileParam p = Inr bytes" "readFields (paramFields p) (pckReadNewC bytes) = Inr (paramFields p, r)"
    using readPack_paramFields [OF assms] by blast
  have "verifyFileProtocol env bytes = bindR (verifyFileOf env p) (\<lambda>result. Inr (verifyResultNum result))"
    using *(2) by (cases "paramBundle p")
      (auto simp: paramFields_def bindR_Inr_iff gets_def verifyFileProtocol_def verifyFileOf_def notNull_def)
  then show ?thesis using *(1) by blast
qed

end
