(* ===== verification/Parallel.thy ===== *)
theory Parallel
  imports Prelude "HOL-Library.Multiset"
begin

text \<open>
  The parallel executor (\<^verbatim>\<open>src/src/protocol/parallel.c\<close>, \<^verbatim>\<open>src/src/protocol/parallelJob.c\<close>): jobs come from a callback of the
  command, run one at a time on each of a fixed number of clients, and their results are handled by the command.

  Which clients have answered in a call of \<^verbatim>\<open>protocolParallelProcess\<close> is what \<^verbatim>\<open>select\<close> says, so a run has a list of
  these sets as its schedule.  A client whose callback had no more jobs is freed; sending a job to it after that is
  \<open>UndefinedBehavior\<close>.
\<close>

section \<open>Jobs\<close>

datatype ProtocolParallelJobState = protocolParallelJobStatePending | protocolParallelJobStateRunning | protocolParallelJobStateDone

text \<open>\<open>ppJob\<close> is the key, command and parameter that the job was created with; \<open>ppResult\<close> the answer or the error.\<close>

record ('j, 'r) ProtocolParallelJob =
  ppJob :: 'j
  ppProcessId :: nat
  ppState :: ProtocolParallelJobState
  ppResult :: "'r option"

definition protocolParallelJobNew :: "'j \<Rightarrow> ('j, 'r) ProtocolParallelJob" where
  "protocolParallelJobNew j = \<lparr>ppJob = j, ppProcessId = 0, ppState = protocolParallelJobStatePending, ppResult = None\<rparr>"

definition protocolParallelJobStateSet ::
  "('j, 'r) ProtocolParallelJob \<Rightarrow> ProtocolParallelJobState \<Rightarrow> (('j, 'r) ProtocolParallelJob) res" where
  "protocolParallelJobStateSet this state =
    (if ppState this = protocolParallelJobStatePending \<and> state = protocolParallelJobStateRunning \<or>
        ppState this = protocolParallelJobStateRunning \<and> state = protocolParallelJobStateDone
     then Inr (this\<lparr>ppState := state\<rparr>)
     else Inl AssertError)"

section \<open>The executor\<close>

text \<open>
  A client is identified by its position; \<open>clientFreed\<close> says which were freed.  The job of a client in \<^verbatim>\<open>clientJobList\<close> is
  the running job of the job list with its process id.
\<close>

record ('j, 'r) ProtocolParallel =
  clientFreed :: "bool list"
  jobList :: "('j, 'r) ProtocolParallelJob list"
  execState :: ProtocolParallelJobState

definition protocolParallelNew :: "nat \<Rightarrow> ('j, 'r) ProtocolParallel" where
  "protocolParallelNew clientTotal =
    \<lparr>clientFreed = replicate clientTotal False, jobList = [], execState = protocolParallelJobStatePending\<rparr>"

definition clientRunning :: "nat \<Rightarrow> ('j, 'r) ProtocolParallelJob \<Rightarrow> bool" where
  "clientRunning clientIdx job \<longleftrightarrow> ppState job = protocolParallelJobStateRunning \<and> ppProcessId job = clientIdx + 1"

text \<open>The answers of the clients that have answered.\<close>

definition answered :: "nat set \<Rightarrow> ('j, 'r) ProtocolParallelJob \<Rightarrow> bool" where
  "answered ready job \<longleftrightarrow> ppState job = protocolParallelJobStateRunning \<and> ppProcessId job \<in> ready"

definition jobReceive :: "('j \<Rightarrow> 'r) \<Rightarrow> nat set \<Rightarrow> ('j, 'r) ProtocolParallelJob \<Rightarrow> (('j, 'r) ProtocolParallelJob) res" where
  "jobReceive respond ready job =
    (if answered ready job
     then protocolParallelJobStateSet (job\<lparr>ppResult := Some (respond (ppJob job))\<rparr>) protocolParallelJobStateDone
     else Inr job)"

fun jobReceiveAll ::
  "('j \<Rightarrow> 'r) \<Rightarrow> nat set \<Rightarrow> ('j, 'r) ProtocolParallelJob list \<Rightarrow> (('j, 'r) ProtocolParallelJob list) res" where
  "jobReceiveAll respond ready [] = Inr []"
| "jobReceiveAll respond ready (job # jobs) =
    bindR (jobReceive respond ready job) (\<lambda>job. bindR (jobReceiveAll respond ready jobs) (\<lambda>jobs. Inr (job # jobs)))"

definition clientSend :: "('d \<Rightarrow> ('j option \<times> 'd) res) \<Rightarrow> nat \<Rightarrow> ('j, 'r) ProtocolParallel \<times> 'd \<Rightarrow> (('j, 'r) ProtocolParallel \<times> 'd) res" where
  "clientSend callback clientIdx s =
    (case s of (this, callbackData) \<Rightarrow>
      if \<exists>job\<in>set (jobList this). clientRunning clientIdx job then Inr s
      else bindR (callback callbackData) (\<lambda>(job, callbackData).
        case job of
          None \<Rightarrow> Inr (this\<lparr>clientFreed := (clientFreed this)[clientIdx := True]\<rparr>, callbackData)
        | Some j \<Rightarrow>
            if clientFreed this ! clientIdx then Inl UndefinedBehavior
            else bindR (protocolParallelJobStateSet ((protocolParallelJobNew j)\<lparr>ppProcessId := clientIdx + 1\<rparr>) protocolParallelJobStateRunning)
              (\<lambda>job. Inr (this\<lparr>jobList := jobList this @ [job]\<rparr>, callbackData))))"

fun clientSendAll :: "('d \<Rightarrow> ('j option \<times> 'd) res) \<Rightarrow> nat list \<Rightarrow> ('j, 'r) ProtocolParallel \<times> 'd \<Rightarrow> (('j, 'r) ProtocolParallel \<times> 'd) res" where
  "clientSendAll callback [] s = Inr s"
| "clientSendAll callback (clientIdx # clients) s = bindR (clientSend callback clientIdx s) (clientSendAll callback clients)"

definition protocolParallelProcess ::
  "('d \<Rightarrow> ('j option \<times> 'd) res) \<Rightarrow> ('j \<Rightarrow> 'r) \<Rightarrow> nat set \<Rightarrow> ('j, 'r) ProtocolParallel \<Rightarrow> 'd \<Rightarrow> (nat \<times> ('j, 'r) ProtocolParallel \<times> 'd) res" where
  "protocolParallelProcess callback respond ready this callbackData =
    (let this = (if execState this = protocolParallelJobStatePending then this\<lparr>execState := protocolParallelJobStateRunning\<rparr> else this);
         result = length (filter (answered ready) (jobList this))
     in bindR (jobReceiveAll respond ready (jobList this)) (\<lambda>jobs.
          bindR (clientSendAll callback [0..<length (clientFreed this)] (this\<lparr>jobList := jobs\<rparr>, callbackData)) (\<lambda>(this, callbackData).
            Inr (result, this, callbackData))))"

text \<open>The next completed job is taken off the list.\<close>

fun takeDone :: "('j, 'r) ProtocolParallelJob list \<Rightarrow> (('j, 'r) ProtocolParallelJob \<times> ('j, 'r) ProtocolParallelJob list) option" where
  "takeDone [] = None"
| "takeDone (job # jobs) =
    (if ppState job = protocolParallelJobStateDone then Some (job, jobs)
     else map_option (\<lambda>(d, jobs). (d, job # jobs)) (takeDone jobs))"

definition protocolParallelResult :: "('j, 'r) ProtocolParallel \<Rightarrow> (('j, 'r) ProtocolParallelJob \<times> ('j, 'r) ProtocolParallel) option" where
  "protocolParallelResult this = map_option (\<lambda>(job, jobs). (job, this\<lparr>jobList := jobs\<rparr>)) (takeDone (jobList this))"

definition protocolParallelDone :: "('j, 'r) ProtocolParallel \<Rightarrow> bool \<times> ('j, 'r) ProtocolParallel" where
  "protocolParallelDone this =
    (let this =
       (if execState this \<noteq> protocolParallelJobStateDone \<and> jobList this = [] then this\<lparr>execState := protocolParallelJobStateDone\<rparr> else this)
     in (execState this = protocolParallelJobStateDone, this))"

section \<open>The loop of a command\<close>

text \<open>
  The loops around the executor that the commands have: after each call the completed jobs are handled, until there are no
  more jobs.  The value is \<open>None\<close> when the schedule ends before that.
\<close>

fun handleCompleted ::
  "('d \<Rightarrow> 'j \<Rightarrow> 'r \<Rightarrow> 'd res) \<Rightarrow> nat \<Rightarrow> ('j, 'r) ProtocolParallel \<times> 'd \<Rightarrow> (('j, 'r) ProtocolParallel \<times> 'd) res" where
  "handleCompleted handle 0 s = Inr s"
| "handleCompleted handle (Suc completed) (this, d) =
    (case protocolParallelResult this of
       None \<Rightarrow> Inl UndefinedBehavior
     | Some (job, this) \<Rightarrow>
         (case ppResult job of
            None \<Rightarrow> Inl UndefinedBehavior
          | Some r \<Rightarrow> bindR (handle d (ppJob job) r) (\<lambda>d. handleCompleted handle completed (this, d))))"

fun parallelRun ::
  "('d \<Rightarrow> ('j option \<times> 'd) res) \<Rightarrow> ('j \<Rightarrow> 'r) \<Rightarrow> ('d \<Rightarrow> 'j \<Rightarrow> 'r \<Rightarrow> 'd res) \<Rightarrow> nat set list \<Rightarrow> ('j, 'r) ProtocolParallel \<Rightarrow> 'd \<Rightarrow>
    ('d option) res" where
  "parallelRun callback respond handle [] this d = Inr None"
| "parallelRun callback respond handle (ready # schedule) this d =
    bindR (protocolParallelProcess callback respond ready this d) (\<lambda>(completed, this, d).
      bindR (handleCompleted handle completed (this, d)) (\<lambda>(this, d).
        case protocolParallelDone this of (done, this) \<Rightarrow>
          if done then Inr (Some d) else parallelRun callback respond handle schedule this d))"

section \<open>The jobs that are under way\<close>

text \<open>
  What a command can see of the executor: jobs are given out and handled, in any order.  The second component are the jobs
  that were given out and not handled.
\<close>

inductive parallelReach ::
  "('d \<Rightarrow> ('j option \<times> 'd) res) \<Rightarrow> ('j \<Rightarrow> 'r) \<Rightarrow> ('d \<Rightarrow> 'j \<Rightarrow> 'r \<Rightarrow> 'd res) \<Rightarrow> 'd \<Rightarrow> 'd \<times> 'j multiset \<Rightarrow> bool"
  for callback respond handle d0 where
  start: "parallelReach callback respond handle d0 (d0, {#})"
| idle: "parallelReach callback respond handle d0 (d, R) \<Longrightarrow> callback d = Inr (None, d') \<Longrightarrow>
    parallelReach callback respond handle d0 (d', R)"
| job: "parallelReach callback respond handle d0 (d, R) \<Longrightarrow> callback d = Inr (Some j, d') \<Longrightarrow>
    parallelReach callback respond handle d0 (d', add_mset j R)"
| handled: "parallelReach callback respond handle d0 (d, add_mset j R) \<Longrightarrow> handle d j (respond j) = Inr d' \<Longrightarrow>
    parallelReach callback respond handle d0 (d', R)"

text \<open>The job list of the executor: jobs that run, and jobs that are done, with their answer.\<close>

definition jobsOf :: "('j, 'r) ProtocolParallel \<Rightarrow> 'j multiset" where
  "jobsOf this = mset (map ppJob (jobList this))"

definition ppJob_ok :: "('j \<Rightarrow> 'r) \<Rightarrow> ('j, 'r) ProtocolParallelJob \<Rightarrow> bool" where
  "ppJob_ok respond job \<longleftrightarrow> ppState job = protocolParallelJobStateRunning \<and> ppProcessId job \<noteq> 0 \<or>
    ppState job = protocolParallelJobStateDone \<and> ppResult job = Some (respond (ppJob job))"

definition doneTotal :: "('j, 'r) ProtocolParallel \<Rightarrow> nat" where
  "doneTotal this = length (filter (\<lambda>job. ppState job = protocolParallelJobStateDone) (jobList this))"

lemma jobReceiveAll_ok:
  assumes "list_all (ppJob_ok respond) jobs"
  shows "\<exists>jobs'. jobReceiveAll respond ready jobs = Inr jobs' \<and> map ppJob jobs' = map ppJob jobs \<and> list_all (ppJob_ok respond) jobs' \<and>
    length (filter (\<lambda>job. ppState job = protocolParallelJobStateDone) jobs') =
      length (filter (\<lambda>job. ppState job = protocolParallelJobStateDone) jobs) + length (filter (answered ready) jobs)"
  using assms
  by (induction jobs) (auto simp: jobReceive_def answered_def ppJob_ok_def protocolParallelJobStateSet_def)

text \<open>What every state of a run has in common: the command is in a reachable state with the jobs of the job list under way.\<close>

definition run_ok :: "('d \<Rightarrow> ('j option \<times> 'd) res) \<Rightarrow> ('j \<Rightarrow> 'r) \<Rightarrow> ('d \<Rightarrow> 'j \<Rightarrow> 'r \<Rightarrow> 'd res) \<Rightarrow> 'd \<Rightarrow> ('j, 'r) ProtocolParallel \<times> 'd \<Rightarrow> bool" where
  "run_ok callback respond handle d0 = (\<lambda>(this, d). list_all (ppJob_ok respond) (jobList this) \<and>
    execState this \<noteq> protocolParallelJobStateDone \<and> parallelReach callback respond handle d0 (d, jobsOf this))"

lemma clientSend_cases:
  assumes "clientSend callback clientIdx (this, d) = Inr s'"
  obtains (busy) job where "job \<in> set (jobList this)" "clientRunning clientIdx job" "s' = (this, d)"
  | (freed) d1 where "\<forall>job\<in>set (jobList this). \<not> clientRunning clientIdx job" "callback d = Inr (None, d1)"
      "s' = (this\<lparr>clientFreed := (clientFreed this)[clientIdx := True]\<rparr>, d1)"
  | (sent) job d1 where "\<forall>job\<in>set (jobList this). \<not> clientRunning clientIdx job" "callback d = Inr (Some (ppJob job), d1)"
      "\<not> clientFreed this ! clientIdx"
      "s' = (this\<lparr>jobList := jobList this @ [job]\<rparr>, d1)" "clientRunning clientIdx job"
proof (cases "\<exists>job\<in>set (jobList this). clientRunning clientIdx job")
  case True
  then show thesis using assms busy by (auto simp: clientSend_def)
next
  case False
  then obtain job d1 where cb: "callback d = Inr (job, d1)" using assms by (auto simp: clientSend_def bindR_Inr_iff)
  show thesis
  proof (cases job)
    case None
    show thesis by (rule freed) (use assms False cb None in \<open>auto simp: clientSend_def\<close>)
  next
    case (Some j)
    show thesis
      by (rule sent [of "(protocolParallelJobNew j)\<lparr>ppProcessId := clientIdx + 1, ppState := protocolParallelJobStateRunning\<rparr>"])
        (use assms False cb Some in \<open>auto simp: clientSend_def clientRunning_def protocolParallelJobStateSet_def protocolParallelJobNew_def
          split: if_splits\<close>)
  qed
qed

lemma clientSend_ok:
  assumes "run_ok callback respond handle d0 s" "clientSend callback clientIdx s = Inr s'"
  shows "run_ok callback respond handle d0 s'" "doneTotal (fst s') = doneTotal (fst s)"
    "length (clientFreed (fst s')) = length (clientFreed (fst s))"
proof -
  obtain this d where s: "s = (this, d)" by (cases s)
  have ok: "list_all (ppJob_ok respond) (jobList this)" "parallelReach callback respond handle d0 (d, jobsOf this)"
    using assms(1) by (auto simp: run_ok_def s)
  have "run_ok callback respond handle d0 s' \<and> doneTotal (fst s') = doneTotal (fst s) \<and>
    length (clientFreed (fst s')) = length (clientFreed (fst s))"
    using assms(2) [unfolded s]
  proof (cases rule: clientSend_cases)
    case freed
    then show ?thesis using ok parallelReach.idle [OF ok(2)] s assms(1) by (simp add: run_ok_def jobsOf_def doneTotal_def)
  next
    case sent
    then show ?thesis using ok parallelReach.job [OF ok(2) sent(2)] s assms(1)
      by (simp add: run_ok_def jobsOf_def doneTotal_def ppJob_ok_def clientRunning_def)
  qed (use assms s in simp)
  then show "run_ok callback respond handle d0 s'" "doneTotal (fst s') = doneTotal (fst s)"
    "length (clientFreed (fst s')) = length (clientFreed (fst s))" by simp_all
qed

lemma clientSendAll_ok:
  assumes "run_ok callback respond handle d0 s" "clientSendAll callback clients s = Inr s'"
  shows "run_ok callback respond handle d0 s' \<and> doneTotal (fst s') = doneTotal (fst s)"
  using assms
proof (induction clients arbitrary: s)
  case (Cons c cs)
  then obtain t where t: "clientSend callback c s = Inr t" "clientSendAll callback cs t = Inr s'" by (auto simp: bindR_Inr_iff)
  show ?case using Cons.IH [OF clientSend_ok(1) [OF Cons.prems(1) t(1)] t(2)] clientSend_ok(2) [OF Cons.prems(1) t(1)] by simp
qed simp

lemma protocolParallelProcess_ok:
  assumes "run_ok callback respond handle d0 (this, d)"
    and "protocolParallelProcess callback respond ready this d = Inr (completed, this', d')"
  shows "run_ok callback respond handle d0 (this', d')" "doneTotal this' = doneTotal this + completed"
proof -
  let ?t = "if execState this = protocolParallelJobStatePending then this\<lparr>execState := protocolParallelJobStateRunning\<rparr> else this"
  have same: "jobList ?t = jobList this" by simp
  obtain jobs where jobs: "jobReceiveAll respond ready (jobList this) = Inr jobs" "map ppJob jobs = map ppJob (jobList this)"
    "list_all (ppJob_ok respond) jobs" "length (filter (\<lambda>job. ppState job = protocolParallelJobStateDone) jobs) =
      doneTotal this + length (filter (answered ready) (jobList this))"
    using jobReceiveAll_ok [of respond "jobList this" ready] assms(1) by (auto simp: run_ok_def doneTotal_def)
  have "run_ok callback respond handle d0 (?t\<lparr>jobList := jobs\<rparr>, d)"
    using assms(1) jobs(3) by (simp add: run_ok_def jobsOf_def jobs(2) del: mset_map)
  moreover have "clientSendAll callback [0..<length (clientFreed this)] (?t\<lparr>jobList := jobs\<rparr>, d) = Inr (this', d')"
    and completed: "completed = length (filter (answered ready) (jobList this))"
    using assms(2) jobs(1) by (auto simp: protocolParallelProcess_def Let_def bindR_Inr_iff)
  ultimately show "run_ok callback respond handle d0 (this', d')" "doneTotal this' = doneTotal this + completed"
    using clientSendAll_ok jobs(4) completed by (fastforce simp: doneTotal_def)+
qed

lemma takeDone_Some:
  "takeDone jobs = Some (job, jobs') \<Longrightarrow> ppState job = protocolParallelJobStateDone \<and> (\<exists>xs ys. jobs = xs @ job # ys \<and> jobs' = xs @ ys)"
proof (induction jobs arbitrary: jobs')
  case (Cons j js)
  show ?case
  proof (cases "ppState j = protocolParallelJobStateDone")
    case True
    then show ?thesis using Cons.prems by (auto intro: exI [of _ "[]"])
  next
    case False
    then obtain js' where "takeDone js = Some (job, js')" "jobs' = j # js'" using Cons.prems by auto
    then show ?thesis using Cons.IH by (metis append_Cons)
  qed
qed simp

lemma handleCompleted_ok:
  assumes "run_ok callback respond handle d0 (this, d)" "handleCompleted handle completed (this, d) = Inr (this', d')"
  shows "run_ok callback respond handle d0 (this', d') \<and> doneTotal this = doneTotal this' + completed"
  using assms
proof (induction completed arbitrary: this d)
  case (Suc completed)
  obtain job jobs r d1 where *: "takeDone (jobList this) = Some (job, jobs)" "ppResult job = Some r" "handle d (ppJob job) r = Inr d1"
    "handleCompleted handle completed (this\<lparr>jobList := jobs\<rparr>, d1) = Inr (this', d')"
    using Suc.prems(2) by (auto simp: protocolParallelResult_def bindR_Inr_iff split: option.splits)
  obtain xs ys where xs: "jobList this = xs @ job # ys" "jobs = xs @ ys" "ppState job = protocolParallelJobStateDone"
    using takeDone_Some [OF *(1)] by blast
  have r: "r = respond (ppJob job)" using Suc.prems(1) xs(1,3) *(2) by (auto simp: run_ok_def ppJob_ok_def)
  have "parallelReach callback respond handle d0 (d, add_mset (ppJob job) (jobsOf (this\<lparr>jobList := jobs\<rparr>)))"
    using Suc.prems(1) xs by (simp add: run_ok_def jobsOf_def)
  from parallelReach.handled [OF this] have "parallelReach callback respond handle d0 (d1, jobsOf (this\<lparr>jobList := jobs\<rparr>))"
    using *(3) r by simp
  then have "run_ok callback respond handle d0 (this\<lparr>jobList := jobs\<rparr>, d1)" using Suc.prems(1) xs by (simp add: run_ok_def)
  from Suc.IH [OF this *(4)] show ?case using xs by (simp add: doneTotal_def)
qed auto

text \<open>A finished run has handled every job that it gave out, once.\<close>

lemma parallelRun_reach:
  assumes "run_ok callback respond handle d0 (this, d)"
    and "parallelRun callback respond handle schedule this d = Inr (Some d')"
  shows "parallelReach callback respond handle d0 (d', {#})"
  using assms
proof (induction schedule arbitrary: this d)
  case (Cons ready schedule)
  obtain completed this1 d1 this2 d2 where *: "protocolParallelProcess callback respond ready this d = Inr (completed, this1, d1)"
    "handleCompleted handle completed (this1, d1) = Inr (this2, d2)"
    and rest: "(case protocolParallelDone this2 of (done, this) \<Rightarrow>
      if done then Inr (Some d2) else parallelRun callback respond handle schedule this d2) = Inr (Some d')"
    using Cons.prems(2) by (auto simp: bindR_Inr_iff)
  have ok: "run_ok callback respond handle d0 (this2, d2)"
    using handleCompleted_ok [OF protocolParallelProcess_ok(1) [OF Cons.prems(1) *(1)] *(2)] by blast
  show ?case
  proof (cases "fst (protocolParallelDone this2)")
    case True
    then have "jobList this2 = []" "d' = d2"
      using ok rest by (auto simp: protocolParallelDone_def run_ok_def Let_def split: if_splits)
    then show ?thesis using ok by (simp add: run_ok_def jobsOf_def)
  next
    case False
    then have "parallelRun callback respond handle schedule this2 d2 = Inr (Some d')"
      using rest by (auto simp: protocolParallelDone_def Let_def split: if_splits)
    then show ?thesis using Cons.IH ok by blast
  qed
qed simp

lemma run_ok_start: "run_ok callback respond handle d0 (protocolParallelNew clientTotal, d0)"
  by (simp add: run_ok_def protocolParallelNew_def jobsOf_def parallelReach.start)

section \<open>What a command promises\<close>

text \<open>
  The contract between a command and the executor.  \<open>Inv\<close> relates the data of the command to the jobs that are under way;
  once the callback had no job, it never has one again, also after results were handled: the executor frees the client then.
\<close>

locale parallel_client =
  fixes callback :: "'d \<Rightarrow> ('j option \<times> 'd) res"
    and respond :: "'j \<Rightarrow> 'r"
    and handle :: "'d \<Rightarrow> 'j \<Rightarrow> 'r \<Rightarrow> 'd res"
    and Inv :: "'d \<Rightarrow> 'j multiset \<Rightarrow> bool"
    and Exhausted :: "'d \<Rightarrow> bool"
  assumes callback_idle: "Inv d R \<Longrightarrow> callback d = Inr (None, d') \<Longrightarrow> Inv d' R \<and> Exhausted d'"
    and callback_job: "Inv d R \<Longrightarrow> callback d = Inr (Some j, d') \<Longrightarrow> Inv d' (add_mset j R)"
    and handle_inv: "Inv d (add_mset j R) \<Longrightarrow> handle d j (respond j) = Inr d' \<Longrightarrow> Inv d' R"
    and handle_exhausted: "Exhausted d \<Longrightarrow> handle d j (respond j) = Inr d' \<Longrightarrow> Exhausted d'"
    and exhausted_callback: "Exhausted d \<Longrightarrow> callback d = Inr (None, d)"
begin

lemma reach_inv:
  assumes "parallelReach callback respond handle d0 s" "Inv d0 {#}"
  shows "Inv (fst s) (snd s)"
  using assms by (induction rule: parallelReach.induct) (auto dest: callback_idle callback_job handle_inv)

definition freed_ok :: "('j, 'r) ProtocolParallel \<times> 'd \<Rightarrow> bool" where
  "freed_ok = (\<lambda>(this, d). \<forall>c<length (clientFreed this). clientFreed this ! c \<longrightarrow> Exhausted d)"

definition client_ok :: "('j, 'r) ProtocolParallel \<Rightarrow> nat \<Rightarrow> bool" where
  "client_ok this c \<longleftrightarrow> clientFreed this ! c \<or> (\<exists>job\<in>set (jobList this). clientRunning c job)"

lemma clientSend_freed:
  assumes "run_ok callback respond handle d0 s" "Inv d0 {#}" "freed_ok s" "clientSend callback clientIdx s = Inr s'"
    and "clientIdx < length (clientFreed (fst s))"
  shows "freed_ok s' \<and> client_ok (fst s') clientIdx \<and> (\<forall>c. client_ok (fst s) c \<longrightarrow> client_ok (fst s') c)"
proof -
  obtain this d where s: "s = (this, d)" by (cases s)
  have inv: "Inv d (jobsOf this)" using reach_inv [of d0 "(d, jobsOf this)"] assms(1,2) by (auto simp: run_ok_def s)
  show ?thesis
    using assms(4) [unfolded s]
  proof (cases rule: clientSend_cases)
    case busy
    then show ?thesis using assms(3) s by (auto simp: client_ok_def)
  next
    case (freed d1)
    have "Exhausted d1" using callback_idle [OF inv freed(2)] by blast
    then show ?thesis using freed s assms(5) by (auto simp: freed_ok_def client_ok_def nth_list_update)
  next
    case (sent job d1)
    have "\<not> Exhausted d" using exhausted_callback [of d] sent(2) by auto
    then show ?thesis using sent s assms(3) by (auto simp: freed_ok_def client_ok_def)
  qed
qed

lemma clientSendAll_freed:
  assumes "run_ok callback respond handle d0 s" "Inv d0 {#}" "freed_ok s" "clientSendAll callback clients s = Inr s'"
    and "\<forall>c\<in>set clients. c < length (clientFreed (fst s))"
  shows "freed_ok s' \<and> length (clientFreed (fst s')) = length (clientFreed (fst s)) \<and> (\<forall>c\<in>set clients. client_ok (fst s') c) \<and>
    (\<forall>c. client_ok (fst s) c \<longrightarrow> client_ok (fst s') c)"
  using assms
proof (induction clients arbitrary: s)
  case (Cons c cs)
  then obtain t where t: "clientSend callback c s = Inr t" "clientSendAll callback cs t = Inr s'" by (auto simp: bindR_Inr_iff)
  note ok = clientSend_ok(1,3) [OF Cons.prems(1) t(1)]
  have free: "freed_ok t \<and> client_ok (fst t) c \<and> (\<forall>c. client_ok (fst s) c \<longrightarrow> client_ok (fst t) c)"
    using clientSend_freed [OF Cons.prems(1-3) t(1)] Cons.prems(5) by simp
  then show ?case using Cons.IH [OF ok(1) Cons.prems(2) _ t(2)] Cons.prems(5) ok(2) by auto
qed simp

lemma protocolParallelProcess_freed:
  assumes "run_ok callback respond handle d0 (this, d)" "Inv d0 {#}" "freed_ok (this, d)"
    and "protocolParallelProcess callback respond ready this d = Inr (completed, this', d')"
  shows "freed_ok (this', d') \<and> length (clientFreed this') = length (clientFreed this) \<and> (\<forall>c<length (clientFreed this). client_ok this' c)"
proof -
  let ?t = "if execState this = protocolParallelJobStatePending then this\<lparr>execState := protocolParallelJobStateRunning\<rparr> else this"
  obtain jobs where jobs: "jobReceiveAll respond ready (jobList this) = Inr jobs" "map ppJob jobs = map ppJob (jobList this)"
    "list_all (ppJob_ok respond) jobs"
    using jobReceiveAll_ok [of respond "jobList this" ready] assms(1) by (auto simp: run_ok_def)
  have "run_ok callback respond handle d0 (?t\<lparr>jobList := jobs\<rparr>, d)"
    using assms(1) jobs(3) by (simp add: run_ok_def jobsOf_def jobs(2) del: mset_map)
  moreover have "clientSendAll callback [0..<length (clientFreed this)] (?t\<lparr>jobList := jobs\<rparr>, d) = Inr (this', d')"
    using assms(4) jobs(1) by (auto simp: protocolParallelProcess_def Let_def bindR_Inr_iff)
  moreover have "freed_ok (?t\<lparr>jobList := jobs\<rparr>, d)" using assms(3) by (simp add: freed_ok_def)
  ultimately show ?thesis using clientSendAll_freed [OF _ assms(2), of "(?t\<lparr>jobList := jobs\<rparr>, d)"] by fastforce
qed

lemma handleCompleted_freed:
  assumes "run_ok callback respond handle d0 (this, d)" "freed_ok (this, d)" "handleCompleted handle completed (this, d) = Inr (this', d')"
  shows "freed_ok (this', d') \<and> clientFreed this' = clientFreed this \<and> (\<forall>c. client_ok this c \<longrightarrow> client_ok this' c)"
  using assms
proof (induction completed arbitrary: this d)
  case (Suc completed)
  obtain job jobs r d1 where *: "takeDone (jobList this) = Some (job, jobs)" "ppResult job = Some r" "handle d (ppJob job) r = Inr d1"
    "handleCompleted handle completed (this\<lparr>jobList := jobs\<rparr>, d1) = Inr (this', d')"
    using Suc.prems(3) by (auto simp: protocolParallelResult_def bindR_Inr_iff split: option.splits)
  obtain xs ys where xs: "jobList this = xs @ job # ys" "jobs = xs @ ys" "ppState job = protocolParallelJobStateDone"
    using takeDone_Some [OF *(1)] by blast
  have r: "r = respond (ppJob job)" using Suc.prems(1) xs(1,3) *(2) by (auto simp: run_ok_def ppJob_ok_def)
  have "handleCompleted handle 1 (this, d) = Inr (this\<lparr>jobList := jobs\<rparr>, d1)" using * by (simp add: protocolParallelResult_def)
  from handleCompleted_ok [OF Suc.prems(1) this] have "run_ok callback respond handle d0 (this\<lparr>jobList := jobs\<rparr>, d1)" by blast
  moreover have "freed_ok (this\<lparr>jobList := jobs\<rparr>, d1)"
    using Suc.prems(2) handle_exhausted [of d "ppJob job" d1] *(3) r by (auto simp: freed_ok_def)
  moreover have "client_ok this c \<longrightarrow> client_ok (this\<lparr>jobList := jobs\<rparr>) c" for c
    using xs by (auto simp: client_ok_def clientRunning_def)
  ultimately show ?case using Suc.IH [OF _ _ *(4)] by auto
qed auto

text \<open>A run that ends has given out every job, and the invariant holds with no job under way.\<close>

lemma parallelRun_ends:
  assumes "run_ok callback respond handle d0 (this, d)" "Inv d0 {#}" "freed_ok (this, d)" "clientFreed this \<noteq> []"
    and "parallelRun callback respond handle schedule this d = Inr (Some d')"
  shows "Inv d' {#} \<and> Exhausted d'"
  using assms
proof (induction schedule arbitrary: this d)
  case (Cons ready schedule)
  obtain completed this1 d1 this2 d2 where *: "protocolParallelProcess callback respond ready this d = Inr (completed, this1, d1)"
    "handleCompleted handle completed (this1, d1) = Inr (this2, d2)"
    and rest: "(case protocolParallelDone this2 of (done, this) \<Rightarrow>
      if done then Inr (Some d2) else parallelRun callback respond handle schedule this d2) = Inr (Some d')"
    using Cons.prems(5) by (auto simp: bindR_Inr_iff)
  note ok1 = protocolParallelProcess_ok(1) [OF Cons.prems(1) *(1)]
  note free1 = protocolParallelProcess_freed [OF Cons.prems(1-3) *(1)]
  have ok: "run_ok callback respond handle d0 (this2, d2)" using handleCompleted_ok [OF ok1 *(2)] by blast
  have free: "freed_ok (this2, d2)" "clientFreed this2 = clientFreed this1" "\<forall>c<length (clientFreed this1). client_ok this2 c"
    using handleCompleted_freed [OF ok1 _ *(2)] free1 by auto
  show ?case
  proof (cases "fst (protocolParallelDone this2)")
    case True
    then have "jobList this2 = []" "d' = d2"
      using ok rest by (auto simp: protocolParallelDone_def run_ok_def Let_def split: if_splits)
    moreover from this have "clientFreed this2 ! 0" using free(2,3) free1 Cons.prems(4) by (auto simp: client_ok_def)
    then have "Exhausted d2" using free(1,2) free1 Cons.prems(4) by (auto simp: freed_ok_def)
    moreover have "parallelReach callback respond handle d0 (d2, jobsOf this2)" using ok by (simp add: run_ok_def)
    from reach_inv [OF this Cons.prems(2)] have "Inv d2 (jobsOf this2)" by simp
    ultimately show ?thesis by (simp add: jobsOf_def)
  next
    case False
    then have "parallelRun callback respond handle schedule this2 d2 = Inr (Some d')"
      using rest by (auto simp: protocolParallelDone_def Let_def split: if_splits)
    moreover have "clientFreed this2 \<noteq> []" using free(2) free1 Cons.prems(4) by auto
    ultimately show ?thesis using Cons.IH [OF ok Cons.prems(2) free(1)] by blast
  qed
qed simp

lemma parallelRun_new_ends:
  assumes "parallelRun callback respond handle schedule (protocolParallelNew clientTotal) d0 = Inr (Some d)" "Inv d0 {#}" "0 < clientTotal"
  shows "Inv d {#} \<and> Exhausted d"
  by (rule parallelRun_ends [OF run_ok_start assms(2) _ _ assms(1)])
    (use assms(3) in \<open>auto simp: freed_ok_def protocolParallelNew_def\<close>)

end

section \<open>Runs with one client\<close>

text \<open>The answer of a job is handled after the next job was asked for.\<close>

definition oneClient :: "'j \<Rightarrow> ('j, 'r) ProtocolParallel" where
  "oneClient j = \<lparr>clientFreed = [False],
    jobList = [\<lparr>ppJob = j, ppProcessId = 1, ppState = protocolParallelJobStateRunning, ppResult = None\<rparr>],
    execState = protocolParallelJobStateRunning\<rparr>"

lemmas process_defs = protocolParallelProcess_def clientSend_def protocolParallelJobNew_def protocolParallelJobStateSet_def clientRunning_def
  jobReceive_def answered_def protocolParallelResult_def protocolParallelDone_def oneClient_def protocolParallelNew_def

lemma parallelRun_one_start:
  assumes "callback d = Inr (Some j, d')"
  shows "parallelRun callback respond handle ({} # schedule) (protocolParallelNew 1) d =
    parallelRun callback respond handle schedule (oneClient j) d'"
  using assms by (simp add: process_defs Let_def)

lemma parallelRun_one_step:
  assumes "callback d = Inr (Some j', d1)" "handle d1 j (respond j) = Inr d2"
  shows "parallelRun callback respond handle ({1} # schedule) (oneClient j) d =
    parallelRun callback respond handle schedule (oneClient j') d2"
  using assms by (simp add: process_defs Let_def)

lemma parallelRun_one_end:
  assumes "callback d = Inr (None, d1)" "handle d1 j (respond j) = Inr d2"
  shows "parallelRun callback respond handle ({1} # schedule) (oneClient j) d = Inr (Some d2)"
  using assms by (simp add: process_defs Let_def)

text \<open>
  C19: The parallel executor of the protocol refines the simple view that a command has of it: whatever the number of processes and
  the order in which they answer, a run that ends has done nothing but ask the callback for jobs and handle the answer of each job it
  was given exactly once, after it was given out; no job is lost, handled twice or left under way.
\<close>

theorem parallelRun_refines:
  assumes "parallelRun callback respond handle schedule (protocolParallelNew clientTotal) d0 = Inr (Some d)"
  shows "parallelReach callback respond handle d0 (d, {#})"
  by (rule parallelRun_reach [OF run_ok_start assms])

text \<open>The witness: two processes for three jobs, of which the second one given out is answered first.\<close>

definition sampleCallback :: "nat \<times> nat list \<Rightarrow> (nat option \<times> nat \<times> nat list) res" where
  "sampleCallback = (\<lambda>(n, done). Inr (if n = 0 then (None, n, done) else (Some n, n - 1, done)))"

definition sampleHandle :: "nat \<times> nat list \<Rightarrow> nat \<Rightarrow> nat \<Rightarrow> (nat \<times> nat list) res" where
  "sampleHandle = (\<lambda>(n, done) j r. Inr (n, done @ [r]))"

theorem parallelRun_refines_witness:
  "parallelReach sampleCallback (\<lambda>j. j * 10) sampleHandle (3, []) ((0, [20, 10, 30]), {#})"
proof (rule parallelRun_refines)
  show "parallelRun sampleCallback (\<lambda>j. j * 10) sampleHandle [{}, {2}, {2}, {1}] (protocolParallelNew 2) (3, []) = Inr (Some (0, [20, 10, 30]))"
    by code_simp
qed

end
