(* ===== verification/Verify.thy ===== *)
theory Verify
  imports VerifyFile WalFind ExpireArchive Parallel
begin

text \<open>
  The verify command (\<^verbatim>\<open>src/src/command/verify/verify.c\<close>): the jobs for the files of the archive and of the backups, the
  handling of their results, and the report.  Log messages are not modelled; \<^verbatim>\<open>unsigned int\<close> counters are natural numbers.
\<close>

section \<open>Results and job data\<close>

record VerifyArchiveResult =
  arArchiveId :: string
  arTotalWalFile :: nat
  arTotalValidWal :: nat
  arWalSize :: nat
  arWalVersion :: u32
  arWalRangeList :: "VerifyWalRange list"

datatype VerifyBackupResultStatus = backupValid | backupInvalid | backupMissingManifest | backupInProgress

record VerifyBackupResult =
  brLabel :: string
  brStatus :: VerifyBackupResultStatus
  brFileVerifyComplete :: bool
  brTotalFileManifest :: nat
  brTotalFileVerify :: nat
  brTotalFileValid :: nat
  brPrior :: "string option"
  brPgId :: u32
  brPgVersion :: u32
  brArchiveStart :: "string option"
  brArchiveStop :: "string option"
  brInvalidFileList :: "VerifyInvalidFile list"

record VerifyJobData =
  jdArchiveIdList :: "string list"
  jdWalPathList :: "string list"
  jdWalFileList :: "string list"
  jdBackupList :: "string list"
  jdManifest :: "Manifest option"
  jdManifestFileIdx :: nat
  jdCurrentBackup :: "string option"
  jdPgHistory :: InfoPg
  jdBackupProcessing :: bool
  jdWalCipherPass :: "string option"
  jdBackupCipherPass :: "string option"
  jdJobErrorTotal :: nat
  jdArchiveIdResultList :: "VerifyArchiveResult list"
  jdBackupResultList :: "VerifyBackupResult list"
  jdEnableArchiveFilter :: bool
  jdArchiveStart :: "string option"
  jdArchiveStop :: "string option"

text \<open>A job: its key and the message for the worker.\<close>

record VerifyJob =
  jobKey :: string
  jobParam :: "byte list"

section \<open>Info files\<close>

text \<open>
  \<^verbatim>\<open>verifyInfoFile\<close> catches every error, so a load gives the content or the error.  The copy is only used when the main file
  is not usable; that the two differ is only logged.
\<close>

definition firstUsable :: "'a res \<Rightarrow> 'a res \<Rightarrow> 'a option" where
  "firstUsable main copy = (case main of Inr x \<Rightarrow> Some x | Inl _ \<Rightarrow> (case copy of Inr x \<Rightarrow> Some x | Inl _ \<Rightarrow> None))"

definition verifyArchiveInfoFile :: "repo \<Rightarrow> InfoPg option" where
  "verifyArchiveInfoFile repo =
    firstUsable (infoArchiveRead repo INFO_ARCHIVE_PATH_FILE) (infoArchiveRead repo (copyFileName INFO_ARCHIVE_PATH_FILE))"

definition verifyBackupInfoFile :: "repo \<Rightarrow> InfoBackup option" where
  "verifyBackupInfoFile repo =
    firstUsable (infoBackupRead repo INFO_BACKUP_PATH_FILE) (infoBackupRead repo (copyFileName INFO_BACKUP_PATH_FILE))"

definition historyHas :: "InfoPg \<Rightarrow> ManifestData \<Rightarrow> bool" where
  "historyHas pgHistory d \<longleftrightarrow>
    (\<exists>h\<in>set (history pgHistory). pgid h = manPgId d \<and> systemId h = manPgSystemId d \<and> version h = manPgVersion d)"

definition verifyManifestFile ::
  "repo \<Rightarrow> VerifyBackupResult \<Rightarrow> bool \<Rightarrow> InfoPg \<Rightarrow> nat \<Rightarrow> Manifest option \<times> VerifyBackupResult \<times> nat" where
  "verifyManifestFile repo backupResult currentBackup pgHistory jobErrorTotal =
    (let fileName = manifestFileName (brLabel backupResult);
         main = manifestRead repo fileName;
         copy = manifestRead repo (copyFileName fileName);
         (result, status) =
           (case main of
              Inr m \<Rightarrow> (Some m, brStatus backupResult)
            | Inl e \<Rightarrow>
                if \<not> (currentBackup \<and> e = FileMissingError) then
                  (case copy of
                     Inr m \<Rightarrow> (Some m, brStatus backupResult)
                   | Inl e' \<Rightarrow> (None, if e = FileMissingError \<and> e' = FileMissingError then backupMissingManifest else brStatus backupResult))
                else (None, backupInProgress));
         result = (case result of None \<Rightarrow> None | Some m \<Rightarrow> if historyHas pgHistory (manData m) then Some m else None)
     in if result = None \<and> status = backupValid then (result, backupResult\<lparr>brStatus := backupInvalid\<rparr>, jobErrorTotal + 1)
        else (result, backupResult\<lparr>brStatus := status\<rparr>, jobErrorTotal))"

text \<open>An error is its message here, which is part of the report.\<close>

abbreviation LF :: string where
  "LF \<equiv> [CHR 0x0A]"

definition checkStanzaInfo :: "InfoPgData \<Rightarrow> InfoPgData \<Rightarrow> string + unit" where
  "checkStanzaInfo archiveInfo backupInfo =
    (if pgid archiveInfo \<noteq> pgid backupInfo \<or> systemId archiveInfo \<noteq> systemId backupInfo \<or> version archiveInfo \<noteq> version backupInfo
     then Inl (''backup info file and archive info file do not match'' @ LF @
       ''archive: id = '' @ fmt_u (unat (pgid archiveInfo)) @ '', version = '' @ pgVersionToStr (version archiveInfo) @
       '', system-id = '' @ fmt_u (unat (systemId archiveInfo)) @ LF @
       ''backup : id = '' @ fmt_u (unat (pgid backupInfo)) @ '', version = '' @ pgVersionToStr (version backupInfo) @
       '', system-id = '' @ fmt_u (unat (systemId backupInfo)) @ LF @
       ''HINT: this may be a symptom of repository corruption!'')
     else Inr ())"

definition verifyPgHistory :: "InfoPg \<Rightarrow> InfoPg \<Rightarrow> string + unit" where
  "verifyPgHistory archiveInfoPg backupInfoPg =
    (let outside = (\<lambda>pg. ''cannot get index '' @ fmt_u (historyCurrent pg) @ '' from list with '' @ fmt_u (infoPgDataTotal pg) @ '' value(s)'')
     in case infoPgDataCurrent archiveInfoPg of
          Inl _ \<Rightarrow> Inl (outside archiveInfoPg)
        | Inr archiveInfoPgData \<Rightarrow>
            (case infoPgDataCurrent backupInfoPg of
               Inl _ \<Rightarrow> Inl (outside backupInfoPg)
             | Inr backupInfoPgData \<Rightarrow>
                 (case checkStanzaInfo archiveInfoPgData backupInfoPgData of
                    Inl e \<Rightarrow> Inl e
                  | Inr _ \<Rightarrow>
                      if infoPgDataTotal archiveInfoPg \<noteq> infoPgDataTotal backupInfoPg \<or>
                         \<not> list_all2 (\<lambda>a b. pgid a = pgid b \<and> systemId a = systemId b \<and> version a = version b)
                             (history archiveInfoPg) (history backupInfoPg)
                      then Inl ''archive and backup history lists do not match''
                      else Inr ())))"

section \<open>The backup set of the option\<close>

definition strLstAddIfMissing :: "string list \<Rightarrow> string \<Rightarrow> string list" where
  "strLstAddIfMissing xs s = (if s \<in> set xs then xs else xs @ [s])"

definition verifyBackupSet :: "repo \<Rightarrow> VerifyJobData \<Rightarrow> string \<Rightarrow> VerifyJobData" where
  "verifyBackupSet repo jd label =
    (case manifestLoadFile repo (manifestFileName label) of
       Inl _ \<Rightarrow> jd\<lparr>jdArchiveStart := None, jdArchiveStop := None, jdEnableArchiveFilter := True\<rparr>
     | Inr manifest \<Rightarrow>
         let hasBlockIncr = (\<exists>f\<in>set (manFileList manifest). blockIncrMapSize f \<noteq> 0);
             backupList =
               (if hasBlockIncr then strLstSort (foldl strLstAddIfMissing (jdBackupList jd) (manReferenceList manifest)) sortOrderAsc
                else jdBackupList jd)
         in jd\<lparr>jdBackupList := backupList, jdArchiveStart := manArchiveStart (manData manifest),
              jdArchiveStop := manArchiveStop (manData manifest), jdEnableArchiveFilter := True\<rparr>)"

section \<open>Jobs for the archive\<close>

text \<open>\<^verbatim>\<open>"^[0-F]{24}-[0-f]{40}(\\.gz|\\.lz4|\\.zst|\\.xz|\\.bz2){0,1}$"\<close>\<close>

definition WAL_SEGMENT_FILE_REGEXP :: rx where
  "WAL_SEGMENT_FILE_REGEXP = RSeq (RTimes 24 (RRng CHR ''0'' CHR ''F'')) rx_hash_ext"

text \<open>The files of the range; without a start there are none, and an end that is not known is before every file.\<close>

definition walFileFilter :: "VerifyJobData \<Rightarrow> string list \<Rightarrow> string list" where
  "walFileFilter jd files =
    (if \<not> jdEnableArchiveFilter jd then files
     else case jdArchiveStart jd of
            None \<Rightarrow> []
          | Some archiveStart \<Rightarrow>
              let files = dropWhile (\<lambda>f. take WAL_SEGMENT_NAME_SIZE f < archiveStart) files
              in case jdArchiveStop jd of
                   None \<Rightarrow> []
                 | Some archiveStop \<Rightarrow> rev (dropWhile (\<lambda>f. archiveStop < take WAL_SEGMENT_NAME_SIZE f) (rev files)))"

definition walFilesInit :: "VerifyEnv \<Rightarrow> string \<Rightarrow> VerifyJobData \<Rightarrow> VerifyJobData res" where
  "walFilesInit env walDir jd =
    (let archiveResult = last (jdArchiveIdResultList jd);
         path = REPO_ARCHIVE @ [arArchiveId archiveResult, walDir];
         files = walFileFilter jd (strLstSort (storageList (envRepo env) path WAL_SEGMENT_FILE_REGEXP) sortOrderAsc)
     in if files = [] then Inr (jd\<lparr>jdWalFileList := []\<rparr>)
        else bindR (if arWalSize archiveResult = 0 then
                      bindR (envWalInfo env (path @ [hd files]) (jdWalCipherPass jd)) (\<lambda>(sz, v).
                        Inr (archiveResult\<lparr>arWalSize := sz, arWalVersion := v\<rparr>))
                    else Inr archiveResult) (\<lambda>archiveResult.
             bindR (verifyCreateArchiveIdRange (arWalSize archiveResult) (arWalRangeList archiveResult) files (jdJobErrorTotal jd))
               (\<lambda>(ranges, files', jobErrorTotal).
               Inr (jd\<lparr>jdWalFileList := files', jdJobErrorTotal := jobErrorTotal,
                 jdArchiveIdResultList := butlast (jdArchiveIdResultList jd) @
                   [archiveResult\<lparr>arTotalWalFile := arTotalWalFile archiveResult + length files, arWalRangeList := ranges\<rparr>]\<rparr>))))"

definition walFileParam :: "VerifyArchiveResult \<Rightarrow> string option \<Rightarrow> string \<Rightarrow> string \<Rightarrow> VerifyParam res" where
  "walFileParam archiveResult cipherPass walDir fileName =
    (let filePathName = STORAGE_REPO_ARCHIVE @ ''/'' @ arArchiveId archiveResult @ ''/'' @ walDir @ ''/'' @ fileName
     in bindR (bufNewDecode encodingHex (take 40 (drop (WAL_SEGMENT_NAME_SIZE + 1) fileName))) (\<lambda>checksum.
          Inr \<lparr>paramFilePathName = filePathName, paramBundle = None, paramCompressType = compressTypeFromName filePathName,
            paramChecksum = checksum, paramSize = of_nat (arWalSize archiveResult), paramCipherPass = cipherPass\<rparr>))"

definition newJob :: "string \<Rightarrow> VerifyParam \<Rightarrow> VerifyJob res" where
  "newJob resultId param =
    bindR (verifyFileParam param) (\<lambda>bytes. Inr \<lparr>jobKey = resultId @ ''/'' @ paramFilePathName param, jobParam = bytes\<rparr>)"

text \<open>The loop over the WAL paths; the path of a job stays the first one until its last file.\<close>

fun verifyArchive_paths :: "VerifyEnv \<Rightarrow> string list \<Rightarrow> VerifyJobData \<Rightarrow> (VerifyJob option \<times> VerifyJobData) res" where
  "verifyArchive_paths env [] jd = Inr (None, jd\<lparr>jdWalPathList := []\<rparr>)"
| "verifyArchive_paths env (walDir # walDirs) jd =
    bindR (if jdWalFileList jd = [] then walFilesInit env walDir jd else Inr jd) (\<lambda>jd.
      case jdWalFileList jd of
        [] \<Rightarrow> verifyArchive_paths env walDirs jd
      | fileName # files \<Rightarrow>
          bindR (walFileParam (last (jdArchiveIdResultList jd)) (jdWalCipherPass jd) walDir fileName) (\<lambda>param.
          bindR (newJob (arArchiveId (last (jdArchiveIdResultList jd))) param) (\<lambda>job.
            Inr (Some job, jd\<lparr>jdWalFileList := files, jdWalPathList := (if files = [] then walDirs else walDir # walDirs)\<rparr>))))"

definition archiveIdInit :: "VerifyEnv \<Rightarrow> string \<Rightarrow> VerifyJobData \<Rightarrow> VerifyJobData" where
  "archiveIdInit env archiveId jd =
    (if jdArchiveIdResultList jd = [] \<or> arArchiveId (last (jdArchiveIdResultList jd)) \<noteq> archiveId then
       jd\<lparr>jdArchiveIdResultList := jdArchiveIdResultList jd @
            [\<lparr>arArchiveId = archiveId, arTotalWalFile = 0, arTotalValidWal = 0, arWalSize = 0, arWalVersion = 0, arWalRangeList = []\<rparr>],
          jdWalPathList := strLstSort (storageList (envRepo env) (REPO_ARCHIVE @ [archiveId]) WAL_SEGMENT_DIR_REGEXP) sortOrderAsc\<rparr>
     else jd)"

fun verifyArchive_loop :: "VerifyEnv \<Rightarrow> string list \<Rightarrow> VerifyJobData \<Rightarrow> (VerifyJob option \<times> VerifyJobData) res" where
  "verifyArchive_loop env [] jd = Inr (None, jd\<lparr>jdArchiveIdList := []\<rparr>)"
| "verifyArchive_loop env (archiveId # archiveIds) jd =
    (let jd = archiveIdInit env archiveId jd
     in bindR (verifyArchive_paths env (jdWalPathList jd) jd) (\<lambda>(job, jd).
          case job of
            None \<Rightarrow> verifyArchive_loop env archiveIds jd
          | Some job \<Rightarrow>
              Inr (Some job, jd\<lparr>jdArchiveIdList := (if jdWalPathList jd = [] then archiveIds else archiveId # archiveIds)\<rparr>)))"

definition verifyArchive :: "VerifyEnv \<Rightarrow> VerifyJobData \<Rightarrow> (VerifyJob option \<times> VerifyJobData) res" where
  "verifyArchive env jd = verifyArchive_loop env (jdArchiveIdList jd) jd"

section \<open>Jobs for the backups\<close>

text \<open>The backup that a file is read from, or what is known of it from the result of a prior backup.\<close>

datatype FileState = FileSend string | FileKnownInvalid VerifyInvalidFile | FileKnownValid

definition backupFileState :: "VerifyBackupResult list \<Rightarrow> ManifestData \<Rightarrow> string \<Rightarrow> ManifestFile \<Rightarrow> FileState" where
  "backupFileState results d label fileData =
    (if fileSize fileData \<noteq> 0 \<or> \<not> manBundle d then
       case reference fileData of
         None \<Rightarrow> FileSend label
       | Some ref \<Rightarrow>
           (case find (\<lambda>b. brLabel b = ref) results of
              None \<Rightarrow> FileSend ref
            | Some backupResultPrior \<Rightarrow>
                if \<not> brFileVerifyComplete backupResultPrior then FileSend ref
                else
                  let priorFile = ref @ ''/'' @ manFileName fileData @ compressExtStr (manOptionCompressType d)
                  in case find (\<lambda>i. invalidFileName i = priorFile) (brInvalidFileList backupResultPrior) of
                       Some invalidFile \<Rightarrow> FileKnownInvalid invalidFile
                     | None \<Rightarrow> FileKnownValid)
     else FileKnownValid)"

definition backupFileParam :: "ManifestData \<Rightarrow> string option \<Rightarrow> string \<Rightarrow> ManifestFile \<Rightarrow> VerifyParam" where
  "backupFileParam d backupCipherPass fileBackupLabel fileData =
    (let filePathName = backupFileRepoPath fileBackupLabel
           \<lparr>manifestName = manFileName fileData, bundleId = fileBundleId fileData,
            compressExt = compressExtStr (manOptionCompressType d), blockIncr = blockIncrMapSize fileData \<noteq> 0\<rparr>;
         bundle = (if fileBundleId fileData \<noteq> 0 then Some (fileBundleOffset fileData, sizeRepo fileData) else None)
     in case fileChecksumRepoSha1 fileData of
          Some checksum \<Rightarrow>
            \<lparr>paramFilePathName = filePathName, paramBundle = bundle, paramCompressType = compressTypeNone,
             paramChecksum = checksum, paramSize = sizeRepo fileData, paramCipherPass = None\<rparr>
        | None \<Rightarrow>
            \<lparr>paramFilePathName = filePathName, paramBundle = bundle, paramCompressType = manOptionCompressType d,
             paramChecksum = fileChecksumSha1 fileData, paramSize = fileSize fileData, paramCipherPass = backupCipherPass\<rparr>)"

definition updateLast :: "('a \<Rightarrow> 'a) \<Rightarrow> 'a list \<Rightarrow> 'a list" where
  "updateLast f xs = butlast xs @ [f (last xs)]"

definition verifyBackup_file :: "Manifest \<Rightarrow> ManifestFile \<Rightarrow> VerifyJobData \<Rightarrow> (VerifyJob option \<times> VerifyJobData) res" where
  "verifyBackup_file manifest fileData jd =
    (let jd = jd\<lparr>jdBackupResultList := updateLast (\<lambda>b. b\<lparr>brTotalFileVerify := brTotalFileVerify b + 1\<rparr>) (jdBackupResultList jd)\<rparr>;
         label = brLabel (last (jdBackupResultList jd))
     in case backupFileState (jdBackupResultList jd) (manData manifest) label fileData of
          FileSend fileBackupLabel \<Rightarrow>
            bindR (newJob label (backupFileParam (manData manifest) (jdBackupCipherPass jd) fileBackupLabel fileData)) (\<lambda>job.
              Inr (Some job, jd))
        | FileKnownInvalid invalidFile \<Rightarrow>
            Inr (None, jd\<lparr>jdBackupResultList := updateLast (\<lambda>b. b\<lparr>brInvalidFileList :=
              verifyInvalidFileAdd (brInvalidFileList b) (invalidReason invalidFile) (invalidFileName invalidFile),
              brStatus := backupInvalid\<rparr>) (jdBackupResultList jd)\<rparr>)
        | FileKnownValid \<Rightarrow>
            Inr (None, jd\<lparr>jdBackupResultList := updateLast (\<lambda>b. b\<lparr>brTotalFileValid := brTotalFileValid b + 1\<rparr>) (jdBackupResultList jd)\<rparr>))"

text \<open>The loop over the files from \<^verbatim>\<open>manifestFileIdx\<close> on.\<close>

definition fileDone :: "VerifyJobData \<Rightarrow> VerifyJobData" where
  "fileDone jd =
    (let jd = jd\<lparr>jdManifestFileIdx := jdManifestFileIdx jd + 1\<rparr>
     in if jdManifestFileIdx jd = brTotalFileManifest (last (jdBackupResultList jd))
        then jd\<lparr>jdManifest := None, jdBackupList := tl (jdBackupList jd)\<rparr> else jd)"

fun verifyBackup_files :: "Manifest \<Rightarrow> ManifestFile list \<Rightarrow> VerifyJobData \<Rightarrow> (VerifyJob option \<times> VerifyJobData) res" where
  "verifyBackup_files manifest [] jd = Inr (None, jd)"
| "verifyBackup_files manifest (fileData # files) jd =
    bindR (verifyBackup_file manifest fileData jd) (\<lambda>(job, jd).
      case job of
        None \<Rightarrow> verifyBackup_files manifest files (fileDone jd)
      | Some job \<Rightarrow> Inr (Some job, fileDone jd))"

definition backupResultNew :: "string \<Rightarrow> VerifyBackupResult" where
  "backupResultNew label =
    \<lparr>brLabel = label, brStatus = backupValid, brFileVerifyComplete = False, brTotalFileManifest = 0, brTotalFileVerify = 0,
     brTotalFileValid = 0, brPrior = None, brPgId = 0, brPgVersion = 0, brArchiveStart = None, brArchiveStop = None,
     brInvalidFileList = []\<rparr>"

text \<open>The first part of an iteration: the manifest of a backup that was not started; \<^verbatim>\<open>continue\<close> when there is none.\<close>

definition backupInit :: "VerifyEnv \<Rightarrow> string \<Rightarrow> VerifyJobData \<Rightarrow> bool \<times> VerifyJobData" where
  "backupInit env label jd =
    (if jdBackupResultList jd = [] \<or> brLabel (last (jdBackupResultList jd)) \<noteq> label then
       case verifyManifestFile (envRepo env) (backupResultNew label) (jdCurrentBackup jd = Some label) (jdPgHistory jd) (jdJobErrorTotal jd) of
         (None, backupResult, jobErrorTotal) \<Rightarrow>
           (False, jd\<lparr>jdBackupResultList := jdBackupResultList jd @ [backupResult], jdJobErrorTotal := jobErrorTotal\<rparr>)
       | (Some manifest, backupResult, jobErrorTotal) \<Rightarrow>
           (True, jd\<lparr>jdManifest := Some manifest, jdBackupCipherPass := manCipherSubPass manifest, jdManifestFileIdx := 0,
              jdJobErrorTotal := jobErrorTotal,
              jdBackupResultList := jdBackupResultList jd @
                [backupResult\<lparr>brTotalFileManifest := length (manFileList manifest), brPrior := manBackupLabelPrior (manData manifest),
                   brPgId := manPgId (manData manifest), brPgVersion := manPgVersion (manData manifest),
                   brArchiveStart := manArchiveStart (manData manifest), brArchiveStop := manArchiveStop (manData manifest)\<rparr>]\<rparr>)
     else (True, jd))"

fun verifyBackup_loop :: "VerifyEnv \<Rightarrow> string list \<Rightarrow> VerifyJobData \<Rightarrow> (VerifyJob option \<times> VerifyJobData) res" where
  "verifyBackup_loop env [] jd = Inr (None, jd)"
| "verifyBackup_loop env (label # ls) jd =
    (let (usable, jd) = backupInit env label jd
     in if \<not> usable then verifyBackup_loop env ls (jd\<lparr>jdBackupList := ls\<rparr>)
        else case jdManifest jd of
               None \<Rightarrow> Inl UndefinedBehavior
             | Some manifest \<Rightarrow>
                 if jdManifestFileIdx jd < length (manFileList manifest) then
                   bindR (verifyBackup_files manifest (drop (jdManifestFileIdx jd) (manFileList manifest)) jd) (\<lambda>(job, jd).
                     case job of
                       None \<Rightarrow> verifyBackup_loop env ls jd
                     | Some job \<Rightarrow> Inr (Some job, jd))
                 else
                   verifyBackup_loop env ls (jd\<lparr>jdJobErrorTotal := jdJobErrorTotal jd + 1, jdManifest := None,
                     jdBackupResultList := updateLast (\<lambda>b. b\<lparr>brStatus := backupInvalid\<rparr>) (jdBackupResultList jd),
                     jdBackupList := ls\<rparr>))"

definition verifyBackup :: "VerifyEnv \<Rightarrow> VerifyJobData \<Rightarrow> (VerifyJob option \<times> VerifyJobData) res" where
  "verifyBackup env jd = verifyBackup_loop env (jdBackupList jd) jd"

definition verifyJobCallback :: "VerifyEnv \<Rightarrow> VerifyJobData \<Rightarrow> (VerifyJob option \<times> VerifyJobData) res" where
  "verifyJobCallback env jd =
    bindR (if \<not> jdBackupProcessing jd then
             bindR (verifyArchive env jd) (\<lambda>(job, jd). Inr (job, jd\<lparr>jdBackupProcessing := (jdArchiveIdList jd = [])\<rparr>))
           else Inr (None, jd)) (\<lambda>(job, jd).
      if jdBackupProcessing jd \<and> job = None then verifyBackup env jd else Inr (job, jd))"

end
