(* ===== verification/VerifyCmd.thy ===== *)
theory VerifyCmd
  imports Verify
begin

text \<open>
  The verify command (\<^verbatim>\<open>src/src/command/verify/verify.c\<close>), second part: the results of the jobs, the report, and the command.
  The jobs run on the parallel executor, so the command has the schedule of a run as an argument.
\<close>

section \<open>Results\<close>

definition verifyLogInvalidResult :: "string \<Rightarrow> VerifyResult \<Rightarrow> nat" where
  "verifyLogInvalidResult fileType result = (if fileType = STORAGE_REPO_ARCHIVE \<and> result = verifyFileMissing then 0 else 1)"

text \<open>\<^verbatim>\<open>archiveIdComparator\<close> compares the numbers after the first dash.  Numbers that do not fit an \<^verbatim>\<open>int\<close> are not modelled.\<close>

definition archiveIdNum :: "string \<Rightarrow> int" where
  "archiveIdNum archiveId = strtol (tl (dropWhile (\<lambda>c. c \<noteq> CHR ''-'') archiveId)) 10"

definition lstFindIdx :: "('a \<Rightarrow> bool) \<Rightarrow> 'a list \<Rightarrow> nat res" where
  "lstFindIdx P xs = (case List.extract P xs of None \<Rightarrow> Inl AssertError | Some (ys, x, zs) \<Rightarrow> Inr (length ys))"

definition verifyResultOf :: "u32 \<Rightarrow> VerifyResult" where
  "verifyResultOf n =
    (if n = 0 then verifyOk else if n = 1 then verifyFileMissing else if n = 2 then verifyChecksumMismatch
     else if n = 3 then verifySizeInvalid else verifyOtherError)"

definition strLstJoin :: "string list \<Rightarrow> string" where
  "strLstJoin ss = concat (case ss of [] \<Rightarrow> [] | s # ss \<Rightarrow> s # map (\<lambda>t. ''/'' @ t) ss)"

text \<open>The result of a job and the errors to count; a job that has an error counts as \<^verbatim>\<open>verifyOtherError\<close>.\<close>

definition jobOutcome :: "string \<Rightarrow> u32 res \<Rightarrow> VerifyResult \<times> nat" where
  "jobOutcome fileType answer =
    (case answer of
       Inr n \<Rightarrow> (verifyResultOf n, if verifyResultOf n = verifyOk then 0 else verifyLogInvalidResult fileType (verifyResultOf n))
     | Inl _ \<Rightarrow> (verifyOtherError, 1))"

definition archiveResultUpdate :: "VerifyResult \<Rightarrow> string \<Rightarrow> string \<Rightarrow> VerifyArchiveResult \<Rightarrow> VerifyArchiveResult" where
  "archiveResultUpdate result filePathName fileName archiveIdResult =
    (if result = verifyOk then archiveIdResult\<lparr>arTotalValidWal := arTotalValidWal archiveIdResult + 1\<rparr>
     else archiveIdResult\<lparr>arWalRangeList :=
       verifyAddInvalidWalFile (arWalRangeList archiveIdResult) result filePathName (take WAL_SEGMENT_NAME_SIZE fileName)\<rparr>)"

definition backupResultUpdate :: "VerifyResult \<Rightarrow> string \<Rightarrow> VerifyBackupResult \<Rightarrow> VerifyBackupResult" where
  "backupResultUpdate result filePathName backupResult =
    (let backupResult =
       (if result = verifyOk then backupResult\<lparr>brTotalFileValid := brTotalFileValid backupResult + 1\<rparr>
        else backupResult\<lparr>brStatus := backupInvalid,
               brInvalidFileList := verifyInvalidFileAdd (brInvalidFileList backupResult) result filePathName\<rparr>)
     in if brTotalFileVerify backupResult = brTotalFileManifest backupResult then backupResult\<lparr>brFileVerifyComplete := True\<rparr>
        else backupResult)"

definition verifyJobResult :: "VerifyJobData \<Rightarrow> VerifyJob \<Rightarrow> u32 res \<Rightarrow> VerifyJobData res" where
  "verifyJobResult jd job answer =
    (let parts = split_char CHR ''/'' (jobKey job);
         resultId = parts ! 0;
         fileType = parts ! 1;
         filePathLst = drop 2 parts;
         filePathName = strLstJoin filePathLst;
         (result, errors) = jobOutcome fileType answer
     in if fileType = STORAGE_REPO_ARCHIVE then
          bindR (lstFindIdx (\<lambda>r. archiveIdNum (arArchiveId r) = archiveIdNum resultId) (jdArchiveIdResultList jd)) (\<lambda>idx.
            Inr (jd\<lparr>jdJobErrorTotal := jdJobErrorTotal jd + errors,
              jdArchiveIdResultList := (jdArchiveIdResultList jd)[idx :=
                archiveResultUpdate result filePathName (last filePathLst) (jdArchiveIdResultList jd ! idx)]\<rparr>))
        else
          bindR (lstFindIdx (\<lambda>b. brLabel b = resultId) (jdBackupResultList jd)) (\<lambda>idx.
            Inr (jd\<lparr>jdJobErrorTotal := jdJobErrorTotal jd + errors,
              jdBackupResultList := (jdBackupResultList jd)[idx := backupResultUpdate result filePathName (jdBackupResultList jd ! idx)]\<rparr>)))"

section \<open>Checks before the jobs\<close>

definition archiveIds :: "InfoPg \<Rightarrow> string list" where
  "archiveIds pgHistory = map (\<lambda>d. pgVersionToStr (version d) @ ''-'' @ fmt_u (unat (pgid d))) (history pgHistory)"

definition verifySetBackupCheckArchive ::
  "string list \<Rightarrow> InfoBackup \<Rightarrow> string list \<Rightarrow> InfoPg \<Rightarrow> nat \<Rightarrow> string option \<times> nat" where
  "verifySetBackupCheckArchive backupList backupInfo archiveIdList pgHistory jobErrorTotal =
    (let result =
       (if backupList \<noteq> [] \<and> \<not> infoBackupLabelExists backupInfo (last backupList) then Some (last backupList) else None);
         missing = filter (\<lambda>a. archiveIdNum a \<notin> archiveIdNum ` set (archiveIds pgHistory)) archiveIdList
     in (result, if missing \<noteq> [] then jobErrorTotal + 1 else jobErrorTotal))"

section \<open>The report\<close>

definition verifyCreateFileErrorsStr :: "nat \<Rightarrow> nat \<Rightarrow> nat \<Rightarrow> nat \<Rightarrow> bool \<Rightarrow> string" where
  "verifyCreateFileErrorsStr errMissing errChecksum errSize errOther verboseText =
    (let result = LF @ ''    '' @
       (if verboseText \<or> errMissing \<noteq> 0 then ''missing: '' @ fmt_u errMissing @ '', '' else []) @
       (if verboseText \<or> errChecksum \<noteq> 0 then ''checksum invalid: '' @ fmt_u errChecksum @ '', '' else []) @
       (if verboseText \<or> errSize \<noteq> 0 then ''size invalid: '' @ fmt_u errSize @ '', '' else []) @
       (if verboseText \<or> errOther \<noteq> 0 then ''other: '' @ fmt_u errOther else [])
     in if suffix '', '' result then take (length result - 2) result else result)"

definition fileErrorsStr :: "VerifyInvalidFile list \<Rightarrow> bool \<Rightarrow> string" where
  "fileErrorsStr invalid verboseText =
    (let count = (\<lambda>P. length (filter (\<lambda>i. P (invalidReason i)) invalid));
         errMissing = count (\<lambda>r. r = verifyFileMissing);
         errChecksum = count (\<lambda>r. r = verifyChecksumMismatch);
         errSize = count (\<lambda>r. r = verifySizeInvalid);
         errOther = count (\<lambda>r. r \<notin> {verifyFileMissing, verifyChecksumMismatch, verifySizeInvalid})
     in if verboseText \<or> errMissing + errChecksum + errSize + errOther > 0
        then verifyCreateFileErrorsStr errMissing errChecksum errSize errOther verboseText else [])"

definition renderArchive :: "bool \<Rightarrow> VerifyArchiveResult \<Rightarrow> string" where
  "renderArchive verboseText r =
    (if verboseText \<or> arTotalWalFile r \<noteq> arTotalValidWal r then
       LF @ ''  archiveId: '' @ arArchiveId r @ '', total WAL checked: '' @ fmt_u (arTotalWalFile r) @
       '', total valid WAL: '' @ fmt_u (arTotalValidWal r)
     else []) @
    (if arTotalWalFile r > 0 then fileErrorsStr (concat (map rangeInvalid (arWalRangeList r))) verboseText else [])"

definition statusStr :: "VerifyBackupResultStatus \<Rightarrow> string" where
  "statusStr status =
    (case status of
       backupInvalid \<Rightarrow> ''invalid''
     | backupMissingManifest \<Rightarrow> ''manifest missing''
     | backupInProgress \<Rightarrow> ''in-progress''
     | backupValid \<Rightarrow> ''valid'')"

definition renderBackup :: "bool \<Rightarrow> VerifyBackupResult \<Rightarrow> string" where
  "renderBackup verboseText r =
    (if verboseText \<or> brStatus r \<noteq> backupValid \<and> brStatus r \<noteq> backupInProgress then
       LF @ ''  backup: '' @ brLabel r @ '', status: '' @ statusStr (brStatus r) @ '', total files checked: '' @ fmt_u (brTotalFileVerify r) @
       '', total valid files: '' @ fmt_u (brTotalFileValid r)
     else []) @
    (if brTotalFileVerify r > 0 then fileErrorsStr (brInvalidFileList r) verboseText else [])"

definition verifyRender :: "VerifyArchiveResult list \<Rightarrow> VerifyBackupResult list \<Rightarrow> bool \<Rightarrow> string" where
  "verifyRender archiveIdResultList backupResultList verboseText =
    (if verboseText \<and> archiveIdResultList = [] then LF @ ''  archiveId: none found''
     else concat (map (renderArchive verboseText) archiveIdResultList)) @
    (if verboseText \<and> backupResultList = [] then LF @ ''  backup: none found''
     else concat (map (renderBackup verboseText) backupResultList))"

section \<open>The command\<close>

record VerifyCfg =
  cfgStanza :: string
  cfgVerbose :: bool
  cfgSet :: "string option"
  cfgProcessMax :: nat

definition jobDataNew :: "InfoPg \<Rightarrow> VerifyJobData" where
  "jobDataNew archivePg =
    \<lparr>jdArchiveIdList = [], jdWalPathList = [], jdWalFileList = [], jdBackupList = [], jdManifest = None, jdManifestFileIdx = 0,
     jdCurrentBackup = None, jdPgHistory = archivePg, jdBackupProcessing = False, jdWalCipherPass = infoPgCipherPass archivePg,
     jdBackupCipherPass = None, jdJobErrorTotal = 0, jdArchiveIdResultList = [], jdBackupResultList = [],
     jdEnableArchiveFilter = False, jdArchiveStart = None, jdArchiveStop = None\<rparr>"

text \<open>The lists of what is to be verified; the message when the set of the option is not valid.\<close>

definition verifyProcess_lists :: "VerifyCfg \<Rightarrow> repo \<Rightarrow> InfoBackup \<Rightarrow> VerifyJobData \<Rightarrow> string + VerifyJobData" where
  "verifyProcess_lists cfg repo backupInfo jd =
    (case cfgSet cfg of
       Some label \<Rightarrow>
         if \<not> regExpMatch backupRegExpAll label then Inl (LF @ ''  '' @ [CHR 0x27] @ label @ [CHR 0x27] @ '' is not a valid backup label format'')
         else
           let backupList = strLstSort (storageList repo REPO_BACKUP (rx_str label REnd)) sortOrderAsc
           in if backupList = [] then Inl (LF @ ''  backup set '' @ label @ '' is not valid'')
              else Inr (verifyBackupSet repo (jd\<lparr>jdBackupList := backupList,
                jdArchiveIdList := sort_key archiveIdNum (storageList repo REPO_ARCHIVE REGEX_ARCHIVE_DIR_DB_VERSION)\<rparr>) label)
     | None \<Rightarrow>
         let backupList = strLstSort (storageList repo REPO_BACKUP backupRegExpAll) sortOrderAsc
         in Inr (jd\<lparr>
              jdBackupList := strLstSort (foldl strLstAddIfMissing backupList (infoBackupDataLabelList backupInfo None)) sortOrderAsc,
              jdArchiveIdList := sort_key archiveIdNum (storageList repo REPO_ARCHIVE REGEX_ARCHIVE_DIR_DB_VERSION)\<rparr>))"

definition verifyProcess_start :: "InfoBackup \<Rightarrow> VerifyJobData \<Rightarrow> VerifyJobData" where
  "verifyProcess_start backupInfo jd =
    (let jd = (if jdArchiveIdList jd = [] then jd\<lparr>jdBackupProcessing := True\<rparr> else jd)
     in case verifySetBackupCheckArchive (jdBackupList jd) backupInfo (jdArchiveIdList jd) (jdPgHistory jd) (jdJobErrorTotal jd) of
          (currentBackup, jobErrorTotal) \<Rightarrow> jd\<lparr>jdCurrentBackup := currentBackup, jdJobErrorTotal := jobErrorTotal\<rparr>)"

definition verifyRespond :: "VerifyEnv \<Rightarrow> VerifyJob \<Rightarrow> u32 res" where
  "verifyRespond env job = verifyFileProtocol env (jobParam job)"

text \<open>The error total and the report; \<open>None\<close> when the schedule ends before the jobs are done.\<close>

definition verifyProcess_jobs ::
  "VerifyCfg \<Rightarrow> VerifyEnv \<Rightarrow> nat set list \<Rightarrow> InfoBackup \<Rightarrow> InfoPg \<Rightarrow> ((nat \<times> string) option) res" where
  "verifyProcess_jobs cfg env schedule backupInfo archivePg =
    (case verifyProcess_lists cfg (envRepo env) backupInfo (jobDataNew archivePg) of
       Inl message \<Rightarrow> Inr (Some (1, message))
     | Inr jd \<Rightarrow>
         if jdArchiveIdList jd = [] \<and> jdBackupList jd = [] then Inr (Some (0, LF @ ''    no archives or backups exist in the repo''))
         else
           bindR (parallelRun (verifyJobCallback env) (verifyRespond env) verifyJobResult schedule
                    (protocolParallelNew (cfgProcessMax cfg)) (verifyProcess_start backupInfo jd)) (\<lambda>done.
             Inr (map_option (\<lambda>jd. (jdJobErrorTotal jd,
               verifyRender (jdArchiveIdResultList jd) (jdBackupResultList jd) (cfgVerbose cfg))) done)))"

definition verifyProcess :: "VerifyCfg \<Rightarrow> VerifyEnv \<Rightarrow> nat set list \<Rightarrow> (string option) res" where
  "verifyProcess cfg env schedule =
    (let report = (\<lambda>(errorTotal, resultStr).
           if cfgVerbose cfg \<or> errorTotal > 0
           then ''stanza: '' @ cfgStanza cfg @ LF @ ''status: '' @ (if errorTotal > 0 then ''error'' else ''ok'') @ resultStr
           else []);
         noBackup = (LF @ ''  No usable backup.info file'');
         noArchive = (LF @ ''  No usable archive.info file'')
     in case (verifyBackupInfoFile (envRepo env), verifyArchiveInfoFile (envRepo env)) of
          (None, None) \<Rightarrow> Inr (Some (report (2 :: nat, noBackup @ noArchive)))
        | (None, Some _) \<Rightarrow> Inr (Some (report (1, noBackup)))
        | (Some _, None) \<Rightarrow> Inr (Some (report (1, noArchive)))
        | (Some backupInfo, Some archivePg) \<Rightarrow>
            (case verifyPgHistory archivePg (infoBackupPg backupInfo) of
               Inl message \<Rightarrow> Inr (Some (report (1, LF @ message)))
             | Inr _ \<Rightarrow> bindR (verifyProcess_jobs cfg env schedule backupInfo archivePg) (\<lambda>done. Inr (map_option report done))))"

text \<open>\<^verbatim>\<open>cmdVerify\<close>: what is written to the log and, when it is requested, to the standard output.\<close>

definition cmdVerify :: "VerifyCfg \<Rightarrow> bool \<Rightarrow> VerifyEnv \<Rightarrow> nat set list \<Rightarrow> ((string list \<times> string) option) res" where
  "cmdVerify cfg outputText env schedule =
    bindR (verifyProcess cfg env schedule) (\<lambda>done.
      Inr (map_option (\<lambda>result. if result = [] then ([], []) else ([result], if outputText then result @ LF else [])) done))"

end
