(* ===== verification/VerifyInv.thy ===== *)
theory VerifyInv
  imports VerifyCmd
begin

text \<open>
  What is true of the results of the verify command in every order of its jobs: the invariants of the handling of backups and
  of archives, and that the callback and the handling of results keep them.
\<close>

section \<open>Keys\<close>

definition keyParts :: "VerifyJob \<Rightarrow> string list" where
  "keyParts j = split_char CHR ''/'' (jobKey j)"

definition jobFor :: "string \<Rightarrow> string \<Rightarrow> VerifyJob \<Rightarrow> bool" where
  "jobFor fileType resultId j \<longleftrightarrow> keyParts j ! 0 = resultId \<and> keyParts j ! 1 = fileType"

lemma repo_expressions [simp]:
  "STORAGE_REPO_BACKUP \<noteq> STORAGE_REPO_ARCHIVE" "STORAGE_REPO_ARCHIVE \<noteq> STORAGE_REPO_BACKUP" "CHR ''/'' \<notin> set STORAGE_REPO_BACKUP" "CHR ''/'' \<notin> set STORAGE_REPO_ARCHIVE"
  by (simp_all add: STORAGE_REPO_BACKUP_def STORAGE_REPO_ARCHIVE_def)

lemma newJob_key:
  assumes "newJob l p = Inr j" "CHR ''/'' \<notin> set l" "paramFilePathName p = ft @ CHR ''/'' # rest" "CHR ''/'' \<notin> set ft"
  shows "jobFor ft l j"
proof -
  have "keyParts j = l # ft # split_char CHR ''/'' rest"
    using assms by (auto simp: newJob_def bindR_Inr_iff keyParts_def split_char_append)
  then show ?thesis by (simp add: jobFor_def)
qed

lemma backupFileParam_path:
  "\<exists>rest. paramFilePathName (backupFileParam d pass l f) = STORAGE_REPO_BACKUP @ CHR ''/'' # rest"
  by (auto simp: backupFileParam_def backupFileRepoPath_def STORAGE_REPO_BACKUP_def Let_def split: option.splits)

lemma newJob_backup: "newJob l (backupFileParam d pass src f) = Inr j \<Longrightarrow> CHR ''/'' \<notin> set l \<Longrightarrow> jobFor STORAGE_REPO_BACKUP l j"
  using backupFileParam_path [of d pass src f] newJob_key by auto

lemma newJob_archive:
  "walFileParam r pass dir f = Inr p \<Longrightarrow> newJob l p = Inr j \<Longrightarrow> CHR ''/'' \<notin> set l \<Longrightarrow> jobFor STORAGE_REPO_ARCHIVE l j"
  by (rule newJob_key [where p = p]) (auto simp: walFileParam_def Let_def bindR_Inr_iff)

section \<open>Backups\<close>

definition usable :: "VerifyEnv \<Rightarrow> VerifyJobData \<Rightarrow> string \<Rightarrow> Manifest option" where
  "usable env jd l = fst (verifyManifestFile (envRepo env) (backupResultNew l) (jdCurrentBackup jd = Some l) (jdPgHistory jd) 0)"

definition fileSource :: "string \<Rightarrow> ManifestFile \<Rightarrow> string" where
  "fileSource l f = (case reference f of None \<Rightarrow> l | Some ref \<Rightarrow> ref)"

abbreviation paramOf :: "Manifest \<Rightarrow> string \<Rightarrow> ManifestFile \<Rightarrow> VerifyParam" where
  "paramOf m l f \<equiv> backupFileParam (manData m) (manCipherSubPass m) (fileSource l f) f"

text \<open>
  A file of a backup is taken care of: it has no content of its own, it is in a prior backup of which all files were given out,
  or it has a job that is under way or had no complaint.
\<close>

definition fileAccounted :: "VerifyEnv \<Rightarrow> VerifyJobData \<Rightarrow> VerifyJob multiset \<Rightarrow> string \<Rightarrow> Manifest \<Rightarrow> ManifestFile \<Rightarrow> bool" where
  "fileAccounted env jd R l m f \<longleftrightarrow>
    fileSize f = 0 \<and> manBundle (manData m) \<or>
    (\<exists>r\<in>set (jdBackupResultList jd). reference f = Some (brLabel r) \<and> brFileVerifyComplete r) \<or>
    (\<exists>j. newJob l (paramOf m l f) = Inr j \<and> (j \<in># R \<or> verifyRespond env j = Inr 0))"

definition resultOk :: "VerifyEnv \<Rightarrow> VerifyJobData \<Rightarrow> VerifyJob multiset \<Rightarrow> VerifyBackupResult \<Rightarrow> bool" where
  "resultOk env jd R b \<longleftrightarrow>
    brTotalFileVerify b = brTotalFileValid b + length (brInvalidFileList b) + size (filter_mset (jobFor STORAGE_REPO_BACKUP (brLabel b)) R) \<and>
    (case usable env jd (brLabel b) of
       None \<Rightarrow> brTotalFileVerify b = 0 \<and> \<not> brFileVerifyComplete b
     | Some m \<Rightarrow>
         brTotalFileManifest b = length (manFileList m) \<and>
         (brFileVerifyComplete b \<longrightarrow> brTotalFileVerify b = length (manFileList m)) \<and>
         (manFileList m \<noteq> [] \<longrightarrow> brStatus b = (if brInvalidFileList b = [] then backupValid else backupInvalid)))"

definition resultVerified :: "VerifyEnv \<Rightarrow> VerifyJobData \<Rightarrow> VerifyJob multiset \<Rightarrow> VerifyBackupResult \<Rightarrow> bool" where
  "resultVerified env jd R b \<longleftrightarrow>
    (\<forall>m. usable env jd (brLabel b) = Some m \<longrightarrow> (\<forall>f\<in>set (take (brTotalFileVerify b) (manFileList m)). fileAccounted env jd R (brLabel b) m f))"

definition resultFinished :: "VerifyEnv \<Rightarrow> VerifyJobData \<Rightarrow> VerifyBackupResult \<Rightarrow> bool" where
  "resultFinished env jd b \<longleftrightarrow> (\<forall>m. usable env jd (brLabel b) = Some m \<longrightarrow> brTotalFileVerify b = length (manFileList m))"

text \<open>Between two backups, or with the files of a backup from the index on still to be given out.\<close>

definition backupIdle :: "VerifyEnv \<Rightarrow> string list \<Rightarrow> VerifyJobData \<Rightarrow> bool" where
  "backupIdle env L jd \<longleftrightarrow> map brLabel (jdBackupResultList jd) @ jdBackupList jd = L \<and> (\<forall>b\<in>set (jdBackupResultList jd). resultFinished env jd b)"

definition backupWorking :: "VerifyEnv \<Rightarrow> string list \<Rightarrow> VerifyJobData \<Rightarrow> Manifest \<Rightarrow> ManifestFile list \<Rightarrow> bool" where
  "backupWorking env L jd m files \<longleftrightarrow>
    (\<exists>bs b ls. jdBackupResultList jd = bs @ [b] \<and> jdBackupList jd = brLabel b # ls \<and> map brLabel bs @ brLabel b # ls = L \<and>
      (\<forall>b\<in>set bs. resultFinished env jd b) \<and> jdManifest jd = Some m \<and> usable env jd (brLabel b) = Some m \<and>
      jdManifestFileIdx jd = brTotalFileVerify b \<and> jdBackupCipherPass jd = manCipherSubPass m \<and>
      manFileList m = take (brTotalFileVerify b) (manFileList m) @ files \<and> brTotalFileVerify b \<le> length (manFileList m) \<and>
      brTotalFileManifest b = length (manFileList m))"

definition resultsOk :: "VerifyEnv \<Rightarrow> VerifyJobData \<Rightarrow> VerifyJob multiset \<Rightarrow> bool" where
  "resultsOk env jd R \<longleftrightarrow> (\<forall>b\<in>set (jdBackupResultList jd). resultOk env jd R b \<and> (jdJobErrorTotal jd = 0 \<longrightarrow> resultVerified env jd R b))"

definition labelsOk :: "string list \<Rightarrow> bool" where
  "labelsOk L \<longleftrightarrow> distinct L \<and> (\<forall>l\<in>set L. CHR ''/'' \<notin> set l)"

definition archivePart where
  "archivePart jd = (jdArchiveIdList jd, jdWalPathList jd, jdWalFileList jd, jdWalCipherPass jd, jdArchiveIdResultList jd,
    jdEnableArchiveFilter jd, jdArchiveStart jd, jdArchiveStop jd, jdBackupProcessing jd)"

definition backupPart where
  "backupPart jd = (jdBackupList jd, jdManifest jd, jdManifestFileIdx jd, jdCurrentBackup jd, jdPgHistory jd, jdBackupCipherPass jd,
    jdBackupResultList jd)"

subsection \<open>One file\<close>

lemma updateLast_append [simp]: "updateLast f (xs @ [x]) = xs @ [f x]"
  by (simp add: updateLast_def)

lemma backupFileState_cases:
  "(case backupFileState results d l f of
     FileSend src \<Rightarrow> src = fileSource l f
   | _ \<Rightarrow> fileSize f = 0 \<and> manBundle d \<or> (\<exists>r\<in>set results. reference f = Some (brLabel r) \<and> brFileVerifyComplete r))"
  by (auto simp: backupFileState_def fileSource_def Let_def find_Some_iff split: option.splits if_splits)

text \<open>The file is counted, and it is given out or its state is known.\<close>

definition fileCounted :: "VerifyBackupResult \<Rightarrow> VerifyBackupResult \<Rightarrow> bool \<Rightarrow> bool" where
  "fileCounted b b' sent \<longleftrightarrow>
    brLabel b' = brLabel b \<and> brTotalFileVerify b' = brTotalFileVerify b + 1 \<and> brTotalFileManifest b' = brTotalFileManifest b \<and>
    brFileVerifyComplete b' = brFileVerifyComplete b \<and>
    brTotalFileValid b' + length (brInvalidFileList b') = brTotalFileValid b + length (brInvalidFileList b) + (if sent then 0 else 1) \<and>
    (brInvalidFileList b' = brInvalidFileList b \<and> brStatus b' = brStatus b \<or> brInvalidFileList b' \<noteq> [] \<and> brStatus b' = backupInvalid)"

lemma verifyBackup_file_counted:
  assumes "verifyBackup_file m f jd = Inr (job, jd')" "jdBackupResultList jd = bs @ [b]" "jdBackupCipherPass jd = manCipherSubPass m"
  shows "\<exists>b'. jd' = jd\<lparr>jdBackupResultList := bs @ [b']\<rparr> \<and> fileCounted b b' (job \<noteq> None) \<and>
    (case job of
       None \<Rightarrow> fileSize f = 0 \<and> manBundle (manData m) \<or> (\<exists>r\<in>set (bs @ [b']). reference f = Some (brLabel r) \<and> brFileVerifyComplete r)
     | Some j \<Rightarrow> newJob (brLabel b) (paramOf m (brLabel b) f) = Inr j)"
proof -
  let ?b = "b\<lparr>brTotalFileVerify := brTotalFileVerify b + 1\<rparr>"
  note state = backupFileState_cases [where results = "bs @ [?b]" and d = "manData m" and l = "brLabel b" and f = f]
  show ?thesis
    using assms state
    by (cases "backupFileState (bs @ [?b]) (manData m) (brLabel b) f")
      (auto simp: verifyBackup_file_def Let_def bindR_Inr_iff fileCounted_def verifyInvalidFileAdd_def)
qed

lemma usable_cong: "backupPart jd' = backupPart jd \<Longrightarrow> usable env jd' l = usable env jd l"
  by (simp add: backupPart_def usable_def)

lemma usable_upd [simp]:
  "usable env (jd\<lparr>jdBackupResultList := x\<rparr>) l = usable env jd l" "usable env (jd\<lparr>jdManifestFileIdx := n\<rparr>) l = usable env jd l"
  "usable env (jd\<lparr>jdManifest := m\<rparr>) l = usable env jd l" "usable env (jd\<lparr>jdBackupList := ls\<rparr>) l = usable env jd l"
  "usable env (jd\<lparr>jdJobErrorTotal := e\<rparr>) l = usable env jd l" "usable env (jd\<lparr>jdArchiveIdResultList := ar\<rparr>) l = usable env jd l"
  "usable env (jd\<lparr>jdBackupCipherPass := p\<rparr>) l = usable env jd l"
  by (simp_all add: usable_def)

text \<open>Results with the same labels, more jobs under way and more backups complete.\<close>

lemma fileAccounted_mono:
  assumes "fileAccounted env jd R l m f" "R \<subseteq># R'"
    and "\<forall>r\<in>set (jdBackupResultList jd). brFileVerifyComplete r \<longrightarrow>
      (\<exists>r'\<in>set (jdBackupResultList jd'). brLabel r' = brLabel r \<and> brFileVerifyComplete r')"
  shows "fileAccounted env jd' R' l m f"
  using assms by (fastforce simp: fileAccounted_def dest: mset_subset_eqD)

lemma fileDone_simps:
  "jdBackupResultList (fileDone jd) = jdBackupResultList jd" "usable env (fileDone jd) l = usable env jd l"
  "archivePart (fileDone jd) = archivePart jd" "jdJobErrorTotal (fileDone jd) = jdJobErrorTotal jd"
  "jdCurrentBackup (fileDone jd) = jdCurrentBackup jd" "jdPgHistory (fileDone jd) = jdPgHistory jd"
  by (simp_all add: fileDone_def Let_def archivePart_def)

lemma resultsOk_cong:
  assumes "jdBackupResultList jd' = jdBackupResultList jd" "jdJobErrorTotal jd' = jdJobErrorTotal jd" "\<And>l. usable env jd' l = usable env jd l"
  shows "resultsOk env jd' R = resultsOk env jd R"
  by (simp add: resultsOk_def resultOk_def resultVerified_def fileAccounted_def assms)

abbreviation withJob :: "VerifyJob multiset \<Rightarrow> VerifyJob option \<Rightarrow> VerifyJob multiset" where
  "withJob R job \<equiv> (case job of None \<Rightarrow> R | Some j \<Rightarrow> add_mset j R)"

lemma resultOk_other:
  assumes "resultOk env jd R b" "\<forall>j. job = Some j \<longrightarrow> \<not> jobFor STORAGE_REPO_BACKUP (brLabel b) j" "\<And>l. usable env jd' l = usable env jd l"
  shows "resultOk env jd' (withJob R job) b"
  using assms by (auto simp: resultOk_def split: option.splits)

lemma resultVerified_mono:
  assumes "resultVerified env jd R b" "R \<subseteq># R'" "\<And>l. usable env jd' l = usable env jd l"
    and "\<forall>r\<in>set (jdBackupResultList jd). brFileVerifyComplete r \<longrightarrow>
      (\<exists>r'\<in>set (jdBackupResultList jd'). brLabel r' = brLabel r \<and> brFileVerifyComplete r')"
  shows "resultVerified env jd' R' b"
  using assms fileAccounted_mono by (fastforce simp: resultVerified_def)

lemma withJob_mono: "R \<subseteq># withJob R job"
  by (cases job) auto

lemma jobFor_inj: "jobFor t l j \<Longrightarrow> jobFor t l' j \<Longrightarrow> l = l'"
  by (simp add: jobFor_def)

lemma resultOk_counted:
  assumes "resultOk env jd R b" "fileCounted b b' (job \<noteq> None)" "\<forall>j. job = Some j \<longrightarrow> jobFor STORAGE_REPO_BACKUP (brLabel b) j"
    and "usable env jd (brLabel b) = Some m" "brTotalFileVerify b < length (manFileList m)" "\<And>l. usable env jd' l = usable env jd l"
  shows "resultOk env jd' (withJob R job) b'"
proof -
  have "\<not> brFileVerifyComplete b" using assms(1,4,5) by (auto simp: resultOk_def)
  moreover have "size (filter_mset (jobFor STORAGE_REPO_BACKUP (brLabel b)) (withJob R job)) =
      size (filter_mset (jobFor STORAGE_REPO_BACKUP (brLabel b)) R) + (if job \<noteq> None then 1 else 0)"
    using assms(3) by (cases job) simp_all
  moreover have "manFileList m \<noteq> []" using assms(5) by auto
  ultimately show ?thesis using assms(1,2,4) assms(6) by (auto simp: resultOk_def fileCounted_def)
qed

lemma verifyBackup_file_step:
  assumes work: "backupWorking env L jd m (f # files)" and ok: "resultsOk env jd R" and L: "labelsOk L"
    and step: "verifyBackup_file m f jd = Inr (job, jd1)"
  shows "resultsOk env (fileDone jd1) (withJob R job) \<and> archivePart (fileDone jd1) = archivePart jd \<and>
    jdJobErrorTotal (fileDone jd1) = jdJobErrorTotal jd \<and> (\<forall>l. usable env (fileDone jd1) l = usable env jd l) \<and>
    (if files = [] then backupIdle env L (fileDone jd1) else backupWorking env L (fileDone jd1) m files) \<and>
    map brLabel (jdBackupResultList (fileDone jd1)) = map brLabel (jdBackupResultList jd) \<and>
    (\<forall>j. job = Some j \<longrightarrow> keyParts j ! 1 = STORAGE_REPO_BACKUP \<and> keyParts j ! 0 \<in> brLabel ` set (jdBackupResultList jd))"
proof -
  obtain bs b ls where *: "jdBackupResultList jd = bs @ [b]" "jdBackupList jd = brLabel b # ls" "map brLabel bs @ brLabel b # ls = L"
    "\<forall>b\<in>set bs. resultFinished env jd b" "jdManifest jd = Some m" "usable env jd (brLabel b) = Some m"
    "jdManifestFileIdx jd = brTotalFileVerify b" "jdBackupCipherPass jd = manCipherSubPass m"
    "manFileList m = take (brTotalFileVerify b) (manFileList m) @ f # files" "brTotalFileVerify b \<le> length (manFileList m)"
    "brTotalFileManifest b = length (manFileList m)"
    using work by (auto simp: backupWorking_def)
  obtain b' where b': "jd1 = jd\<lparr>jdBackupResultList := bs @ [b']\<rparr>" "fileCounted b b' (job \<noteq> None)"
    "(case job of
       None \<Rightarrow> fileSize f = 0 \<and> manBundle (manData m) \<or> (\<exists>r\<in>set (bs @ [b']). reference f = Some (brLabel r) \<and> brFileVerifyComplete r)
     | Some j \<Rightarrow> newJob (brLabel b) (paramOf m (brLabel b) f) = Inr j)"
    using verifyBackup_file_counted [OF step *(1,8)] by blast
  have sel: "brLabel b' = brLabel b" "brTotalFileVerify b' = brTotalFileVerify b + 1" "brTotalFileManifest b' = brTotalFileManifest b"
    "brFileVerifyComplete b' = brFileVerifyComplete b"
    using b'(2) by (auto simp: fileCounted_def)
  have lenL: "length (manFileList m) = brTotalFileVerify b + Suc (length files)"
    using arg_cong [OF *(9), of length] *(10) by simp
  have next_take: "take (brTotalFileVerify b') (manFileList m) = take (brTotalFileVerify b) (manFileList m) @ [f]"
    using *(9) sel(2) lenL by (metis Suc_eq_plus1 append_eq_conv_conj length_append_singleton append_Cons append_Nil append_assoc
        length_take min.absorb2 *(10))
  have slash: "CHR ''/'' \<notin> set (brLabel b)" and diff: "\<forall>c\<in>set bs. brLabel c \<noteq> brLabel b"
    using L *(3) by (auto simp: labelsOk_def) (metis image_eqI)
  have job: "jobFor STORAGE_REPO_BACKUP (brLabel b) j" if "job = Some j" for j
    using newJob_backup b'(3) slash that by auto
  have other: "\<forall>c\<in>set bs. resultOk env (fileDone jd1) (withJob R job) c"
  proof
    fix c assume c: "c \<in> set bs"
    then have "\<forall>j. job = Some j \<longrightarrow> \<not> jobFor STORAGE_REPO_BACKUP (brLabel c) j" using job jobFor_inj diff by blast
    moreover have "resultOk env jd R c" using ok c *(1) by (simp add: resultsOk_def)
    ultimately show "resultOk env (fileDone jd1) (withJob R job) c" using resultOk_other by (simp add: fileDone_simps b'(1))
  qed
  have this_one: "resultOk env (fileDone jd1) (withJob R job) b'"
    by (rule resultOk_counted [OF _ b'(2) _ *(6)]) (use ok job *(1) lenL in \<open>auto simp: resultsOk_def fileDone_simps b'(1)\<close>)
  have mono: "\<forall>r\<in>set (jdBackupResultList jd). brFileVerifyComplete r \<longrightarrow>
      (\<exists>r'\<in>set (jdBackupResultList (fileDone jd1)). brLabel r' = brLabel r \<and> brFileVerifyComplete r')"
    using *(1) sel by (auto simp: fileDone_simps b'(1))
  have verified: "resultVerified env (fileDone jd1) (withJob R job) c" if "jdJobErrorTotal jd = 0" "c \<in> set bs \<or> c = b" for c
    by (rule resultVerified_mono [OF _ withJob_mono _ mono]) (use ok that *(1) in \<open>auto simp: resultsOk_def fileDone_simps b'(1)\<close>)
  have "fileAccounted env (fileDone jd1) (withJob R job) (brLabel b) m f"
    using b'(3) by (cases job) (auto simp: fileAccounted_def fileDone_simps b'(1))
  then have verified': "resultVerified env (fileDone jd1) (withJob R job) b'" if "jdJobErrorTotal jd = 0"
    using verified [OF that, of b] *(6) by (auto simp: resultVerified_def next_take sel(1) fileDone_simps b'(1))
  have "resultsOk env (fileDone jd1) (withJob R job)"
    using other this_one verified verified' by (auto simp: resultsOk_def fileDone_simps b'(1))
  moreover have "if files = [] then backupIdle env L (fileDone jd1) else backupWorking env L (fileDone jd1) m files"
  proof (cases "files = []")
    case True
    then have "jdBackupList (fileDone jd1) = ls" using *(2,7,11) lenL sel by (simp add: fileDone_def b'(1))
    moreover have "resultFinished env (fileDone jd1) c" if "c \<in> set (bs @ [b'])" for c
      using that *(4,6) sel lenL True by (auto simp: resultFinished_def fileDone_simps b'(1))
    ultimately show ?thesis using True *(3) sel(1) by (simp add: backupIdle_def fileDone_simps b'(1))
  next
    case False
    have "manFileList m = take (brTotalFileVerify b') (manFileList m) @ files" using *(9) next_take by simp
    moreover have "jdBackupList (fileDone jd1) = brLabel b # ls" "jdManifest (fileDone jd1) = Some m"
      "jdManifestFileIdx (fileDone jd1) = brTotalFileVerify b'" "jdBackupCipherPass (fileDone jd1) = manCipherSubPass m"
      using False *(2,5,7,8,11) lenL sel by (simp_all add: fileDone_def b'(1))
    moreover have "\<forall>c\<in>set bs. resultFinished env (fileDone jd1) c" using *(4) by (simp add: resultFinished_def fileDone_simps b'(1))
    ultimately have "backupWorking env L (fileDone jd1) m files"
      unfolding backupWorking_def by (intro exI [of _ bs] exI [of _ b'] exI [of _ ls]) (use *(3,6,11) sel lenL in \<open>simp add: fileDone_simps b'(1)\<close>)
    then show ?thesis using False by simp
  qed
  moreover have "\<forall>j. job = Some j \<longrightarrow> keyParts j ! 1 = STORAGE_REPO_BACKUP \<and> keyParts j ! 0 \<in> brLabel ` set (jdBackupResultList jd)"
    using job *(1) by (auto simp: jobFor_def)
  moreover have "map brLabel (jdBackupResultList (fileDone jd1)) = map brLabel (jdBackupResultList jd)"
    using *(1) sel(1) by (simp add: fileDone_simps b'(1))
  moreover have "archivePart jd1 = archivePart jd" "jdJobErrorTotal jd1 = jdJobErrorTotal jd" "\<And>l. usable env jd1 l = usable env jd l"
    by (simp_all add: b'(1) archivePart_def)
  ultimately show ?thesis by (simp add: fileDone_simps)
qed

lemma verifyBackup_files_step:
  assumes "backupWorking env L jd m files" "files \<noteq> []" "resultsOk env jd R" "labelsOk L" "verifyBackup_files m files jd = Inr (job, jd')"
  shows "resultsOk env jd' (withJob R job) \<and> archivePart jd' = archivePart jd \<and> jdJobErrorTotal jd' = jdJobErrorTotal jd \<and>
    (\<forall>l. usable env jd' l = usable env jd l) \<and> map brLabel (jdBackupResultList jd') = map brLabel (jdBackupResultList jd) \<and>
    (\<forall>j. job = Some j \<longrightarrow> keyParts j ! 1 = STORAGE_REPO_BACKUP \<and> keyParts j ! 0 \<in> brLabel ` set (jdBackupResultList jd)) \<and>
    (backupIdle env L jd' \<or> job \<noteq> None \<and> (\<exists>m files. files \<noteq> [] \<and> backupWorking env L jd' m files))"
  using assms
proof (induction m files jd arbitrary: R rule: verifyBackup_files.induct)
  case (2 m f files jd)
  obtain job1 jd1 where 1: "verifyBackup_file m f jd = Inr (job1, jd1)" using 2(6) by (auto simp: bindR_Inr_iff)
  note step = verifyBackup_file_step [OF 2(2,4,5) 1]
  show ?case
  proof (cases job1)
    case (Some j)
    then have "job = Some j" "jd' = fileDone jd1" using 2(6) 1 by auto
    then show ?thesis using step Some by (auto split: if_splits)
  next
    case None
    then have rest: "verifyBackup_files m files (fileDone jd1) = Inr (job, jd')" using 2(6) 1 by auto
    show ?thesis
    proof (cases "files = []")
      case True
      then have "job = None" "jd' = fileDone jd1" using rest by auto
      then show ?thesis using step None True by simp
    next
      case False
      moreover have "brLabel ` set (jdBackupResultList (fileDone jd1)) = brLabel ` set (jdBackupResultList jd)"
        using step by (metis list.set_map)
      ultimately show ?thesis using 2(1) [OF 1 refl None _ False _ 2(5) rest, of R] step None by simp
    qed
  qed
qed simp

subsection \<open>The loop over the backups\<close>

lemma verifyManifestFile_facts:
  assumes "verifyManifestFile repo (backupResultNew l) c h e = (mo, b, e')"
  shows "mo = fst (verifyManifestFile repo (backupResultNew l) c h 0)" "e \<le> e'"
    "\<exists>st. b = (backupResultNew l)\<lparr>brStatus := st\<rparr> \<and> (mo \<noteq> None \<longrightarrow> st = backupValid \<and> e' = e)"
  using assms
  by (auto simp: verifyManifestFile_def Let_def backupResultNew_def split: sum.splits if_splits option.splits)

definition jobsKnown :: "VerifyJobData \<Rightarrow> VerifyJob multiset \<Rightarrow> bool" where
  "jobsKnown jd R \<longleftrightarrow> (\<forall>j\<in>#R. keyParts j ! 1 \<in> {STORAGE_REPO_ARCHIVE, STORAGE_REPO_BACKUP} \<and>
    (keyParts j ! 1 = STORAGE_REPO_BACKUP \<longrightarrow> keyParts j ! 0 \<in> brLabel ` set (jdBackupResultList jd)))"

text \<open>The state of the backups between two calls.\<close>

definition backupState :: "VerifyEnv \<Rightarrow> string list \<Rightarrow> VerifyJobData \<Rightarrow> VerifyJob multiset \<Rightarrow> bool" where
  "backupState env L jd R \<longleftrightarrow> labelsOk L \<and> resultsOk env jd R \<and> jobsKnown jd R \<and>
    (backupIdle env L jd \<or> (\<exists>m files. files \<noteq> [] \<and> backupWorking env L jd m files))"

definition backupNext :: "VerifyEnv \<Rightarrow> string list \<Rightarrow> VerifyJobData \<Rightarrow> VerifyJob multiset \<Rightarrow> VerifyJob option \<Rightarrow> VerifyJobData \<Rightarrow> bool" where
  "backupNext env L jd R job jd' \<longleftrightarrow> backupState env L jd' (withJob R job) \<and> archivePart jd' = archivePart jd \<and>
    jdJobErrorTotal jd \<le> jdJobErrorTotal jd' \<and> (\<forall>l. usable env jd' l = usable env jd l) \<and>
    (\<forall>j. job = Some j \<longrightarrow> keyParts j ! 1 = STORAGE_REPO_BACKUP) \<and> (job = None \<longrightarrow> jdBackupList jd' = [])"

lemma filter_mset_none: "\<forall>x\<in>#R. \<not> P x \<Longrightarrow> filter_mset P R = {#}"
  by (induction R) auto

lemma no_jobs_for_new:
  assumes "jobsKnown jd R" "l \<notin> brLabel ` set (jdBackupResultList jd)"
  shows "filter_mset (jobFor STORAGE_REPO_BACKUP l) R = {#}"
  by (rule filter_mset_none) (use assms in \<open>auto simp: jobsKnown_def jobFor_def\<close>)

text \<open>A result that was added for a backup.\<close>

lemma resultsOk_add:
  assumes ok: "resultsOk env jd R" and known: "jobsKnown jd R" and new: "brLabel b \<notin> brLabel ` set (jdBackupResultList jd)"
    and jd': "jdBackupResultList jd' = jdBackupResultList jd @ [b]" "jdJobErrorTotal jd \<le> jdJobErrorTotal jd'" "\<And>l. usable env jd' l = usable env jd l"
    and b: "brTotalFileVerify b = 0" "brTotalFileValid b = 0" "brInvalidFileList b = []" "\<not> brFileVerifyComplete b"
    and m: "\<And>m. usable env jd (brLabel b) = Some m \<Longrightarrow> brTotalFileManifest b = length (manFileList m) \<and> (manFileList m \<noteq> [] \<longrightarrow> brStatus b = backupValid)"
  shows "resultsOk env jd' R" "jobsKnown jd' R"
proof -
  have "resultOk env jd' R b"
    using b m no_jobs_for_new [OF known new] by (auto simp: resultOk_def jd'(3) split: option.splits)
  moreover have "resultOk env jd' R c" if "c \<in> set (jdBackupResultList jd)" for c
    using ok that by (auto simp: resultsOk_def resultOk_def jd'(3))
  moreover have "resultVerified env jd' R c" if "c \<in> set (jdBackupResultList jd)" "jdJobErrorTotal jd' = 0" for c
    by (rule resultVerified_mono [of env jd R c]) (use ok that jd' in \<open>auto simp: resultsOk_def\<close>)
  moreover have "resultVerified env jd' R b" using b by (simp add: resultVerified_def)
  ultimately show "resultsOk env jd' R" by (auto simp: resultsOk_def jd'(1))
  show "jobsKnown jd' R" using known by (auto simp: jobsKnown_def jd'(1))
qed

lemma backupInit_idle:
  assumes state: "labelsOk L" "resultsOk env jd R" "jobsKnown jd R" "backupIdle env L jd" "jdBackupList jd = l # ls"
    and init: "backupInit env l jd = (u, jd1)"
  shows "resultsOk env jd1 R" "jobsKnown jd1 R" "archivePart jd1 = archivePart jd" "jdJobErrorTotal jd \<le> jdJobErrorTotal jd1"
    "\<And>l. usable env jd1 l = usable env jd l"
    "if u then \<exists>m. backupWorking env L jd1 m (manFileList m) else backupIdle env L (jd1\<lparr>jdBackupList := ls\<rparr>)"
proof -
  have L: "map brLabel (jdBackupResultList jd) @ l # ls = L" using state(4,5) by (simp add: backupIdle_def)
  then have new: "l \<notin> brLabel ` set (jdBackupResultList jd)" using state(1) by (auto simp: labelsOk_def)
  then have start: "jdBackupResultList jd = [] \<or> brLabel (last (jdBackupResultList jd)) \<noteq> l" by (auto simp: image_iff)
  obtain mo b e where man: "verifyManifestFile (envRepo env) (backupResultNew l) (jdCurrentBackup jd = Some l) (jdPgHistory jd) (jdJobErrorTotal jd) = (mo, b, e)"
    by (metis prod_cases3)
  note facts = verifyManifestFile_facts [OF man]
  have mo: "usable env jd l = mo" using facts(1) by (simp add: usable_def)
  define b1 where "b1 = (case mo of None \<Rightarrow> b | Some m \<Rightarrow> b\<lparr>brTotalFileManifest := length (manFileList m), brPrior := manBackupLabelPrior (manData m),
      brPgId := manPgId (manData m), brPgVersion := manPgVersion (manData m),
      brArchiveStart := manArchiveStart (manData m), brArchiveStop := manArchiveStop (manData m)\<rparr>)"
  have b1: "brLabel b1 = l" "brTotalFileVerify b1 = 0" "brTotalFileValid b1 = 0" "brInvalidFileList b1 = []" "\<not> brFileVerifyComplete b1"
    using facts(3) by (auto simp: b1_def backupResultNew_def split: option.splits)
  have bm: "brTotalFileManifest b1 = length (manFileList m) \<and> (manFileList m \<noteq> [] \<longrightarrow> brStatus b1 = backupValid)" if "mo = Some m" for m
    using facts(3) that by (auto simp: b1_def)
  have jd1: "jdBackupResultList jd1 = jdBackupResultList jd @ [b1]" "jdJobErrorTotal jd1 = e" "archivePart jd1 = archivePart jd"
    "jdBackupList jd1 = jdBackupList jd" "jdCurrentBackup jd1 = jdCurrentBackup jd" "jdPgHistory jd1 = jdPgHistory jd" "u \<longleftrightarrow> mo \<noteq> None"
    using init start man by (auto simp: backupInit_def b1_def archivePart_def split: option.splits)
  show us: "\<And>l. usable env jd1 l = usable env jd l" using jd1(5,6) by (simp add: usable_def)
  show "archivePart jd1 = archivePart jd" by (rule jd1(3))
  show err: "jdJobErrorTotal jd \<le> jdJobErrorTotal jd1" using facts(2) jd1(2) by simp
  have "resultsOk env jd1 R \<and> jobsKnown jd1 R"
    using resultsOk_add [OF state(2,3), of b1 jd1] new b1 bm jd1(1) err us mo by simp
  then show "resultsOk env jd1 R" "jobsKnown jd1 R" by simp_all
  have fin: "resultFinished env jd1 c" if "c \<in> set (jdBackupResultList jd)" for c
    using state(4) that us by (auto simp: backupIdle_def resultFinished_def)
  show "if u then \<exists>m. backupWorking env L jd1 m (manFileList m) else backupIdle env L (jd1\<lparr>jdBackupList := ls\<rparr>)"
  proof (cases mo)
    case None
    then have "resultFinished env jd1 b1" using mo us b1(1) by (simp add: resultFinished_def)
    then show ?thesis using None jd1 L b1(1) fin by (auto simp: backupIdle_def resultFinished_def)
  next
    case (Some m)
    then have "jdManifest jd1 = Some m" "jdManifestFileIdx jd1 = 0" "jdBackupCipherPass jd1 = manCipherSubPass m"
      using init start man by (auto simp: backupInit_def)
    then have "backupWorking env L jd1 m (manFileList m)"
      unfolding backupWorking_def
      by (intro exI [of _ "jdBackupResultList jd"] exI [of _ b1] exI [of _ ls])
        (use jd1 L b1 fin us mo Some bm state(5) in auto)
    then show ?thesis using Some jd1(7) by auto
  qed
qed

text \<open>A backup of which the manifest has no files is an error, and is done.\<close>

lemma backup_without_files:
  assumes "backupWorking env L jd m []" "manFileList m = []" "resultsOk env jd R" "jobsKnown jd R" "labelsOk L"
    and "jd' = jd\<lparr>jdJobErrorTotal := jdJobErrorTotal jd + 1, jdManifest := None,
      jdBackupResultList := updateLast (\<lambda>b. b\<lparr>brStatus := backupInvalid\<rparr>) (jdBackupResultList jd), jdBackupList := tl (jdBackupList jd)\<rparr>"
  shows "backupIdle env L jd' \<and> resultsOk env jd' R \<and> jobsKnown jd' R"
proof -
  obtain bs b ls where *: "jdBackupResultList jd = bs @ [b]" "jdBackupList jd = brLabel b # ls" "map brLabel bs @ brLabel b # ls = L"
    "\<forall>b\<in>set bs. resultFinished env jd b" "usable env jd (brLabel b) = Some m" "brTotalFileVerify b \<le> length (manFileList m)"
    using assms(1) by (auto simp: backupWorking_def)
  have "resultOk env jd' R c" if "c \<in> set bs" for c
    using assms(3,6) that *(1) by (auto simp: resultsOk_def resultOk_def)
  moreover have "resultOk env jd' R (b\<lparr>brStatus := backupInvalid\<rparr>)"
    using assms(2,3,6) *(1,5) by (auto simp: resultsOk_def resultOk_def)
  ultimately have "resultsOk env jd' R" using assms(6) *(1) by (auto simp: resultsOk_def)
  moreover have "backupIdle env L jd'" using *(1-6) assms(2,6) by (auto simp: backupIdle_def resultFinished_def)
  moreover have "jobsKnown jd' R" using assms(4,6) *(1) by (auto simp: jobsKnown_def)
  ultimately show ?thesis by blast
qed

lemma backupNext_trans:
  assumes "backupNext env L jd1 R job jd'" "archivePart jd1 = archivePart jd" "jdJobErrorTotal jd \<le> jdJobErrorTotal jd1"
    "\<And>l. usable env jd1 l = usable env jd l"
  shows "backupNext env L jd R job jd'"
  using assms by (auto simp: backupNext_def)

text \<open>The files of the backup that is being worked on, and then the backups after it.\<close>

lemma working_files:
  assumes work: "backupWorking env L jd m files" "files \<noteq> []" and state: "resultsOk env jd R" "jobsKnown jd R" "labelsOk L"
    and files: "verifyBackup_files m files jd = Inr (job, jd1)"
  shows "job \<noteq> None \<Longrightarrow> backupNext env L jd R job jd1"
    and "job = None \<Longrightarrow> backupState env L jd1 R \<and> backupIdle env L jd1 \<and> archivePart jd1 = archivePart jd \<and>
      jdJobErrorTotal jd1 = jdJobErrorTotal jd \<and> (\<forall>l. usable env jd1 l = usable env jd l) \<and> jdBackupList jd1 = tl (jdBackupList jd)"
proof -
  note step = verifyBackup_files_step [OF work state(1,3) files]
  have "brLabel ` set (jdBackupResultList jd1) = brLabel ` set (jdBackupResultList jd)" using step by (metis list.set_map)
  then have known: "jobsKnown jd1 (withJob R job)" using state(2) step by (cases job) (auto simp: jobsKnown_def)
  have list: "jdBackupList jd1 = tl (jdBackupList jd)" if "backupIdle env L jd1"
    using that step work(1) by (auto simp: backupIdle_def backupWorking_def)
  show "job \<noteq> None \<Longrightarrow> backupNext env L jd R job jd1"
    "job = None \<Longrightarrow> backupState env L jd1 R \<and> backupIdle env L jd1 \<and> archivePart jd1 = archivePart jd \<and>
      jdJobErrorTotal jd1 = jdJobErrorTotal jd \<and> (\<forall>l. usable env jd1 l = usable env jd l) \<and> jdBackupList jd1 = tl (jdBackupList jd)"
    using step state(3) list known by (auto simp: backupNext_def backupState_def)
qed

lemma verifyBackup_loop_step:
  assumes "backupState env L jd R" "jdBackupList jd = ls" "verifyBackup_loop env ls jd = Inr (job, jd')"
  shows "backupNext env L jd R job jd'"
  using assms
proof (induction ls arbitrary: jd)
  case Nil
  then show ?case by (auto simp: backupNext_def)
next
  case (Cons l ls)
  have state: "labelsOk L" "resultsOk env jd R" "jobsKnown jd R" using Cons.prems(1) by (auto simp: backupState_def)
  obtain u jd1 where init: "backupInit env l jd = (u, jd1)" by (metis surj_pair)
  have init1: "resultsOk env jd1 R \<and> jobsKnown jd1 R \<and> archivePart jd1 = archivePart jd \<and> jdJobErrorTotal jd \<le> jdJobErrorTotal jd1 \<and>
    (\<forall>l. usable env jd1 l = usable env jd l) \<and>
    (if u then \<exists>m files. backupWorking env L jd1 m files \<and> (files \<noteq> [] \<or> manFileList m = []) else backupIdle env L (jd1\<lparr>jdBackupList := ls\<rparr>))"
  proof (cases "backupIdle env L jd")
    case True
    show ?thesis using backupInit_idle [OF state True Cons.prems(2) init] by (auto split: if_splits)
  next
    case False
    then obtain m files where w: "files \<noteq> []" "backupWorking env L jd m files" using Cons.prems(1) by (auto simp: backupState_def)
    then have "backupInit env l jd = (True, jd)" using Cons.prems(2) by (auto simp: backupWorking_def backupInit_def)
    then show ?thesis using w init state by auto
  qed
  have next1: "backupNext env L jd R job jd'" if "backupNext env L jd2 R job jd'" "archivePart jd2 = archivePart jd1"
      "jdJobErrorTotal jd1 \<le> jdJobErrorTotal jd2" "\<And>l. usable env jd2 l = usable env jd1 l" for jd2
    by (rule backupNext_trans [OF that(1)]) (use init1 that in auto)
  show ?case
  proof (cases u)
    case False
    let ?jd2 = "jd1\<lparr>jdBackupList := ls\<rparr>"
    have "backupState env L ?jd2 R"
      using init1 False state(1) resultsOk_cong [of ?jd2 jd1 env R] by (auto simp: backupState_def jobsKnown_def)
    then have "backupNext env L ?jd2 R job jd'" using Cons.IH [of ?jd2] Cons.prems(3) init False by auto
    then show ?thesis by (rule next1) (simp_all add: archivePart_def)
  next
    case True
    then obtain m files where w: "backupWorking env L jd1 m files" "files \<noteq> [] \<or> manFileList m = []" using init1 by auto
    then have man: "jdManifest jd1 = Some m" "files = drop (jdManifestFileIdx jd1) (manFileList m)"
      by (auto simp: backupWorking_def) (metis append_eq_conv_conj length_take min.absorb2)
    have list: "jdBackupList jd1 = l # ls" using Cons.prems(2) init w(1)
      by (auto simp: backupInit_def split: if_splits prod.splits option.splits)
    show ?thesis
    proof (cases "files = []")
      case True
      let ?jd2 = "jd1\<lparr>jdJobErrorTotal := jdJobErrorTotal jd1 + 1, jdManifest := None,
        jdBackupResultList := updateLast (\<lambda>b. b\<lparr>brStatus := backupInvalid\<rparr>) (jdBackupResultList jd1), jdBackupList := ls\<rparr>"
      have none: "manFileList m = []" using w(2) True by simp
      have "backupIdle env L ?jd2 \<and> resultsOk env ?jd2 R \<and> jobsKnown ?jd2 R"
        by (rule backup_without_files [of env L jd1 m]) (use w(1) True none init1 state(1) list in auto)
      then have "backupState env L ?jd2 R" using state(1) by (simp add: backupState_def)
      moreover have "verifyBackup_loop env ls ?jd2 = Inr (job, jd')" using Cons.prems(3) init \<open>u\<close> man none by simp
      ultimately have "backupNext env L ?jd2 R job jd'" using Cons.IH [of ?jd2] by simp
      then show ?thesis by (rule next1) (simp_all add: archivePart_def)
    next
      case False
      then have "jdManifestFileIdx jd1 < length (manFileList m)" using man(2) by auto
      then obtain job1 jd2 where files: "verifyBackup_files m files jd1 = Inr (job1, jd2)"
        and rest: "(case job1 of None \<Rightarrow> verifyBackup_loop env ls jd2 | Some job \<Rightarrow> Inr (Some job, jd2)) = Inr (job, jd')"
        using Cons.prems(3) init \<open>u\<close> man by (auto simp: bindR_Inr_iff)
      have pre: "resultsOk env jd1 R" "jobsKnown jd1 R" using init1 by auto
      note step = working_files [OF w(1) False pre state(1) files]
      show ?thesis
      proof (cases job1)
        case (Some j)
        then have "job = Some j" "jd' = jd2" using rest by auto
        then show ?thesis using next1 [of jd1] step(1) Some by simp
      next
        case None
        then have "backupState env L jd2 R" "backupIdle env L jd2" using step(2) by auto
        moreover have "jdBackupList jd2 = ls" using step(2) None list by simp
        ultimately have "backupNext env L jd2 R job jd'" using Cons.IH [of jd2] rest None by simp
        then show ?thesis by (rule next1) (use step(2) None in auto)
      qed
    qed
  qed
qed

section \<open>Manifests that cannot be used\<close>

definition manifestErrors :: "VerifyEnv \<Rightarrow> VerifyJobData \<Rightarrow> string \<Rightarrow> nat" where
  "manifestErrors env jd l = snd (snd (verifyManifestFile (envRepo env) (backupResultNew l) (jdCurrentBackup jd = Some l) (jdPgHistory jd) 0))"

lemma manifestErrors_add:
  "snd (snd (verifyManifestFile (envRepo env) (backupResultNew l) (jdCurrentBackup jd = Some l) (jdPgHistory jd) e)) = e + manifestErrors env jd l"
  by (auto simp: manifestErrors_def verifyManifestFile_def Let_def split: sum.splits if_splits option.splits)

text \<open>As long as no error was counted, every backup that was started has a manifest or is one of those that may have none.\<close>

definition manifestsOk :: "VerifyEnv \<Rightarrow> VerifyJobData \<Rightarrow> bool" where
  "manifestsOk env jd \<longleftrightarrow> (jdJobErrorTotal jd = 0 \<longrightarrow> (\<forall>l\<in>set (map brLabel (jdBackupResultList jd)). manifestErrors env jd l = 0))"

definition conf where
  "conf jd = (jdCurrentBackup jd, jdPgHistory jd)"

lemma manifestsOk_cong:
  assumes "manifestsOk env jd" "map brLabel (jdBackupResultList jd') = map brLabel (jdBackupResultList jd)" "conf jd' = conf jd"
    "jdJobErrorTotal jd \<le> jdJobErrorTotal jd'"
  shows "manifestsOk env jd'"
  using assms by (simp add: manifestsOk_def manifestErrors_def conf_def del: set_map)

lemma updateLast_labels: "xs \<noteq> [] \<Longrightarrow> brLabel (f (last xs)) = brLabel (last xs) \<Longrightarrow> map brLabel (updateLast f xs) = map brLabel xs"
  by (cases xs rule: rev_cases) simp_all

lemma updateLast_ne [simp]: "updateLast f xs \<noteq> []"
  by (simp add: updateLast_def)

lemma verifyBackup_file_keeps:
  assumes "verifyBackup_file m f jd = Inr (job, jd')" "jdBackupResultList jd \<noteq> []"
  shows "map brLabel (jdBackupResultList jd') = map brLabel (jdBackupResultList jd) \<and> conf jd' = conf jd \<and>
    jdJobErrorTotal jd' = jdJobErrorTotal jd"
  using assms
  by (auto simp: verifyBackup_file_def Let_def bindR_Inr_iff conf_def updateLast_labels split: FileState.splits)

lemma verifyBackup_files_keeps:
  assumes "verifyBackup_files m files jd = Inr (job, jd')" "jdBackupResultList jd \<noteq> []"
  shows "map brLabel (jdBackupResultList jd') = map brLabel (jdBackupResultList jd) \<and> conf jd' = conf jd \<and>
    jdJobErrorTotal jd' = jdJobErrorTotal jd"
  using assms
proof (induction m files jd rule: verifyBackup_files.induct)
  case (2 m f files jd)
  obtain job1 jd1 where 1: "verifyBackup_file m f jd = Inr (job1, jd1)" using 2(2) by (auto simp: bindR_Inr_iff)
  note k = verifyBackup_file_keeps [OF 1 2(3)]
  then have "jdBackupResultList jd1 \<noteq> []" using 2(3) by auto
  then show ?case
    using 2(1) [OF 1 refl] 2(2) 1 k by (cases job1) (auto simp: fileDone_simps conf_def)
qed simp

lemma backupInit_manifests:
  assumes "backupInit env l jd = (u, jd')" "manifestsOk env jd"
  shows "manifestsOk env jd' \<and> conf jd' = conf jd \<and> jdJobErrorTotal jd \<le> jdJobErrorTotal jd' \<and> jdBackupResultList jd' \<noteq> []"
proof (cases "jdBackupResultList jd = [] \<or> brLabel (last (jdBackupResultList jd)) \<noteq> l")
  case True
  obtain mo b e where man: "verifyManifestFile (envRepo env) (backupResultNew l) (jdCurrentBackup jd = Some l) (jdPgHistory jd) (jdJobErrorTotal jd) = (mo, b, e)"
    by (metis prod_cases3)
  have e: "e = jdJobErrorTotal jd + manifestErrors env jd l" using manifestErrors_add [of env l jd "jdJobErrorTotal jd"] man by simp
  have b: "brLabel b = l" using verifyManifestFile_facts(3) [OF man] by (auto simp: backupResultNew_def)
  have "map brLabel (jdBackupResultList jd') = map brLabel (jdBackupResultList jd) @ [l]" "conf jd' = conf jd" "jdJobErrorTotal jd' = e"
    using assms(1) True man b by (auto simp: backupInit_def conf_def split: option.splits)
  then show ?thesis using assms(2) e by (auto simp: manifestsOk_def manifestErrors_def conf_def simp del: set_map)
next
  case False
  then show ?thesis using assms by (auto simp: backupInit_def)
qed

lemma verifyBackup_loop_manifests:
  "verifyBackup_loop env ls jd = Inr (job, jd') \<Longrightarrow> manifestsOk env jd \<Longrightarrow> manifestsOk env jd' \<and> conf jd' = conf jd"
proof (induction env ls jd rule: verifyBackup_loop.induct)
  case (2 env l ls jd)
  obtain u jd1 where u: "backupInit env l jd = (u, jd1)" by (metis surj_pair)
  note init = backupInit_manifests [OF u 2(5)]
  show ?case
  proof (cases "u \<and> (\<exists>m. jdManifest jd1 = Some m \<and> jdManifestFileIdx jd1 < length (manFileList m))")
    case True
    then obtain m where m: "u" "jdManifest jd1 = Some m" "jdManifestFileIdx jd1 < length (manFileList m)" by auto
    then obtain job2 jd2 where f: "verifyBackup_files m (drop (jdManifestFileIdx jd1) (manFileList m)) jd1 = Inr (job2, jd2)"
      "(case job2 of None \<Rightarrow> verifyBackup_loop env ls jd2 | Some job \<Rightarrow> Inr (Some job, jd2)) = Inr (job, jd')"
      using 2(4) u by (auto simp: bindR_Inr_iff)
    have "manifestsOk env jd2"
      by (rule manifestsOk_cong [of env jd1]) (use verifyBackup_files_keeps [OF f(1)] init in auto)
    then show ?thesis using f m 2(2) [OF u [symmetric] refl] verifyBackup_files_keeps [OF f(1)] init by (cases job2) auto
  next
    case False
    let ?jd = "if u then jd1\<lparr>jdJobErrorTotal := jdJobErrorTotal jd1 + 1, jdManifest := None,
      jdBackupResultList := updateLast (\<lambda>b. b\<lparr>brStatus := backupInvalid\<rparr>) (jdBackupResultList jd1), jdBackupList := ls\<rparr>
      else jd1\<lparr>jdBackupList := ls\<rparr>"
    have "conf ?jd = conf jd" using init by (simp add: conf_def)
    moreover have "manifestsOk env ?jd"
      by (rule manifestsOk_cong [of env jd1]) (use init in \<open>auto simp: conf_def updateLast_labels\<close>)
    moreover have "verifyBackup_loop env ls ?jd = Inr (job, jd')"
      using 2(4) False u by (auto split: option.splits)
    ultimately show ?thesis using 2(1) [OF u [symmetric] refl] 2(3) [OF u [symmetric] refl] 2(4) u False by (cases u) (auto split: option.splits)
  qed
qed simp

end
