(* ===== verification/VerifyArch.thy ===== *)
theory VerifyArch
  imports VerifyInv
begin

text \<open>The invariant of the archive part of the verify command, and that the callback keeps it.\<close>

section \<open>Archives\<close>

definition dirsOf :: "VerifyEnv \<Rightarrow> string \<Rightarrow> string list" where
  "dirsOf env a = strLstSort (storageList (envRepo env) (REPO_ARCHIVE @ [a]) WAL_SEGMENT_DIR_REGEXP) sortOrderAsc"

definition walFilesOf :: "VerifyEnv \<Rightarrow> VerifyJobData \<Rightarrow> string \<Rightarrow> string \<Rightarrow> string list" where
  "walFilesOf env jd a dir =
    walFileFilter jd (strLstSort (storageList (envRepo env) (REPO_ARCHIVE @ [a, dir]) WAL_SEGMENT_FILE_REGEXP) sortOrderAsc)"

text \<open>A WAL file has a job that is under way or had no complaint; a file that is missing is none.\<close>

definition walOk :: "VerifyEnv \<Rightarrow> VerifyJobData \<Rightarrow> VerifyJob multiset \<Rightarrow> VerifyArchiveResult \<Rightarrow> string \<Rightarrow> string \<Rightarrow> bool" where
  "walOk env jd R r dir f \<longleftrightarrow> arWalSize r \<noteq> 0 \<and>
    (\<exists>param j. walFileParam r (jdWalCipherPass jd) dir f = Inr param \<and> newJob (arArchiveId r) param = Inr j \<and>
      (j \<in># R \<or> verifyRespond env j = Inr 0 \<or> verifyRespond env j = Inr 1))"

definition dirOk :: "VerifyEnv \<Rightarrow> VerifyJobData \<Rightarrow> VerifyJob multiset \<Rightarrow> VerifyArchiveResult \<Rightarrow> string \<Rightarrow> bool" where
  "dirOk env jd R r dir \<longleftrightarrow> (\<forall>f\<in>set (walFilesOf env jd (arArchiveId r) dir). walOk env jd R r dir f) \<and>
    distinct (map walSegmentOf (walFilesOf env jd (arArchiveId r) dir))"

definition archiveDone :: "VerifyEnv \<Rightarrow> VerifyJobData \<Rightarrow> VerifyJob multiset \<Rightarrow> VerifyArchiveResult \<Rightarrow> bool" where
  "archiveDone env jd R r \<longleftrightarrow> (\<forall>dir\<in>set (dirsOf env (arArchiveId r)). dirOk env jd R r dir)"

text \<open>The paths that are left of an archive, the first one perhaps with some of its files done.\<close>

definition pathState :: "VerifyEnv \<Rightarrow> VerifyJobData \<Rightarrow> VerifyJob multiset \<Rightarrow> VerifyArchiveResult \<Rightarrow> string list \<Rightarrow> bool" where
  "pathState env jd R r dirs \<longleftrightarrow>
    (\<exists>dd. dirsOf env (arArchiveId r) = dd @ dirs \<and> (\<forall>dir\<in>set dd. dirOk env jd R r dir)) \<and>
    (jdWalFileList jd = [] \<or> dirs \<noteq> [] \<and> distinct (map walSegmentOf (walFilesOf env jd (arArchiveId r) (hd dirs))) \<and>
      (\<exists>fd. walFilesOf env jd (arArchiveId r) (hd dirs) = fd @ jdWalFileList jd \<and> (\<forall>f\<in>set fd. walOk env jd R r (hd dirs) f)))"

definition archiveState :: "VerifyEnv \<Rightarrow> string list \<Rightarrow> VerifyJobData \<Rightarrow> VerifyJob multiset \<Rightarrow> bool" where
  "archiveState env A jd R \<longleftrightarrow>
    map arArchiveId (jdArchiveIdResultList jd) @ jdArchiveIdList jd = A \<and> (\<forall>r\<in>set (jdArchiveIdResultList jd). archiveDone env jd R r) \<and>
      jdWalFileList jd = [] \<or>
    (\<exists>rs r ids. jdArchiveIdResultList jd = rs @ [r] \<and> jdArchiveIdList jd = arArchiveId r # ids \<and> map arArchiveId rs @ arArchiveId r # ids = A \<and>
      (\<forall>r\<in>set rs. archiveDone env jd R r) \<and> pathState env jd R r (jdWalPathList jd))"

definition walInfoOk :: "VerifyEnv \<Rightarrow> bool" where
  "walInfoOk env \<longleftrightarrow> (\<forall>p pass sz v. envWalInfo env p pass = Inr (sz, v) \<longrightarrow> sz \<noteq> 0)"

subsection \<open>Sorted files\<close>

lemma take_mono_lex: "xs \<le> ys \<Longrightarrow> take n xs \<le> take n (ys :: 'a :: linorder list)"
proof (induction xs arbitrary: n ys)
  case (Cons x xs)
  then show ?case by (cases ys; cases n) auto
qed simp

lemma sorted_take: "sorted xs \<Longrightarrow> sorted (map (take n) (xs :: 'a :: linorder list list))"
  by (induction xs) (auto intro: take_mono_lex)

lemma sorted_dropWhile': "sorted xs \<Longrightarrow> sorted (dropWhile P xs)"
  by (induction xs) auto

lemma sorted_dropWhile_end: "sorted xs \<Longrightarrow> sorted (rev (dropWhile P (rev xs)))"
  by (metis append_take_drop_id dropWhile_eq_drop rev_append rev_rev_ident sorted_append)

lemma sorted_walFilesOf: "sorted (map walSegmentOf (walFilesOf env jd a dir))"
proof -
  have "sorted (walFilesOf env jd a dir)"
    by (auto simp: walFilesOf_def walFileFilter_def strLstSort_def Let_def intro!: sorted_dropWhile_end sorted_dropWhile' split: option.splits)
  then show ?thesis unfolding walSegmentOf_def by (rule sorted_take)
qed

lemma distinct_adj_sorted: "sorted xs \<Longrightarrow> distinct_adj xs \<Longrightarrow> distinct (xs :: 'a :: linorder list)"
proof (induction xs)
  case (Cons x xs)
  then show ?case by (cases xs) (auto simp: distinct_adj_Cons order.antisym)
qed simp

lemma createRange_errors:
  "verifyCreateArchiveIdRange_loop sz cur ranges kept rest err = Inr (ranges', files', err') \<Longrightarrow>
    err \<le> err' \<and> (err' = err \<longrightarrow> files' = kept @ rest \<and> distinct_adj (map walSegmentOf rest))"
proof (induction sz cur ranges kept rest err arbitrary: ranges' files' err' rule: verifyCreateArchiveIdRange_loop.induct)
  case (2 sz cur ranges kept f fs err)
  show ?case
  proof (cases "fs \<noteq> [] \<and> walSegmentOf f = walSegmentOf (hd fs)")
    case True
    then show ?thesis using 2(1) [OF True] 2(3) by fastforce
  next
    case False
    then obtain new where new: "startsRange sz cur ranges (walSegmentOf f) = Inr new"
      "verifyCreateArchiveIdRange_loop sz True (extendRange (walSegmentOf f) new ranges) (kept @ [f]) fs err = Inr (ranges', files', err')"
      using 2(3) by (auto simp: bindR_Inr_iff split: if_splits)
    from 2(2) [OF False new] show ?thesis using False by (cases fs) (auto simp: distinct_adj_Cons)
  qed
qed auto

subsection \<open>The files of a path\<close>

lemma walFilesOf_upd [simp]:
  "walFilesOf env (jd\<lparr>jdWalFileList := a\<rparr>) = walFilesOf env jd" "walFilesOf env (jd\<lparr>jdWalPathList := b\<rparr>) = walFilesOf env jd"
  "walFilesOf env (jd\<lparr>jdArchiveIdResultList := c\<rparr>) = walFilesOf env jd" "walFilesOf env (jd\<lparr>jdJobErrorTotal := e\<rparr>) = walFilesOf env jd"
  "walFilesOf env (jd\<lparr>jdArchiveIdList := l\<rparr>) = walFilesOf env jd"
  by (simp_all add: walFilesOf_def walFileFilter_def fun_eq_iff Let_def cong: option.case_cong)

lemma walFileParam_cong:
  "arArchiveId r' = arArchiveId r \<Longrightarrow> arWalSize r' = arWalSize r \<Longrightarrow> walFileParam r' pass dir f = walFileParam r pass dir f"
  by (simp add: walFileParam_def)

text \<open>What stays the same: the filter, the cipher pass and everything about backups.\<close>

definition archiveFrame :: "VerifyJobData \<Rightarrow> VerifyJobData \<Rightarrow> bool" where
  "archiveFrame jd jd' \<longleftrightarrow> backupPart jd' = backupPart jd \<and> jdWalCipherPass jd' = jdWalCipherPass jd \<and>
    jdEnableArchiveFilter jd' = jdEnableArchiveFilter jd \<and> jdArchiveStart jd' = jdArchiveStart jd \<and> jdArchiveStop jd' = jdArchiveStop jd \<and>
    jdBackupProcessing jd' = jdBackupProcessing jd \<and> jdJobErrorTotal jd \<le> jdJobErrorTotal jd'"

lemma archiveFrame_refl [simp]: "archiveFrame jd jd"
  by (simp add: archiveFrame_def)

lemma archiveFrame_trans [trans]: "archiveFrame jd jd1 \<Longrightarrow> archiveFrame jd1 jd2 \<Longrightarrow> archiveFrame jd jd2"
  by (auto simp: archiveFrame_def)

lemma archiveFrame_upd [simp]:
  "archiveFrame jd (jd'\<lparr>jdWalFileList := a\<rparr>) = archiveFrame jd jd'" "archiveFrame jd (jd'\<lparr>jdWalPathList := b\<rparr>) = archiveFrame jd jd'"
  "archiveFrame jd (jd'\<lparr>jdArchiveIdResultList := c\<rparr>) = archiveFrame jd jd'" "archiveFrame jd (jd'\<lparr>jdArchiveIdList := d\<rparr>) = archiveFrame jd jd'"
  by (auto simp: archiveFrame_def backupPart_def)

lemma walFilesOf_frame: "archiveFrame jd jd' \<Longrightarrow> walFilesOf env jd' = walFilesOf env jd"
  by (simp add: archiveFrame_def walFilesOf_def walFileFilter_def fun_eq_iff Let_def cong: option.case_cong)

lemma walOk_mono:
  assumes "walOk env jd R r dir f" "R \<subseteq># R'" "archiveFrame jd jd'" "arArchiveId r' = arArchiveId r" "arWalSize r \<noteq> 0 \<Longrightarrow> arWalSize r' = arWalSize r"
  shows "walOk env jd' R' r' dir f"
proof -
  have "arWalSize r' = arWalSize r" "arWalSize r \<noteq> 0" "jdWalCipherPass jd' = jdWalCipherPass jd"
    using assms by (auto simp: walOk_def archiveFrame_def)
  then show ?thesis using assms(1,2,4) walFileParam_cong [of r' r] unfolding walOk_def by (metis mset_subset_eqD)
qed

lemma dirOk_mono:
  assumes "dirOk env jd R r dir" "R \<subseteq># R'" "archiveFrame jd jd'" "arArchiveId r' = arArchiveId r" "arWalSize r \<noteq> 0 \<Longrightarrow> arWalSize r' = arWalSize r"
  shows "dirOk env jd' R' r' dir"
  using assms walOk_mono [OF _ assms(2,3,4)] walFilesOf_frame [OF assms(3)] by (auto simp: dirOk_def)

lemma archiveDone_mono:
  "archiveDone env jd R r \<Longrightarrow> R \<subseteq># R' \<Longrightarrow> archiveFrame jd jd' \<Longrightarrow> archiveDone env jd' R' r"
  using dirOk_mono [of env jd R r _ R' jd' r] by (auto simp: archiveDone_def)

lemma walFilesInit_step:
  assumes "walFilesInit env dir jd = Inr jd'" "jdArchiveIdResultList jd = rs @ [r]" "walInfoOk env"
  shows "archiveFrame jd jd' \<and> jdArchiveIdList jd' = jdArchiveIdList jd \<and> jdWalPathList jd' = jdWalPathList jd \<and>
    (\<exists>r'. jdArchiveIdResultList jd' = rs @ [r'] \<and> arArchiveId r' = arArchiveId r \<and> (arWalSize r \<noteq> 0 \<longrightarrow> arWalSize r' = arWalSize r) \<and>
      (jdJobErrorTotal jd' = jdJobErrorTotal jd \<longrightarrow> jdWalFileList jd' = walFilesOf env jd (arArchiveId r) dir \<and>
        distinct (map walSegmentOf (walFilesOf env jd (arArchiveId r) dir)) \<and> (jdWalFileList jd' \<noteq> [] \<longrightarrow> arWalSize r' \<noteq> 0)))"
proof (cases "walFilesOf env jd (arArchiveId r) dir = []")
  case True
  then have "jd' = jd\<lparr>jdWalFileList := []\<rparr>" using assms(1,2) by (simp add: walFilesInit_def walFilesOf_def Let_def)
  then show ?thesis using True assms(2) by simp
next
  case False
  let ?files = "walFilesOf env jd (arArchiveId r) dir"
  let ?size = "if arWalSize r = 0 then bindR (envWalInfo env ((REPO_ARCHIVE @ [arArchiveId r, dir]) @ [hd ?files]) (jdWalCipherPass jd))
    (\<lambda>(sz, v). Inr (r\<lparr>arWalSize := sz, arWalVersion := v\<rparr>)) else Inr r"
  have "bindR ?size (\<lambda>r1. bindR (verifyCreateArchiveIdRange (arWalSize r1) (arWalRangeList r1) ?files (jdJobErrorTotal jd)) (\<lambda>(ranges, files, e).
      Inr (jd\<lparr>jdWalFileList := files, jdJobErrorTotal := e, jdArchiveIdResultList := rs @
        [r1\<lparr>arTotalWalFile := arTotalWalFile r1 + length ?files, arWalRangeList := ranges\<rparr>]\<rparr>))) = Inr jd'"
    using assms(1) False unfolding walFilesInit_def Let_def assms(2) last_snoc butlast_snoc walFilesOf_def [symmetric]
    by (simp only: if_False)
  then obtain r1 ranges files e where size: "?size = Inr r1"
    and 1: "verifyCreateArchiveIdRange (arWalSize r1) (arWalRangeList r1) ?files (jdJobErrorTotal jd) = Inr (ranges, files, e)"
    "jd' = jd\<lparr>jdWalFileList := files, jdJobErrorTotal := e, jdArchiveIdResultList := rs @
      [r1\<lparr>arTotalWalFile := arTotalWalFile r1 + length ?files, arWalRangeList := ranges\<rparr>]\<rparr>"
    unfolding bindR_Inr_iff by auto
  have 2: "arArchiveId r1 = arArchiveId r" "arWalSize r \<noteq> 0 \<longrightarrow> arWalSize r1 = arWalSize r" "arWalSize r1 \<noteq> 0"
    using size assms(3) by (auto simp: bindR_Inr_iff walInfoOk_def split: if_splits) metis
  have "jdJobErrorTotal jd \<le> e \<and> (e = jdJobErrorTotal jd \<longrightarrow> files = ?files \<and> distinct_adj (map walSegmentOf ?files))"
    using createRange_errors 1(1) unfolding verifyCreateArchiveIdRange_def by fastforce
  moreover have "distinct_adj (map walSegmentOf ?files) \<Longrightarrow> distinct (map walSegmentOf ?files)"
    using distinct_adj_sorted sorted_walFilesOf by blast
  ultimately show ?thesis using 1(2) 2 by (auto simp: archiveFrame_def backupPart_def)
qed

subsection \<open>The loop over the paths\<close>

lemma verifyArchive_paths_frame:
  assumes "verifyArchive_paths env dirs jd = Inr (job, jd')" "jdArchiveIdResultList jd = rs @ [r]" "walInfoOk env"
  shows "archiveFrame jd jd' \<and> jdArchiveIdList jd' = jdArchiveIdList jd \<and> (job = None \<longrightarrow> jdWalPathList jd' = []) \<and>
    (\<exists>r'. jdArchiveIdResultList jd' = rs @ [r'] \<and> arArchiveId r' = arArchiveId r) \<and>
    (\<forall>j. job = Some j \<longrightarrow> CHR ''/'' \<notin> set (arArchiveId r) \<longrightarrow> jobFor STORAGE_REPO_ARCHIVE (arArchiveId r) j)"
  using assms
proof (induction dirs arbitrary: jd r)
  case (Cons dir dirs)
  obtain jd1 where 1: "(if jdWalFileList jd = [] then walFilesInit env dir jd else Inr jd) = Inr jd1" using Cons.prems(1) by (auto simp: bindR_Inr_iff)
  obtain r1 where r1: "archiveFrame jd jd1" "jdArchiveIdList jd1 = jdArchiveIdList jd" "jdArchiveIdResultList jd1 = rs @ [r1]"
    "arArchiveId r1 = arArchiveId r"
  proof (cases "jdWalFileList jd = []")
    case True
    then show thesis using that walFilesInit_step [OF _ Cons.prems(2,3), of dir jd1] 1 by auto
  next
    case False
    then show thesis using that [of r] 1 Cons.prems(2) by auto
  qed
  show ?case
  proof (cases "jdWalFileList jd1")
    case Nil
    then have rest: "verifyArchive_paths env dirs jd1 = Inr (job, jd')" using Cons.prems(1) 1 by auto
    show ?thesis using Cons.IH [OF rest r1(3) Cons.prems(3)] r1 archiveFrame_trans [OF r1(1)] by auto
  next
    case (Cons f files)
    then obtain param j where "walFileParam r1 (jdWalCipherPass jd1) dir f = Inr param" "newJob (arArchiveId r1) param = Inr j" "job = Some j"
      "jd' = jd1\<lparr>jdWalFileList := files, jdWalPathList := (if files = [] then dirs else dir # dirs)\<rparr>"
      using Cons.prems(1) 1 r1(3) by (auto simp: bindR_Inr_iff)
    then show ?thesis using r1 newJob_archive by auto
  qed
qed auto

lemma pathState_next:
  assumes state: "pathState env jd R r (dir # dirs)" and files: "jdWalFileList jd = f # files"
    and job: "walFileParam r (jdWalCipherPass jd) dir f = Inr param" "newJob (arArchiveId r) param = Inr j" "arWalSize r \<noteq> 0"
  shows "pathState env (jd\<lparr>jdWalFileList := files, jdWalPathList := (if files = [] then dirs else dir # dirs)\<rparr>) (add_mset j R) r
    (if files = [] then dirs else dir # dirs)"
proof -
  let ?jd = "jd\<lparr>jdWalFileList := files, jdWalPathList := (if files = [] then dirs else dir # dirs)\<rparr>"
  obtain dd fd where *: "dirsOf env (arArchiveId r) = dd @ dir # dirs" "\<forall>d\<in>set dd. dirOk env jd R r d"
    "distinct (map walSegmentOf (walFilesOf env jd (arArchiveId r) dir))"
    "walFilesOf env jd (arArchiveId r) dir = fd @ f # files" "\<forall>f\<in>set fd. walOk env jd R r dir f"
    using state files by (auto simp: pathState_def)
  have mono: "R \<subseteq># add_mset j R" "archiveFrame jd ?jd" by simp_all
  have dd: "\<forall>d\<in>set dd. dirOk env ?jd (add_mset j R) r d" using *(2) dirOk_mono [OF _ mono] by auto
  have "walOk env ?jd (add_mset j R) r dir f" using job by (auto simp: walOk_def)
  then have fd: "\<forall>f\<in>set (fd @ [f]). walOk env ?jd (add_mset j R) r dir f" using *(5) walOk_mono [OF _ mono] by auto
  show ?thesis
  proof (cases "files = []")
    case True
    then have "dirOk env ?jd (add_mset j R) r dir" using fd *(3,4) by (simp add: dirOk_def)
    then show ?thesis using True dd *(1) by (auto simp: pathState_def intro!: exI [of _ "dd @ [dir]"])
  next
    case False
    have "walFilesOf env jd (arArchiveId r) dir = (fd @ [f]) @ files" using *(4) by simp
    then show ?thesis using False dd fd *(1,3) unfolding pathState_def by fastforce
  qed
qed

lemma verifyArchive_paths_step:
  assumes "verifyArchive_paths env dirs jd = Inr (job, jd')" "jdArchiveIdResultList jd = rs @ [r]" "walInfoOk env"
    and "jdJobErrorTotal jd' = jdJobErrorTotal jd" "pathState env jd R r dirs" "jdWalFileList jd \<noteq> [] \<longrightarrow> arWalSize r \<noteq> 0"
  shows "\<exists>r'. jdArchiveIdResultList jd' = rs @ [r'] \<and> arArchiveId r' = arArchiveId r \<and> (jdWalFileList jd' \<noteq> [] \<longrightarrow> arWalSize r' \<noteq> 0) \<and>
    pathState env jd' (withJob R job) r' (jdWalPathList jd')"
  using assms
proof (induction dirs arbitrary: jd r)
  case Nil
  then show ?case by (auto simp: pathState_def dirOk_def walOk_def)
next
  case (Cons dir dirs)
  obtain jd1 where 1: "(if jdWalFileList jd = [] then walFilesInit env dir jd else Inr jd) = Inr jd1" using Cons.prems(1) by (auto simp: bindR_Inr_iff)
  obtain r1 where r1: "archiveFrame jd jd1" "jdArchiveIdResultList jd1 = rs @ [r1]" "arArchiveId r1 = arArchiveId r"
    "arWalSize r \<noteq> 0 \<longrightarrow> arWalSize r1 = arWalSize r"
    and err1: "jdJobErrorTotal jd1 = jdJobErrorTotal jd \<Longrightarrow> pathState env jd1 R r1 (dir # dirs) \<and> (jdWalFileList jd1 \<noteq> [] \<longrightarrow> arWalSize r1 \<noteq> 0) \<and>
      (jdWalFileList jd1 = [] \<longrightarrow> pathState env jd1 R r1 dirs)"
  proof (cases "jdWalFileList jd = []")
    case True
    then have init: "walFilesInit env dir jd = Inr jd1" using 1 by simp
    obtain r1 where s: "archiveFrame jd jd1" "jdArchiveIdResultList jd1 = rs @ [r1]" "arArchiveId r1 = arArchiveId r"
      "arWalSize r \<noteq> 0 \<longrightarrow> arWalSize r1 = arWalSize r" "jdJobErrorTotal jd1 = jdJobErrorTotal jd \<longrightarrow>
        jdWalFileList jd1 = walFilesOf env jd (arArchiveId r) dir \<and> distinct (map walSegmentOf (walFilesOf env jd (arArchiveId r) dir)) \<and>
        (jdWalFileList jd1 \<noteq> [] \<longrightarrow> arWalSize r1 \<noteq> 0)"
      using walFilesInit_step [OF init Cons.prems(2,3)] by auto
    obtain dd where dd: "dirsOf env (arArchiveId r) = dd @ dir # dirs" "\<forall>d\<in>set dd. dirOk env jd R r d"
      using Cons.prems(5) by (auto simp: pathState_def)
    have dd1: "\<forall>d\<in>set dd. dirOk env jd1 R r1 d" using dd(2) dirOk_mono [OF _ subset_mset.order_refl s(1,3)] s(4) by auto
    have files: "walFilesOf env jd1 = walFilesOf env jd" by (rule walFilesOf_frame [OF s(1)])
    show thesis
    proof (rule that [OF s(1-4)])
      assume e: "jdJobErrorTotal jd1 = jdJobErrorTotal jd"
      have "pathState env jd1 R r1 (dir # dirs)"
        using dd(1) dd1 s(3,5) e files by (auto simp: pathState_def)
      moreover have "pathState env jd1 R r1 dirs" if "jdWalFileList jd1 = []"
        using dd(1) dd1 s(3,5) e files that by (auto simp: pathState_def dirOk_def intro!: exI [of _ "dd @ [dir]"])
      ultimately show "pathState env jd1 R r1 (dir # dirs) \<and> (jdWalFileList jd1 \<noteq> [] \<longrightarrow> arWalSize r1 \<noteq> 0) \<and>
        (jdWalFileList jd1 = [] \<longrightarrow> pathState env jd1 R r1 dirs)" using s(5) e by blast
    qed
  next
    case False
    then show thesis using that [of r] 1 Cons.prems(2,5,6) by auto
  qed
  show ?case
  proof (cases "jdWalFileList jd1")
    case Nil
    then have rest: "verifyArchive_paths env dirs jd1 = Inr (job, jd')" using Cons.prems(1) 1 by auto
    have "jdJobErrorTotal jd1 = jdJobErrorTotal jd"
      using verifyArchive_paths_frame [OF rest r1(2) Cons.prems(3)] r1(1) Cons.prems(4) by (auto simp: archiveFrame_def)
    then show ?thesis using Cons.IH [OF rest r1(2) Cons.prems(3)] err1 Nil Cons.prems(4) r1(3) by auto
  next
    case (Cons f files)
    then obtain param j where j: "walFileParam r1 (jdWalCipherPass jd1) dir f = Inr param" "newJob (arArchiveId r1) param = Inr j" "job = Some j"
      "jd' = jd1\<lparr>jdWalFileList := files, jdWalPathList := (if files = [] then dirs else dir # dirs)\<rparr>"
      using Cons.prems(1) 1 r1(2) by (auto simp: bindR_Inr_iff)
    then have "jdJobErrorTotal jd1 = jdJobErrorTotal jd" using Cons.prems(4) by simp
    then have "pathState env jd1 R r1 (dir # dirs)" "arWalSize r1 \<noteq> 0" using err1 Cons by auto
    from pathState_next [OF this(1) Cons j(1,2) this(2)] show ?thesis using j(3,4) r1(2,3) \<open>arWalSize r1 \<noteq> 0\<close> by simp
  qed
qed

subsection \<open>The loop over the archive ids\<close>

lemma archiveIdInit_start:
  assumes "jdArchiveIdResultList jd = [] \<or> arArchiveId (last (jdArchiveIdResultList jd)) \<noteq> a"
  shows "archiveIdInit env a jd = jd\<lparr>jdArchiveIdResultList := jdArchiveIdResultList jd @
      [\<lparr>arArchiveId = a, arTotalWalFile = 0, arTotalValidWal = 0, arWalSize = 0, arWalVersion = 0, arWalRangeList = []\<rparr>],
    jdWalPathList := dirsOf env a\<rparr>"
  using assms by (simp add: archiveIdInit_def dirsOf_def)

lemma archiveIdInit_results:
  "\<exists>rs r. jdArchiveIdResultList (archiveIdInit env a jd) = rs @ [r] \<and> arArchiveId r = a"
proof (cases "jdArchiveIdResultList jd = [] \<or> arArchiveId (last (jdArchiveIdResultList jd)) \<noteq> a")
  case True
  then show ?thesis using archiveIdInit_start [OF True] by auto
next
  case False
  then show ?thesis by (intro exI [of _ "butlast (jdArchiveIdResultList jd)"] exI [of _ "last (jdArchiveIdResultList jd)"]) (auto simp: archiveIdInit_def)
qed

lemma archiveIdInit_frame: "archiveFrame jd (archiveIdInit env a jd)" "jdArchiveIdList (archiveIdInit env a jd) = jdArchiveIdList jd"
  by (simp_all add: archiveIdInit_def)

lemma verifyArchive_loop_frame:
  assumes "verifyArchive_loop env ids jd = Inr (job, jd')" "walInfoOk env" "\<forall>a\<in>set ids. CHR ''/'' \<notin> set a"
  shows "archiveFrame jd jd' \<and> (job = None \<longrightarrow> jdArchiveIdList jd' = []) \<and> (\<forall>a\<in>set (jdArchiveIdList jd'). a \<in> set ids) \<and>
    (\<forall>j. job = Some j \<longrightarrow> keyParts j ! 1 = STORAGE_REPO_ARCHIVE)"
  using assms
proof (induction ids arbitrary: jd)
  case (Cons a ids)
  let ?jd = "archiveIdInit env a jd"
  obtain rs r where r: "jdArchiveIdResultList ?jd = rs @ [r]" "arArchiveId r = a" using archiveIdInit_results by blast
  obtain job1 jd1 where 1: "verifyArchive_paths env (jdWalPathList ?jd) ?jd = Inr (job1, jd1)"
    using Cons.prems(1) by (auto simp: bindR_Inr_iff Let_def)
  note frame = verifyArchive_paths_frame [OF 1 r(1) Cons.prems(2)]
  have jd1: "archiveFrame jd jd1" using frame archiveFrame_trans [OF archiveIdInit_frame(1)] by blast
  show ?case
  proof (cases job1)
    case None
    then have rest: "verifyArchive_loop env ids jd1 = Inr (job, jd')" using Cons.prems(1) 1 by (simp add: Let_def)
    show ?thesis using Cons.IH [OF rest Cons.prems(2)] Cons.prems(3) archiveFrame_trans [OF jd1] by auto
  next
    case (Some j)
    then have "job = Some j" "jd' = jd1\<lparr>jdArchiveIdList := (if jdWalPathList jd1 = [] then ids else a # ids)\<rparr>"
      using Cons.prems(1) 1 by (auto simp: Let_def)
    then show ?thesis using jd1 frame Some r(2) Cons.prems(3) by (auto simp: jobFor_def)
  qed
qed auto

lemma pathState_list [simp]:
  "pathState env (jd\<lparr>jdArchiveIdList := x\<rparr>) R r dirs = pathState env jd R r dirs"
  "archiveDone env (jd\<lparr>jdArchiveIdList := x\<rparr>) R r = archiveDone env jd R r"
  by (simp_all add: pathState_def archiveDone_def dirOk_def walOk_def)

lemma pathState_done: "pathState env jd R r [] \<Longrightarrow> archiveDone env jd R r \<and> jdWalFileList jd = []"
  by (auto simp: pathState_def archiveDone_def)

definition sizeKnown :: "VerifyJobData \<Rightarrow> bool" where
  "sizeKnown jd \<longleftrightarrow> (jdWalFileList jd \<noteq> [] \<longrightarrow> jdArchiveIdResultList jd \<noteq> [] \<and> arWalSize (last (jdArchiveIdResultList jd)) \<noteq> 0)"

lemma archiveIdInit_state:
  assumes state: "archiveState env A (jd\<lparr>jdArchiveIdList := a # ids\<rparr>) R" and "distinct A" "sizeKnown jd"
  shows "\<exists>rs r. jdArchiveIdResultList (archiveIdInit env a jd) = rs @ [r] \<and> arArchiveId r = a \<and> map arArchiveId rs @ a # ids = A \<and>
    (\<forall>q\<in>set rs. archiveDone env (archiveIdInit env a jd) R q) \<and> pathState env (archiveIdInit env a jd) R r (jdWalPathList (archiveIdInit env a jd)) \<and>
    (jdWalFileList (archiveIdInit env a jd) \<noteq> [] \<longrightarrow> arWalSize r \<noteq> 0)"
  using state [unfolded archiveState_def]
proof (elim disjE exE)
  assume idle: "map arArchiveId (jdArchiveIdResultList (jd\<lparr>jdArchiveIdList := a # ids\<rparr>)) @ jdArchiveIdList (jd\<lparr>jdArchiveIdList := a # ids\<rparr>) = A \<and>
    (\<forall>r\<in>set (jdArchiveIdResultList (jd\<lparr>jdArchiveIdList := a # ids\<rparr>)). archiveDone env (jd\<lparr>jdArchiveIdList := a # ids\<rparr>) R r) \<and>
    jdWalFileList (jd\<lparr>jdArchiveIdList := a # ids\<rparr>) = []"
  then have "a \<notin> arArchiveId ` set (jdArchiveIdResultList jd)" using assms(2) by auto
  then have "jdArchiveIdResultList jd = [] \<or> arArchiveId (last (jdArchiveIdResultList jd)) \<noteq> a" by (auto simp: image_iff)
  note init = archiveIdInit_start [OF this, of env]
  have "archiveDone env (archiveIdInit env a jd) R q" if "q \<in> set (jdArchiveIdResultList jd)" for q
    using idle that archiveDone_mono [OF _ subset_mset.order_refl archiveIdInit_frame(1)] by auto
  then show ?thesis using idle unfolding init by (auto simp: pathState_def)
next
  fix rs r ids'
  assume work: "jdArchiveIdResultList (jd\<lparr>jdArchiveIdList := a # ids\<rparr>) = rs @ [r] \<and>
    jdArchiveIdList (jd\<lparr>jdArchiveIdList := a # ids\<rparr>) = arArchiveId r # ids' \<and> map arArchiveId rs @ arArchiveId r # ids' = A \<and>
    (\<forall>r\<in>set rs. archiveDone env (jd\<lparr>jdArchiveIdList := a # ids\<rparr>) R r) \<and>
    pathState env (jd\<lparr>jdArchiveIdList := a # ids\<rparr>) R r (jdWalPathList (jd\<lparr>jdArchiveIdList := a # ids\<rparr>))"
  then have "archiveIdInit env a jd = jd" by (auto simp: archiveIdInit_def)
  then show ?thesis using work assms(3) by (auto simp: sizeKnown_def)
qed

lemma verifyArchive_loop_step:
  assumes "verifyArchive_loop env ids jd = Inr (job, jd')" "walInfoOk env" "distinct A" "\<forall>a\<in>set A. CHR ''/'' \<notin> set a"
    and "jdJobErrorTotal jd' = jdJobErrorTotal jd" "archiveState env A (jd\<lparr>jdArchiveIdList := ids\<rparr>) R" "sizeKnown jd"
  shows "archiveState env A jd' (withJob R job) \<and> sizeKnown jd'"
  using assms
proof (induction ids arbitrary: jd)
  case Nil
  then show ?case by (auto simp: sizeKnown_def)
next
  case (Cons a ids)
  let ?jd = "archiveIdInit env a jd"
  obtain rs r where r: "jdArchiveIdResultList ?jd = rs @ [r]" "arArchiveId r = a" "map arArchiveId rs @ a # ids = A"
    "\<forall>q\<in>set rs. archiveDone env ?jd R q" "pathState env ?jd R r (jdWalPathList ?jd)" "jdWalFileList ?jd \<noteq> [] \<longrightarrow> arWalSize r \<noteq> 0"
    using archiveIdInit_state [OF Cons.prems(6,3,7)] by blast
  obtain job1 jd1 where 1: "verifyArchive_paths env (jdWalPathList ?jd) ?jd = Inr (job1, jd1)"
    using Cons.prems(1) by (auto simp: bindR_Inr_iff Let_def)
  note frame = verifyArchive_paths_frame [OF 1 r(1) Cons.prems(2)]
  have err: "jdJobErrorTotal jd1 = jdJobErrorTotal ?jd" "jdJobErrorTotal ?jd = jdJobErrorTotal jd"
  proof -
    have "archiveFrame jd1 jd'"
    proof (cases job1)
      case None
      then have "verifyArchive_loop env ids jd1 = Inr (job, jd')" using Cons.prems(1) 1 by (simp add: Let_def)
      moreover have "\<forall>a\<in>set ids. CHR ''/'' \<notin> set a" using Cons.prems(4) r(3) by auto
      ultimately show ?thesis using verifyArchive_loop_frame [OF _ Cons.prems(2)] by blast
    next
      case (Some j)
      then have "jd' = jd1\<lparr>jdArchiveIdList := (if jdWalPathList jd1 = [] then ids else a # ids)\<rparr>" using Cons.prems(1) 1 by (auto simp: Let_def)
      then show ?thesis by simp
    qed
    then show "jdJobErrorTotal jd1 = jdJobErrorTotal ?jd" "jdJobErrorTotal ?jd = jdJobErrorTotal jd"
      using frame archiveIdInit_frame(1) [of jd env a] Cons.prems(5) by (auto simp: archiveFrame_def)
  qed
  obtain r' where r': "jdArchiveIdResultList jd1 = rs @ [r']" "arArchiveId r' = a" "jdWalFileList jd1 \<noteq> [] \<longrightarrow> arWalSize r' \<noteq> 0"
    "pathState env jd1 (withJob R job1) r' (jdWalPathList jd1)"
    using verifyArchive_paths_step [OF 1 r(1) Cons.prems(2) err(1) r(5,6)] r(2) by auto
  have rs: "\<forall>q\<in>set rs. archiveDone env jd1 (withJob R job1) q"
    using r(4) frame archiveDone_mono [OF _ withJob_mono] by blast
  have idle: "archiveState env A (jd1\<lparr>jdArchiveIdList := ids\<rparr>) (withJob R job1) \<and> jdWalFileList jd1 = []" if "jdWalPathList jd1 = []"
    using pathState_done [of env jd1 "withJob R job1" r'] r' that rs r(3) by (auto simp: archiveState_def)
  have known: "sizeKnown jd1" using r'(1,3) by (simp add: sizeKnown_def)
  show ?case
  proof (cases job1)
    case None
    then have "verifyArchive_loop env ids jd1 = Inr (job, jd')" using Cons.prems(1) 1 by (simp add: Let_def)
    moreover have "jdWalPathList jd1 = []" using frame None by simp
    ultimately show ?thesis using Cons.IH [OF _ Cons.prems(2-4)] idle known None Cons.prems(5) err by simp
  next
    case (Some j)
    then have jd': "job = Some j" "jd' = jd1\<lparr>jdArchiveIdList := (if jdWalPathList jd1 = [] then ids else a # ids)\<rparr>"
      using Cons.prems(1) 1 by (auto simp: Let_def)
    have "archiveState env A (jd1\<lparr>jdArchiveIdList := a # ids\<rparr>) (withJob R job1)"
      unfolding archiveState_def using r' rs r(3) by auto
    then show ?thesis using jd' idle Some known by (auto simp: sizeKnown_def)
  qed
qed

end
