(* ===== verification/VerifySound.thy ===== *)
theory VerifySound
  imports VerifyArch
begin

text \<open>
  The verify command with its jobs in any order: the invariant, the interpretation of the contract of the parallel executor, and
  what an answer without errors says of the repository.
\<close>

section \<open>Handling a result\<close>

lemma lstFindIdx_Inr: "lstFindIdx P xs = Inr i \<Longrightarrow> i < length xs \<and> P (xs ! i)"
  by (auto simp: lstFindIdx_def split: option.splits dest!: extract_SomeE)

lemma verifyResultOf_iff: "verifyResultOf n = verifyOk \<longleftrightarrow> n = 0" "verifyResultOf n = verifyFileMissing \<longleftrightarrow> n = 1"
  by (auto simp: verifyResultOf_def)

lemma verifyJobResult_cases:
  assumes "verifyJobResult jd j answer = Inr jd'"
  obtains (archive) i e result path fname where "keyParts j ! 1 = STORAGE_REPO_ARCHIVE" "i < length (jdArchiveIdResultList jd)"
      "jd' = jd\<lparr>jdJobErrorTotal := jdJobErrorTotal jd + e, jdArchiveIdResultList := (jdArchiveIdResultList jd)[i :=
        archiveResultUpdate result path fname (jdArchiveIdResultList jd ! i)]\<rparr>" "e = 0 \<longrightarrow> answer = Inr 0 \<or> answer = Inr 1"
  | (backup) i e result path where "keyParts j ! 1 \<noteq> STORAGE_REPO_ARCHIVE" "i < length (jdBackupResultList jd)"
      "brLabel (jdBackupResultList jd ! i) = keyParts j ! 0"
      "jd' = jd\<lparr>jdJobErrorTotal := jdJobErrorTotal jd + e, jdBackupResultList := (jdBackupResultList jd)[i :=
        backupResultUpdate result path (jdBackupResultList jd ! i)]\<rparr>" "e = 0 \<longrightarrow> answer = Inr 0"
proof -
  obtain result e where outcome: "jobOutcome (keyParts j ! 1) answer = (result, e)" by (metis surj_pair)
  let ?path = "strLstJoin (drop 2 (keyParts j))" and ?fname = "last (drop 2 (keyParts j))"
  show thesis
  proof (cases "keyParts j ! 1 = STORAGE_REPO_ARCHIVE")
    case True
    then obtain i where i: "lstFindIdx (\<lambda>r. archiveIdNum (arArchiveId r) = archiveIdNum (keyParts j ! 0)) (jdArchiveIdResultList jd) = Inr i"
      "jd' = jd\<lparr>jdJobErrorTotal := jdJobErrorTotal jd + e, jdArchiveIdResultList := (jdArchiveIdResultList jd)[i :=
        archiveResultUpdate result ?path ?fname (jdArchiveIdResultList jd ! i)]\<rparr>"
      using assms outcome by (auto simp: verifyJobResult_def keyParts_def Let_def bindR_Inr_iff)
    show thesis
      by (rule archive [OF True _ i(2)])
        (use lstFindIdx_Inr [OF i(1)] outcome True in \<open>auto simp: jobOutcome_def verifyLogInvalidResult_def verifyResultOf_iff split: sum.splits if_splits\<close>)
  next
    case False
    then obtain i where i: "lstFindIdx (\<lambda>b. brLabel b = keyParts j ! 0) (jdBackupResultList jd) = Inr i"
      "jd' = jd\<lparr>jdJobErrorTotal := jdJobErrorTotal jd + e, jdBackupResultList := (jdBackupResultList jd)[i :=
        backupResultUpdate result ?path (jdBackupResultList jd ! i)]\<rparr>"
      using assms outcome by (auto simp: verifyJobResult_def keyParts_def Let_def bindR_Inr_iff)
    show thesis
      by (rule backup [OF False _ _ i(2)])
        (use lstFindIdx_Inr [OF i(1)] outcome False in \<open>auto simp: jobOutcome_def verifyLogInvalidResult_def verifyResultOf_iff split: sum.splits if_splits\<close>)
  qed
qed

lemma archiveResultUpdate_keeps [simp]:
  "arArchiveId (archiveResultUpdate result path fname r) = arArchiveId r" "arWalSize (archiveResultUpdate result path fname r) = arWalSize r"
  by (simp_all add: archiveResultUpdate_def)

lemma walOk_handled:
  assumes "walOk env jd (add_mset j R) r dir f" "verifyRespond env j = Inr 0 \<or> verifyRespond env j = Inr 1"
    and "jdWalCipherPass jd' = jdWalCipherPass jd" "arArchiveId r' = arArchiveId r" "arWalSize r' = arWalSize r"
  shows "walOk env jd' R r' dir f"
  using assms walFileParam_cong [of r' r] by (auto simp: walOk_def)

definition sameArchive :: "VerifyArchiveResult \<Rightarrow> VerifyArchiveResult \<Rightarrow> bool" where
  "sameArchive r r' \<longleftrightarrow> arArchiveId r' = arArchiveId r \<and> arWalSize r' = arWalSize r"

lemma archiveState_transfer:
  assumes state: "archiveState env A jd R"
    and wal: "\<And>r r' dir f. sameArchive r r' \<Longrightarrow> walOk env jd R r dir f \<Longrightarrow> walOk env jd' R' r' dir f"
    and same: "walFilesOf env jd' = walFilesOf env jd" "jdArchiveIdList jd' = jdArchiveIdList jd" "jdWalPathList jd' = jdWalPathList jd"
      "jdWalFileList jd' = jdWalFileList jd" "list_all2 sameArchive (jdArchiveIdResultList jd) (jdArchiveIdResultList jd')"
  shows "archiveState env A jd' R'"
proof -
  have dir: "dirOk env jd' R' r' dir" if "sameArchive r r'" "dirOk env jd R r dir" for r r' dir
    using that wal by (auto simp: dirOk_def same(1) sameArchive_def)
  have don: "archiveDone env jd' R' r'" if "sameArchive r r'" "archiveDone env jd R r" for r r'
    using that dir by (auto simp: archiveDone_def sameArchive_def)
  have path: "pathState env jd' R' r' (jdWalPathList jd)" if "sameArchive r r'" "pathState env jd R r (jdWalPathList jd)" for r r'
    using that dir [OF that(1)] wal [OF that(1)] unfolding pathState_def same(1,4) sameArchive_def by fastforce
  have ids: "map arArchiveId rs' = map arArchiveId rs" if "list_all2 sameArchive rs rs'" for rs rs'
    using that by (induction rule: list_all2_induct) (auto simp: sameArchive_def)
  have all: "\<forall>r\<in>set rs'. archiveDone env jd' R' r" if "list_all2 sameArchive rs rs'" "\<forall>r\<in>set rs. archiveDone env jd R r" for rs rs'
    using that don by (induction rule: list_all2_induct) auto
  from state [unfolded archiveState_def] show ?thesis
  proof (elim disjE exE conjE)
    assume "map arArchiveId (jdArchiveIdResultList jd) @ jdArchiveIdList jd = A" "\<forall>r\<in>set (jdArchiveIdResultList jd). archiveDone env jd R r"
      "jdWalFileList jd = []"
    then show ?thesis using ids [OF same(5)] all [OF same(5)] same by (simp add: archiveState_def)
  next
    fix rs r ids'
    assume w: "jdArchiveIdResultList jd = rs @ [r]" "jdArchiveIdList jd = arArchiveId r # ids'" "map arArchiveId rs @ arArchiveId r # ids' = A"
      "\<forall>r\<in>set rs. archiveDone env jd R r" "pathState env jd R r (jdWalPathList jd)"
    obtain rs' r' where r': "jdArchiveIdResultList jd' = rs' @ [r']" "list_all2 sameArchive rs rs'" "sameArchive r r'"
      using same(5) unfolding w(1) by (auto simp: list_all2_append1 list_all2_Cons1)
    have "arArchiveId r' = arArchiveId r" using r'(3) by (simp add: sameArchive_def)
    then have "\<exists>rs r ids. jdArchiveIdResultList jd' = rs @ [r] \<and> jdArchiveIdList jd' = arArchiveId r # ids \<and>
      map arArchiveId rs @ arArchiveId r # ids = A \<and> (\<forall>r\<in>set rs. archiveDone env jd' R' r) \<and> pathState env jd' R' r (jdWalPathList jd')"
      using r' w ids [OF r'(2)] all [OF r'(2) w(4)] path [OF r'(3) w(5)] same(2,3) by auto
    then show ?thesis unfolding archiveState_def by blast
  qed
qed

lemma sameArchive_refl: "list_all2 sameArchive rs rs"
  by (simp add: list_all2_refl sameArchive_def)

lemma archivePart_files: "archivePart jd' = archivePart jd \<Longrightarrow> walFilesOf env jd' = walFilesOf env jd"
  by (simp add: archivePart_def walFilesOf_def walFileFilter_def fun_eq_iff Let_def cong: option.case_cong)

text \<open>A job of a backup that is given out.\<close>

lemma archiveState_backup:
  assumes "archiveState env A jd R" "archivePart jd' = archivePart jd" "R \<subseteq># R'"
  shows "archiveState env A jd' R'"
proof (rule archiveState_transfer [OF assms(1) _ archivePart_files [OF assms(2)]])
  fix r r' dir f assume "sameArchive r r'" "walOk env jd R r dir f"
  then show "walOk env jd' R' r' dir f"
    using assms(2,3) walFileParam_cong [of r' r] by (auto simp: walOk_def sameArchive_def archivePart_def dest: mset_subset_eqD)
qed (use assms(2) in \<open>auto simp: archivePart_def sameArchive_refl\<close>)

text \<open>A job of an archive that is given out.\<close>

lemma backupState_archive:
  assumes "backupState env L jd R" "backupPart jd' = backupPart jd" "jdJobErrorTotal jd \<le> jdJobErrorTotal jd'"
    and "\<forall>j. job = Some j \<longrightarrow> keyParts j ! 1 = STORAGE_REPO_ARCHIVE"
  shows "backupState env L jd' (withJob R job)"
proof -
  note us = usable_cong [OF assms(2), of env]
  have list: "jdBackupResultList jd' = jdBackupResultList jd" "jdBackupList jd' = jdBackupList jd" "jdManifest jd' = jdManifest jd"
    "jdManifestFileIdx jd' = jdManifestFileIdx jd" "jdBackupCipherPass jd' = jdBackupCipherPass jd"
    using assms(2) by (simp_all add: backupPart_def)
  have "resultOk env jd' (withJob R job) b" if "resultOk env jd R b" for b
    by (rule resultOk_other [OF that]) (use assms(4) us in \<open>auto simp: jobFor_def\<close>)
  moreover have "resultVerified env jd' (withJob R job) b" if "resultVerified env jd R b" for b
    by (rule resultVerified_mono [OF that withJob_mono us]) (auto simp: list)
  moreover have "backupIdle env L jd' = backupIdle env L jd" "backupWorking env L jd' m files = backupWorking env L jd m files" for m files
    by (simp_all add: backupIdle_def backupWorking_def resultFinished_def list us)
  moreover have "jobsKnown jd' (withJob R job)" if "jobsKnown jd R" using that assms(4) by (cases job) (auto simp: jobsKnown_def list)
  ultimately show ?thesis using assms(1,3) by (auto simp: backupState_def resultsOk_def list)
qed

section \<open>Results of jobs\<close>

lemma archiveState_handled:
  assumes "archiveState env A jd (add_mset j R)" "verifyRespond env j = Inr 0 \<or> verifyRespond env j = Inr 1"
    and "verifyJobResult jd j (verifyRespond env j) = Inr jd'"
  shows "archiveState env A jd' R"
  using assms(3)
proof (cases rule: verifyJobResult_cases)
  case (archive i e result path fname)
  show ?thesis
  proof (rule archiveState_transfer [OF assms(1)])
    fix r r' dir f assume "sameArchive r r'" "walOk env jd (add_mset j R) r dir f"
    then show "walOk env jd' R r' dir f" using walOk_handled assms(2) archive(3) by (simp add: sameArchive_def)
  next
    show "list_all2 sameArchive (jdArchiveIdResultList jd) (jdArchiveIdResultList jd')"
      using archive(2,3) by (simp add: list_all2_conv_all_nth nth_list_update sameArchive_def)
  qed (use archive(3) in simp_all)
next
  case (backup i e result path)
  have "archiveState env A jd R"
    by (rule archiveState_transfer [OF assms(1)]) (use walOk_handled assms(2) in \<open>auto simp: sameArchive_def list_all2_refl\<close>)
  then show ?thesis by (rule archiveState_backup) (use backup(4) in \<open>simp_all add: archivePart_def\<close>)
qed

lemma fileAccounted_handled:
  assumes "fileAccounted env jd (add_mset j R) l m f" "newJob l (paramOf m l f) = Inr j \<Longrightarrow> verifyRespond env j = Inr 0"
    and "\<forall>r\<in>set (jdBackupResultList jd). brFileVerifyComplete r \<longrightarrow>
      (\<exists>r'\<in>set (jdBackupResultList jd'). brLabel r' = brLabel r \<and> brFileVerifyComplete r')"
  shows "fileAccounted env jd' R l m f"
  using assms by (fastforce simp: fileAccounted_def)

lemma backupResultUpdate_simps [simp]:
  "brLabel (backupResultUpdate result path b) = brLabel b" "brTotalFileVerify (backupResultUpdate result path b) = brTotalFileVerify b"
  "brTotalFileManifest (backupResultUpdate result path b) = brTotalFileManifest b"
  "brTotalFileValid (backupResultUpdate result path b) + length (brInvalidFileList (backupResultUpdate result path b)) =
    Suc (brTotalFileValid b + length (brInvalidFileList b))"
  "brFileVerifyComplete (backupResultUpdate result path b) \<longleftrightarrow> brFileVerifyComplete b \<or> brTotalFileVerify b = brTotalFileManifest b"
  by (auto simp: backupResultUpdate_def Let_def verifyInvalidFileAdd_def)

lemma resultOk_handled:
  assumes ok: "resultOk env jd (add_mset j R) b" and j: "jobFor STORAGE_REPO_BACKUP (brLabel b) j" and us: "\<And>l. usable env jd' l = usable env jd l"
  shows "resultOk env jd' R (backupResultUpdate result path b)"
proof -
  have pos: "0 < brTotalFileVerify b" using ok j by (auto simp: resultOk_def)
  then obtain m where m: "usable env jd (brLabel b) = Some m" using ok by (auto simp: resultOk_def split: option.splits)
  have status: "brStatus (backupResultUpdate result path b) = (if brInvalidFileList (backupResultUpdate result path b) = [] then backupValid else backupInvalid)"
    if "brStatus b = (if brInvalidFileList b = [] then backupValid else backupInvalid)"
    using that by (auto simp: backupResultUpdate_def Let_def verifyInvalidFileAdd_def)
  have "brTotalFileVerify b = Suc (brTotalFileValid b + length (brInvalidFileList b)) + size (filter_mset (jobFor STORAGE_REPO_BACKUP (brLabel b)) R)"
    using ok j by (simp add: resultOk_def)
  then show ?thesis using ok m status unfolding resultOk_def by (auto simp: us)
qed

definition sameBackup :: "VerifyBackupResult \<Rightarrow> VerifyBackupResult \<Rightarrow> bool" where
  "sameBackup b b' \<longleftrightarrow> brLabel b' = brLabel b \<and> brTotalFileVerify b' = brTotalFileVerify b \<and> brTotalFileManifest b' = brTotalFileManifest b"

lemma sameBackup_labels: "list_all2 sameBackup bs bs' \<Longrightarrow> map brLabel bs' = map brLabel bs"
  by (induction rule: list_all2_induct) (auto simp: sameBackup_def)

lemma backup_positions:
  assumes "list_all2 sameBackup (jdBackupResultList jd) bs" "jd' = jd\<lparr>jdJobErrorTotal := e, jdBackupResultList := bs\<rparr>"
  shows "backupIdle env L jd \<Longrightarrow> backupIdle env L jd'" "backupWorking env L jd m files \<Longrightarrow> backupWorking env L jd' m files"
proof -
  have fin: "\<forall>b\<in>set cs'. resultFinished env jd' b" if "list_all2 sameBackup cs cs'" "\<forall>b\<in>set cs. resultFinished env jd b" for cs cs'
    using that by (induction rule: list_all2_induct) (auto simp: resultFinished_def sameBackup_def assms(2))
  show "backupIdle env L jd'" if "backupIdle env L jd"
    using that fin [OF assms(1)] sameBackup_labels [OF assms(1)] by (simp add: backupIdle_def assms(2))
  show "backupWorking env L jd' m files" if work: "backupWorking env L jd m files"
  proof -
    obtain cs b ls where *: "jdBackupResultList jd = cs @ [b]" "jdBackupList jd = brLabel b # ls" "map brLabel cs @ brLabel b # ls = L"
      "\<forall>b\<in>set cs. resultFinished env jd b" "jdManifest jd = Some m" "usable env jd (brLabel b) = Some m"
      "jdManifestFileIdx jd = brTotalFileVerify b" "jdBackupCipherPass jd = manCipherSubPass m"
      "manFileList m = take (brTotalFileVerify b) (manFileList m) @ files" "brTotalFileVerify b \<le> length (manFileList m)"
      "brTotalFileManifest b = length (manFileList m)"
      using work by (auto simp: backupWorking_def)
    obtain cs' b' where new: "bs = cs' @ [b']" "list_all2 sameBackup cs cs'" "sameBackup b b'"
      using assms(1) unfolding *(1) by (auto simp: list_all2_append1 list_all2_Cons1)
    show ?thesis
      unfolding backupWorking_def
      by (intro exI [of _ cs'] exI [of _ b'] exI [of _ ls])
        (use * new fin [OF new(2) *(4)] sameBackup_labels [OF new(2)] in \<open>simp add: sameBackup_def assms(2)\<close>)
  qed
qed

lemma distinct_results: "backupState env L jd R \<Longrightarrow> distinct (map brLabel (jdBackupResultList jd))"
  by (auto simp: backupState_def backupIdle_def backupWorking_def labelsOk_def)

lemma backupState_handled:
  assumes state: "backupState env L jd (add_mset j R)" and step: "verifyJobResult jd j (verifyRespond env j) = Inr jd'"
  shows "backupState env L jd' R \<and> (\<forall>l. usable env jd' l = usable env jd l) \<and> jdJobErrorTotal jd \<le> jdJobErrorTotal jd'"
proof -
  have known: "labelsOk L" "resultsOk env jd (add_mset j R)" "jobsKnown jd (add_mset j R)" using state by (auto simp: backupState_def)
  show ?thesis
    using step
  proof (cases rule: verifyJobResult_cases)
    case (archive i e result path fname)
    have us: "usable env jd' l = usable env jd l" for l by (simp add: archive(3))
    have ok: "resultOk env jd' R b" if "resultOk env jd (add_mset j R) b" for b
      using that archive(1) by (auto simp: resultOk_def jobFor_def us)
    have slash: "CHR ''/'' \<notin> set (brLabel b)" if "b \<in> set (jdBackupResultList jd)" for b
      using state that by (auto simp: backupState_def backupIdle_def backupWorking_def labelsOk_def)
    have "resultVerified env jd' R b" if b: "b \<in> set (jdBackupResultList jd)" "resultVerified env jd (add_mset j R) b" for b
    proof -
      have "fileAccounted env jd' R (brLabel b) m f" if "fileAccounted env jd (add_mset j R) (brLabel b) m f" for m f
        by (rule fileAccounted_handled [OF that])
          (use newJob_backup slash [OF b(1)] archive(1,3) in \<open>auto simp: jobFor_def\<close>)
      then show ?thesis using b(2) by (auto simp: resultVerified_def us)
    qed
    then have "resultsOk env jd' R" using known(2) ok by (auto simp: resultsOk_def archive(3))
    moreover have "backupIdle env L jd' = backupIdle env L jd" "backupWorking env L jd' m files = backupWorking env L jd m files" for m files
      by (simp_all add: backupIdle_def backupWorking_def resultFinished_def archive(3))
    moreover have "jobsKnown jd' R" using known(3) by (auto simp: jobsKnown_def archive(3))
    ultimately show ?thesis using state archive(3) by (auto simp: backupState_def us)
  next
    case (backup i e result path)
    let ?xs = "jdBackupResultList jd" and ?bs = "(jdBackupResultList jd)[i := backupResultUpdate result path (jdBackupResultList jd ! i)]"
    have j: "jobFor STORAGE_REPO_BACKUP (brLabel (?xs ! i)) j" using known(3) backup(1,3) by (auto simp: jobsKnown_def jobFor_def)
    have us: "usable env jd' l = usable env jd l" for l by (simp add: backup(4))
    have same: "list_all2 sameBackup ?xs ?bs"
      using backup(2) by (simp add: list_all2_conv_all_nth nth_list_update sameBackup_def)
    have other: "\<not> jobFor STORAGE_REPO_BACKUP (brLabel (?xs ! k)) j" if "k < length ?xs" "k \<noteq> i" for k
    proof -
      have "brLabel (?xs ! k) \<noteq> brLabel (?xs ! i)"
        using distinct_results [OF state] that backup(2) by (metis length_map nth_eq_iff_index_eq nth_map)
      then show ?thesis using jobFor_inj [OF j] by metis
    qed
    have "resultOk env jd' R (?bs ! k)" if "k < length ?xs" for k
    proof (cases "k = i")
      case True
      have "resultOk env jd (add_mset j R) (?xs ! i)" using known(2) backup(2) by (simp add: resultsOk_def)
      then show ?thesis using resultOk_handled [OF _ j us] True backup(2) by simp
    next
      case False
      have "resultOk env jd (add_mset j R) (?xs ! k)" using known(2) that by (simp add: resultsOk_def)
      then show ?thesis using False other [OF that False] by (auto simp: resultOk_def us)
    qed
    then have "\<forall>b\<in>set ?bs. resultOk env jd' R b" by (auto simp: in_set_conv_nth)
    moreover have "\<forall>b\<in>set ?bs. resultVerified env jd' R b" if err: "jdJobErrorTotal jd' = 0"
    proof
      fix c' assume "c' \<in> set ?bs"
      then obtain c where c: "c \<in> set ?xs" "sameBackup c c'" using same by (metis in_set_conv_nth list_all2_conv_all_nth)
      have answer: "verifyRespond env j = Inr 0" and err0: "jdJobErrorTotal jd = 0" using err backup(4,5) by auto
      have complete: "\<forall>r\<in>set ?xs. brFileVerifyComplete r \<longrightarrow>
          (\<exists>r'\<in>set (jdBackupResultList jd'). brLabel r' = brLabel r \<and> brFileVerifyComplete r')"
      proof (intro ballI impI)
        fix q assume q: "q \<in> set ?xs" "brFileVerifyComplete q"
        then obtain k where k: "k < length ?xs" "q = ?xs ! k" by (auto simp: in_set_conv_nth)
        then have "?bs ! k \<in> set ?bs" by simp
        moreover have "brLabel (?bs ! k) = brLabel q \<and> brFileVerifyComplete (?bs ! k)" using k q(2) by (cases "k = i") simp_all
        ultimately show "\<exists>r'\<in>set (jdBackupResultList jd'). brLabel r' = brLabel q \<and> brFileVerifyComplete r'" using backup(4) by auto
      qed
      have "resultVerified env jd (add_mset j R) c" using known(2) err0 c(1) by (simp add: resultsOk_def)
      then show "resultVerified env jd' R c'"
        using fileAccounted_handled [OF _ _ complete, where j = j and R = R] answer c(2) by (auto simp: resultVerified_def us sameBackup_def)
    qed
    ultimately have res: "resultsOk env jd' R" by (auto simp: resultsOk_def backup(4))
    have "brLabel ` set ?bs = brLabel ` set ?xs" using sameBackup_labels [OF same] by (metis list.set_map)
    moreover have "jdBackupResultList jd' = ?bs" by (simp add: backup(4))
    ultimately have "brLabel ` set (jdBackupResultList jd') = brLabel ` set ?xs" by simp
    with known(3) have jobs: "jobsKnown jd' R" by (simp add: jobsKnown_def)
    have "jdJobErrorTotal jd \<le> jdJobErrorTotal jd'" by (simp add: backup(4))
    with state res jobs us backup_positions [OF same backup(4), where env = env and L = L] show ?thesis
      unfolding backupState_def by blast
  qed
qed

section \<open>The invariant of the command\<close>

definition archiveConf where
  "archiveConf jd = (jdWalCipherPass jd, jdEnableArchiveFilter jd, jdArchiveStart jd, jdArchiveStop jd)"

definition verifyInv :: "VerifyEnv \<Rightarrow> VerifyJobData \<Rightarrow> VerifyJobData \<Rightarrow> VerifyJob multiset \<Rightarrow> bool" where
  "verifyInv env jd0 jd R \<longleftrightarrow>
    backupState env (jdBackupList jd0) jd R \<and> manifestsOk env jd \<and> (\<forall>l. usable env jd l = usable env jd0 l) \<and>
    archiveConf jd = archiveConf jd0 \<and> conf jd = conf jd0 \<and>
    labelsOk (jdArchiveIdList jd0) \<and> set (jdArchiveIdList jd) \<subseteq> set (jdArchiveIdList jd0) \<and> (jdBackupProcessing jd \<longrightarrow> jdArchiveIdList jd = []) \<and>
    (jdJobErrorTotal jd = 0 \<longrightarrow> archiveState env (jdArchiveIdList jd0) jd R \<and> sizeKnown jd)"

definition verifyExhausted :: "VerifyJobData \<Rightarrow> bool" where
  "verifyExhausted jd \<longleftrightarrow> jdArchiveIdList jd = [] \<and> jdBackupList jd = [] \<and> jdBackupProcessing jd"

lemma verifyInv_archive:
  assumes inv: "verifyInv env jd0 jd R" and step: "verifyArchive env jd = Inr (job, jd1)" and env: "walInfoOk env"
    and jd': "jd' = jd1\<lparr>jdBackupProcessing := (jdArchiveIdList jd1 = [])\<rparr>"
  shows "verifyInv env jd0 jd' (withJob R job)" "job = None \<Longrightarrow> jdArchiveIdList jd' = []"
proof -
  let ?A = "jdArchiveIdList jd0"
  have A: "distinct ?A" "\<forall>a\<in>set ?A. CHR ''/'' \<notin> set a" "set (jdArchiveIdList jd) \<subseteq> set ?A"
    using inv by (auto simp: verifyInv_def labelsOk_def)
  note frame = verifyArchive_loop_frame [OF step [unfolded verifyArchive_def] env]
  have f: "archiveFrame jd jd1" "job = None \<longrightarrow> jdArchiveIdList jd1 = []" "set (jdArchiveIdList jd1) \<subseteq> set (jdArchiveIdList jd)"
    "\<forall>j. job = Some j \<longrightarrow> keyParts j ! 1 = STORAGE_REPO_ARCHIVE"
    using frame A by auto
  have backup: "backupPart jd' = backupPart jd" "jdJobErrorTotal jd \<le> jdJobErrorTotal jd'" "archiveConf jd' = archiveConf jd"
    using f(1) by (auto simp: jd' archiveFrame_def backupPart_def archiveConf_def)
  have "backupState env (jdBackupList jd0) jd' (withJob R job)"
    by (rule backupState_archive [OF _ backup(1,2) f(4)]) (use inv in \<open>simp add: verifyInv_def\<close>)
  moreover have "archiveState env ?A jd' (withJob R job) \<and> sizeKnown jd'" if "jdJobErrorTotal jd' = 0"
  proof -
    have "jdJobErrorTotal jd = 0" "jdJobErrorTotal jd1 = jdJobErrorTotal jd" using that backup(2) by (auto simp: jd')
    then have "archiveState env ?A jd1 (withJob R job) \<and> sizeKnown jd1"
      using verifyArchive_loop_step [OF step [unfolded verifyArchive_def] env A(1,2)] inv by (auto simp: verifyInv_def)
    moreover have "archiveState env ?A jd' (withJob R job)" if "archiveState env ?A jd1 (withJob R job)"
      by (rule archiveState_transfer [OF that])
        (auto simp: jd' walOk_def sameArchive_def walFileParam_def sameArchive_refl walFilesOf_def walFileFilter_def fun_eq_iff Let_def cong: option.case_cong)
    ultimately show ?thesis by (simp add: jd' sizeKnown_def)
  qed
  moreover have "manifestsOk env jd' \<and> conf jd' = conf jd"
    using inv manifestsOk_cong [of env jd jd'] backup(1,2) by (auto simp: verifyInv_def backupPart_def conf_def)
  ultimately show "verifyInv env jd0 jd' (withJob R job)"
    using inv f(3) backup usable_cong [OF backup(1), of env] by (auto simp: verifyInv_def jd')
  show "job = None \<Longrightarrow> jdArchiveIdList jd' = []" using f(2) by (simp add: jd')
qed

lemma verifyInv_backup:
  assumes inv: "verifyInv env jd0 jd R" and step: "verifyBackup env jd = Inr (job, jd')"
  shows "verifyInv env jd0 jd' (withJob R job) \<and> jdArchiveIdList jd' = jdArchiveIdList jd \<and> jdBackupProcessing jd' = jdBackupProcessing jd \<and>
    (job = None \<longrightarrow> jdBackupList jd' = [])"
proof -
  have "backupNext env (jdBackupList jd0) jd R job jd'"
    using verifyBackup_loop_step [OF _ refl step [unfolded verifyBackup_def]] inv by (simp add: verifyInv_def)
  then have n: "backupState env (jdBackupList jd0) jd' (withJob R job)" "archivePart jd' = archivePart jd" "jdJobErrorTotal jd \<le> jdJobErrorTotal jd'"
    "\<And>l. usable env jd' l = usable env jd l" "job = None \<Longrightarrow> jdBackupList jd' = []"
    by (auto simp: backupNext_def)
  have "archiveState env (jdArchiveIdList jd0) jd' (withJob R job) \<and> sizeKnown jd'" if "jdJobErrorTotal jd' = 0"
    using inv that n(2,3) archiveState_backup [OF _ n(2) withJob_mono] by (auto simp: verifyInv_def sizeKnown_def archivePart_def)
  moreover have "manifestsOk env jd' \<and> conf jd' = conf jd"
    using verifyBackup_loop_manifests [OF step [unfolded verifyBackup_def]] inv by (simp add: verifyInv_def)
  ultimately show ?thesis using inv n by (auto simp: verifyInv_def archivePart_def archiveConf_def)
qed

lemma verifyInv_callback:
  assumes inv: "verifyInv env jd0 jd R" and step: "verifyJobCallback env jd = Inr (job, jd')" and env: "walInfoOk env"
  shows "verifyInv env jd0 jd' (withJob R job) \<and> (job = None \<longrightarrow> verifyExhausted jd')"
proof -
  obtain job1 jd1 where 1: "verifyInv env jd0 jd1 (withJob R job1)" "job1 = None \<longrightarrow> jdBackupProcessing jd1 \<and> jdArchiveIdList jd1 = []"
    "(if jdBackupProcessing jd1 \<and> job1 = None then verifyBackup env jd1 else Inr (job1, jd1)) = Inr (job, jd')"
  proof (cases "jdBackupProcessing jd")
    case True
    then show thesis using that [of jd None] inv step by (auto simp: verifyJobCallback_def verifyInv_def)
  next
    case False
    then obtain job1 jd1 where a: "verifyArchive env jd = Inr (job1, jd1)"
      "(if jdBackupProcessing (jd1\<lparr>jdBackupProcessing := (jdArchiveIdList jd1 = [])\<rparr>) \<and> job1 = None
        then verifyBackup env (jd1\<lparr>jdBackupProcessing := (jdArchiveIdList jd1 = [])\<rparr>) else Inr (job1, jd1\<lparr>jdBackupProcessing := (jdArchiveIdList jd1 = [])\<rparr>)) = Inr (job, jd')"
      using step by (auto simp: verifyJobCallback_def bindR_Inr_iff)
    show thesis using that [of "jd1\<lparr>jdBackupProcessing := (jdArchiveIdList jd1 = [])\<rparr>" job1] verifyInv_archive [OF inv a(1) env refl] a(2) by auto
  qed
  show ?thesis
  proof (cases job1)
    case None
    then have "verifyBackup env jd1 = Inr (job, jd')" using 1(2,3) by simp
    then show ?thesis using verifyInv_backup [of env jd0 jd1 R job jd'] 1(1,2) None by (auto simp: verifyExhausted_def)
  next
    case (Some j)
    then show ?thesis using 1 by auto
  qed
qed

lemma verifyInv_handled:
  assumes inv: "verifyInv env jd0 jd (add_mset j R)" and step: "verifyJobResult jd j (verifyRespond env j) = Inr jd'"
  shows "verifyInv env jd0 jd' R"
proof -
  have b: "backupState env (jdBackupList jd0) jd' R" "\<forall>l. usable env jd' l = usable env jd l" "jdJobErrorTotal jd \<le> jdJobErrorTotal jd'"
    using backupState_handled [OF _ step] inv by (auto simp: verifyInv_def)
  have keep: "archiveConf jd' = archiveConf jd" "jdArchiveIdList jd' = jdArchiveIdList jd" "jdBackupProcessing jd' = jdBackupProcessing jd"
    "jdJobErrorTotal jd' = 0 \<longrightarrow> verifyRespond env j = Inr 0 \<or> verifyRespond env j = Inr 1"
    using step by (cases rule: verifyJobResult_cases; force simp: archiveConf_def)+
  have known: "sizeKnown jd \<longrightarrow> sizeKnown jd'"
    using step
  proof (cases rule: verifyJobResult_cases)
    case (archive i e result path fname)
    then show ?thesis by (cases "jdArchiveIdResultList jd = []") (auto simp: sizeKnown_def last_conv_nth nth_list_update)
  qed (simp add: sizeKnown_def)
  have "archiveState env (jdArchiveIdList jd0) jd' R" if "jdJobErrorTotal jd' = 0"
    using archiveState_handled [OF _ keep(4) [rule_format, OF that] step] inv b(3) that by (auto simp: verifyInv_def)
  moreover have "manifestsOk env jd' \<and> conf jd' = conf jd"
    using step
  proof (cases rule: verifyJobResult_cases)
    case (archive i e result path fname)
    then show ?thesis using inv manifestsOk_cong [of env jd jd'] by (auto simp: verifyInv_def conf_def)
  next
    case (backup i e result path)
    then show ?thesis using inv manifestsOk_cong [of env jd jd'] by (auto simp: verifyInv_def conf_def map_update list_update_same_conv)
  qed
  ultimately show ?thesis using inv b keep known by (auto simp: verifyInv_def)
qed

lemma verifyExhausted_callback: "verifyExhausted jd \<Longrightarrow> verifyJobCallback env jd = Inr (None, jd)"
  by (simp add: verifyExhausted_def verifyJobCallback_def verifyBackup_def)

lemma verifyExhausted_handled: "verifyExhausted jd \<Longrightarrow> verifyJobResult jd j answer = Inr jd' \<Longrightarrow> verifyExhausted jd'"
  by (erule verifyJobResult_cases) (auto simp: verifyExhausted_def)

text \<open>
  The contract of the parallel executor holds for the verify command when the parser of WAL headers only gives sizes that are
  not zero.
\<close>

definition saneEnv :: "VerifyEnv \<Rightarrow> VerifyEnv" where
  "saneEnv env = env\<lparr>envWalInfo := \<lambda>p pass. bindR (envWalInfo env p pass) (\<lambda>(sz, v). if sz = 0 then Inl FormatError else Inr (sz, v))\<rparr>"

lemma saneEnv_ok: "walInfoOk (saneEnv env)"
  by (auto simp: walInfoOk_def saneEnv_def bindR_Inr_iff split: if_splits)

lemma saneEnv_id: "walInfoOk env \<Longrightarrow> saneEnv env = env"
  by (auto simp: walInfoOk_def saneEnv_def fun_eq_iff bindR_def split: sum.splits intro!: VerifyEnv.equality) (metis less_numeral_extra(3))

interpretation verify: parallel_client "verifyJobCallback (saneEnv env)" "verifyRespond (saneEnv env)" verifyJobResult
    "verifyInv (saneEnv env) jd0" verifyExhausted for env jd0
proof (unfold_locales, goal_cases)
  case (1 d R d')
  then show ?case using verifyInv_callback [OF 1 saneEnv_ok] by auto
next
  case (2 d R j d')
  then show ?case using verifyInv_callback [OF 2 saneEnv_ok] by auto
next
  case (3 d j R d')
  then show ?case by (rule verifyInv_handled)
next
  case (4 d j d')
  then show ?case by (rule verifyExhausted_handled)
next
  case (5 d)
  then show ?case by (rule verifyExhausted_callback)
qed

end
