(* ===== verification/ParallelLive.thy ===== *)
theory ParallelLive
  imports Parallel "HOL-Library.Product_Lexorder"
begin

text \<open>
  The executor makes progress: a command whose callback has only finitely many jobs to give out returns, whatever the order in
  which the clients answer, as long as every client that has a job answers at some time.
\<close>

text \<open>A schedule in which every client answers again and again.\<close>

definition fair :: "nat \<Rightarrow> (nat \<Rightarrow> nat set) \<Rightarrow> bool" where
  "fair clientTotal f \<longleftrightarrow> (\<forall>c\<in>{1..clientTotal}. \<forall>i. \<exists>j\<ge>i. c \<in> f j)"

locale parallel_progress = parallel_client callback respond handle Inv Exhausted
  for callback :: "'d \<Rightarrow> ('j option \<times> 'd) res"
    and respond :: "'j \<Rightarrow> 'r"
    and handle :: "'d \<Rightarrow> 'j \<Rightarrow> 'r \<Rightarrow> 'd res"
    and Inv :: "'d \<Rightarrow> 'j multiset \<Rightarrow> bool"
    and Exhausted :: "'d \<Rightarrow> bool" +
  fixes rank :: "'d \<Rightarrow> 'w :: wellorder"
  assumes rank_job: "Inv d R \<Longrightarrow> callback d = Inr (Some j, d') \<Longrightarrow> rank d' < rank d"
    and rank_idle: "Inv d R \<Longrightarrow> callback d = Inr (None, d') \<Longrightarrow> rank d' \<le> rank d"
    and rank_handle: "handle d j r = Inr d' \<Longrightarrow> rank d' = rank d"
begin

definition ids_ok :: "('j, 'r) ProtocolParallel \<Rightarrow> bool" where
  "ids_ok this \<longleftrightarrow> (\<forall>job\<in>set (jobList this). ppProcessId job \<le> length (clientFreed this))"

text \<open>Between two rounds: there are jobs, none of them is done, and every client has one or was freed.\<close>

definition stable :: "'d \<Rightarrow> ('j, 'r) ProtocolParallel \<times> 'd \<Rightarrow> bool" where
  "stable d0 = (\<lambda>(this, d). run_ok callback respond handle d0 (this, d) \<and> freed_ok (this, d) \<and> ids_ok this \<and>
    (\<forall>c<length (clientFreed this). client_ok this c) \<and> execState this = protocolParallelJobStateRunning \<and> jobList this \<noteq> [] \<and> doneTotal this = 0)"

definition smaller :: "('j, 'r) ProtocolParallel \<times> 'd \<Rightarrow> ('j, 'r) ProtocolParallel \<times> 'd \<Rightarrow> bool" where
  "smaller s' s \<longleftrightarrow> (rank (snd s'), length (jobList (fst s'))) < (rank (snd s), length (jobList (fst s)))"

lemma clientSend_rank:
  assumes "run_ok callback respond handle d0 (this, d)" "Inv d0 {#}" "clientSend callback c (this, d) = Inr (this', d')"
  shows "(rank d' < rank d \<or> rank d' \<le> rank d \<and> jobList this' = jobList this) \<and> execState this' = execState this \<and>
    (ids_ok this \<and> c < length (clientFreed this) \<longrightarrow> ids_ok this')"
proof -
  have inv: "Inv d (jobsOf this)" using reach_inv [of d0 "(d, jobsOf this)"] assms(1,2) by (auto simp: run_ok_def)
  show ?thesis
    using assms(3)
  proof (cases rule: clientSend_cases)
    case (freed d1)
    then show ?thesis using rank_idle [OF inv freed(2)] by (auto simp: ids_ok_def)
  next
    case (sent job d1)
    then show ?thesis using rank_job [OF inv sent(2)] by (auto simp: ids_ok_def clientRunning_def)
  qed auto
qed

lemma clientSendAll_rank:
  assumes "run_ok callback respond handle d0 (this, d)" "Inv d0 {#}" "clientSendAll callback clients (this, d) = Inr (this', d')"
    and "\<forall>c\<in>set clients. c < length (clientFreed this)"
  shows "(rank d' < rank d \<or> rank d' \<le> rank d \<and> jobList this' = jobList this) \<and> execState this' = execState this \<and> (ids_ok this \<longrightarrow> ids_ok this')"
  using assms
proof (induction clients arbitrary: this d)
  case (Cons c cs)
  then obtain this1 d1 where t: "clientSend callback c (this, d) = Inr (this1, d1)" "clientSendAll callback cs (this1, d1) = Inr (this', d')"
    by (auto simp: bindR_Inr_iff)
  note ok = clientSend_ok(1,3) [OF Cons.prems(1) t(1)]
  note one = clientSend_rank [OF Cons.prems(1,2) t(1)]
  have rest: "(rank d' < rank d1 \<or> rank d' \<le> rank d1 \<and> jobList this' = jobList this1) \<and> execState this' = execState this1 \<and> (ids_ok this1 \<longrightarrow> ids_ok this')"
    using Cons.IH [OF ok(1) Cons.prems(2) t(2)] Cons.prems(4) ok(2) by auto
  show ?case using one rest Cons.prems(4) by (auto intro: order.trans order.strict_trans1 order.strict_trans2)
qed simp

lemma handleCompleted_rank:
  assumes "handleCompleted handle completed (this, d) = Inr (this', d')"
  shows "rank d' = rank d \<and> length (jobList this) = length (jobList this') + completed \<and> set (jobList this') \<subseteq> set (jobList this) \<and>
    execState this' = execState this \<and> clientFreed this' = clientFreed this"
  using assms
proof (induction completed arbitrary: this d)
  case (Suc completed)
  obtain job jobs r d1 where *: "takeDone (jobList this) = Some (job, jobs)" "handle d (ppJob job) r = Inr d1"
    "handleCompleted handle completed (this\<lparr>jobList := jobs\<rparr>, d1) = Inr (this', d')"
    using Suc.prems by (auto simp: protocolParallelResult_def bindR_Inr_iff split: option.splits)
  obtain xs ys where "jobList this = xs @ job # ys" "jobs = xs @ ys" using takeDone_Some [OF *(1)] by blast
  then show ?case using Suc.IH [OF *(3)] rank_handle [OF *(2)] by auto
qed simp

lemma jobReceiveAll_fields:
  "jobReceiveAll respond ready jobs = Inr jobs' \<Longrightarrow> length jobs' = length jobs \<and> map ppProcessId jobs' = map ppProcessId jobs"
  by (induction jobs arbitrary: jobs')
    (auto simp: bindR_Inr_iff jobReceive_def protocolParallelJobStateSet_def split: if_splits)

text \<open>A round: it keeps the state stable or has handled the last job, and with an answer it makes progress.\<close>

lemma round_stable:
  assumes ok: "run_ok callback respond handle d0 (this, d)" "freed_ok (this, d)" "ids_ok this" "doneTotal this = 0" "Inv d0 {#}"
    and proc: "protocolParallelProcess callback respond ready this d = Inr (completed, this1, d1)"
    and hand: "handleCompleted handle completed (this1, d1) = Inr (this2, d2)"
  shows "jobList this2 = [] \<or> stable d0 (this2, d2)" "completed > 0 \<Longrightarrow> smaller (this2, d2) (this, d)"
proof -
  let ?t = "if execState this = protocolParallelJobStatePending then this\<lparr>execState := protocolParallelJobStateRunning\<rparr> else this"
  obtain jobs where jobs: "jobReceiveAll respond ready (jobList this) = Inr jobs"
    and send: "clientSendAll callback [0..<length (clientFreed this)] (?t\<lparr>jobList := jobs\<rparr>, d) = Inr (this1, d1)"
    using proc by (cases "execState this = protocolParallelJobStatePending") (auto simp: protocolParallelProcess_def Let_def bindR_Inr_iff)
  have jobs': "list_all (ppJob_ok respond) jobs" "map ppJob jobs = map ppJob (jobList this)"
    using jobReceiveAll_ok [of respond "jobList this" ready] ok(1) jobs by (auto simp: run_ok_def)
  have run_t: "run_ok callback respond handle d0 (?t\<lparr>jobList := jobs\<rparr>, d)"
    using ok(1) jobs'(1) by (simp add: run_ok_def jobsOf_def jobs'(2) del: mset_map)
  have state: "execState (?t\<lparr>jobList := jobs\<rparr>) = protocolParallelJobStateRunning"
    using ok(1) by (cases "execState this") (auto simp: run_ok_def)
  have "map ppProcessId jobs = map ppProcessId (jobList this)" and len: "length jobs = length (jobList this)"
    using jobReceiveAll_fields [OF jobs] by auto
  then have "ppProcessId ` set jobs = ppProcessId ` set (jobList this)" by (metis list.set_map)
  then have ids: "ids_ok (?t\<lparr>jobList := jobs\<rparr>)" using ok(3) by (auto simp: ids_ok_def) (metis imageE imageI)
  have sent: "(rank d1 < rank d \<or> rank d1 \<le> rank d \<and> jobList this1 = jobs) \<and> execState this1 = protocolParallelJobStateRunning \<and> ids_ok this1"
    using clientSendAll_rank [OF run_t ok(5) send] ids state by auto
  note ok1 = protocolParallelProcess_ok [OF ok(1) proc]
  note free1 = protocolParallelProcess_freed [OF ok(1,5,2) proc]
  have ok2: "run_ok callback respond handle d0 (this2, d2)" "doneTotal this2 = 0"
    using handleCompleted_ok [OF ok1(1) hand] ok1(2) ok(4) by auto
  have free2: "freed_ok (this2, d2)" "\<forall>c<length (clientFreed this2). client_ok this2 c"
    using handleCompleted_freed [OF ok1(1) _ hand] free1 by auto
  note h = handleCompleted_rank [OF hand]
  have "ids_ok this2" using sent h by (auto simp: ids_ok_def)
  then show "jobList this2 = [] \<or> stable d0 (this2, d2)" using ok2 free2 sent h by (auto simp: stable_def)
  show "smaller (this2, d2) (this, d)" if "completed > 0"
    using that sent h len by (auto simp: smaller_def less_prod_def)
qed

text \<open>A round without an answer changes nothing.\<close>

lemma clientSendAll_quiet:
  assumes "freed_ok (this, d)" "\<forall>c\<in>set clients. c < length (clientFreed this) \<and> client_ok this c"
  shows "clientSendAll callback clients (this, d) = Inr (this, d)"
  using assms(2)
proof (induction clients)
  case (Cons c cs)
  have "clientSend callback c (this, d) = Inr (this, d)"
  proof (cases "\<exists>job\<in>set (jobList this). clientRunning c job")
    case False
    then have freed: "clientFreed this ! c" using Cons.prems by (auto simp: client_ok_def)
    then have "callback d = Inr (None, d)" using exhausted_callback assms(1) Cons.prems by (auto simp: freed_ok_def)
    moreover have "(clientFreed this)[c := True] = clientFreed this" using freed by (metis list_update_id)
    ultimately show ?thesis using False by (simp add: clientSend_def)
  qed (simp add: clientSend_def)
  then show ?case using Cons by simp
qed simp

lemma run_quiet:
  assumes "stable d0 (this, d)" "\<forall>job\<in>set (jobList this). \<not> answered ready job"
  shows "parallelRun callback respond handle (ready # schedule) this d = parallelRun callback respond handle schedule this d"
proof -
  have "jobReceiveAll respond ready jobs = Inr jobs" if "\<forall>job\<in>set jobs. \<not> answered ready job" for jobs
    using that by (induction jobs) (auto simp: jobReceive_def)
  moreover have "filter (answered ready) (jobList this) = []" using assms(2) by (simp add: filter_empty_conv)
  moreover have "clientSendAll callback [0..<length (clientFreed this)] (this, d) = Inr (this, d)"
    by (rule clientSendAll_quiet) (use assms(1) in \<open>auto simp: stable_def\<close>)
  ultimately have "protocolParallelProcess callback respond ready this d = Inr (0, this, d)"
    using assms by (simp add: protocolParallelProcess_def stable_def Let_def)
  then show ?thesis using assms(1) by (simp add: stable_def protocolParallelDone_def)
qed

lemma run_quiet_all:
  assumes "stable d0 (this, d)" "\<forall>r\<in>set readys. \<forall>job\<in>set (jobList this). \<not> answered r job"
  shows "parallelRun callback respond handle (readys @ schedule) this d = parallelRun callback respond handle schedule this d"
  using assms(2)
proof (induction readys)
  case (Cons r rs)
  have "parallelRun callback respond handle (r # rs @ schedule) this d = parallelRun callback respond handle (rs @ schedule) this d"
    by (rule run_quiet [OF assms(1)]) (use Cons.prems in simp)
  then show ?case using Cons by (simp del: parallelRun.simps)
qed simp

lemma wf_smaller: "wfP smaller"
  unfolding smaller_def by (rule wfp_if_convertible_to_wfp [OF wfp_on_less, where f = "\<lambda>s. (rank (snd s), length (jobList (fst s)))"])

lemma next_answer:
  assumes "stable d0 (this, d)" "fair (length (clientFreed this)) f"
  obtains j where "j \<ge> i" "\<exists>job\<in>set (jobList this). answered (f j) job" "\<forall>k\<in>{i..<j}. \<forall>job\<in>set (jobList this). \<not> answered (f k) job"
proof -
  obtain job where job: "job \<in> set (jobList this)" using assms(1) by (cases "jobList this") (auto simp: stable_def)
  have "ppState job \<noteq> protocolParallelJobStateDone" using assms(1) job by (auto simp: stable_def doneTotal_def filter_empty_conv)
  then have run: "ppState job = protocolParallelJobStateRunning" "ppProcessId job \<noteq> 0" "ppProcessId job \<le> length (clientFreed this)"
    using assms(1) job by (auto simp: stable_def run_ok_def list_all_iff ppJob_ok_def ids_ok_def)
  then obtain j0 where "j0 \<ge> i" "ppProcessId job \<in> f j0" using assms(2) by (fastforce simp: fair_def)
  then have ex: "\<exists>j. j \<ge> i \<and> (\<exists>job\<in>set (jobList this). answered (f j) job)" using job run by (auto simp: answered_def)
  define j where "j = (LEAST j. j \<ge> i \<and> (\<exists>job\<in>set (jobList this). answered (f j) job))"
  have "j \<ge> i \<and> (\<exists>job\<in>set (jobList this). answered (f j) job)" unfolding j_def by (rule LeastI_ex [OF ex])
  moreover have "\<not> (k \<ge> i \<and> (\<exists>job\<in>set (jobList this). answered (f k) job))" if "k < j" for k
    using that unfolding j_def by (rule not_less_Least)
  ultimately show thesis using that by (metis atLeastLessThan_iff)
qed

lemma stable_returns:
  assumes "stable d0 s" "fair (length (clientFreed (fst s))) f" "Inv d0 {#}"
  shows "\<exists>k. parallelRun callback respond handle (map f [i..<i + k]) (fst s) (snd s) \<noteq> Inr None"
  using assms(1,2)
proof (induction s arbitrary: i rule: wfp_induct_rule [OF wf_smaller])
  case (1 s)
  obtain this d where s: "s = (this, d)" by (cases s)
  obtain j where j: "j \<ge> i" "\<exists>job\<in>set (jobList this). answered (f j) job" "\<forall>k\<in>{i..<j}. \<forall>job\<in>set (jobList this). \<not> answered (f k) job"
    using next_answer [of d0 this d f i] 1(2,3) s by auto
  have skip: "parallelRun callback respond handle (map f [i..<j] @ f j # schedule) this d = parallelRun callback respond handle (f j # schedule) this d" for schedule
    by (rule run_quiet_all) (use 1(2) j(3) s in auto)
  show ?case
  proof (cases "\<exists>completed this1 d1 this2 d2. protocolParallelProcess callback respond (f j) this d = Inr (completed, this1, d1) \<and>
      handleCompleted handle completed (this1, d1) = Inr (this2, d2) \<and> jobList this2 \<noteq> []")
    case True
    then obtain completed this1 d1 this2 d2 where *: "protocolParallelProcess callback respond (f j) this d = Inr (completed, this1, d1)"
      "handleCompleted handle completed (this1, d1) = Inr (this2, d2)" "jobList this2 \<noteq> []" by blast
    have st: "run_ok callback respond handle d0 (this, d)" "freed_ok (this, d)" "ids_ok this" "doneTotal this = 0"
      using 1(2) s by (auto simp: stable_def)
    have "completed > 0" using *(1) j(2) by (auto simp: protocolParallelProcess_def Let_def bindR_Inr_iff filter_empty_conv)
    note round = round_stable [OF st assms(3) *(1,2)]
    have stable2: "stable d0 (this2, d2)" using round(1) *(3) by blast
    have "length (clientFreed this2) = length (clientFreed this)"
      using protocolParallelProcess_freed [OF st(1) assms(3) st(2) *(1)] handleCompleted_rank [OF *(2)] by simp
    then obtain k where k: "parallelRun callback respond handle (map f [Suc j..<Suc j + k]) this2 d2 \<noteq> Inr None"
      using 1(1) [of "(this2, d2)" "Suc j"] round(2) [OF \<open>completed > 0\<close>] stable2 1(3) s by auto
    have "parallelRun callback respond handle (f j # schedule) this d = parallelRun callback respond handle schedule this2 d2" for schedule
      using * stable2 by (simp add: protocolParallelDone_def stable_def)
    then have "parallelRun callback respond handle (map f [i..<j] @ f j # map f [Suc j..<Suc j + k]) this d \<noteq> Inr None" using skip k by simp
    moreover have "map f [i..<j] @ f j # map f [Suc j..<Suc j + k] = map f [i..<i + (Suc j + k - i)]"
    proof -
      have "[i..<j + Suc k] = [i..<j] @ j # [Suc j..<j + Suc k]"
        using upt_add_eq_append [OF j(1), of "Suc k"] upt_conv_Cons [of j "j + Suc k"] by simp
      moreover have "i + (Suc j + k - i) = j + Suc k" "Suc j + k = j + Suc k" using j(1) by simp_all
      ultimately show ?thesis by simp
    qed
    ultimately show ?thesis using s by (metis fst_conv snd_conv)
  next
    case False
    then have "parallelRun callback respond handle [f j] this d \<noteq> Inr None"
      by (auto simp: bindR_def protocolParallelDone_def Let_def split: sum.splits prod.splits)
    then have "parallelRun callback respond handle (map f [i..<j] @ [f j]) this d \<noteq> Inr None" using skip [of "[]"] by simp
    moreover have "map f [i..<j] @ [f j] = map f [i..<i + (Suc j - i)]" using j(1) by simp
    ultimately show ?thesis using s by (metis fst_conv snd_conv)
  qed
qed

lemma parallelRun_returns:
  assumes "fair clientTotal f" "Inv d0 {#}"
  shows "\<exists>k. parallelRun callback respond handle (map f [0..<k]) (protocolParallelNew clientTotal) d0 \<noteq> Inr None"
proof -
  let ?new = "protocolParallelNew clientTotal :: ('j, 'r) ProtocolParallel"
  have st: "run_ok callback respond handle d0 (?new, d0)" "freed_ok (?new, d0)" "ids_ok ?new" "doneTotal ?new = 0"
    by (rule run_ok_start) (simp_all add: freed_ok_def ids_ok_def doneTotal_def protocolParallelNew_def)
  show ?thesis
  proof (cases "\<exists>completed this1 d1 this2 d2. protocolParallelProcess callback respond (f 0) ?new d0 = Inr (completed, this1, d1) \<and>
      handleCompleted handle completed (this1, d1) = Inr (this2, d2) \<and> jobList this2 \<noteq> []")
    case True
    then obtain completed this1 d1 this2 d2 where *: "protocolParallelProcess callback respond (f 0) ?new d0 = Inr (completed, this1, d1)"
      "handleCompleted handle completed (this1, d1) = Inr (this2, d2)" "jobList this2 \<noteq> []" by blast
    have stable2: "stable d0 (this2, d2)" using round_stable(1) [OF st assms(2) *(1,2)] *(3) by blast
    have "length (clientFreed this2) = clientTotal"
      using protocolParallelProcess_freed [OF st(1) assms(2) st(2) *(1)] handleCompleted_rank [OF *(2)] by (simp add: protocolParallelNew_def)
    then obtain k where k: "parallelRun callback respond handle (map f [1..<1 + k]) this2 d2 \<noteq> Inr None"
      using stable_returns [OF stable2 _ assms(2), of f 1] assms(1) by auto
    have "parallelRun callback respond handle (f 0 # schedule) ?new d0 = parallelRun callback respond handle schedule this2 d2" for schedule
      using * stable2 by (simp add: protocolParallelDone_def stable_def)
    then have "parallelRun callback respond handle (f 0 # map f [1..<1 + k]) ?new d0 \<noteq> Inr None" using k by simp
    moreover have "f 0 # map f [1..<1 + k] = map f [0..<Suc k]" by (simp add: upt_conv_Cons del: upt_Suc)
    ultimately show ?thesis by metis
  next
    case False
    then have "parallelRun callback respond handle [f 0] ?new d0 \<noteq> Inr None"
      by (auto simp: bindR_def protocolParallelDone_def Let_def split: sum.splits prod.splits)
    moreover have "[f 0] = map f [0..<1]" by simp
    ultimately show ?thesis by metis
  qed
qed

end

end
