(* ===== verification/VerifyLive.thy ===== *)
theory VerifyLive
  imports VerifySound ParallelLive
begin

text \<open>The verify command returns: its callback has only finitely many jobs.\<close>

section \<open>Archives\<close>

definition pathRank :: "VerifyJobData \<Rightarrow> nat \<times> nat \<times> nat" where
  "pathRank jd = (length (jdWalPathList jd), if jdWalFileList jd = [] then 1 else 0, length (jdWalFileList jd))"

definition started :: "string \<Rightarrow> VerifyJobData \<Rightarrow> bool" where
  "started a jd \<longleftrightarrow> jdArchiveIdResultList jd \<noteq> [] \<and> arArchiveId (last (jdArchiveIdResultList jd)) = a"

definition archiveRank :: "string list \<Rightarrow> VerifyJobData \<Rightarrow> nat \<times> nat \<times> nat \<times> nat \<times> nat" where
  "archiveRank ids jd = (length ids, if ids = [] then (0, 0, 0, 0) else if started (hd ids) jd then (0, pathRank jd) else (1, 0, 0, 0))"

lemma walFilesInit_started: "walFilesInit env dir jd = Inr jd' \<Longrightarrow> started a jd \<Longrightarrow> started a jd' \<and> jdWalPathList jd' = jdWalPathList jd"
  by (auto simp: walFilesInit_def started_def Let_def bindR_Inr_iff split: if_splits)

lemma verifyArchive_paths_rank:
  assumes "verifyArchive_paths env dirs jd = Inr (Some j, jd')" "started a jd"
  shows "started a jd' \<and> pathRank jd' < pathRank (jd\<lparr>jdWalPathList := dirs\<rparr>)"
  using assms
proof (induction env dirs jd rule: verifyArchive_paths.induct)
  case (2 env dir dirs jd)
  obtain jd1 where 1: "(if jdWalFileList jd = [] then walFilesInit env dir jd else Inr jd) = Inr jd1" using 2(2) by (auto simp: bindR_Inr_iff)
  have st: "started a jd1" using walFilesInit_started 1 2(3) by (auto split: if_splits)
  show ?case
  proof (cases "jdWalFileList jd1")
    case Nil
    then have "verifyArchive_paths env dirs jd1 = Inr (Some j, jd')" using 2(2) 1 by simp
    from 2(1) [OF 1 Nil this st] show ?thesis by (auto simp: pathRank_def less_prod_def)
  next
    case (Cons f fs)
    have jd': "jd' = jd1\<lparr>jdWalFileList := fs, jdWalPathList := (if fs = [] then dirs else dir # dirs)\<rparr>"
      using 2(2) 1 Cons by (auto simp: bindR_Inr_iff)
    moreover have "jd1 = jd" if "jdWalFileList jd \<noteq> []" using that 1 by simp
    ultimately show ?thesis using st Cons by (cases "jdWalFileList jd = []") (auto simp: pathRank_def less_prod_def started_def)
  qed
qed simp

lemma verifyArchive_loop_rank:
  assumes "verifyArchive_loop env ids jd = Inr (job, jd')"
  shows "case job of None \<Rightarrow> jdArchiveIdList jd' = [] | Some j \<Rightarrow> archiveRank (jdArchiveIdList jd') jd' < archiveRank ids jd"
  using assms
proof (induction env ids jd rule: verifyArchive_loop.induct)
  case (1 env jd)
  then show ?case by auto
next
  case (2 env a ids jd)
  let ?jd = "archiveIdInit env a jd"
  have st: "started a ?jd" by (auto simp: archiveIdInit_def started_def)
  obtain job1 jd1 where p: "verifyArchive_paths env (jdWalPathList ?jd) ?jd = Inr (job1, jd1)" using 2(2) by (auto simp: Let_def bindR_Inr_iff)
  show ?case
  proof (cases job1)
    case None
    then have "verifyArchive_loop env ids jd1 = Inr (job, jd')" using 2(2) p by (simp add: Let_def)
    from 2(1) [OF refl p refl None this] have IH: "case job of None \<Rightarrow> jdArchiveIdList jd' = [] | Some j \<Rightarrow> archiveRank (jdArchiveIdList jd') jd' < archiveRank ids jd1" .
    have "archiveRank ids jd1 < archiveRank (a # ids) jd" by (simp add: archiveRank_def less_prod_def)
    then show ?thesis using IH by (auto split: option.splits)
  next
    case (Some j)
    then have jd': "job = Some j" "jd' = jd1\<lparr>jdArchiveIdList := (if jdWalPathList jd1 = [] then ids else a # ids)\<rparr>" using 2(2) p by (auto simp: Let_def)
    have r: "started a jd1" "pathRank jd1 < pathRank ?jd" using verifyArchive_paths_rank [OF p [unfolded Some] st] by auto
    have same: "?jd = jd" if "started a jd" using that by (simp add: archiveIdInit_def started_def)
    have rank: "pathRank jd' = pathRank jd1" "started a jd'" using r(1) by (simp_all add: jd'(2) pathRank_def started_def)
    show ?thesis
    proof (cases "jdWalPathList jd1 = []")
      case True
      then show ?thesis using jd' by (simp add: archiveRank_def less_prod_def)
    next
      case False
      then show ?thesis using jd' r rank same by (cases "started a jd") (auto simp: archiveRank_def less_prod_def [where ?'a = nat and ?'b = "nat \<times> nat \<times> nat \<times> nat"] less_prod_def [where ?'a = nat and ?'b = "nat \<times> nat \<times> nat"])
    qed
  qed
qed

section \<open>Backups\<close>

definition verifyTotal :: "VerifyJobData \<Rightarrow> nat" where
  "verifyTotal jd = sum_list (map brTotalFileVerify (jdBackupResultList jd))"

lemma verifyTotal_upd [simp]:
  "verifyTotal (jd\<lparr>jdManifestFileIdx := n\<rparr>) = verifyTotal jd" "verifyTotal (jd\<lparr>jdManifest := m\<rparr>) = verifyTotal jd"
  "verifyTotal (jd\<lparr>jdBackupList := ls\<rparr>) = verifyTotal jd" "verifyTotal (jd\<lparr>jdJobErrorTotal := e\<rparr>) = verifyTotal jd"
  "verifyTotal (jd\<lparr>jdBackupProcessing := b\<rparr>) = verifyTotal jd" "verifyTotal (jd\<lparr>jdBackupResultList := bs\<rparr>) = sum_list (map brTotalFileVerify bs)"
  by (simp_all add: verifyTotal_def)

lemma verifyBackup_file_total:
  assumes "verifyBackup_file m f jd = Inr (job, jd')" "jdBackupResultList jd \<noteq> []"
  shows "verifyTotal (fileDone jd') = Suc (verifyTotal jd) \<and> jdBackupResultList (fileDone jd') \<noteq> []"
proof -
  obtain bs b where b: "jdBackupResultList jd = bs @ [b]" using assms(2) by (metis rev_exhaust)
  have "verifyTotal jd' = Suc (verifyTotal jd) \<and> jdBackupResultList jd' \<noteq> []"
    using assms(1) b by (auto simp: verifyBackup_file_def verifyTotal_def Let_def bindR_Inr_iff split: FileState.splits)
  moreover have "verifyTotal (fileDone jd') = verifyTotal jd'" by (simp add: verifyTotal_def fileDone_simps)
  ultimately show ?thesis by (simp add: fileDone_simps)
qed

lemma verifyBackup_files_total:
  assumes "verifyBackup_files m files jd = Inr (job, jd')" "jdBackupResultList jd \<noteq> []"
  shows "verifyTotal jd \<le> verifyTotal jd' \<and> (job \<noteq> None \<longrightarrow> verifyTotal jd < verifyTotal jd') \<and> jdBackupResultList jd' \<noteq> []"
  using assms
proof (induction m files jd rule: verifyBackup_files.induct)
  case (2 m f files jd)
  obtain job1 jd1 where 1: "verifyBackup_file m f jd = Inr (job1, jd1)" using 2(2) by (auto simp: bindR_Inr_iff)
  note t = verifyBackup_file_total [OF 1 2(3)]
  show ?case using 2(1) [OF 1 refl] 2(2) 1 t by (cases job1) auto
qed simp

lemma backupInit_total: "backupInit env l jd = (u, jd') \<Longrightarrow> verifyTotal jd' = verifyTotal jd \<and> jdBackupResultList jd' \<noteq> []"
  using verifyManifestFile_facts(3) [of "envRepo env" l "jdCurrentBackup jd = Some l" "jdPgHistory jd" "jdJobErrorTotal jd"]
  by (fastforce simp: backupInit_def verifyTotal_def backupResultNew_def split: if_splits prod.splits option.splits)

lemma updateLast_total: "xs \<noteq> [] \<Longrightarrow> (\<And>b. brTotalFileVerify (g b) = brTotalFileVerify b) \<Longrightarrow>
    sum_list (map brTotalFileVerify (updateLast g xs)) = sum_list (map brTotalFileVerify xs)"
  by (cases xs rule: rev_cases) simp_all

lemma verifyBackup_loop_total:
  "verifyBackup_loop env ls jd = Inr (job, jd') \<Longrightarrow> verifyTotal jd \<le> verifyTotal jd' \<and> (job \<noteq> None \<longrightarrow> verifyTotal jd < verifyTotal jd')"
proof (induction env ls jd rule: verifyBackup_loop.induct)
  case (2 env l ls jd)
  obtain u jd1 where u: "backupInit env l jd = (u, jd1)" by (metis surj_pair)
  note init = backupInit_total [OF u]
  show ?case
  proof (cases "u \<and> (\<exists>m. jdManifest jd1 = Some m \<and> jdManifestFileIdx jd1 < length (manFileList m))")
    case True
    then obtain m where m: "u" "jdManifest jd1 = Some m" "jdManifestFileIdx jd1 < length (manFileList m)" by auto
    then obtain job2 jd2 where f: "verifyBackup_files m (drop (jdManifestFileIdx jd1) (manFileList m)) jd1 = Inr (job2, jd2)"
      "(case job2 of None \<Rightarrow> verifyBackup_loop env ls jd2 | Some job \<Rightarrow> Inr (Some job, jd2)) = Inr (job, jd')"
      using 2(4) u by (auto simp: bindR_Inr_iff)
    note t = verifyBackup_files_total [OF f(1)]
    then show ?thesis using f m 2(2) [OF u [symmetric] refl] init by (cases job2) fastforce+
  next
    case False
    let ?jd = "if u then jd1\<lparr>jdJobErrorTotal := jdJobErrorTotal jd1 + 1, jdManifest := None,
      jdBackupResultList := updateLast (\<lambda>b. b\<lparr>brStatus := backupInvalid\<rparr>) (jdBackupResultList jd1), jdBackupList := ls\<rparr>
      else jd1\<lparr>jdBackupList := ls\<rparr>"
    have "verifyTotal ?jd = verifyTotal jd" using init updateLast_total [of "jdBackupResultList jd1"] by (auto simp: verifyTotal_def)
    moreover have "verifyBackup_loop env ls ?jd = Inr (job, jd')" using 2(4) False u by (auto split: option.splits)
    ultimately show ?thesis using 2(1) [OF u [symmetric] refl] 2(3) [OF u [symmetric] refl] 2(4) u False by (cases u) (auto split: option.splits)
  qed
qed simp

definition verifyBound :: "VerifyEnv \<Rightarrow> VerifyJobData \<Rightarrow> nat" where
  "verifyBound env jd0 = sum_list (map (\<lambda>l. case usable env jd0 l of None \<Rightarrow> 0 | Some m \<Rightarrow> length (manFileList m)) (jdBackupList jd0))"

lemma verifyTotal_bound:
  assumes "verifyInv env jd0 jd R"
  shows "verifyTotal jd \<le> verifyBound env jd0"
proof -
  let ?n = "\<lambda>l. case usable env jd0 l of None \<Rightarrow> 0 | Some m \<Rightarrow> length (manFileList m)"
  have state: "backupState env (jdBackupList jd0) jd R" and us: "\<And>l. usable env jd l = usable env jd0 l" using assms by (auto simp: verifyInv_def)
  have le: "brTotalFileVerify b \<le> ?n (brLabel b)" if "b \<in> set (jdBackupResultList jd)" for b
  proof -
    have none: "usable env jd (brLabel b) = None \<Longrightarrow> brTotalFileVerify b = 0"
      using state that by (auto simp: backupState_def resultsOk_def resultOk_def)
    have "usable env jd (brLabel b) = Some m \<Longrightarrow> brTotalFileVerify b \<le> length (manFileList m)" for m
      using state that by (auto simp: backupState_def backupIdle_def backupWorking_def resultFinished_def)
    then show ?thesis using none us by (auto split: option.splits)
  qed
  have "\<exists>rest. map brLabel (jdBackupResultList jd) @ rest = jdBackupList jd0"
    using state by (auto simp: backupState_def backupIdle_def backupWorking_def)
  then obtain rest where L: "jdBackupList jd0 = map brLabel (jdBackupResultList jd) @ rest" by metis
  have "verifyTotal jd \<le> sum_list (map (\<lambda>b. ?n (brLabel b)) (jdBackupResultList jd))"
    unfolding verifyTotal_def by (rule sum_list_mono) (rule le)
  then show ?thesis by (simp add: verifyBound_def L o_def)
qed

section \<open>The command\<close>

definition verifyRank :: "VerifyEnv \<Rightarrow> VerifyJobData \<Rightarrow> VerifyJobData \<Rightarrow> (nat \<times> nat \<times> nat \<times> nat \<times> nat) \<times> nat" where
  "verifyRank env jd0 jd = (archiveRank (jdArchiveIdList jd) jd, verifyBound env jd0 - verifyTotal jd)"

lemma archiveRank_cong:
  "jdArchiveIdResultList jd' = jdArchiveIdResultList jd \<Longrightarrow> jdWalPathList jd' = jdWalPathList jd \<Longrightarrow> jdWalFileList jd' = jdWalFileList jd \<Longrightarrow>
    archiveRank ids jd' = archiveRank ids jd"
  by (simp add: archiveRank_def pathRank_def started_def)

lemma verifyRank_callback:
  assumes inv: "verifyInv env jd0 jd R" and step: "verifyJobCallback env jd = Inr (job, jd')" and env: "walInfoOk env"
  shows "if job = None then verifyRank env jd0 jd' \<le> verifyRank env jd0 jd else verifyRank env jd0 jd' < verifyRank env jd0 jd"
proof -
  have bound: "verifyTotal jd' \<le> verifyBound env jd0"
    using verifyTotal_bound verifyInv_callback [OF inv step env] by blast
  obtain job1 jd1 where 1: "verifyInv env jd0 jd1 (withJob R job1)" "verifyTotal jd1 = verifyTotal jd"
    "if job1 = None then archiveRank (jdArchiveIdList jd1) jd1 \<le> archiveRank (jdArchiveIdList jd) jd
     else archiveRank (jdArchiveIdList jd1) jd1 < archiveRank (jdArchiveIdList jd) jd"
    "(if jdBackupProcessing jd1 \<and> job1 = None then verifyBackup env jd1 else Inr (job1, jd1)) = Inr (job, jd')"
  proof (cases "jdBackupProcessing jd")
    case True
    then show thesis using that [of jd None] inv step by (auto simp: verifyJobCallback_def)
  next
    case False
    then obtain job1 jd1 where a: "verifyArchive env jd = Inr (job1, jd1)"
      "(if jdBackupProcessing (jd1\<lparr>jdBackupProcessing := (jdArchiveIdList jd1 = [])\<rparr>) \<and> job1 = None
        then verifyBackup env (jd1\<lparr>jdBackupProcessing := (jdArchiveIdList jd1 = [])\<rparr>) else Inr (job1, jd1\<lparr>jdBackupProcessing := (jdArchiveIdList jd1 = [])\<rparr>)) = Inr (job, jd')"
      using step by (auto simp: verifyJobCallback_def bindR_Inr_iff)
    let ?jd1 = "jd1\<lparr>jdBackupProcessing := (jdArchiveIdList jd1 = [])\<rparr>"
    have "backupPart jd1 = backupPart jd"
      using verifyArchive_loop_frame [OF a(1) [unfolded verifyArchive_def] env] inv by (auto simp: verifyInv_def labelsOk_def archiveFrame_def)
    then have tot: "verifyTotal ?jd1 = verifyTotal jd" by (simp add: backupPart_def verifyTotal_def)
    have r: "archiveRank ids ?jd1 = archiveRank ids jd1" for ids by (rule archiveRank_cong) simp_all
    have "if job1 = None then archiveRank (jdArchiveIdList ?jd1) ?jd1 \<le> archiveRank (jdArchiveIdList jd) jd
      else archiveRank (jdArchiveIdList ?jd1) ?jd1 < archiveRank (jdArchiveIdList jd) jd"
      using verifyArchive_loop_rank [OF a(1) [unfolded verifyArchive_def]] r
      by (cases job1) (auto simp: archiveRank_def less_eq_prod_def)
    then show thesis using that [of ?jd1 job1] verifyInv_archive(1) [OF inv a(1) env refl] tot a(2) by blast
  qed
  show ?thesis
  proof (cases "jdBackupProcessing jd1 \<and> job1 = None")
    case True
    then have b: "verifyBackup env jd1 = Inr (job, jd')" using 1(4) by simp
    have t: "verifyTotal jd1 \<le> verifyTotal jd'" "job \<noteq> None \<longrightarrow> verifyTotal jd1 < verifyTotal jd'"
      using verifyBackup_loop_total [OF b [unfolded verifyBackup_def]] by auto
    have "backupNext env (jdBackupList jd0) jd1 (withJob R job1) job jd'"
      using verifyBackup_loop_step [OF _ refl b [unfolded verifyBackup_def]] 1(1) by (simp add: verifyInv_def)
    then have "archivePart jd' = archivePart jd1" by (simp add: backupNext_def)
    then have "archiveRank (jdArchiveIdList jd') jd' = archiveRank (jdArchiveIdList jd1) jd1"
      using archiveRank_cong [of jd' jd1] by (simp add: archivePart_def)
    then have "archiveRank (jdArchiveIdList jd') jd' \<le> archiveRank (jdArchiveIdList jd) jd" using 1(3) True by simp
    moreover have "verifyBound env jd0 - verifyTotal jd' \<le> verifyBound env jd0 - verifyTotal jd"
      "job \<noteq> None \<longrightarrow> verifyBound env jd0 - verifyTotal jd' < verifyBound env jd0 - verifyTotal jd" using t 1(2) bound by auto
    ultimately show ?thesis by (auto simp: verifyRank_def)
  next
    case False
    then have "job = job1" "jd' = jd1" using 1(4) by auto
    then show ?thesis using 1(2,3) by (auto simp: verifyRank_def)
  qed
qed

lemma verifyRank_handled:
  assumes "verifyJobResult jd j answer = Inr jd'"
  shows "verifyRank env jd0 jd' = verifyRank env jd0 jd"
  using assms
proof (cases rule: verifyJobResult_cases)
  case (archive i e result path fname)
  have "map arArchiveId (jdArchiveIdResultList jd') = map arArchiveId (jdArchiveIdResultList jd)"
    using archive(2,3) by (simp add: map_update list_update_same_conv)
  then have "started a jd' = started a jd" for a unfolding started_def by (metis last_map list.map_disc_iff)
  then show ?thesis using archive(3) by (simp add: verifyRank_def archiveRank_def pathRank_def verifyTotal_def)
next
  case (backup i e result path)
  have "map brTotalFileVerify (jdBackupResultList jd') = map brTotalFileVerify (jdBackupResultList jd)"
    using backup(2,4) by (simp add: map_update list_update_same_conv)
  then have "verifyTotal jd' = verifyTotal jd" by (simp add: verifyTotal_def)
  moreover have "archiveRank ids jd' = archiveRank ids jd" for ids by (rule archiveRank_cong) (simp_all add: backup(4))
  ultimately show ?thesis using backup(4) by (simp add: verifyRank_def)
qed

interpretation verify_progress: parallel_progress "verifyJobCallback (saneEnv env)" "verifyRespond (saneEnv env)" verifyJobResult
    "verifyInv (saneEnv env) jd0" verifyExhausted "verifyRank (saneEnv env) jd0" for env jd0
proof (unfold_locales, goal_cases)
  case (1 d R j d')
  then show ?case using verifyRank_callback [OF 1 saneEnv_ok] by simp
next
  case (2 d R d')
  then show ?case using verifyRank_callback [OF 2 saneEnv_ok] by simp
next
  case (3 d j r d')
  then show ?case by (rule verifyRank_handled)
qed

end
