(* ===== verification/VerifyTop.thy ===== *)
theory VerifyTop
  imports VerifyLive
begin

text \<open>
  The verify command as a whole: what a run that reports no error says of the files of the backups and of the archives, and what
  the counters of the report count.
\<close>

section \<open>The end of a run\<close>

lemma verifyProcess_lists_keeps:
  assumes "verifyProcess_lists cfg repo backupInfo (jobDataNew archivePg) = Inr jd"
  shows "distinct (jdBackupList jd)" "distinct (jdArchiveIdList jd)" "jdBackupResultList jd = []" "jdArchiveIdResultList jd = []"
    "jdWalFileList jd = []" "\<not> jdBackupProcessing jd" "jdJobErrorTotal jd = 0" "jdPgHistory jd = archivePg"
    "jdWalCipherPass jd = infoPgCipherPass archivePg"
proof -
  have dist: "distinct (foldl strLstAddIfMissing xs ys)" if "distinct xs" for xs ys
    using that by (induction ys arbitrary: xs) (simp_all add: strLstAddIfMissing_def)
  have stor: "distinct (storageList repo p rx)" for p rx by (simp add: storageList_def)
  show "distinct (jdBackupList jd)" "distinct (jdArchiveIdList jd)" "jdBackupResultList jd = []" "jdArchiveIdResultList jd = []"
    "jdWalFileList jd = []" "\<not> jdBackupProcessing jd" "jdJobErrorTotal jd = 0" "jdPgHistory jd = archivePg"
    "jdWalCipherPass jd = infoPgCipherPass archivePg"
    using assms dist stor
    by (auto simp: verifyProcess_lists_def jobDataNew_def verifyBackupSet_def strLstSort_def Let_def split: option.splits sum.splits if_splits)
qed

definition namesOk :: "VerifyJobData \<Rightarrow> bool" where
  "namesOk jd \<longleftrightarrow> (\<forall>l\<in>set (jdBackupList jd) \<union> set (jdArchiveIdList jd). CHR ''/'' \<notin> set l)"

lemma verifyProcess_start_keeps:
  "jdBackupList (verifyProcess_start b jd) = jdBackupList jd" "jdArchiveIdList (verifyProcess_start b jd) = jdArchiveIdList jd"
  "jdBackupResultList (verifyProcess_start b jd) = jdBackupResultList jd"
  "jdArchiveIdResultList (verifyProcess_start b jd) = jdArchiveIdResultList jd"
  "jdWalFileList (verifyProcess_start b jd) = jdWalFileList jd"
  "jdBackupProcessing (verifyProcess_start b jd) \<longleftrightarrow> jdBackupProcessing jd \<or> jdArchiveIdList jd = []"
  by (auto simp: verifyProcess_start_def Let_def split: prod.splits)

lemma verifyInv_start:
  assumes "verifyProcess_lists cfg (envRepo env) backupInfo (jobDataNew archivePg) = Inr jd" "namesOk jd"
  shows "verifyInv env (verifyProcess_start backupInfo jd) (verifyProcess_start backupInfo jd) {#}"
  using verifyProcess_lists_keeps [OF assms(1)] assms(2)
  by (auto simp: verifyInv_def verifyProcess_start_keeps backupState_def backupIdle_def labelsOk_def namesOk_def resultsOk_def jobsKnown_def
      manifestsOk_def archiveState_def sizeKnown_def)

abbreviation verifyRun where
  "verifyRun cfg env schedule jd \<equiv>
    parallelRun (verifyJobCallback env) (verifyRespond env) verifyJobResult schedule (protocolParallelNew (cfgProcessMax cfg)) jd"

lemma verifyRun_ends:
  assumes "verifyProcess_lists cfg (envRepo env) backupInfo (jobDataNew archivePg) = Inr jd" "namesOk jd"
    and "verifyRun cfg env schedule (verifyProcess_start backupInfo jd) = Inr (Some jd')" "0 < cfgProcessMax cfg" "walInfoOk env"
  shows "verifyInv env (verifyProcess_start backupInfo jd) jd' {#} \<and> verifyExhausted jd'"
  using verify.parallelRun_new_ends [of env schedule "cfgProcessMax cfg" "verifyProcess_start backupInfo jd"] verifyInv_start [OF assms(1,2)] assms(3-5)
  by (simp add: saneEnv_id)

lemma verifyRun_backups:
  assumes "verifyInv env jd0 jd {#}" "verifyExhausted jd"
  shows "map brLabel (jdBackupResultList jd) = jdBackupList jd0" "\<forall>b\<in>set (jdBackupResultList jd). resultOk env jd {#} b \<and> resultFinished env jd b"
    "jdJobErrorTotal jd = 0 \<longrightarrow> (\<forall>b\<in>set (jdBackupResultList jd). resultVerified env jd {#} b)"
  using assms by (auto simp: verifyInv_def verifyExhausted_def backupState_def backupIdle_def backupWorking_def resultsOk_def)


text \<open>A run that reports nothing: no error was counted.\<close>

lemma verifyProcess_silent:
  assumes "verifyProcess cfg env schedule = Inr (Some [])"
    and "verifyBackupInfoFile (envRepo env) = Some backupInfo" "verifyArchiveInfoFile (envRepo env) = Some archivePg"
    and "verifyProcess_lists cfg (envRepo env) backupInfo (jobDataNew archivePg) = Inr jd" "jdArchiveIdList jd \<noteq> [] \<or> jdBackupList jd \<noteq> []"
  shows "\<exists>jd'. verifyRun cfg env schedule (verifyProcess_start backupInfo jd) = Inr (Some jd') \<and> jdJobErrorTotal jd' = 0"
  using assms
  by (auto simp: verifyProcess_def verifyProcess_jobs_def Let_def bindR_Inr_iff split: sum.splits if_splits)

section \<open>Backups\<close>

lemma unusable_manifest:
  assumes "usable env jd l = None" "manifestErrors env jd l = 0"
  shows "manifestRead (envRepo env) (manifestFileName l) = Inl FileMissingError \<and>
    (jdCurrentBackup jd = Some l \<or> manifestRead (envRepo env) (copyFileName (manifestFileName l)) = Inl FileMissingError)"
  using assms
  by (auto simp: usable_def manifestErrors_def verifyManifestFile_def backupResultNew_def Let_def split: sum.splits if_splits option.splits)

text \<open>
  What the backup command promises of a file that is in a prior backup: the manifest of that backup has the file, with content
  of its own, at the same place and with the same checksum.
\<close>

definition referencesResolve :: "VerifyEnv \<Rightarrow> VerifyJobData \<Rightarrow> string \<Rightarrow> Manifest \<Rightarrow> bool" where
  "referencesResolve env jd l m \<longleftrightarrow>
    (\<forall>f\<in>set (manFileList m). \<forall>ref m'. reference f = Some ref \<longrightarrow> usable env jd ref = Some m' \<longrightarrow>
      (\<exists>f'\<in>set (manFileList m'). reference f' = None \<and> paramOf m' ref f' = paramOf m l f \<and> (fileSize f' \<noteq> 0 \<or> \<not> manBundle (manData m'))))"

lemma verifyRespond_job:
  assumes "newJob l p = Inr j" "paramOk p"
  shows "verifyRespond env j = bindR (verifyFileOf env p) (\<lambda>result. Inr (verifyResultNum result))"
  using verifyFileProtocol_param [OF assms(2), of env] assms(1) by (auto simp: newJob_def verifyRespond_def bindR_Inr_iff)

lemma verifyResultNum_iff: "verifyResultNum r = 0 \<longleftrightarrow> r = verifyOk" "verifyResultNum r = 1 \<longleftrightarrow> r = verifyFileMissing"
  by (cases r; simp add: verifyResultNum_def)+

lemma verifyRespond_ok:
  assumes "newJob l p = Inr j" "paramOk p"
  shows "verifyRespond env j = Inr 0 \<Longrightarrow> verifyFileOf env p = Inr verifyOk"
    "verifyRespond env j = Inr 1 \<Longrightarrow> verifyFileOf env p = Inr verifyFileMissing"
  using verifyRespond_job [OF assms, of env] by (auto simp: bindR_Inr_iff verifyResultNum_iff)

lemma accounted_verified:
  assumes results: "\<forall>b\<in>set (jdBackupResultList jd). resultOk env jd {#} b \<and> resultVerified env jd {#} b"
    and acc: "fileAccounted env jd {#} l m f" "f \<in> set (manFileList m)" and refs: "referencesResolve env jd l m" and ok: "paramOk (paramOf m l f)"
  shows "fileSize f = 0 \<and> manBundle (manData m) \<or> verifyFileOf env (paramOf m l f) = Inr verifyOk"
proof -
  consider "fileSize f = 0 \<and> manBundle (manData m)"
    | (prior) r where "r \<in> set (jdBackupResultList jd)" "reference f = Some (brLabel r)" "brFileVerifyComplete r"
    | j where "newJob l (paramOf m l f) = Inr j" "verifyRespond env j = Inr 0"
    using acc(1) by (auto simp: fileAccounted_def)
  then show ?thesis
  proof cases
    case prior
    then obtain m' where m': "usable env jd (brLabel r) = Some m'" "brTotalFileVerify r = length (manFileList m')"
      using results by (auto simp: resultOk_def split: option.splits)
    then obtain f' where f': "f' \<in> set (manFileList m')" "reference f' = None" "paramOf m' (brLabel r) f' = paramOf m l f"
      "fileSize f' \<noteq> 0 \<or> \<not> manBundle (manData m')"
      using refs acc(2) prior(2) by (fastforce simp: referencesResolve_def)
    have "fileAccounted env jd {#} (brLabel r) m' f'" using results prior(1) m' f'(1) by (auto simp: resultVerified_def)
    then obtain j where "newJob (brLabel r) (paramOf m' (brLabel r) f') = Inr j" "verifyRespond env j = Inr 0"
      using f'(2,4) by (auto simp: fileAccounted_def)
    then show ?thesis using verifyRespond_ok(1) ok f'(3) by metis
  qed (use verifyRespond_ok(1) ok in blast)+
qed

text \<open>
  C15: A silent verify run (nothing reported, so no error counted) is sound for backups, whatever order the worker processes answered
  in: a backup whose manifest cannot be used is one whose manifest and copy are missing, or that is in progress; of every other
  backup, each file, unless it is an empty file of a bundled backup that is not stored, is in the repository with the size and the
  checksum of the manifest, read through the prior backup when the manifest refers to one.  References have to resolve as the backup
  command writes them.
\<close>

theorem verify_silent_backups:
  assumes silent: "verifyProcess cfg env schedule = Inr (Some [])"
    and info: "verifyBackupInfoFile (envRepo env) = Some backupInfo" "verifyArchiveInfoFile (envRepo env) = Some archivePg"
    and lists: "verifyProcess_lists cfg (envRepo env) backupInfo (jobDataNew archivePg) = Inr jd" "namesOk jd"
    and env: "0 < cfgProcessMax cfg" "walInfoOk env" and l: "l \<in> set (jdBackupList jd)"
  shows "case usable env (verifyProcess_start backupInfo jd) l of
      None \<Rightarrow> manifestRead (envRepo env) (manifestFileName l) = Inl FileMissingError \<and>
        (jdCurrentBackup (verifyProcess_start backupInfo jd) = Some l \<or>
         manifestRead (envRepo env) (copyFileName (manifestFileName l)) = Inl FileMissingError)
    | Some m \<Rightarrow> referencesResolve env (verifyProcess_start backupInfo jd) l m \<longrightarrow>
        (\<forall>f\<in>set (manFileList m). paramOk (paramOf m l f) \<longrightarrow>
          fileSize f = 0 \<and> manBundle (manData m) \<or> verifyFileOf env (paramOf m l f) = Inr verifyOk)"
proof -
  let ?jd0 = "verifyProcess_start backupInfo jd"
  have "jdBackupList jd \<noteq> []" using l by auto
  then obtain jd' where run: "verifyRun cfg env schedule ?jd0 = Inr (Some jd')" "jdJobErrorTotal jd' = 0"
    using verifyProcess_silent [OF silent info lists(1)] by auto
  note ends = verifyRun_ends [OF lists run(1) env]
  have inv: "verifyInv env ?jd0 jd' {#}" and fin: "verifyExhausted jd'" using ends by auto
  note b = verifyRun_backups [OF inv fin]
  have same: "usable env jd' k = usable env ?jd0 k" "conf jd' = conf ?jd0" for k using inv by (auto simp: verifyInv_def)
  obtain r where r: "r \<in> set (jdBackupResultList jd')" "brLabel r = l"
    using b(1) l by (metis (no_types, lifting) imageE list.set_map verifyProcess_start_keeps(1))
  show ?thesis
  proof (cases "usable env ?jd0 l")
    case None
    have "manifestErrors env jd' l = 0" using inv run(2) r by (auto simp: verifyInv_def manifestsOk_def)
    then show ?thesis using unusable_manifest [of env jd' l] None same by (simp add: conf_def)
  next
    case (Some m)
    have refs: "referencesResolve env ?jd0 l m \<Longrightarrow> referencesResolve env jd' l m" by (simp add: referencesResolve_def same)
    have "\<forall>f\<in>set (manFileList m). fileAccounted env jd' {#} l m f"
      using b(2,3) run(2) r Some same(1) by (auto simp: resultVerified_def resultFinished_def)
    then show ?thesis using accounted_verified [of jd' env l m] b(2,3) run(2) refs Some by auto
  qed
qed

section \<open>Archives\<close>


section \<open>The counters\<close>

text \<open>
  C17: When the jobs of a verify run are done, in whatever order they were answered, the report accounts for every file: there is one
  result per backup, in the order of the list; for a backup with a usable manifest the files checked are the files of the manifest,
  each of them counted valid or listed invalid exactly once, and the backup is valid exactly when none is invalid; of a backup without
  a usable manifest no file is checked.
\<close>

theorem verify_counts:
  assumes "verifyProcess_lists cfg (envRepo env) backupInfo (jobDataNew archivePg) = Inr jd" "namesOk jd" "0 < cfgProcessMax cfg" "walInfoOk env"
    and "verifyRun cfg env schedule (verifyProcess_start backupInfo jd) = Inr (Some jd')"
  shows "map brLabel (jdBackupResultList jd') = jdBackupList jd \<and>
    (\<forall>b\<in>set (jdBackupResultList jd').
      brTotalFileVerify b = brTotalFileValid b + length (brInvalidFileList b) \<and>
      (case usable env (verifyProcess_start backupInfo jd) (brLabel b) of
         None \<Rightarrow> brTotalFileVerify b = 0
       | Some m \<Rightarrow> brTotalFileVerify b = length (manFileList m) \<and>
           (manFileList m \<noteq> [] \<longrightarrow> brStatus b = (if brInvalidFileList b = [] then backupValid else backupInvalid))))"
proof -
  note ends = verifyRun_ends [OF assms(1,2,5,3,4)]
  then have inv: "verifyInv env (verifyProcess_start backupInfo jd) jd' {#}" and fin: "verifyExhausted jd'" by auto
  have same: "usable env jd' k = usable env (verifyProcess_start backupInfo jd) k" for k using inv by (auto simp: verifyInv_def)
  show ?thesis
    using verifyRun_backups [OF inv fin] by (auto simp: resultOk_def resultFinished_def same verifyProcess_start_keeps split: option.splits)
qed

section \<open>The command returns\<close>

text \<open>
  C18: The verify command returns: when every worker process answers at some time, whatever the order, the run ends after finitely many
  rounds, with a report or with an error.  There is no deadlock, no job is given out for ever, and no result is waited for that
  does not come.
\<close>

theorem verify_returns:
  assumes "fair (cfgProcessMax cfg) f" "walInfoOk env"
    and names: "\<And>backupInfo archivePg jd. verifyBackupInfoFile (envRepo env) = Some backupInfo \<Longrightarrow> verifyArchiveInfoFile (envRepo env) = Some archivePg \<Longrightarrow>
      verifyProcess_lists cfg (envRepo env) backupInfo (jobDataNew archivePg) = Inr jd \<Longrightarrow> namesOk jd"
  shows "\<exists>k. verifyProcess cfg env (map f [0..<k]) \<noteq> Inr None"
proof (cases "\<exists>backupInfo archivePg jd. verifyBackupInfoFile (envRepo env) = Some backupInfo \<and> verifyArchiveInfoFile (envRepo env) = Some archivePg \<and>
    verifyProcess_lists cfg (envRepo env) backupInfo (jobDataNew archivePg) = Inr jd")
  case True
  then obtain backupInfo archivePg jd where *: "verifyBackupInfoFile (envRepo env) = Some backupInfo" "verifyArchiveInfoFile (envRepo env) = Some archivePg"
    "verifyProcess_lists cfg (envRepo env) backupInfo (jobDataNew archivePg) = Inr jd" by blast
  note inv = verifyInv_start [OF *(3) names [OF *]]
  obtain k where "verifyRun cfg env (map f [0..<k]) (verifyProcess_start backupInfo jd) \<noteq> Inr None"
    using verify_progress.parallelRun_returns [OF assms(1), of env "verifyProcess_start backupInfo jd" "verifyProcess_start backupInfo jd"] inv assms(2)
    by (auto simp: saneEnv_id)
  then have "verifyProcess cfg env (map f [0..<k]) \<noteq> Inr None"
    using * by (auto simp: verifyProcess_def verifyProcess_jobs_def Let_def bindR_Inr_iff split: sum.splits if_splits)
  then show ?thesis ..
next
  case False
  then have "verifyProcess cfg env (map f [0..<0]) \<noteq> Inr None"
    by (auto simp: verifyProcess_def verifyProcess_jobs_def Let_def bindR_Inr_iff split: sum.splits if_splits option.splits)
  then show ?thesis ..
qed

section \<open>A sample repository\<close>

definition samplePg :: InfoPg where
  "samplePg = \<lparr>history = [\<lparr>pgid = 1, systemId = 7, catalogVersion = 0, version = 150000, controlVersion = 0\<rparr>],
    pgType = infoPgBackup, historyCurrent = 0, infoPgCipherPass = None\<rparr>"

definition sampleInfo :: InfoBackup where
  "sampleInfo = \<lparr>infoBackupPg = samplePg, backup = [], updated = False\<rparr>"

definition sampleFile :: "string \<Rightarrow> string option \<Rightarrow> ManifestFile" where
  "sampleFile name ref = \<lparr>manFileName = name, fileChecksumSha1 = [1], fileChecksumRepoSha1 = None, fileBundleId = 0, fileBundleOffset = 0,
    fileSize = 1, sizeRepo = 1, blockIncrMapSize = 0, reference = ref, checksumPageError = False\<rparr>"

definition sampleData :: "string \<Rightarrow> string option \<Rightarrow> ManifestData" where
  "sampleData label prior = \<lparr>manBackrestVersion = ''2'', manBackupLabel = label, manBackupLabelPrior = prior, manTimestampStart = 1,
    manTimestampStop = 2, manBackupType = backupTypeFull, manBundle = False, manBlockIncr = False, manArchiveStart = None, manArchiveStop = None,
    manLsnStart = None, manLsnStop = None, manPgId = 1, manPgVersion = 150000, manPgSystemId = 7, manAnnotation = None,
    manOptionArchiveCheck = True, manOptionArchiveCopy = False, manOptionStandby = None, manOptionChecksumPage = None,
    manOptionCompressType = compressTypeNone, manOptionHardLink = False, manOptionOnline = True\<rparr>"

definition sampleManifest :: "string \<Rightarrow> string option \<Rightarrow> ManifestFile list \<Rightarrow> Manifest" where
  "sampleManifest label prior files =
    \<lparr>manData = sampleData label prior, manFileList = files, manReferenceList = [], manCipherSubPass = None\<rparr>"

definition sampleFull :: string where
  "sampleFull = ''20240101-000000F''"

definition sampleDiff :: string where
  "sampleDiff = ''20240101-000000F_20240102-000000D''"

text \<open>The info files, the manifests of some backups, the files of the full backup, and a WAL file.\<close>

definition sampleRepo :: "(string \<times> Manifest) list \<Rightarrow> (path \<times> string) list \<Rightarrow> repo" where
  "sampleRepo manifests files =
    [(INFO_BACKUP_PATH_FILE, FBackupInfo sampleInfo), (INFO_ARCHIVE_PATH_FILE, FArchiveInfo samplePg)] @
    map (\<lambda>(l, m). (manifestFileName l, FManifest m)) manifests @ map (\<lambda>(p, c). (p, FData c)) files"

definition sampleEnv :: "repo \<Rightarrow> VerifyEnv" where
  "sampleEnv repo = \<lparr>envRepo = repo, envBytes = (\<lambda>_. []), envDecrypt = (\<lambda>_ b. Inr b), envDecompress = (\<lambda>_ b. Inr b),
    envSha1 = (\<lambda>b. b), envWalInfo = (\<lambda>_ _. Inr (20, 150000))\<rparr>"

definition sampleCfg :: VerifyCfg where
  "sampleCfg = \<lparr>cfgStanza = ''main'', cfgVerbose = False, cfgSet = None, cfgProcessMax = 1\<rparr>"

lemma sample_simps [simp]:
  "envRepo (sampleEnv repo) = repo" "manData (sampleManifest l p fs) = sampleData l p" "manFileList (sampleManifest l p fs) = fs"
  "manCipherSubPass (sampleManifest l p fs) = None"
  "manBundle (sampleData l p) = False" "manPgId (sampleData l p) = 1" "manPgVersion (sampleData l p) = 150000"
  "manBackupLabelPrior (sampleData l p) = p" "manArchiveStart (sampleData l p) = None" "manArchiveStop (sampleData l p) = None"
  "manOptionCompressType (sampleData l p) = compressTypeNone" "reference (sampleFile n ref) = ref" "fileSize (sampleFile n ref) = 1"
  "historyHas samplePg (sampleData l p)" "manFileName (sampleFile n ref) = n"
  by (simp_all add: sampleEnv_def sampleManifest_def sampleData_def sampleFile_def samplePg_def historyHas_def)

text \<open>A job with its answer, for a message that is short enough.\<close>

lemma newJob_ex:
  assumes "paramOk p" "verifyFileOf env p = Inr result"
  obtains j where "newJob l p = Inr j" "jobKey j = l @ ''/'' @ paramFilePathName p" "verifyRespond env j = Inr (verifyResultNum result)"
proof -
  obtain bytes where "verifyFileParam p = Inr bytes" using verifyFileProtocol_param [OF assms(1)] by blast
  then have "newJob l p = Inr \<lparr>jobKey = l @ ''/'' @ paramFilePathName p, jobParam = bytes\<rparr>" by (simp add: newJob_def)
  then show thesis using that verifyRespond_job [OF _ assms(1), of l _ env] assms(2) by fastforce
qed

lemma sample_job:
  assumes "verifyFileOf env (backupFileParam (sampleData l p) None sampleFull (sampleFile n ref)) = Inr result" "length n < 10" "CHR ''/'' \<notin> set n"
  obtains j where "newJob sampleFull (backupFileParam (sampleData l p) None sampleFull (sampleFile n ref)) = Inr j"
    "split_char CHR ''/'' (jobKey j) = [sampleFull, STORAGE_REPO_BACKUP, sampleFull, n]" "verifyRespond env j = Inr (verifyResultNum result)"
proof -
  let ?p = "backupFileParam (sampleData l p) None sampleFull (sampleFile n ref)"
  have "paramOk ?p" using assms(2) by (simp add: paramOk_def backupFileParam_def sampleFile_def backupFileRepoPath_def sampleFull_def Let_def)
  then obtain j where j: "newJob sampleFull ?p = Inr j" "jobKey j = sampleFull @ ''/'' @ paramFilePathName ?p" "verifyRespond env j = Inr (verifyResultNum result)"
    using newJob_ex assms(1) by blast
  have "split_char CHR ''/'' (jobKey j) = [sampleFull, STORAGE_REPO_BACKUP, sampleFull, n]"
    using assms(3) unfolding j(2)
    by (simp add: backupFileParam_def sampleFile_def backupFileRepoPath_def sampleFull_def STORAGE_REPO_BACKUP_def Let_def split_char_no_delim)
  then show thesis using that j by blast
qed

lemmas callback_defs = verifyJobCallback_def verifyBackup_def backupInit_def verifyManifestFile_def jobDataNew_def
  backupResultNew_def Let_def verifyBackup_file_def updateLast_def backupFileState_def fileDone_def fileSource_def

lemmas result_defs = jobDataNew_def backupResultNew_def backupResultUpdate_def archiveResultUpdate_def jobOutcome_def verifyResultOf_def
  lstFindIdx_def extract_Cons_code extract_Nil_code Let_def

section \<open>A run without errors\<close>

definition sampleWal :: string where
  "sampleWal = ''000000010000000100000001-6161616161616161616161616161616161616161''"

abbreviation sampleFullManifest :: Manifest where
  "sampleFullManifest \<equiv> sampleManifest sampleFull None [sampleFile ''a'' None]"

definition sampleOk :: VerifyEnv where
  "sampleOk = sampleEnv (sampleRepo [(sampleFull, sampleFullManifest)]
    [([''backup'', sampleFull, ''a''], [CHR 0x01]), ([''archive'', ''15-1'', ''0000000100000001'', sampleWal], replicate 20 CHR 0x61)])"

definition sampleJobs :: VerifyJobData where
  "sampleJobs = (jobDataNew samplePg)\<lparr>jdBackupList := [sampleFull], jdArchiveIdList := [''15-1'']\<rparr>"

definition sampleArchive :: VerifyArchiveResult where
  "sampleArchive = \<lparr>arArchiveId = ''15-1'', arTotalWalFile = 1, arTotalValidWal = 0, arWalSize = 20, arWalVersion = 150000,
    arWalRangeList = [\<lparr>rangeStop = ''000000010000000100000001'', rangeStart = ''000000010000000100000001'', rangeInvalid = []\<rparr>]\<rparr>"

definition sampleWalParam :: VerifyParam where
  "sampleWalParam = \<lparr>paramFilePathName = STORAGE_REPO_ARCHIVE @ ''/15-1/0000000100000001/'' @ sampleWal, paramBundle = None,
    paramCompressType = compressTypeNone, paramChecksum = replicate 20 0x61, paramSize = 20, paramCipherPass = None\<rparr>"

lemma sampleOk_info: "verifyBackupInfoFile (envRepo sampleOk) = Some sampleInfo" "verifyArchiveInfoFile (envRepo sampleOk) = Some samplePg"
  by code_simp+

lemma sampleOk_manifest: "manifestRead (envRepo sampleOk) (manifestFileName sampleFull) = Inr sampleFullManifest"
  by code_simp

lemma sampleOk_lists: "verifyProcess_lists sampleCfg (envRepo sampleOk) sampleInfo (jobDataNew samplePg) = Inr sampleJobs"
  by code_simp

lemma sampleOk_files:
  "verifyFileOf sampleOk (backupFileParam (sampleData sampleFull None) None sampleFull (sampleFile ''a'' None)) = Inr verifyOk"
  "verifyFileOf sampleOk sampleWalParam = Inr verifyOk"
  by code_simp+

lemma sampleOk_start: "verifyProcess_start sampleInfo sampleJobs = sampleJobs\<lparr>jdCurrentBackup := Some sampleFull\<rparr>"
  by code_simp

definition sampleJobs0 :: VerifyJobData where
  "sampleJobs0 = sampleJobs\<lparr>jdCurrentBackup := Some sampleFull\<rparr>"

definition sampleJobs1 :: VerifyJobData where
  "sampleJobs1 = sampleJobs0\<lparr>jdArchiveIdResultList := [sampleArchive\<lparr>arTotalWalFile := 0, arWalSize := 0, arWalVersion := 0, arWalRangeList := []\<rparr>],
    jdWalPathList := [''0000000100000001'']\<rparr>"

definition sampleJobs2 :: VerifyJobData where
  "sampleJobs2 = sampleJobs1\<lparr>jdArchiveIdResultList := [sampleArchive], jdWalFileList := [sampleWal]\<rparr>"

definition sampleJobs3 :: VerifyJobData where
  "sampleJobs3 = sampleJobs2\<lparr>jdWalFileList := [], jdWalPathList := [], jdArchiveIdList := [], jdBackupProcessing := True\<rparr>"

definition sampleJobs4 :: VerifyJobData where
  "sampleJobs4 = sampleJobs3\<lparr>jdBackupList := [], jdManifestFileIdx := 1,
    jdBackupResultList := [(backupResultNew sampleFull)\<lparr>brTotalFileManifest := 1, brTotalFileVerify := 1, brPgId := 1, brPgVersion := 150000\<rparr>]\<rparr>"

lemmas sampleJobs_defs = sampleJobs4_def sampleJobs3_def sampleJobs2_def sampleJobs1_def sampleJobs0_def sampleJobs_def

lemma sampleOk_archive:
  "archiveIdInit sampleOk ''15-1'' sampleJobs0 = sampleJobs1" "walFilesInit sampleOk ''0000000100000001'' sampleJobs1 = Inr sampleJobs2"
  "walFileParam sampleArchive None ''0000000100000001'' sampleWal = Inr sampleWalParam"
  by code_simp+

lemma sampleWal_job:
  obtains j where "newJob ''15-1'' sampleWalParam = Inr j" "verifyRespond sampleOk j = Inr 0"
    "split_char CHR ''/'' (jobKey j) = [''15-1'', STORAGE_REPO_ARCHIVE, ''15-1'', ''0000000100000001'', sampleWal]"
proof -
  have "paramOk sampleWalParam" by (simp add: paramOk_def sampleWalParam_def STORAGE_REPO_ARCHIVE_def sampleWal_def)
  then obtain j where j: "newJob ''15-1'' sampleWalParam = Inr j" "jobKey j = ''15-1'' @ ''/'' @ paramFilePathName sampleWalParam" "verifyRespond sampleOk j = Inr 0"
    using newJob_ex sampleOk_files(2) by (metis verifyResultNum_iff(1))
  have "split_char CHR ''/'' (jobKey j) = [''15-1'', STORAGE_REPO_ARCHIVE, ''15-1'', ''0000000100000001'', sampleWal]"
    unfolding j(2) by code_simp
  then show thesis using that j by blast
qed

lemma sampleOk_callback:
  assumes "newJob ''15-1'' sampleWalParam = Inr jw" "newJob sampleFull (backupFileParam (sampleData sampleFull None) None sampleFull (sampleFile ''a'' None)) = Inr ja"
  shows "verifyJobCallback sampleOk sampleJobs0 = Inr (Some jw, sampleJobs3)" "verifyJobCallback sampleOk sampleJobs3 = Inr (Some ja, sampleJobs4)"
proof -
  have "verifyArchive_paths sampleOk [''0000000100000001''] sampleJobs1 = Inr (Some jw, sampleJobs2\<lparr>jdWalFileList := [], jdWalPathList := []\<rparr>)"
    using assms(1) sampleOk_archive(2,3) by (simp add: sampleJobs_defs jobDataNew_def samplePg_def sampleArchive_def)
  moreover have "jdWalPathList sampleJobs1 = [''0000000100000001'']" "jdArchiveIdList sampleJobs0 = [''15-1'']" "\<not> jdBackupProcessing sampleJobs0"
    by (simp_all add: sampleJobs_defs jobDataNew_def)
  ultimately show "verifyJobCallback sampleOk sampleJobs0 = Inr (Some jw, sampleJobs3)"
    using sampleOk_archive(1) by (simp add: verifyJobCallback_def verifyArchive_def sampleJobs3_def Let_def)
  show "verifyJobCallback sampleOk sampleJobs3 = Inr (Some ja, sampleJobs4)"
    using assms(2) sampleOk_manifest by (simp add: callback_defs sampleJobs_defs)
qed

lemma sampleOk_run:
  "\<exists>jd. verifyRun sampleCfg sampleOk [{}, {1}, {1}] (verifyProcess_start sampleInfo sampleJobs) = Inr (Some jd) \<and> jdJobErrorTotal jd = 0"
proof -
  obtain jw where jw: "newJob ''15-1'' sampleWalParam = Inr jw" "verifyRespond sampleOk jw = Inr 0"
    "split_char CHR ''/'' (jobKey jw) = [''15-1'', STORAGE_REPO_ARCHIVE, ''15-1'', ''0000000100000001'', sampleWal]" by (rule sampleWal_job)
  obtain ja where ja: "newJob sampleFull (backupFileParam (sampleData sampleFull None) None sampleFull (sampleFile ''a'' None)) = Inr ja"
    "split_char CHR ''/'' (jobKey ja) = [sampleFull, STORAGE_REPO_BACKUP, sampleFull, ''a'']" "verifyRespond sampleOk ja = Inr 0"
    using sample_job [OF sampleOk_files(1)] by (auto simp: verifyResultNum_def)
  note cb = sampleOk_callback [OF jw(1) ja(1)]
  let ?jd = "sampleJobs4\<lparr>jdArchiveIdResultList := [sampleArchive\<lparr>arTotalValidWal := 1\<rparr>]\<rparr>"
  have 1: "verifyJobResult sampleJobs4 jw (verifyRespond sampleOk jw) = Inr ?jd"
    unfolding verifyJobResult_def jw(2,3) by (simp add: sampleJobs_defs result_defs sampleArchive_def)
  have 2: "verifyJobCallback sampleOk ?jd = Inr (None, ?jd)" by (simp add: sampleJobs_defs verifyJobCallback_def verifyBackup_def)
  have 3: "\<exists>jd. verifyJobResult ?jd ja (verifyRespond sampleOk ja) = Inr jd \<and> jdJobErrorTotal jd = 0"
    unfolding verifyJobResult_def ja(2,3) by (simp add: sampleJobs_defs result_defs)
  then obtain jd where jd: "verifyJobResult ?jd ja (verifyRespond sampleOk ja) = Inr jd" "jdJobErrorTotal jd = 0" by blast
  have "verifyRun sampleCfg sampleOk [{}, {1}, {1}] sampleJobs0 = Inr (Some jd)"
    by (simp only: sampleCfg_def VerifyCfg.select_convs parallelRun_one_start [where callback = "verifyJobCallback sampleOk", OF cb(1)]
        parallelRun_one_step [where callback = "verifyJobCallback sampleOk" and handle = verifyJobResult and respond = "verifyRespond sampleOk", OF cb(2) 1]
        parallelRun_one_end [where callback = "verifyJobCallback sampleOk" and handle = verifyJobResult and respond = "verifyRespond sampleOk", OF 2 jd(1)])
  then show ?thesis using jd(2) unfolding sampleOk_start sampleJobs0_def by blast
qed

lemma sampleOk_silent: "verifyProcess sampleCfg sampleOk [{}, {1}, {1}] = Inr (Some [])"
proof -
  have "verifyPgHistory samplePg (infoBackupPg sampleInfo) = Inr ()" by code_simp
  moreover have "jdArchiveIdList sampleJobs \<noteq> []" "\<not> cfgVerbose sampleCfg" by (simp_all add: sampleJobs_def sampleCfg_def)
  ultimately show ?thesis
    using sampleOk_run sampleOk_info sampleOk_lists by (auto simp: verifyProcess_def verifyProcess_jobs_def simp del: parallelRun.simps)
qed

lemma sampleOk_hyps:
  "namesOk sampleJobs" "0 < cfgProcessMax sampleCfg" "walInfoOk sampleOk" "sampleFull \<in> set (jdBackupList sampleJobs)" "''15-1'' \<in> set (jdArchiveIdList sampleJobs)"
  by (simp_all add: namesOk_def sampleJobs_def sampleFull_def sampleCfg_def walInfoOk_def sampleOk_def sampleEnv_def)

theorem verify_returns_witness: "\<exists>k. verifyProcess sampleCfg sampleOk (map (\<lambda>_. {1}) [0..<k]) \<noteq> Inr None"
proof (rule verify_returns)
  show "fair (cfgProcessMax sampleCfg) (\<lambda>_. {1})" by (auto simp: fair_def sampleCfg_def)
qed (use sampleOk_hyps sampleOk_info sampleOk_lists in auto)

theorem verify_silent_backups_witness:
  "\<exists>m. usable sampleOk (verifyProcess_start sampleInfo sampleJobs) sampleFull = Some m \<and> manFileList m \<noteq> [] \<and>
    (\<forall>f\<in>set (manFileList m). paramOk (paramOf m sampleFull f) \<longrightarrow>
      fileSize f = 0 \<and> manBundle (manData m) \<or> verifyFileOf sampleOk (paramOf m sampleFull f) = Inr verifyOk)"
proof -
  have m: "usable sampleOk (verifyProcess_start sampleInfo sampleJobs) sampleFull = Some sampleFullManifest"
    unfolding sampleOk_start using sampleOk_manifest
    by (simp add: usable_def verifyManifestFile_def backupResultNew_def sampleJobs_def jobDataNew_def Let_def)
  have "referencesResolve sampleOk (verifyProcess_start sampleInfo sampleJobs) sampleFull sampleFullManifest" by (simp add: referencesResolve_def)
  then show ?thesis
    using verify_silent_backups [OF sampleOk_silent sampleOk_info sampleOk_lists sampleOk_hyps(1-4)] m by auto
qed


theorem verify_counts_witness:
  "\<exists>jd b. verifyRun sampleCfg sampleOk [{}, {1}, {1}] (verifyProcess_start sampleInfo sampleJobs) = Inr (Some jd) \<and>
    map brLabel (jdBackupResultList jd) = [sampleFull] \<and> b \<in> set (jdBackupResultList jd) \<and> brTotalFileVerify b = brTotalFileValid b + length (brInvalidFileList b)"
proof -
  obtain jd where run: "verifyRun sampleCfg sampleOk [{}, {1}, {1}] (verifyProcess_start sampleInfo sampleJobs) = Inr (Some jd)" using sampleOk_run by blast
  note counts = verify_counts [OF sampleOk_lists sampleOk_hyps(1-3) run]
  have labels: "map brLabel (jdBackupResultList jd) = [sampleFull]" using counts by (simp add: sampleJobs_def)
  then obtain b where "b \<in> set (jdBackupResultList jd)" by (cases "jdBackupResultList jd") auto
  then show ?thesis using counts labels run by (intro exI [of _ jd] exI [of _ b]) blast
qed

section \<open>A backup that is reported valid although a file it depends on is not\<close>

abbreviation sampleFull2 :: Manifest where
  "sampleFull2 \<equiv> sampleManifest sampleFull None [sampleFile ''a'' None, sampleFile ''b'' None]"

abbreviation sampleDiff2 :: Manifest where
  "sampleDiff2 \<equiv> sampleManifest sampleDiff (Some sampleFull) [sampleFile ''b'' (Some sampleFull)]"

definition sampleBad :: VerifyEnv where
  "sampleBad = sampleEnv (sampleRepo [(sampleFull, sampleFull2), (sampleDiff, sampleDiff2)]
    [([''backup'', sampleFull, ''a''], [CHR 0x01]), ([''backup'', sampleFull, ''b''], [CHR 0x02])])"

definition sampleBadJobs :: VerifyJobData where
  "sampleBadJobs = (jobDataNew samplePg)\<lparr>jdBackupList := [sampleFull, sampleDiff]\<rparr>"

lemma sampleBad_files:
  "manifestRead (envRepo sampleBad) (manifestFileName sampleFull) = Inr sampleFull2"
  "manifestRead (envRepo sampleBad) (manifestFileName sampleDiff) = Inr sampleDiff2"
  "verifyFileOf sampleBad (backupFileParam (sampleData sampleFull None) None sampleFull (sampleFile ''a'' None)) = Inr verifyOk"
  "verifyFileOf sampleBad (backupFileParam (sampleData sampleFull None) None sampleFull (sampleFile ''b'' None)) = Inr verifyChecksumMismatch"
  "verifyFileOf sampleBad (paramOf sampleDiff2 sampleDiff (sampleFile ''b'' (Some sampleFull))) = Inr verifyChecksumMismatch"
  by code_simp+

lemma sampleBad_start:
  "verifyProcess_start sampleInfo sampleBadJobs = sampleBadJobs\<lparr>jdBackupProcessing := True, jdCurrentBackup := Some sampleDiff\<rparr>"
  by code_simp

lemma sampleBad_lists: "verifyProcess_lists sampleCfg (envRepo sampleBad) sampleInfo (jobDataNew samplePg) = Inr sampleBadJobs"
  by code_simp

text \<open>
  C20: The verification of a prior backup counts as complete as soon as its last file was given out and any one of its results was handled,
  and the next jobs are asked for before results are handled.  So with one worker process, a full backup whose last file has a wrong
  checksum and a differential backup of which the only file refers to it, the differential backup is reported valid with all of its files
  valid, although verifying its file finds the wrong checksum.
\<close>

theorem verify_dependent_missed:
  "verifyProcess_lists sampleCfg (envRepo sampleBad) sampleInfo (jobDataNew samplePg) = Inr sampleBadJobs \<and>
   (\<exists>jd. verifyRun sampleCfg sampleBad [{}, {1}, {1}] (verifyProcess_start sampleInfo sampleBadJobs) = Inr (Some jd) \<and>
    map (\<lambda>b. (brLabel b, brStatus b, brTotalFileVerify b, brTotalFileValid b)) (jdBackupResultList jd) =
      [(sampleFull, backupInvalid, 2, 1), (sampleDiff, backupValid, 1, 1)]) \<and>
   verifyFileOf sampleBad (paramOf sampleDiff2 sampleDiff (sampleFile ''b'' (Some sampleFull))) = Inr verifyChecksumMismatch"
proof -
  obtain ja where ja: "newJob sampleFull (backupFileParam (sampleData sampleFull None) None sampleFull (sampleFile ''a'' None)) = Inr ja"
    "split_char CHR ''/'' (jobKey ja) = [sampleFull, STORAGE_REPO_BACKUP, sampleFull, ''a'']" "verifyRespond sampleBad ja = Inr 0"
    using sample_job [OF sampleBad_files(3)] by (auto simp: verifyResultNum_def)
  obtain jb where jb: "newJob sampleFull (backupFileParam (sampleData sampleFull None) None sampleFull (sampleFile ''b'' None)) = Inr jb"
    "split_char CHR ''/'' (jobKey jb) = [sampleFull, STORAGE_REPO_BACKUP, sampleFull, ''b'']" "verifyRespond sampleBad jb = Inr 2"
    using sample_job [OF sampleBad_files(4)] by (auto simp: verifyResultNum_def)
  define bF where "bF = (backupResultNew sampleFull)\<lparr>brTotalFileManifest := 2, brTotalFileVerify := 1, brPgId := 1, brPgVersion := 150000\<rparr>"
  define bD where "bD = (backupResultNew sampleDiff)\<lparr>brTotalFileManifest := 1, brTotalFileVerify := 1, brTotalFileValid := 1,
    brPrior := Some sampleFull, brPgId := 1, brPgVersion := 150000\<rparr>"
  define jd0 where "jd0 = sampleBadJobs\<lparr>jdBackupProcessing := True, jdCurrentBackup := Some sampleDiff\<rparr>"
  define jd1 where "jd1 = jd0\<lparr>jdManifest := Some sampleFull2, jdManifestFileIdx := 1, jdBackupResultList := [bF]\<rparr>"
  define jd2 where "jd2 = jd0\<lparr>jdBackupList := [sampleDiff], jdManifestFileIdx := 2, jdBackupResultList := [bF\<lparr>brTotalFileVerify := 2\<rparr>]\<rparr>"
  define jd3 where "jd3 = jd2\<lparr>jdBackupResultList := [bF\<lparr>brTotalFileVerify := 2, brTotalFileValid := 1, brFileVerifyComplete := True\<rparr>]\<rparr>"
  define jd4 where "jd4 = jd3\<lparr>jdBackupList := [], jdManifestFileIdx := 1, jdBackupResultList := jdBackupResultList jd3 @ [bD]\<rparr>"
  have ne: "sampleFull \<noteq> sampleDiff" "sampleDiff \<noteq> sampleFull" by (simp_all add: sampleFull_def sampleDiff_def)
  note d = jd0_def jd1_def jd2_def jd3_def jd4_def bF_def bD_def sampleBadJobs_def
  have 1: "verifyJobCallback sampleBad jd0 = Inr (Some ja, jd1)" using ja(1) sampleBad_files(1) by (simp add: callback_defs d)
  have 2: "verifyJobCallback sampleBad jd1 = Inr (Some jb, jd2)" using jb(1) by (simp add: callback_defs d)
  have 3: "verifyJobResult jd2 ja (verifyRespond sampleBad ja) = Inr jd3"
    unfolding verifyJobResult_def ja(2,3) by (simp add: d result_defs)
  have 4: "verifyJobCallback sampleBad jd3 = Inr (None, jd4)" using sampleBad_files(2) ne by (simp add: callback_defs d)
  have "\<exists>jd. verifyJobResult jd4 jb (verifyRespond sampleBad jb) = Inr jd \<and>
      map (\<lambda>b. (brLabel b, brStatus b, brTotalFileVerify b, brTotalFileValid b)) (jdBackupResultList jd) =
        [(sampleFull, backupInvalid, 2, 1), (sampleDiff, backupValid, 1, 1)]"
    unfolding verifyJobResult_def jb(2,3) by (simp add: d result_defs)
  then obtain jd where jd: "verifyJobResult jd4 jb (verifyRespond sampleBad jb) = Inr jd"
    "map (\<lambda>b. (brLabel b, brStatus b, brTotalFileVerify b, brTotalFileValid b)) (jdBackupResultList jd) =
      [(sampleFull, backupInvalid, 2, 1), (sampleDiff, backupValid, 1, 1)]" by (elim exE conjE) (rule that)
  have run: "verifyRun sampleCfg sampleBad [{}, {1}, {1}] jd0 = Inr (Some jd)"
    by (simp only: sampleCfg_def VerifyCfg.select_convs parallelRun_one_start [where callback = "verifyJobCallback sampleBad", OF 1]
        parallelRun_one_step [where callback = "verifyJobCallback sampleBad" and handle = verifyJobResult and respond = "verifyRespond sampleBad", OF 2 3]
        parallelRun_one_end [where callback = "verifyJobCallback sampleBad" and handle = verifyJobResult and respond = "verifyRespond sampleBad", OF 4 jd(1)])
  show ?thesis
    unfolding sampleBad_start jd0_def [symmetric] by (intro conjI exI [of _ jd] sampleBad_lists run jd(2) sampleBad_files(5))
qed

end
