(* ===== verification/Spec2Isabelle.thy ===== *)
theory Spec2Isabelle
  imports Convert Wal ExpireCmd Wait ArchiveRoundTrip PackRoundTrip Encode VerifyTop
begin

text \<open>
  Verification of pgxbackup, a backup and WAL archiving program for PostgreSQL written in C (a fork of pgBackRest).
  The sources are under \<^verbatim>\<open>src/src\<close>; paths below are relative to it.

  \<^bold>\<open>The program.\<close>  PostgreSQL calls \<^verbatim>\<open>archive-push\<close> for every finished WAL segment and \<^verbatim>\<open>archive-get\<close> for every segment
  it wants during recovery; a backup is recorded in \<^verbatim>\<open>backup.info\<close> and a manifest; \<^verbatim>\<open>expire\<close> removes backups and WAL
  that the retention options no longer cover; \<^verbatim>\<open>verify\<close> reads every file of a repository and compares it with its checksum.
  All commands work on repositories through the storage interface.  In
  asynchronous mode the archive commands consist of a foreground process, which PostgreSQL waits for, and a worker
  that handles many segments in parallel jobs; the two communicate by status files in a spool directory.

  \<^bold>\<open>Theories and sources.\<close>
  \<^item> \<open>Prelude\<close>: machine integers, the errors that \<^verbatim>\<open>THROW\<close> raises, results that may be errors, shared lemmas.
    \<open>CLib\<close>: the parts of the C library the code uses (\<^verbatim>\<open>strtoull\<close>, \<^verbatim>\<open>strtol\<close>, formatting of numbers).
  \<^item> \<open>Convert\<close> (\<^verbatim>\<open>common/type/convert.[ch]\<close>, \<^verbatim>\<open>common/io/read.c\<close>, \<^verbatim>\<open>common/io/write.c\<close>): parsing of numbers,
    base-128 integers, zigzag.
  \<^item> \<open>Wal\<close> (\<^verbatim>\<open>postgres/interface.c\<close>, \<^verbatim>\<open>command/archive/common.c\<close>): LSNs and names of WAL segments.
  \<^item> \<open>BackupCommon\<close> (\<^verbatim>\<open>command/backup/common.[ch]\<close>): backup labels and the expressions that match them, with the
    matcher for the regular expressions the program uses (\<^verbatim>\<open>common/regExp.c\<close>).
  \<^item> \<open>Storage\<close> (\<^verbatim>\<open>storage/storage.c\<close>): a storage as a list of paths with content; the locale \<open>file_store\<close> is its
    contract, interpreted on these operations.
  \<^item> \<open>InfoBackup\<close>, \<open>InfoArchive\<close> (\<^verbatim>\<open>info/info*.c\<close>, \<^verbatim>\<open>info/manifest\<close>): the backup index with its dependency
    relation (locale \<open>backup_index\<close>), loading with the copy file, reconstruction from manifests.
  \<^item> \<open>Expire\<close>, \<open>ExpireArchive\<close>, \<open>ExpireCmd\<close> (\<^verbatim>\<open>command/expire/expire.c\<close>): the expire command.
  \<^item> \<open>Wait\<close> (\<^verbatim>\<open>common/wait.c\<close>): the backoff timer of all polling loops.
  \<^item> \<open>WalFind\<close> (\<^verbatim>\<open>command/archive/find.c\<close>): finding WAL segments in a repository, alone and with a cached listing.
  \<^item> \<open>ArchiveAsync\<close> (\<^verbatim>\<open>command/archive/common.c\<close>): the status files.
  \<^item> \<open>ArchivePush\<close>, \<open>ArchivePushFile\<close>, \<open>ArchivePushCmd\<close> (\<^verbatim>\<open>command/archive/push\<close>): archive-push; the list of files to
    process, the push of one file to every repository, the check of the repositories, worker and foreground process.
  \<^item> \<open>ArchiveGet\<close>, \<open>ArchiveGetCmd\<close> (\<^verbatim>\<open>command/archive/get\<close>): archive-get; the search with its cache, the queue of
    segments, worker and foreground process.
  \<^item> \<open>ArchiveRoundTrip\<close> and this theory: push and get together.
  \<^item> \<open>Pack\<close>, \<open>PackReader\<close> (\<^verbatim>\<open>common/type/pack.c\<close>): the writer and the reader of packs, the binary format of protocol
    messages.  \<open>PackTag\<close> shows that a tag is read as it was written, \<open>PackFields\<close> gives the bytes that a sequence of
    writes produces, and \<open>PackRoundTrip\<close> that the corresponding reads give the values back.
  \<^item> \<open>Encode\<close> (\<^verbatim>\<open>common/encode.c\<close>): base64 and hex.
  \<^item> \<open>Parallel\<close>, \<open>ParallelLive\<close> (\<^verbatim>\<open>protocol/parallel.c\<close>, \<^verbatim>\<open>protocol/parallelJob.c\<close>): the executor that gives jobs to worker
    processes and collects their answers.  The locale \<open>parallel_client\<close> is the contract of a command that uses it: an invariant
    over the jobs that are under way, and that a callback without a job stays without one; \<open>parallel_progress\<close> adds a rank that
    every job lowers.
  \<^item> \<open>VerifyRange\<close>, \<open>VerifyFile\<close>, \<open>Verify\<close>, \<open>VerifyCmd\<close> (\<^verbatim>\<open>command/verify\<close>): the verify command; WAL ranges, the check of a file
    by a worker, the jobs for archives and backups, results and report.  \<open>VerifyInv\<close>, \<open>VerifyArch\<close> and \<open>VerifySound\<close> have
    its invariants and the interpretation of \<open>parallel_client\<close>, \<open>VerifyLive\<close> that of \<open>parallel_progress\<close>, and \<open>VerifyTop\<close> the
    theorems on the whole command.

  \<^bold>\<open>How code becomes definitions.\<close>  A struct is a record, an enum a datatype; unsigned integers are words where wrap-around
  can matter.  Code that can throw returns \<open>error + 'a\<close>, and code that changes a repository or the spool takes and
  returns it, also when it fails.  Log messages are left out, except those that are returned to another process.
  \<^verbatim>\<open>ASSERT\<close> is no branch of a definition since production builds do not have it.  A function of the source is one
  definition; its loops are separate functions with the name of the function and a suffix.

  \<^bold>\<open>Loops.\<close>  Loops over lists are structural recursion.  \<^verbatim>\<open>pgLsnRangeToWalSegmentList\<close> compares names for equality and
  may not end for a bad segment size: it is a \<open>partial_function\<close> and is proved to return.  The varint loops have
  measures.  A polling loop takes the list of what its rounds see, so that its length is the number of rounds the timer
  allows; the timer itself is the theory \<open>Wait\<close>.  The loop around the parallel executor takes the list of the sets of processes
  that have answered in its rounds and is \<open>None\<close> when the list ends before the jobs; the verify command is proved to return
  for a long enough list when every process answers again and again.  No definition uses fuel.

  \<^bold>\<open>What is proved.\<close>  Expiration: what each retention option removes, that removal is safe at every intermediate point, that no
  WAL needed by a remaining backup is removed, that the index stays consistent, and that a dry run changes nothing.
  Archive-push: a segment is never overwritten, success and ok files mean that every repository has the segment, the
  process list implements its specification on sets.  Archive-get: caches do not change what is found, the answer to
  PostgreSQL is never wrong and comes once the worker has delivered, a missing report means that a search had no
  match.  Together: what was pushed is found and read back.  Segment names, LSNs, varints and labels: arithmetic, ranges
  and round trips.  Packs: any nesting of fields with NULLs and defaults is read back as it was written, from memory and from
  a stream, and a field is never read with another type.  Encodings: round trips, and that decoding stays in its buffer.  Verify: a run that
  reports nothing means that every file of every backup and archive was read and has its checksum and size, in every order of the
  answers; the counters of the report account for every file once; the command returns.  Lemmas that show where the code and its comments disagree stand beside the component they concern.

  \<^bold>\<open>Parameters.\<close>  SHA-1, compression, encryption, the WAL header and \<^verbatim>\<open>pg_control\<close> parsers, the clock, \<^verbatim>\<open>strftime\<close>, the
  outcome of I/O, locks, the order in which parallel jobs complete, error codes and message texts are arguments.
  Options are records.  The repository does not change during a verify run.

  \<^bold>\<open>Not modelled.\<close>  Memory contexts; logging; process, socket and protocol code except the executor (the jobs of the archive
  commands run one at a time, in any order); the storage drivers; the option parser and its generated tables; the text formats
  of the info files; the backup, restore, check and info commands, except the backup labels and the index they share with expire.
\<close>

section \<open>Archive-push and archive-get\<close>

text \<open>
  C28: What is archived can be restored.  When a segment that no repository holds yet was pushed successfully to some
  repositories, archive-get finds it: the search has a match in every one of the repositories, no duplicate is
  reported, and reading the first match through the inverse of the filters gives the WAL that was pushed.  The
  archive ids must have the same length, at most 25 characters, since the duplicate test depends on it.
\<close>

theorem push_then_get:
  assumes "push_env_ok env" "walIsSegment f" "repo_list_ok rds repos" "rds \<noteq> []"
    and push: "archivePushFile env (Some wal) headerCheck modeCheck pv sid f rds prior repos = (repos', Inr warns)"
    and fresh: "\<forall>rd\<in>set rds. segmentFiles (repos ! pushRepoIdx rd) (pushArchiveId rd) f = []"
    and ids: "\<forall>rd\<in>set rds. length (pushArchiveId rd) = n \<and> CHR ''/'' \<notin> set (pushArchiveId rd)" "n \<le> 25"
    and inverse: "\<forall>i w. decode i (encodeFile env i True w) = Inr w"
  shows "\<exists>fm caches. archiveGetFind (map Inr repos') f emptyGetResult (map getCache rds) [] True =
      (True, emptyGetResult\<lparr>getFileMapList := [fm]\<rparr>, caches) \<and>
    mapRequest fm = f \<and> map getRepoIdx (mapActualList fm) = map pushRepoIdx rds \<and>
    archiveGetFile (repoRead decode repos') (mapActualList fm) = Inr (0, wal, [])"
proof -
  let ?d = "segmentDestination env wal f"
  note pushed = push_fresh [OF assms(1-3) push fresh]
  have len: "length repos' = length repos" using push_segment_result [OF assms(2) push] by auto
  have "\<forall>rd\<in>set rds. pushRepoIdx rd < length repos' \<and>
      storageList (repos' ! pushRepoIdx rd) (REPO_ARCHIVE @ [pushArchiveId rd, take 16 f]) (walSegmentExpression f) = [?d]"
    using pushed(2) assms(3) len by (simp add: repo_list_ok_def)
  note found = find_pushed [OF assms(2,4) _ ids(2) this]
  obtain rd rds' where rds: "rds = rd # rds'" using assms(4) by (cases rds) auto
  have "repoRead decode repos' (getMatch f ?d rd) = Inr wal"
    using repoRead_pushed [OF assms(1,2) _ pushed(1) [of rd], of decode] ids(1) inverse rds by simp
  then have "archiveGetFile (repoRead decode repos') (map (getMatch f ?d) rds) = Inr (0, wal, [])"
    by (simp add: archiveGetFile_def rds)
  then show ?thesis using found ids(1) by (auto simp: getMatch_def)
qed

theorem push_then_get_witness:
  "\<exists>fm caches. archiveGetFind (map Inr (fst sample_push)) ''000000010000000100000001'' emptyGetResult
      (map getCache sample_push_list) [] True = (True, emptyGetResult\<lparr>getFileMapList := [fm]\<rparr>, caches) \<and>
    mapRequest fm = ''000000010000000100000001'' \<and> map getRepoIdx (mapActualList fm) = [0, 1] \<and>
    archiveGetFile (repoRead (\<lambda>i. Inr) (fst sample_push)) (mapActualList fm) = Inr (0, ''wal'', [])"
proof -
  have ok: "walIsSegment ''000000010000000100000001''" "repo_list_ok sample_push_list [[], []]" "sample_push_list \<noteq> []"
    by code_simp+
  have fresh: "\<forall>rd\<in>set sample_push_list. segmentFiles (([[], []] :: repo list) ! pushRepoIdx rd) (pushArchiveId rd) ''000000010000000100000001'' = []"
    by (simp add: sample_push_list_def segmentFiles_def storageList_def storageListAll_def)
  have ids: "\<forall>rd\<in>set sample_push_list. length (pushArchiveId rd) = 4 \<and> CHR ''/'' \<notin> set (pushArchiveId rd)" "4 \<le> (25 :: nat)"
    by (simp_all add: sample_push_list_def)
  have inverse: "\<forall>i w. (\<lambda>i. Inr) i (encodeFile sample_push_env i True w) = Inr w" by (simp add: sample_push_env_def)
  have "map pushRepoIdx sample_push_list = [0, 1]" by (simp add: sample_push_list_def)
  then show ?thesis
    using push_then_get [OF sample_push_env_ok ok sample_push_result fresh ids inverse] by simp
qed

end
